(* ===== verification/Prelude.thy ===== *)
theory Prelude
  imports Main
begin

text \<open>
  What every component of the model shares: Go errors as values, computations that act on a
  world and may panic (\<open>('w, 'a) go\<close>), the two loop shapes the code uses (range loops and
  counted loops), and a small calculus of total-correctness triples over them.
\<close>

section \<open>Errors\<close>

text \<open>
  A Go \<open>error\<close> that is not nil. \<open>ErrNotFound\<close> and \<open>ErrConflict\<close> are the sentinel values of
  internal/storage/interface.go, which the server compares by identity; every other error is
  only ever tested against nil or printed, so it carries its message.
\<close>

datatype gerror = ErrNotFound | ErrConflict | Errorf string

text \<open>
  A function that returns \<open>error\<close> only yields \<open>gerror option\<close> (\<open>None\<close> is nil); one that
  returns \<open>(T, error)\<close> yields \<open>gerror + T\<close>.
\<close>

type_synonym 'a result = "gerror + 'a"

section \<open>Computations\<close>

text \<open>
  Why a goroutine stopped without returning: an index out of range, a nil dereference, or a
  deliberate \<open>log.Fatalf\<close>. Each ends the process.
\<close>

datatype halt = Index_out_of_range | Nil_dereference | Fatal

datatype 'a outcome = Ret 'a | Panic halt

type_synonym ('w, 'a) go = "'w \<Rightarrow> 'a outcome \<times> 'w"

definition gret :: "'a \<Rightarrow> ('w, 'a) go" where
  "gret x = (\<lambda>w. (Ret x, w))"

definition gpanic :: "halt \<Rightarrow> ('w, 'a) go" where
  "gpanic h = (\<lambda>w. (Panic h, w))"

definition gbind :: "('w, 'a) go \<Rightarrow> ('a \<Rightarrow> ('w, 'b) go) \<Rightarrow> ('w, 'b) go" where
  "gbind m f = (\<lambda>w. case m w of (Ret x, w') \<Rightarrow> f x w' | (Panic h, w') \<Rightarrow> (Panic h, w'))"

text \<open>\<open>for _, x := range xs { f(x) }\<close>\<close>

fun for_each :: "'a list \<Rightarrow> ('a \<Rightarrow> ('w, unit) go) \<Rightarrow> ('w, unit) go" where
  "for_each [] f = gret ()"
| "for_each (x # xs) f = gbind (f x) (\<lambda>_. for_each xs f)"

text \<open>\<open>for i := i; i < i + n; i++ { f(i) }\<close>, with the number of rounds left as an argument\<close>

fun for_upto :: "nat \<Rightarrow> nat \<Rightarrow> (nat \<Rightarrow> ('w, unit) go) \<Rightarrow> ('w, unit) go" where
  "for_upto 0 i f = gret ()"
| "for_upto (Suc n) i f = gbind (f i) (\<lambda>_. for_upto n (Suc i) f)"

named_theorems go_run "running a computation on a world"

lemma gret_run [go_run]: "gret x w = (Ret x, w)"
  by (simp add: gret_def)

lemma gpanic_run [go_run]: "gpanic h w = (Panic h, w)"
  by (simp add: gpanic_def)

lemma gbind_Ret [simp]: "m w = (Ret x, w') \<Longrightarrow> gbind m f w = f x w'"
  by (simp add: gbind_def)

lemma gbind_Panic [simp]: "m w = (Panic h, w') \<Longrightarrow> gbind m f w = (Panic h, w')"
  by (simp add: gbind_def)

lemma gbind_gret [simp]: "gbind (gret x) f = f x"
  by (rule ext) (simp add: gbind_def gret_run)

lemma gbind_assoc: "gbind (gbind m f) g = gbind m (\<lambda>x. gbind (f x) g)"
  by (rule ext) (simp add: gbind_def split: prod.splits outcome.splits)

lemma for_each_append: "for_each (xs @ ys) f = gbind (for_each xs f) (\<lambda>_. for_each ys f)"
  by (induction xs) (simp_all add: gbind_assoc)

section \<open>Triples\<close>

text \<open>
  \<open>triple P m Q\<close>: from every world with \<open>P\<close>, the computation returns (it does not panic) and
  result and final world satisfy \<open>Q\<close>.
\<close>

definition triple :: "('w \<Rightarrow> bool) \<Rightarrow> ('w, 'a) go \<Rightarrow> ('a \<Rightarrow> 'w \<Rightarrow> bool) \<Rightarrow> bool" where
  "triple P m Q \<longleftrightarrow> (\<forall>w. P w \<longrightarrow> (\<exists>x w'. m w = (Ret x, w') \<and> Q x w'))"

named_theorems triple_rules "composition rules of triples"

lemma tripleI: "(\<And>w. P w \<Longrightarrow> \<exists>x w'. m w = (Ret x, w') \<and> Q x w') \<Longrightarrow> triple P m Q"
  by (simp add: triple_def)

lemma tripleD: "triple P m Q \<Longrightarrow> P w \<Longrightarrow> \<exists>x w'. m w = (Ret x, w') \<and> Q x w'"
  by (simp add: triple_def)

lemma tripleE:
  assumes "triple P m Q" and "P w"
  obtains x w' where "m w = (Ret x, w')" and "Q x w'"
  using assms by (auto simp: triple_def)

lemma triple_gret [triple_rules]: "(\<And>w. P w \<Longrightarrow> Q x w) \<Longrightarrow> triple P (gret x) Q"
  by (simp add: triple_def gret_run)

lemma triple_gbind [triple_rules]:
  assumes "triple P m R" and "\<And>x. triple (R x) (f x) Q"
  shows "triple P (gbind m f) Q"
proof (rule tripleI)
  fix w assume "P w"
  with assms(1) obtain x w1 where m: "m w = (Ret x, w1)" and "R x w1"
    by (rule tripleE)
  with assms(2) obtain y w2 where "f x w1 = (Ret y, w2)" and "Q y w2"
    by (blast elim: tripleE)
  with m show "\<exists>y w'. gbind m f w = (Ret y, w') \<and> Q y w'"
    by simp
qed

lemma triple_weaken:
  assumes "triple P' m Q'" and "\<And>w. P w \<Longrightarrow> P' w" and "\<And>x w. Q' x w \<Longrightarrow> Q x w"
  shows "triple P m Q"
  using assms unfolding triple_def by blast

lemma triple_post: "triple P m Q' \<Longrightarrow> (\<And>x w. Q' x w \<Longrightarrow> Q x w) \<Longrightarrow> triple P m Q"
  by (rule triple_weaken)

lemma triple_pre: "triple P' m Q \<Longrightarrow> (\<And>w. P w \<Longrightarrow> P' w) \<Longrightarrow> triple P m Q"
  by (rule triple_weaken)

lemma triple_if:
  "(b \<Longrightarrow> triple P m Q) \<Longrightarrow> (\<not> b \<Longrightarrow> triple P m' Q) \<Longrightarrow> triple P (if b then m else m') Q"
  by simp

lemma triple_ex: "(\<And>x. triple (P x) m Q) \<Longrightarrow> triple (\<lambda>w. \<exists>x. P x w) m Q"
  by (auto simp: triple_def)

lemma triple_assuming: "(b \<Longrightarrow> triple P m Q) \<Longrightarrow> triple (\<lambda>w. b \<and> P w) m Q"
  by (auto simp: triple_def)

text \<open>Loop rules: an invariant indexed by what is still to be visited, and one that is not.\<close>

lemma triple_for_each_suffix:
  assumes "\<And>ys x zs. xs = ys @ x # zs \<Longrightarrow> triple (I ys) (f x) (\<lambda>_. I (ys @ [x]))"
  shows "triple (I []) (for_each xs f) (\<lambda>_. I xs)"
proof -
  have "triple (I ys) (for_each zs f) (\<lambda>_. I xs)" if "xs = ys @ zs" for ys zs
    using that
  proof (induction zs arbitrary: ys)
    case Nil
    then show ?case by (simp add: triple_gret)
  next
    case (Cons x zs)
    then have "triple (I ys) (f x) (\<lambda>_. I (ys @ [x]))"
      by (intro assms)
    moreover have "triple (I (ys @ [x])) (for_each zs f) (\<lambda>_. I xs)"
      using Cons.prems by (intro Cons.IH) simp
    ultimately show ?case
      by (auto intro: triple_gbind)
  qed
  from this [of "[]" xs] show ?thesis by simp
qed

lemma triple_for_each:
  assumes "\<And>x. x \<in> set xs \<Longrightarrow> triple I (f x) (\<lambda>_. I)"
  shows "triple I (for_each xs f) (\<lambda>_. I)"
  by (rule triple_for_each_suffix [where I = "\<lambda>_. I"]) (simp add: assms)

lemma triple_for_upto:
  assumes "\<And>k. i \<le> k \<Longrightarrow> k < i + n \<Longrightarrow> triple (I k) (f k) (\<lambda>_. I (Suc k))"
  shows "triple (I i) (for_upto n i f) (\<lambda>_. I (i + n))"
  using assms
proof (induction n arbitrary: i)
  case 0
  then show ?case by (simp add: triple_gret)
next
  case (Suc n)
  have "triple (I (Suc i)) (for_upto n (Suc i) f) (\<lambda>_. I (Suc i + n))"
    by (rule Suc.IH) (simp add: Suc.prems)
  moreover have "triple (I i) (f i) (\<lambda>_. I (Suc i))"
    by (simp add: Suc.prems)
  ultimately show ?case
    by (auto intro: triple_gbind)
qed

text \<open>
  The loop around \<open>select\<close> every controller runs: at each tick it does its work, when the context
  is done it returns. The list is what the two channels deliver, in order.
\<close>

datatype wake = Tick | CtxDone

fun run_loop :: "('w, unit) go \<Rightarrow> wake list \<Rightarrow> ('w, unit) go" where
  "run_loop m [] = gret ()"
| "run_loop m (CtxDone # ws) = gret ()"
| "run_loop m (Tick # ws) = gbind m (\<lambda>_. run_loop m ws)"

lemma triple_run_loop: "triple I m (\<lambda>_. I) \<Longrightarrow> triple I (run_loop m ws) (\<lambda>_. I)"
  by (induction ws rule: run_loop.induct [of _ m]) (auto intro: triple_gret triple_gbind)

section \<open>Lists, options\<close>

text \<open>A nil slice is \<open>None\<close>; \<open>elems\<close> is what \<open>len\<close>, indexing and range see of a slice.\<close>

type_synonym 'a slice = "'a list option"

definition elems :: "'a slice \<Rightarrow> 'a list" where
  "elems s = (case s of None \<Rightarrow> [] | Some xs \<Rightarrow> xs)"

lemma elems_simps [simp]: "elems None = []" "elems (Some xs) = xs"
  by (simp_all add: elems_def)

text \<open>\<open>append(s, xs...)\<close> leaves a nil slice nil when nothing is appended.\<close>

definition slice_of :: "'a list \<Rightarrow> 'a slice" where
  "slice_of xs = (if xs = [] then None else Some xs)"

lemma elems_slice_of [simp]: "elems (slice_of xs) = xs"
  by (simp add: slice_of_def)

fun opt_all :: "'a option list \<Rightarrow> 'a list option" where
  "opt_all [] = Some []"
| "opt_all (None # xs) = None"
| "opt_all (Some x # xs) = map_option (Cons x) (opt_all xs)"

lemma opt_all_map_Some [simp]: "opt_all (map (\<lambda>x. Some (f x)) xs) = Some (map f xs)"
  by (induction xs) simp_all

lemma opt_all_map_cong:
  "(\<And>x. x \<in> set xs \<Longrightarrow> g x = Some (f x)) \<Longrightarrow> opt_all (map g xs) = Some (map f xs)"
  by (induction xs) simp_all

text \<open>\<open>strings.HasPrefix\<close>\<close>

fun has_prefix :: "string \<Rightarrow> string \<Rightarrow> bool" where
  "has_prefix s [] = True"
| "has_prefix [] (p # ps) = False"
| "has_prefix (c # s) (p # ps) = (c = p \<and> has_prefix s ps)"

lemma has_prefix_iff: "has_prefix s p \<longleftrightarrow> (\<exists>r. s = p @ r)"
  by (induction s p rule: has_prefix.induct) auto

lemma has_prefix_append [simp]: "has_prefix (p @ r) p"
  by (auto simp: has_prefix_iff)

end
