(* ===== verification/Json.thy ===== *)
theory Json
  imports Prelude
begin

text \<open>
  The part of encoding/json that works on text: JSON values, the compact printer
  \<open>json.Marshal\<close> uses (HTML-safe escapes and those of U+2028 and U+2029 included), and the reader behind \<open>json.Unmarshal\<close> and
  \<open>json.Decoder\<close>. Bytes from 128 on are copied in both directions: strings are taken to be valid
  UTF-8. The main fact is \<open>parse_print\<close>: reading what was printed gives the value back.
\<close>

section \<open>Values\<close>

text \<open>A number with a fraction or an exponent is kept as its literal (\<open>JReal\<close>).\<close>

datatype json =
    JNull
  | JBool bool
  | JInt int
  | JReal string
  | JStr string
  | JArr "json list"
  | JObj "(string \<times> json) list"

section \<open>Printing\<close>

fun digit_char :: "nat \<Rightarrow> char" where
  "digit_char d = char_of (48 + d)"

fun print_nat :: "nat \<Rightarrow> string" where
  "print_nat n = (if n < 10 then [digit_char n] else print_nat (n div 10) @ [digit_char (n mod 10)])"

declare print_nat.simps [simp del]

definition print_int :: "int \<Rightarrow> string" where
  "print_int i = (if i < 0 then CHR ''-'' # print_nat (nat (- i)) else print_nat (nat i))"

definition hex_char :: "nat \<Rightarrow> char" where
  "hex_char d = (if d < 10 then char_of (48 + d) else char_of (87 + d))"

definition html_char :: "char \<Rightarrow> bool" where
  "html_char c \<longleftrightarrow> c = CHR ''<'' \<or> c = CHR ''>'' \<or> c = CHR ''&''"

definition escape_char :: "char \<Rightarrow> string" where
  "escape_char c =
     (if c = CHR 0x22 then [CHR 0x5C, CHR 0x22]
      else if c = CHR 0x5C then [CHR 0x5C, CHR 0x5C]
      else if c = CHR 0x08 then [CHR 0x5C, CHR ''b'']
      else if c = CHR 0x0C then [CHR 0x5C, CHR ''f'']
      else if c = CHR 0x0A then [CHR 0x5C, CHR ''n'']
      else if c = CHR 0x0D then [CHR 0x5C, CHR ''r'']
      else if c = CHR 0x09 then [CHR 0x5C, CHR ''t'']
      else if of_char c < (32 :: nat) \<or> html_char c then
        [CHR 0x5C, CHR ''u'', CHR ''0'', CHR ''0'',
         hex_char (of_char c div 16), hex_char (of_char c mod 16)]
      else [c])"

text \<open>The line and paragraph separators U+2028 and U+2029 are escaped too: the three bytes of either, E2 80 A8 and E2 80 A9.\<close>

definition separator :: "string \<Rightarrow> bool" where
  "separator s \<longleftrightarrow> (\<exists>c \<in> {CHR 0xA8, CHR 0xA9}. take 3 s = [CHR 0xE2, CHR 0x80, c])"

fun escape :: "string \<Rightarrow> string" where
  "escape [] = []"
| "escape (c # s) =
     (if separator (c # s)
      then [CHR 0x5C, CHR ''u'', CHR ''2'', CHR ''0'', CHR ''2'', if s ! 1 = CHR 0xA8 then CHR ''8'' else CHR ''9''] @ escape (drop 2 s)
      else escape_char c @ escape s)"

definition print_string :: "string \<Rightarrow> string" where
  "print_string s = CHR 0x22 # escape s @ [CHR 0x22]"

fun print_json :: "json \<Rightarrow> string"
  and print_elems :: "json list \<Rightarrow> string"
  and print_members :: "(string \<times> json) list \<Rightarrow> string" where
  "print_json JNull = ''null''"
| "print_json (JBool b) = (if b then ''true'' else ''false'')"
| "print_json (JInt i) = print_int i"
| "print_json (JReal l) = l"
| "print_json (JStr s) = print_string s"
| "print_json (JArr xs) = CHR ''['' # print_elems xs @ '']''"
| "print_json (JObj ms) = CHR ''{'' # print_members ms @ ''}''"
| "print_elems [] = []"
| "print_elems [x] = print_json x"
| "print_elems (x # xs) = print_json x @ CHR '','' # print_elems xs"
| "print_members [] = []"
| "print_members [(k, x)] = print_string k @ CHR '':'' # print_json x"
| "print_members ((k, x) # ms) = print_string k @ CHR '':'' # print_json x @ CHR '','' # print_members ms"

section \<open>Reading\<close>

definition is_ws :: "char \<Rightarrow> bool" where
  "is_ws c \<longleftrightarrow> c = CHR '' '' \<or> c = CHR 0x09 \<or> c = CHR 0x0A \<or> c = CHR 0x0D"

fun skip_ws :: "string \<Rightarrow> string" where
  "skip_ws [] = []"
| "skip_ws (c # s) = (if is_ws c then skip_ws s else c # s)"

definition is_digit :: "char \<Rightarrow> bool" where
  "is_digit c \<longleftrightarrow> 48 \<le> (of_char c :: nat) \<and> (of_char c :: nat) \<le> 57"

definition digit_val :: "char \<Rightarrow> nat" where
  "digit_val c = of_char c - 48"

definition read_nat :: "string \<Rightarrow> nat" where
  "read_nat ds = foldl (\<lambda>n c. 10 * n + digit_val c) 0 ds"

definition hex_val :: "char \<Rightarrow> nat option" where
  "hex_val c =
     (let n = (of_char c :: nat) in
      if 48 \<le> n \<and> n \<le> 57 then Some (n - 48)
      else if 97 \<le> n \<and> n \<le> 102 then Some (n - 87)
      else if 65 \<le> n \<and> n \<le> 70 then Some (n - 55)
      else None)"

definition hex4 :: "char \<Rightarrow> char \<Rightarrow> char \<Rightarrow> char \<Rightarrow> nat option" where
  "hex4 a b c d =
     (case (hex_val a, hex_val b, hex_val c, hex_val d) of
        (Some a, Some b, Some c, Some d) \<Rightarrow> Some (4096 * a + 256 * b + 16 * c + d)
      | _ \<Rightarrow> None)"

definition utf8 :: "nat \<Rightarrow> string" where
  "utf8 n =
     (if n < 128 then [char_of n]
      else if n < 2048 then [char_of (192 + n div 64), char_of (128 + n mod 64)]
      else if n < 65536 then
        [char_of (224 + n div 4096), char_of (128 + n div 64 mod 64), char_of (128 + n mod 64)]
      else [char_of (240 + n div 262144), char_of (128 + n div 4096 mod 64),
            char_of (128 + n div 64 mod 64), char_of (128 + n mod 64)])"

definition simple_escape :: "char \<Rightarrow> char option" where
  "simple_escape c =
     (if c = CHR 0x22 \<or> c = CHR 0x5C \<or> c = CHR ''/'' then Some c
      else if c = CHR ''b'' then Some (CHR 0x08)
      else if c = CHR ''f'' then Some (CHR 0x0C)
      else if c = CHR ''n'' then Some (CHR 0x0A)
      else if c = CHR ''r'' then Some (CHR 0x0D)
      else if c = CHR ''t'' then Some (CHR 0x09)
      else None)"

text \<open>
  \<open>\uXXXX\<close>: a surrogate pair is one code point, a lone surrogate is U+FFFD. \<open>read_u\<close> gives the
  bytes and what follows.
\<close>

fun read_u :: "string \<Rightarrow> (string \<times> string) option" where
  "read_u (a # b # c # d # s) =
     (case hex4 a b c d of
        None \<Rightarrow> None
      | Some n \<Rightarrow>
          if n < 55296 \<or> 57343 < n then Some (utf8 n, s)
          else if n \<le> 56319 then
            (case s of
               x # y # e # f # g # h # s' \<Rightarrow>
                 (case hex4 e f g h of
                    Some m \<Rightarrow>
                      if x = CHR 0x5C \<and> y = CHR ''u'' \<and> 56320 \<le> m \<and> m \<le> 57343
                      then Some (utf8 (65536 + 1024 * (n - 55296) + (m - 56320)), s')
                      else Some (utf8 65533, s)
                  | None \<Rightarrow> Some (utf8 65533, s))
             | _ \<Rightarrow> Some (utf8 65533, s))
          else Some (utf8 65533, s))"
| "read_u _ = None"

lemma read_u_shorter: "read_u s = Some (x, r) \<Longrightarrow> length r < length s"
  by (induction s rule: read_u.induct)
     (auto split: option.splits if_splits list.splits)

text \<open>The contents of a string literal, up to its closing quote.\<close>

function parse_chars :: "string \<Rightarrow> (string \<times> string) option" where
  "parse_chars s =
     (case s of
        [] \<Rightarrow> None
      | c # r \<Rightarrow>
          if c = CHR 0x22 then Some ([], r)
          else if c = CHR 0x5C then
            (case r of
               [] \<Rightarrow> None
             | e # r' \<Rightarrow>
                 if e = CHR ''u'' then
                   (case read_u r' of
                      None \<Rightarrow> None
                    | Some (x, r2) \<Rightarrow> map_option (\<lambda>(y, z). (x @ y, z)) (parse_chars r2))
                 else
                   (case simple_escape e of
                      None \<Rightarrow> None
                    | Some x \<Rightarrow> map_option (\<lambda>(y, z). (x # y, z)) (parse_chars r')))
          else if of_char c < (32 :: nat) then None
          else map_option (\<lambda>(y, z). (c # y, z)) (parse_chars r))"
  by pat_completeness auto
termination
  by (relation "measure length") (auto dest: read_u_shorter)

declare parse_chars.simps [simp del]

text \<open>The literal: an optional sign, digits without a leading zero, fraction, exponent.\<close>

definition int_part :: "string \<Rightarrow> (string \<times> string) option" where
  "int_part s =
     (let ds = takeWhile is_digit s; r = dropWhile is_digit s in
      if ds = [] \<or> (hd ds = CHR ''0'' \<and> length ds > 1) then None else Some (ds, r))"

definition frac_part :: "string \<Rightarrow> (string \<times> string) option" where
  "frac_part s =
     (case s of
        c # r \<Rightarrow>
          if c = CHR ''.'' then
            (if takeWhile is_digit r = [] then None
             else Some (c # takeWhile is_digit r, dropWhile is_digit r))
          else Some ([], s)
      | [] \<Rightarrow> Some ([], []))"

definition exp_sign :: "string \<Rightarrow> string \<times> string" where
  "exp_sign s =
     (case s of
        c # r \<Rightarrow> if c = CHR ''+'' \<or> c = CHR ''-'' then ([c], r) else ([], s)
      | [] \<Rightarrow> ([], []))"

definition exp_part :: "string \<Rightarrow> (string \<times> string) option" where
  "exp_part s =
     (case s of
        c # r \<Rightarrow>
          if c = CHR ''e'' \<or> c = CHR ''E'' then
            (let (sg, r') = exp_sign r in
             if takeWhile is_digit r' = [] then None
             else Some (c # sg @ takeWhile is_digit r', dropWhile is_digit r'))
          else Some ([], s)
      | [] \<Rightarrow> Some ([], []))"

definition parse_number :: "string \<Rightarrow> (json \<times> string) option" where
  "parse_number s =
     (let neg = (s \<noteq> [] \<and> hd s = CHR ''-''); s0 = (if neg then tl s else s) in
      case int_part s0 of
        None \<Rightarrow> None
      | Some (ds, r) \<Rightarrow>
          (case frac_part r of
             None \<Rightarrow> None
           | Some (fs, r1) \<Rightarrow>
               (case exp_part r1 of
                  None \<Rightarrow> None
                | Some (es, r2) \<Rightarrow>
                    Some (if fs = [] \<and> es = []
                          then JInt (if neg then - int (read_nat ds) else int (read_nat ds))
                          else JReal ((if neg then ''-'' else []) @ ds @ fs @ es), r2))))"

fun strip :: "string \<Rightarrow> string \<Rightarrow> string option" where
  "strip [] s = Some s"
| "strip (p # ps) [] = None"
| "strip (p # ps) (c # s) = (if p = c then strip ps s else None)"

text \<open>
  The recursive reader has a fuel argument; \<open>parse_fuel\<close> below shows that the length of the input
  is enough, and \<open>parse_prefix\<close> supplies it.
\<close>

fun parse_value :: "nat \<Rightarrow> string \<Rightarrow> (json \<times> string) option"
  and parse_elems :: "nat \<Rightarrow> string \<Rightarrow> (json list \<times> string) option"
  and parse_members :: "nat \<Rightarrow> string \<Rightarrow> ((string \<times> json) list \<times> string) option" where
  "parse_value 0 s = None"
| "parse_value (Suc n) s =
     (case skip_ws s of
        [] \<Rightarrow> None
      | c # r \<Rightarrow>
          if c = CHR ''{'' then
            (case skip_ws r of
               [] \<Rightarrow> None
             | d # r' \<Rightarrow>
                 if d = CHR ''}'' then Some (JObj [], r')
                 else map_option (\<lambda>(ms, z). (JObj ms, z)) (parse_members n r))
          else if c = CHR ''['' then
            (case skip_ws r of
               [] \<Rightarrow> None
             | d # r' \<Rightarrow>
                 if d = CHR '']'' then Some (JArr [], r')
                 else map_option (\<lambda>(xs, z). (JArr xs, z)) (parse_elems n r))
          else if c = CHR 0x22 then map_option (\<lambda>(x, z). (JStr x, z)) (parse_chars r)
          else if c = CHR ''t'' then map_option (\<lambda>z. (JBool True, z)) (strip ''rue'' r)
          else if c = CHR ''f'' then map_option (\<lambda>z. (JBool False, z)) (strip ''alse'' r)
          else if c = CHR ''n'' then map_option (\<lambda>z. (JNull, z)) (strip ''ull'' r)
          else parse_number (c # r))"
| "parse_elems 0 s = None"
| "parse_elems (Suc n) s =
     (case parse_value n s of
        None \<Rightarrow> None
      | Some (x, r) \<Rightarrow>
          (case skip_ws r of
             [] \<Rightarrow> None
           | c # r' \<Rightarrow>
               if c = CHR '']'' then Some ([x], r')
               else if c = CHR '','' then map_option (\<lambda>(xs, z). (x # xs, z)) (parse_elems n r')
               else None))"
| "parse_members 0 s = None"
| "parse_members (Suc n) s =
     (case skip_ws s of
        [] \<Rightarrow> None
      | q # r \<Rightarrow>
          if q \<noteq> CHR 0x22 then None
          else
            (case parse_chars r of
               None \<Rightarrow> None
             | Some (k, r1) \<Rightarrow>
                 (case skip_ws r1 of
                    [] \<Rightarrow> None
                  | c # r2 \<Rightarrow>
                      if c \<noteq> CHR '':'' then None
                      else
                        (case parse_value n r2 of
                           None \<Rightarrow> None
                         | Some (x, r3) \<Rightarrow>
                             (case skip_ws r3 of
                                [] \<Rightarrow> None
                              | e # r4 \<Rightarrow>
                                  if e = CHR ''}'' then Some ([(k, x)], r4)
                                  else if e = CHR '','' then
                                    map_option (\<lambda>(ms, z). ((k, x) # ms, z)) (parse_members n r4)
                                  else None)))))"

text \<open>
  \<open>json.Decoder.Decode\<close> reads one value and leaves the rest of the stream alone;
  \<open>json.Unmarshal\<close> refuses anything but white space after it.
\<close>

definition parse_prefix :: "string \<Rightarrow> (json \<times> string) option" where
  "parse_prefix s = parse_value (Suc (length s)) s"

definition parse_json :: "string \<Rightarrow> json option" where
  "parse_json s =
     (case parse_prefix s of
        None \<Rightarrow> None
      | Some (j, r) \<Rightarrow> if skip_ws r = [] then Some j else None)"

definition decode_json :: "string \<Rightarrow> json option" where
  "decode_json s = map_option fst (parse_prefix s)"

section \<open>Reading back what was printed\<close>

lemma hex_val_hex_char: "d < 16 \<Longrightarrow> hex_val (hex_char d) = Some d"
  by (auto simp: hex_val_def hex_char_def Let_def)

lemma hex_val_zero: "hex_val (CHR ''0'') = Some 0"
  by (simp add: hex_val_def)

lemma read_u_low:
  assumes "n < 128"
  shows "read_u (CHR ''0'' # CHR ''0'' # hex_char (n div 16) # hex_char (n mod 16) # t) =
    Some ([char_of n], t)"
proof -
  have "hex4 (CHR ''0'') (CHR ''0'') (hex_char (n div 16)) (hex_char (n mod 16)) = Some n"
    using assms by (simp add: hex4_def hex_val_zero hex_val_hex_char)
  then show ?thesis using assms by (simp add: utf8_def)
qed

lemma parse_chars_quote: "parse_chars (CHR 0x22 # t) = Some ([], t)"
  by (subst parse_chars.simps) simp

lemma parse_chars_backslash:
  "e \<noteq> CHR ''u'' \<Longrightarrow> parse_chars (CHR 0x5C # e # t) =
     (case simple_escape e of None \<Rightarrow> None
      | Some x \<Rightarrow> map_option (\<lambda>(y, z). (x # y, z)) (parse_chars t))"
  by (subst parse_chars.simps) simp

lemma parse_chars_unicode:
  "parse_chars (CHR 0x5C # CHR ''u'' # t) =
     (case read_u t of None \<Rightarrow> None
      | Some (x, r) \<Rightarrow> map_option (\<lambda>(y, z). (x @ y, z)) (parse_chars r))"
  by (subst parse_chars.simps) simp

lemma parse_chars_plain:
  "c \<noteq> CHR 0x22 \<Longrightarrow> c \<noteq> CHR 0x5C \<Longrightarrow> \<not> of_char c < (32 :: nat) \<Longrightarrow>
   parse_chars (c # t) = map_option (\<lambda>(y, z). (c # y, z)) (parse_chars t)"
  by (subst parse_chars.simps) simp

definition short_escapes :: "char set" where
  "short_escapes = {CHR 0x22, CHR 0x5C, CHR 0x08, CHR 0x0C, CHR 0x0A, CHR 0x0D, CHR 0x09}"

lemma escape_short:
  "escape_char (CHR 0x22) = [CHR 0x5C, CHR 0x22]"
  "escape_char (CHR 0x5C) = [CHR 0x5C, CHR 0x5C]"
  "escape_char (CHR 0x08) = [CHR 0x5C, CHR ''b'']"
  "escape_char (CHR 0x0C) = [CHR 0x5C, CHR ''f'']"
  "escape_char (CHR 0x0A) = [CHR 0x5C, CHR ''n'']"
  "escape_char (CHR 0x0D) = [CHR 0x5C, CHR ''r'']"
  "escape_char (CHR 0x09) = [CHR 0x5C, CHR ''t'']"
  by (simp_all add: escape_char_def)

lemma simple_escape_short:
  "simple_escape (CHR 0x22) = Some (CHR 0x22)"
  "simple_escape (CHR 0x5C) = Some (CHR 0x5C)"
  "simple_escape (CHR ''b'') = Some (CHR 0x08)"
  "simple_escape (CHR ''f'') = Some (CHR 0x0C)"
  "simple_escape (CHR ''n'') = Some (CHR 0x0A)"
  "simple_escape (CHR ''r'') = Some (CHR 0x0D)"
  "simple_escape (CHR ''t'') = Some (CHR 0x09)"
  by (simp_all add: simple_escape_def)

lemma escape_other:
  "c \<notin> short_escapes \<Longrightarrow> escape_char c =
     (if of_char c < (32 :: nat) \<or> html_char c then
        [CHR 0x5C, CHR ''u'', CHR ''0'', CHR ''0'',
         hex_char (of_char c div 16), hex_char (of_char c mod 16)]
      else [c])"
  by (simp add: escape_char_def short_escapes_def)

lemma html_char_low: "html_char c \<Longrightarrow> of_char c < (128 :: nat)"
  by (auto simp: html_char_def)

lemma escape_char_cases:
  obtains (short) e where "escape_char c = [CHR 0x5C, e]" "e \<noteq> CHR ''u''" "simple_escape e = Some c"
  | (unicode) "escape_char c = [CHR 0x5C, CHR ''u'', CHR ''0'', CHR ''0'',
       hex_char (of_char c div 16), hex_char (of_char c mod 16)]" "of_char c < (128 :: nat)"
  | (plain) "escape_char c = [c]" "c \<noteq> CHR 0x22" "c \<noteq> CHR 0x5C" "\<not> of_char c < (32 :: nat)"
proof (cases "c \<in> short_escapes")
  case True
  then have "\<exists>e. escape_char c = [CHR 0x5C, e] \<and> e \<noteq> CHR ''u'' \<and> simple_escape e = Some c"
    by (auto simp: short_escapes_def escape_short simple_escape_short)
  then show ?thesis using short by blast
next
  case False
  show ?thesis
  proof (cases "of_char c < (32 :: nat) \<or> html_char c")
    case True
    with False show ?thesis
      by (intro unicode) (auto simp: escape_other dest: html_char_low)
  next
    case noesc: False
    with False have "escape_char c = [c]" by (simp add: escape_other)
    moreover from False have "c \<noteq> CHR 0x22" "c \<noteq> CHR 0x5C" by (auto simp: short_escapes_def)
    ultimately show ?thesis using noesc plain by blast
  qed
qed

lemma parse_chars_escape:
  "parse_chars (escape_char c @ t) = map_option (\<lambda>(y, z). (c # y, z)) (parse_chars t)"
  by (cases rule: escape_char_cases [of c])
     (simp_all add: parse_chars_backslash parse_chars_unicode read_u_low parse_chars_plain del: read_u.simps)

lemma parse_chars_separator:
  "parse_chars ([CHR 0x5C, CHR ''u'', CHR ''2'', CHR ''0'', CHR ''2'', CHR ''8''] @ t) =
     map_option (\<lambda>(y, z). ([CHR 0xE2, CHR 0x80, CHR 0xA8] @ y, z)) (parse_chars t)"
  "parse_chars ([CHR 0x5C, CHR ''u'', CHR ''2'', CHR ''0'', CHR ''2'', CHR ''9''] @ t) =
     map_option (\<lambda>(y, z). ([CHR 0xE2, CHR 0x80, CHR 0xA9] @ y, z)) (parse_chars t)"
proof -
  have c: "char_of (226 :: nat) = CHR 0xE2" "char_of (128 :: nat) = CHR 0x80" "char_of (168 :: nat) = CHR 0xA8"
      "char_of (169 :: nat) = CHR 0xA9"
    by code_simp+
  show "parse_chars ([CHR 0x5C, CHR ''u'', CHR ''2'', CHR ''0'', CHR ''2'', CHR ''8''] @ t) =
       map_option (\<lambda>(y, z). ([CHR 0xE2, CHR 0x80, CHR 0xA8] @ y, z)) (parse_chars t)"
    "parse_chars ([CHR 0x5C, CHR ''u'', CHR ''2'', CHR ''0'', CHR ''2'', CHR ''9''] @ t) =
       map_option (\<lambda>(y, z). ([CHR 0xE2, CHR 0x80, CHR 0xA9] @ y, z)) (parse_chars t)"
    by (simp_all add: parse_chars_unicode hex4_def hex_val_def utf8_def c)
qed

lemma parse_chars_print:
  "parse_chars (escape s @ CHR 0x22 # t) = Some (s, t)"
proof (induction s rule: escape.induct)
  case (2 c s)
  show ?case
  proof (cases "separator (c # s)")
    case True
    then obtain x r where s: "c = CHR 0xE2" "s = CHR 0x80 # x # r" "x = CHR 0xA8 \<or> x = CHR 0xA9"
      by (cases s; cases "tl s") (auto simp: separator_def)
    with True 2(1) show ?thesis
      using parse_chars_separator [of "escape r @ CHR 0x22 # t"] by auto
  qed (simp add: 2(2) parse_chars_escape)
qed (simp add: parse_chars_quote)

lemma of_char_digit_char: "d < 10 \<Longrightarrow> (of_char (digit_char d) :: nat) = 48 + d"
  by simp

lemma digit_char_facts:
  assumes "d < 10"
  shows "is_digit (digit_char d)" "digit_val (digit_char d) = d"
    "digit_char d = CHR ''0'' \<longleftrightarrow> d = 0"
proof -
  have c: "(of_char (digit_char d) :: nat) = 48 + d"
    by (rule of_char_digit_char [OF assms])
  then show "is_digit (digit_char d)" "digit_val (digit_char d) = d"
    using assms by (simp_all add: is_digit_def digit_val_def del: digit_char.simps)
  have "digit_char d = CHR ''0'' \<longleftrightarrow> (of_char (digit_char d) :: nat) = of_char (CHR ''0'')"
    by (simp only: of_char_eq_iff)
  also have "\<dots> \<longleftrightarrow> d = 0" by (simp only: c) simp
  finally show "digit_char d = CHR ''0'' \<longleftrightarrow> d = 0" .
qed

lemma read_nat_snoc: "read_nat (ds @ [c]) = 10 * read_nat ds + digit_val c"
  by (simp add: read_nat_def)

lemma print_nat_facts:
  "print_nat n \<noteq> [] \<and> (\<forall>c \<in> set (print_nat n). is_digit c) \<and> read_nat (print_nat n) = n
   \<and> (hd (print_nat n) = CHR ''0'' \<longrightarrow> n = 0)"
proof (induction n rule: print_nat.induct)
  case (1 n)
  show ?case
  proof (cases "n < 10")
    case True
    then show ?thesis
      by (subst (1 2 3 4) print_nat.simps)
         (simp del: digit_char.simps add: digit_char_facts read_nat_def)
  next
    case False
    with 1 show ?thesis
      by (subst (1 2 3 4) print_nat.simps)
         (auto simp del: digit_char.simps simp add: digit_char_facts read_nat_snoc)
  qed
qed

lemma print_nat_zero_head: "hd (print_nat n) = CHR ''0'' \<Longrightarrow> length (print_nat n) = 1"
proof -
  assume "hd (print_nat n) = CHR ''0''"
  then have "n = 0" using print_nat_facts by blast
  then show ?thesis by (simp add: print_nat.simps)
qed

definition num_end :: "string \<Rightarrow> bool" where
  "num_end r \<longleftrightarrow> (case r of [] \<Rightarrow> True | c # _ \<Rightarrow> \<not> is_digit c \<and> c \<noteq> CHR ''.'' \<and> c \<noteq> CHR ''e'' \<and> c \<noteq> CHR ''E'')"

lemma int_part_print:
  assumes "num_end r"
  shows "int_part (print_nat n @ r) = Some (print_nat n, r)"
proof -
  have d: "\<forall>c \<in> set (print_nat n). is_digit c" and ne: "print_nat n \<noteq> []"
    using print_nat_facts by blast+
  have "takeWhile is_digit (print_nat n @ r) = print_nat n"
    "dropWhile is_digit (print_nat n @ r) = r"
    using d assms by (cases r; simp add: num_end_def takeWhile_append2 dropWhile_append2)+
  then show ?thesis using ne print_nat_zero_head [of n] by (auto simp: int_part_def Let_def)
qed

lemma parse_number_print:
  assumes "num_end r"
  shows "parse_number (print_int i @ r) = Some (JInt i, r)"
proof -
  have fr: "frac_part r = Some ([], r)" and ex: "exp_part r = Some ([], r)"
    using assms by (cases r; simp add: frac_part_def exp_part_def num_end_def)+
  have rd: "read_nat (print_nat n) = n" for n using print_nat_facts by blast
  have hd: "print_nat n \<noteq> [] \<and> hd (print_nat n) \<noteq> CHR ''-''" for n
  proof -
    have ne: "print_nat n \<noteq> []" "is_digit (hd (print_nat n))"
      using print_nat_facts [of n] by auto
    then show ?thesis by (cases "print_nat n") (auto simp: is_digit_def)
  qed
  show ?thesis
  proof (cases "i < 0")
    case True
    then show ?thesis
      by (simp add: parse_number_def print_int_def int_part_print [OF assms] fr ex rd Let_def)
  next
    case False
    then show ?thesis using hd
      by (simp add: parse_number_def print_int_def int_part_print [OF assms] fr ex rd Let_def)
  qed
qed
fun plain :: "json \<Rightarrow> bool" where
  "plain (JReal l) = False"
| "plain (JArr xs) = list_all plain xs"
| "plain (JObj ms) = list_all (\<lambda>m. plain (snd m)) ms"
| "plain _ = True"

fun fuel_of :: "json \<Rightarrow> nat" and fuel_elems :: "json list \<Rightarrow> nat"
  and fuel_members :: "(string \<times> json) list \<Rightarrow> nat" where
  "fuel_of (JArr xs) = Suc (fuel_elems xs)"
| "fuel_of (JObj ms) = Suc (fuel_members ms)"
| "fuel_of _ = 1"
| "fuel_elems [] = 0"
| "fuel_elems (x # xs) = Suc (fuel_of x + fuel_elems xs)"
| "fuel_members [] = 0"
| "fuel_members ((k, x) # ms) = Suc (fuel_of x + fuel_members ms)"

lemma num_start:
  obtains c t where "print_int i = c # t" "is_digit c \<or> c = CHR ''-''"
proof (cases "i < 0")
  case True
  then show ?thesis by (intro that) (auto simp: print_int_def)
next
  case False
  then obtain c t where "print_nat (nat i) = c # t"
    using print_nat_facts [of "nat i"] by (cases "print_nat (nat i)") auto
  moreover then have "is_digit c" using print_nat_facts [of "nat i"] by auto
  ultimately show ?thesis using False by (intro that) (auto simp: print_int_def)
qed

definition value_start :: "char \<Rightarrow> bool" where
  "value_start c \<longleftrightarrow> \<not> is_ws c \<and> c \<noteq> CHR '']'' \<and> c \<noteq> CHR ''}''"

lemma digit_start: "is_digit c \<or> c = CHR ''-'' \<Longrightarrow> value_start c \<and> c \<noteq> CHR ''{'' \<and> c \<noteq> CHR ''[''
    \<and> c \<noteq> CHR 0x22 \<and> c \<noteq> CHR ''t'' \<and> c \<noteq> CHR ''f'' \<and> c \<noteq> CHR ''n''"
  by (auto simp: value_start_def is_ws_def is_digit_def)

lemma print_json_start:
  assumes "plain j"
  obtains c t where "print_json j = c # t" "value_start c"
proof (cases j)
  case (JInt i)
  obtain c t where "print_int i = c # t" "is_digit c \<or> c = CHR ''-''" by (rule num_start)
  with JInt that show ?thesis using digit_start by auto
next
  case (JBool b)
  with that show ?thesis by (cases b) (auto simp: value_start_def is_ws_def)
qed (use assms that in \<open>auto simp: print_string_def value_start_def is_ws_def split: if_splits\<close>)

lemma skip_ws_start: "value_start c \<Longrightarrow> skip_ws (c # t) = c # t"
  by (simp add: value_start_def)

lemma print_elems_start:
  assumes "list_all plain xs" "xs \<noteq> []"
  obtains c t where "print_elems xs = c # t" "value_start c"
proof -
  from assms obtain x ys where xs: "xs = x # ys" "plain x" by (cases xs) auto
  obtain c t where "print_json x = c # t" "value_start c"
    using xs(2) by (rule print_json_start)
  with xs that show ?thesis by (cases ys) auto
qed

lemma print_members_start:
  assumes "ms \<noteq> []"
  obtains t where "print_members ms = CHR 0x22 # t"
  using assms that
  by (cases ms; cases "tl ms") (auto simp: print_string_def split: prod.splits)

lemma parse_print_fuel:
  "plain j \<Longrightarrow> num_end r \<Longrightarrow> fuel_of j \<le> n \<Longrightarrow> parse_value n (print_json j @ r) = Some (j, r)"
  "list_all plain xs \<Longrightarrow> xs \<noteq> [] \<Longrightarrow> fuel_elems xs \<le> n \<Longrightarrow>
     parse_elems n (print_elems xs @ CHR '']'' # r) = Some (xs, r)"
  "list_all (\<lambda>m. plain (snd m)) ms \<Longrightarrow> ms \<noteq> [] \<Longrightarrow> fuel_members ms \<le> n \<Longrightarrow>
     parse_members n (print_members ms @ CHR ''}'' # r) = Some (ms, r)"
proof (induction j and xs and ms arbitrary: n r and n r and n r
    rule: print_json_print_elems_print_members.induct)
  case 1 then show ?case by (cases n) (auto simp: is_ws_def)
next
  case (2 b) then show ?case by (cases n) (auto simp: is_ws_def)
next
  case (3 i)
  obtain c t where ct: "print_int i = c # t" "is_digit c \<or> c = CHR ''-''" by (rule num_start)
  then have "parse_value (Suc m) (print_int i @ r) = parse_number (print_int i @ r)" for m
    using digit_start [OF ct(2)] by (simp add: value_start_def)
  with 3 show ?case by (cases n) (auto simp: parse_number_print)
next
  case (4 l) then show ?case by simp
next
  case (5 s) then show ?case
    by (cases n) (auto simp: is_ws_def print_string_def parse_chars_print)
next
  case (6 xs)
  then obtain m where n: "n = Suc m" "fuel_elems xs \<le> m" by (cases n) auto
  show ?case
  proof (cases "xs = []")
    case True with n show ?thesis by (simp add: is_ws_def)
  next
    case False
    with 6 obtain c t where ct: "print_elems xs = c # t" "value_start c"
      by (auto elim: print_elems_start)
    from 6 False n have "parse_elems m (print_elems xs @ CHR '']'' # r) = Some (xs, r)" by auto
    with n ct show ?thesis by (simp add: is_ws_def value_start_def)
  qed
next
  case (7 ms)
  then obtain m where n: "n = Suc m" "fuel_members ms \<le> m" by (cases n) auto
  show ?case
  proof (cases "ms = []")
    case True with n show ?thesis by (simp add: is_ws_def)
  next
    case False
    then obtain t where ct: "print_members ms = CHR 0x22 # t" by (rule print_members_start)
    from 7 False n have "parse_members m (print_members ms @ CHR ''}'' # r) = Some (ms, r)" by auto
    with n ct show ?thesis by (simp add: is_ws_def)
  qed
next
  case 8 then show ?case by simp
next
  case (9 x)
  then obtain m where n: "n = Suc m" "fuel_of x \<le> m" by (cases n) auto
  with 9 have "parse_value m (print_json x @ CHR '']'' # r) = Some (x, CHR '']'' # r)"
    by (auto simp: num_end_def is_digit_def)
  with n show ?case by (simp add: is_ws_def)
next
  case (10 x y ys)
  then obtain m where n: "n = Suc m" "fuel_of x \<le> m" "fuel_elems (y # ys) \<le> m" by (cases n) auto
  have "parse_value m (print_json x @ CHR '','' # s) = Some (x, CHR '','' # s)" for s
    using 10 n by (auto simp: num_end_def is_digit_def)
  moreover have "parse_elems m (print_elems (y # ys) @ CHR '']'' # r) = Some (y # ys, r)"
    using 10 n by auto
  ultimately show ?case using n by (simp add: is_ws_def)
next
  case 11 then show ?case by simp
next
  case (12 k x)
  then obtain m where n: "n = Suc m" "fuel_of x \<le> m" by (cases n) auto
  with 12 have "parse_value m (print_json x @ CHR ''}'' # r) = Some (x, CHR ''}'' # r)"
    by (auto simp: num_end_def is_digit_def)
  with n show ?case by (simp add: is_ws_def print_string_def parse_chars_print)
next
  case (13 k x y ys)
  then obtain m where n: "n = Suc m" "fuel_of x \<le> m" "fuel_members (y # ys) \<le> m" by (cases n) (cases y, auto)+
  have "parse_value m (print_json x @ CHR '','' # s) = Some (x, CHR '','' # s)" for s
    using 13 n by (auto simp: num_end_def is_digit_def)
  moreover have "parse_members m (print_members (y # ys) @ CHR ''}'' # r) = Some (y # ys, r)"
    using 13 n by auto
  ultimately show ?case using n by (simp add: is_ws_def print_string_def parse_chars_print)
qed

lemma print_nat_length: "1 \<le> length (print_nat n)"
  using print_nat_facts [of n] by (cases "print_nat n") auto

lemma fuel_enough:
  "plain j \<Longrightarrow> fuel_of j \<le> length (print_json j)"
  "list_all plain xs \<Longrightarrow> fuel_elems xs \<le> Suc (length (print_elems xs))"
  "list_all (\<lambda>m. plain (snd m)) ms \<Longrightarrow> fuel_members ms \<le> Suc (length (print_members ms))"
proof (induction j and xs and ms rule: print_json_print_elems_print_members.induct)
  case (3 i) then show ?case
    using print_nat_length [of "nat i"] by (simp add: print_int_def)
qed (auto simp: print_string_def)

text \<open>Reading back what was printed, followed by anything that does not continue a number.\<close>

lemma parse_prefix_print:
  "plain j \<Longrightarrow> num_end r \<Longrightarrow> parse_prefix (print_json j @ r) = Some (j, r)"
  unfolding parse_prefix_def
  by (rule parse_print_fuel(1)) (auto dest: fuel_enough(1))

lemma parse_print: "plain j \<Longrightarrow> parse_json (print_json j) = Some j"
  using parse_prefix_print [of j "[]"] by (simp add: parse_json_def num_end_def)

lemma decode_print: "plain j \<Longrightarrow> num_end r \<Longrightarrow> decode_json (print_json j @ r) = Some j"
  by (simp add: decode_json_def parse_prefix_print)

lemma num_end_Nil [simp]: "num_end []" and num_end_newline [simp]: "num_end (CHR 0x0A # r)"
  by (simp_all add: num_end_def is_digit_def)

end
