(* ===== verification/GoTime.thy ===== *)
theory GoTime
  imports Json "HOL-Library.Monad_Syntax"
begin

text \<open>
  \<open>time.Time\<close> as the program uses it: an instant, counted in nanoseconds from the zero time
  (0001-01-01T00:00:00Z), compared with \<open>Before\<close>, moved with \<open>Add\<close>, and carried through JSON as
  an RFC 3339 text with nanoseconds (\<open>MarshalJSON\<close> / \<open>UnmarshalJSON\<close>). The writer uses UTC; the
  reader takes any numeric offset. \<open>MarshalJSON\<close> refuses years below 0 and above 9999.
\<close>

type_synonym gotime = int

definition second_ns :: int where
  "second_ns = 1000000000"

section \<open>Calendar\<close>

definition leap :: "nat \<Rightarrow> bool" where
  "leap y \<longleftrightarrow> y mod 4 = 0 \<and> (y mod 100 \<noteq> 0 \<or> y mod 400 = 0)"

definition year_len :: "nat \<Rightarrow> nat" where
  "year_len y = (if leap y then 366 else 365)"

definition month_lens :: "nat \<Rightarrow> nat list" where
  "month_lens y = [31, if leap y then 29 else 28, 31, 30, 31, 30, 31, 31, 30, 31, 30, 31]"

lemma year_len_pos [simp]: "0 < year_len y"
  by (simp add: year_len_def)

function year_loop :: "nat \<Rightarrow> nat \<Rightarrow> nat \<times> nat" where
  "year_loop y d = (if d < year_len y then (y, d) else year_loop (Suc y) (d - year_len y))"
  by pat_completeness auto
termination
  by (relation "measure snd") (auto simp: not_less intro!: diff_less order.strict_trans2 [OF year_len_pos])

declare year_loop.simps [simp del]

fun month_loop :: "nat \<Rightarrow> nat list \<Rightarrow> nat \<Rightarrow> nat \<times> nat" where
  "month_loop m [] d = (m, d)"
| "month_loop m (l # ls) d = (if d < l then (m, d) else month_loop (Suc m) ls (d - l))"

text \<open>The calendar is counted from the start of the year 0, a leap year: 366 days before the zero time.\<close>

definition days_before :: "nat \<Rightarrow> int" where
  "days_before y = int (sum_list (map year_len [0..<y])) - 366"

section \<open>Writing\<close>

fun pad :: "nat \<Rightarrow> nat \<Rightarrow> string" where
  "pad 0 n = []"
| "pad (Suc k) n = pad k (n div 10) @ [digit_char (n mod 10)]"

definition rstrip0 :: "string \<Rightarrow> string" where
  "rstrip0 s = rev (dropWhile (\<lambda>c. c = CHR ''0'') (rev s))"

definition secs_of :: "gotime \<Rightarrow> nat" where
  "secs_of t = nat (t div second_ns + 366 * 86400)"

definition year_of :: "gotime \<Rightarrow> nat" where
  "year_of t = fst (year_loop 0 (secs_of t div 86400))"

definition time_ok :: "gotime \<Rightarrow> bool" where
  "time_ok t \<longleftrightarrow> - (366 * 86400 * second_ns) \<le> t \<and> year_of t \<le> 9999"

definition format_frac :: "nat \<Rightarrow> string" where
  "format_frac ns = (if ns = 0 then [] else CHR ''.'' # rstrip0 (pad 9 ns))"

definition format_clock :: "nat \<Rightarrow> string" where
  "format_clock s = pad 2 (s div 3600) @ '':'' @ pad 2 (s div 60 mod 60) @ '':'' @ pad 2 (s mod 60)"

definition format_time :: "gotime \<Rightarrow> string" where
  "format_time t =
     (let secs = secs_of t;
          (y, yd) = year_loop 0 (secs div 86400);
          (m, d) = month_loop 1 (month_lens y) yd
      in pad 4 y @ ''-'' @ pad 2 m @ ''-'' @ pad 2 (Suc d) @ ''T''
         @ format_clock (secs mod 86400) @ format_frac (nat (t mod second_ns)) @ ''Z'')"

section \<open>Reading\<close>

definition read_digits :: "nat \<Rightarrow> string \<Rightarrow> (nat \<times> string) option" where
  "read_digits k s =
     (if length (take k s) = k \<and> list_all is_digit (take k s)
      then Some (read_nat (take k s), drop k s) else None)"

definition read_char :: "char \<Rightarrow> string \<Rightarrow> string option" where
  "read_char c s = (case s of [] \<Rightarrow> None | d # r \<Rightarrow> if d = c then Some r else None)"

definition read_frac :: "string \<Rightarrow> (nat \<times> string) option" where
  "read_frac s =
     (case s of
        c # r \<Rightarrow>
          if c = CHR ''.'' then
            (let ds = takeWhile is_digit r in
             if ds = [] then None
             else Some (read_nat (take 9 (ds @ replicate 9 (CHR ''0''))), dropWhile is_digit r))
          else Some (0, s)
      | [] \<Rightarrow> Some (0, s))"

text \<open>The offset from UTC in seconds.\<close>

definition read_zone :: "string \<Rightarrow> int option" where
  "read_zone s =
     (if s = ''Z'' then Some 0
      else case s of
        [] \<Rightarrow> None
      | c # r \<Rightarrow> do {
          (h, r) \<leftarrow> read_digits 2 r;
          r \<leftarrow> read_char (CHR '':'') r;
          (m, r) \<leftarrow> read_digits 2 r;
          if r \<noteq> [] \<or> 24 \<le> h \<or> 60 \<le> m then None
          else if c = CHR ''+'' then Some (int (3600 * h + 60 * m))
          else if c = CHR ''-'' then Some (- int (3600 * h + 60 * m))
          else None
        })"

definition instant :: "nat \<Rightarrow> nat \<Rightarrow> nat \<Rightarrow> nat \<Rightarrow> nat \<Rightarrow> int \<Rightarrow> gotime" where
  "instant y m d s ns off =
     ((days_before y + int (sum_list (take (m - 1) (month_lens y)) + (d - 1))) * 86400
       + int s - off) * second_ns + int ns"

definition parse_time :: "string \<Rightarrow> gotime option" where
  "parse_time s = do {
     (y, s) \<leftarrow> read_digits 4 s;
     s \<leftarrow> read_char (CHR ''-'') s;
     (m, s) \<leftarrow> read_digits 2 s;
     s \<leftarrow> read_char (CHR ''-'') s;
     (d, s) \<leftarrow> read_digits 2 s;
     s \<leftarrow> read_char (CHR ''T'') s;
     (h, s) \<leftarrow> read_digits 2 s;
     s \<leftarrow> read_char (CHR '':'') s;
     (mi, s) \<leftarrow> read_digits 2 s;
     s \<leftarrow> read_char (CHR '':'') s;
     (se, s) \<leftarrow> read_digits 2 s;
     (ns, s) \<leftarrow> read_frac s;
     off \<leftarrow> read_zone s;
     if 1 \<le> m \<and> m \<le> 12 \<and> 1 \<le> d \<and> d \<le> month_lens y ! (m - 1) \<and> h < 24 \<and> mi < 60 \<and> se < 60
     then Some (instant y m d (3600 * h + 60 * mi + se) ns off)
     else None
   }"

section \<open>Reading back what was written\<close>

lemma pad_facts: "length (pad k n) = k \<and> list_all is_digit (pad k n) \<and> read_nat (pad k n) = n mod 10 ^ k"
proof (induction k arbitrary: n)
  case 0
  then show ?case by (simp add: read_nat_def)
next
  case (Suc k)
  have "10 * (n div 10 mod 10 ^ k) + n mod 10 = n mod (10 * 10 ^ k)"
    by (metis mod_mult2_eq add.commute mult.commute)
  with Suc [of "n div 10"] show ?case
    by (simp add: read_nat_snoc digit_char_facts del: digit_char.simps)
qed

lemma read_digits_pad:
  assumes "n < 10 ^ k"
  shows "read_digits k (pad k n @ r) = Some (n, r)"
  using pad_facts [of k n] assms by (simp add: read_digits_def)

lemma read_char_same [simp]: "read_char c (c # r) = Some r"
  by (simp add: read_char_def)

lemma rstrip0_restore: "rstrip0 s @ replicate (length s - length (rstrip0 s)) (CHR ''0'') = s"
proof -
  let ?z = "takeWhile (\<lambda>c. c = CHR ''0'') (rev s)"
  have z: "?z = replicate (length ?z) (CHR ''0'')"
    by (rule replicate_eqI) (auto dest: set_takeWhileD)
  have "rev s = ?z @ dropWhile (\<lambda>c. c = CHR ''0'') (rev s)"
    by simp
  then have s: "s = rstrip0 s @ rev ?z"
    by (metis rev_append rev_rev_ident rstrip0_def)
  then have "length s - length (rstrip0 s) = length ?z"
    by (metis add_diff_cancel_left' length_append length_rev)
  moreover have "rev ?z = replicate (length ?z) (CHR ''0'')"
    by (metis z rev_replicate)
  ultimately show ?thesis
    using s by simp
qed

lemma read_nat_zeros: "read_nat (replicate n (CHR ''0'')) = 0"
  by (induction n) (simp_all add: read_nat_def digit_val_def)

lemma read_frac_format:
  assumes "ns < 10 ^ 9"
  shows "read_frac (format_frac ns @ ''Z'') = Some (ns, ''Z'')"
proof (cases "ns = 0")
  case True
  then show ?thesis by (simp add: format_frac_def read_frac_def)
next
  case False
  let ?s = "pad 9 ns" and ?t = "rstrip0 (pad 9 ns)"
  have ps: "length ?s = 9" "list_all is_digit ?s" "read_nat ?s = ns"
    using pad_facts [of 9 ns] assms by auto
  note re = rstrip0_restore [of ?s]
  have dt: "\<forall>c \<in> set ?t. is_digit c"
    using ps(2) re by (metis Un_iff list_all_iff set_append)
  have ne: "?t \<noteq> []"
  proof
    assume "?t = []"
    with re ps(1) have "?s = replicate 9 (CHR ''0'')" by simp
    then have "read_nat ?s = 0" by (simp only: read_nat_zeros)
    with ps(3) False show False by simp
  qed
  have le: "length ?t \<le> 9"
    using arg_cong [OF re, of length] ps(1) by simp
  have "take 9 (?t @ replicate 9 (CHR ''0'')) = ?t @ replicate (9 - length ?t) (CHR ''0'')"
    using le by (simp add: min_def)
  also have "\<dots> = ?s" using re ps(1) by simp
  finally have tk: "take 9 (?t @ replicate 9 (CHR ''0'')) = ?s" .
  have "takeWhile is_digit (?t @ ''Z'') = ?t" "dropWhile is_digit (?t @ ''Z'') = ''Z''"
    using dt by (simp_all add: takeWhile_append2 dropWhile_append2 is_digit_def)
  with False ne tk ps(3) show ?thesis
    by (simp add: format_frac_def read_frac_def Let_def)
qed

lemma year_loop_spec:
  "year_loop y d = (y', d') \<Longrightarrow>
   d' < year_len y' \<and> y \<le> y' \<and> d = sum_list (map year_len [y..<y']) + d'"
proof (induction y d rule: year_loop.induct)
  case (1 y d)
  show ?case
  proof (cases "d < year_len y")
    case True
    with "1.prems" show ?thesis by (subst (asm) year_loop.simps) simp
  next
    case False
    with "1.prems" have "year_loop (Suc y) (d - year_len y) = (y', d')"
      by (subst (asm) year_loop.simps) simp
    with "1.IH" [OF False] have "d' < year_len y'" "Suc y \<le> y'"
      "d - year_len y = sum_list (map year_len [Suc y..<y']) + d'" by auto
    with False show ?thesis by (simp add: upt_conv_Cons [of y y'])
  qed
qed

lemma month_loop_spec:
  "month_loop m ls d = (m', d') \<Longrightarrow> d < sum_list ls \<Longrightarrow>
   \<exists>k < length ls. m' = m + k \<and> d' < ls ! k \<and> d = sum_list (take k ls) + d'"
proof (induction m ls d rule: month_loop.induct)
  case (2 m l ls d)
  show ?case
  proof (cases "d < l")
    case True
    with 2 show ?thesis by (intro exI [of _ 0]) simp
  next
    case False
    with "2.prems" have "month_loop (Suc m) ls (d - l) = (m', d')" "d - l < sum_list ls" by auto
    from "2.IH" [OF False this] obtain k where "k < length ls" "m' = Suc m + k" "d' < ls ! k"
      "d - l = sum_list (take k ls) + d'" by blast
    with False show ?thesis by (intro exI [of _ "Suc k"]) simp
  qed
qed simp

lemma sum_month_lens: "sum_list (month_lens y) = year_len y"
  by (simp add: month_lens_def year_len_def)

lemma length_month_lens [simp]: "length (month_lens y) = 12"
  by (simp add: month_lens_def)

lemma month_lens_bound: "k < 12 \<Longrightarrow> month_lens y ! k \<le> 31"
  by (auto simp: month_lens_def less_Suc_eq numeral_eq_Suc)

lemma clock_split: "3600 * (s div 3600) + 60 * (s div 60 mod 60) + s mod 60 = (s :: nat)"
proof -
  have "s div 60 = 60 * (s div 60 div 60) + s div 60 mod 60" by simp
  moreover have "s div 60 div 60 = s div 3600" by (simp add: div_mult2_eq [symmetric])
  moreover have "s = 60 * (s div 60) + s mod 60" by simp
  ultimately show ?thesis by linarith
qed

lemma parse_format_time:
  assumes "time_ok t"
  shows "parse_time (format_time t) = Some t"
proof -
  define secs where "secs = secs_of t"
  define ns where "ns = nat (t mod second_ns)"
  define s where "s = secs mod 86400"
  obtain y yd where y: "year_loop 0 (secs div 86400) = (y, yd)" by fastforce
  obtain m d where m: "month_loop 1 (month_lens y) yd = (m, d)" by fastforce
  have t0: "0 \<le> t div second_ns + 366 * 86400" 
    using assms zdiv_mono1 [of "- (366 * 86400 * second_ns)" t second_ns] by (simp add: time_ok_def second_ns_def)
  have "year_of t = y" using y by (simp add: year_of_def secs_def)
  with assms have y4: "y \<le> 9999" by (simp add: time_ok_def)
  have yl: "yd < year_len y" "secs div 86400 = sum_list (map year_len [0..<y]) + yd"
    using year_loop_spec [OF y] by auto
  obtain k where k: "k < 12" "m = Suc k" "d < month_lens y ! k" "yd = sum_list (take k (month_lens y)) + d"
    using month_loop_spec [OF m] yl(1) by (auto simp: sum_month_lens)
  have d31: "Suc d \<le> 31" using k(3) month_lens_bound [OF k(1), of y] by simp
  have s: "s < 86400" by (simp add: s_def)
  have h: "s div 3600 < 24" using s by (simp add: less_mult_imp_div_less)
  have ns9: "ns < 10 ^ 9" by (simp add: ns_def second_ns_def nat_less_iff)
  have fmt: "format_time t = pad 4 y @ ''-'' @ pad 2 m @ ''-'' @ pad 2 (Suc d) @ ''T''
      @ pad 2 (s div 3600) @ '':'' @ pad 2 (s div 60 mod 60) @ '':'' @ pad 2 (s mod 60)
      @ format_frac ns @ ''Z''"
    by (simp add: format_time_def format_clock_def Let_def y m s_def ns_def flip: secs_def
        del: One_nat_def)
  have "parse_time (format_time t) = Some (instant y m (Suc d) s ns 0)"
    using y4 k d31 h
    by (simp add: fmt parse_time_def read_digits_pad read_frac_format [OF ns9, simplified]
        read_zone_def clock_split del: pad.simps)
  also have "instant y m (Suc d) s ns 0 = t"
  proof -
    have "days_before y + int (sum_list (take (m - 1) (month_lens y)) + (Suc d - 1)) = int (secs div 86400) - 366"
      using yl k by (simp add: days_before_def)
    moreover have "int (secs div 86400) * 86400 + int s = int secs"
      unfolding s_def by (metis div_mult_mod_eq of_nat_add of_nat_mult of_nat_numeral)
    moreover have "int secs = t div second_ns + 366 * 86400" "int ns = t mod second_ns"
      using t0 by (simp_all add: secs_def secs_of_def ns_def second_ns_def)
    ultimately have "(days_before y + int (sum_list (take (m - 1) (month_lens y)) + (Suc d - 1))) * 86400 + int s = t div second_ns"
      by (simp add: left_diff_distrib)
    then show ?thesis using \<open>int ns = t mod second_ns\<close> by (simp add: instant_def)
  qed
  finally show ?thesis .
qed

end
