(* ===== verification/Codec.thy ===== *)
theory Codec
  imports GoTime "HOL-Library.Word" "HOL-Library.Finite_Map" "HOL-Library.List_Lexorder"
    "HOL-Library.Char_ord"
begin

text \<open>
  The part of encoding/json that works on Go types: how a value of each kind is turned into a
  JSON value and set from one, driven for structs by the list of their tagged fields. A codec
  packages both directions; \<open>cnrm\<close> is what a value has become after a trip through JSON
  (\<open>omitempty\<close> drops empty slices, a custom marshaller may drop a field). The laws are the
  locale \<open>json_codec\<close>; each combinator below keeps them.
\<close>

section \<open>Codecs and their laws\<close>

record 'a codec =
  cenc :: "'a \<Rightarrow> json"
  cdec :: "json \<Rightarrow> 'a \<Rightarrow> 'a option" \<comment> \<open>set from JSON, given the value already there\<close>
  czero :: 'a
  cempty :: "'a \<Rightarrow> bool" \<comment> \<open>what \<open>omitempty\<close> leaves out\<close>
  cok :: "'a \<Rightarrow> bool" \<comment> \<open>marshalling succeeds\<close>
  cnrm :: "'a \<Rightarrow> 'a"

definition marshal :: "'a codec \<Rightarrow> 'a \<Rightarrow> string option" where
  "marshal C x = (if cok C x then Some (print_json (cenc C x)) else None)"

text \<open>\<open>json.Unmarshal(s, &x)\<close> and \<open>json.NewDecoder(r).Decode(&x)\<close>\<close>

definition unmarshal :: "'a codec \<Rightarrow> string \<Rightarrow> 'a \<Rightarrow> 'a option" where
  "unmarshal C s x = Option.bind (parse_json s) (\<lambda>j. cdec C j x)"

definition decode :: "'a codec \<Rightarrow> string \<Rightarrow> 'a \<Rightarrow> 'a option" where
  "decode C s x = Option.bind (decode_json s) (\<lambda>j. cdec C j x)"

named_theorems codec_laws "json_codec facts of the codecs"

locale json_codec =
  fixes C :: "'a codec"
  assumes enc_plain: "cok C x \<Longrightarrow> plain (cenc C x)"
    and dec_enc: "cok C x \<Longrightarrow> cdec C (cenc C x) (czero C) = Some (cnrm C x)"
    and enc_nrm: "cenc C (cnrm C x) = cenc C x"
    and empty_nrm: "cempty C (cnrm C x) = cempty C x"
    and ok_nrm: "cok C x \<Longrightarrow> cok C (cnrm C x)"
    and ok_zero: "cok C (czero C)"
    and empty_zero: "cempty C x \<Longrightarrow> cempty C (czero C)"
begin

lemma nrm_idem: "cok C x \<Longrightarrow> cnrm C (cnrm C x) = cnrm C x"
  by (metis dec_enc enc_nrm ok_nrm option.inject)

lemma unmarshal_marshal:
  "marshal C x = Some s \<Longrightarrow> unmarshal C s (czero C) = Some (cnrm C x)"
  by (auto simp: marshal_def unmarshal_def parse_print enc_plain dec_enc split: if_splits)

lemma decode_marshal:
  "marshal C x = Some s \<Longrightarrow> num_end r \<Longrightarrow> decode C (s @ r) (czero C) = Some (cnrm C x)"
  by (auto simp: marshal_def decode_def decode_print enc_plain dec_enc split: if_splits)

lemma marshal_nrm: "cok C x \<Longrightarrow> marshal C (cnrm C x) = marshal C x"
  by (simp add: marshal_def enc_nrm ok_nrm)

lemma marshal_nrm_Some: "marshal C x = Some s \<Longrightarrow> marshal C (cnrm C x) = Some s"
  by (auto simp: marshal_def enc_nrm ok_nrm split: if_splits)

lemma marshal_total: "cok C x \<longleftrightarrow> (\<exists>s. marshal C x = Some s)"
  by (simp add: marshal_def)

end

section \<open>Scalars\<close>

definition str_codec :: "string codec" where
  "str_codec = \<lparr>cenc = JStr,
     cdec = (\<lambda>j x. case j of JStr s \<Rightarrow> Some s | JNull \<Rightarrow> Some x | _ \<Rightarrow> None),
     czero = [], cempty = (\<lambda>s. s = []), cok = (\<lambda>_. True), cnrm = id\<rparr>"

definition bool_codec :: "bool codec" where
  "bool_codec = \<lparr>cenc = JBool,
     cdec = (\<lambda>j x. case j of JBool b \<Rightarrow> Some b | JNull \<Rightarrow> Some x | _ \<Rightarrow> None),
     czero = False, cempty = Not, cok = (\<lambda>_. True), cnrm = id\<rparr>"

text \<open>\<open>int\<close>, \<open>int32\<close>, \<open>int64\<close>: a literal out of the signed range is an error.\<close>

definition in_range :: "nat \<Rightarrow> int \<Rightarrow> bool" where
  "in_range w i \<longleftrightarrow> - (2 ^ (w - 1)) \<le> i \<and> i < 2 ^ (w - 1)"

definition int_codec :: "'n::len word codec" where
  "int_codec = \<lparr>cenc = (\<lambda>w. JInt (sint w)),
     cdec = (\<lambda>j x. case j of
         JInt i \<Rightarrow> if in_range LENGTH('n) i then Some (word_of_int i) else None
       | JNull \<Rightarrow> Some x | _ \<Rightarrow> None),
     czero = 0, cempty = (\<lambda>w. w = 0), cok = (\<lambda>_. True), cnrm = id\<rparr>"

text \<open>A \<open>time.Time\<close> is a struct, so \<open>omitempty\<close> never leaves it out.\<close>

definition time_codec :: "gotime codec" where
  "time_codec = \<lparr>cenc = (\<lambda>t. JStr (format_time t)),
     cdec = (\<lambda>j x. case j of JStr s \<Rightarrow> parse_time s | JNull \<Rightarrow> Some x | _ \<Rightarrow> None),
     czero = 0, cempty = (\<lambda>_. False), cok = time_ok, cnrm = id\<rparr>"

lemma str_law [codec_laws]: "json_codec str_codec"
  by unfold_locales (simp_all add: str_codec_def)

lemma bool_law [codec_laws]: "json_codec bool_codec"
  by unfold_locales (simp_all add: bool_codec_def)

lemma in_range_sint: "in_range LENGTH('n) (sint (w :: 'n::len word))"
  using sint_greater_eq [of w] sint_less [of w] by (simp add: in_range_def)

lemma int_law [codec_laws]: "json_codec (int_codec :: 'n::len word codec)"
  by unfold_locales (simp_all add: int_codec_def in_range_sint)

lemma time_ok_zero: "time_ok 0"
  by (simp add: time_ok_def year_of_def secs_of_def second_ns_def year_loop.simps year_len_def leap_def)

lemma time_law [codec_laws]: "json_codec time_codec"
  by unfold_locales (simp_all add: time_codec_def parse_format_time time_ok_zero)

section \<open>Pointers, slices, maps\<close>

definition ptr_codec :: "'a codec \<Rightarrow> 'a option codec" where
  "ptr_codec C = \<lparr>cenc = (\<lambda>p. case p of None \<Rightarrow> JNull | Some x \<Rightarrow> cenc C x),
     cdec = (\<lambda>j p. if j = JNull then Some None
                   else map_option Some (cdec C j (case p of None \<Rightarrow> czero C | Some x \<Rightarrow> x))),
     czero = None, cempty = (\<lambda>p. p = None),
     cok = (\<lambda>p. case p of None \<Rightarrow> True | Some x \<Rightarrow> cok C x), cnrm = map_option (cnrm C)\<rparr>"

text \<open>
  A slice that keeps the difference between nil and empty, and one whose nil and empty values
  nothing in the program tells apart (every such field is \<open>omitempty\<close>).
\<close>

definition dec_items :: "'a codec \<Rightarrow> json list \<Rightarrow> 'a list option" where
  "dec_items C js = opt_all (map (\<lambda>j. cdec C j (czero C)) js)"

definition slice_codec :: "'a codec \<Rightarrow> 'a slice codec" where
  "slice_codec C = \<lparr>cenc = (\<lambda>s. case s of None \<Rightarrow> JNull | Some xs \<Rightarrow> JArr (map (cenc C) xs)),
     cdec = (\<lambda>j s. case j of
         JArr js \<Rightarrow> map_option Some (dec_items C js) | JNull \<Rightarrow> Some None | _ \<Rightarrow> None),
     czero = None, cempty = (\<lambda>s. elems s = []),
     cok = (\<lambda>s. list_all (cok C) (elems s)), cnrm = map_option (map (cnrm C))\<rparr>"

definition list_codec :: "'a codec \<Rightarrow> 'a list codec" where
  "list_codec C = \<lparr>cenc = (\<lambda>xs. JArr (map (cenc C) xs)),
     cdec = (\<lambda>j s. case j of JArr js \<Rightarrow> dec_items C js | JNull \<Rightarrow> Some [] | _ \<Rightarrow> None),
     czero = [], cempty = (\<lambda>xs. xs = []),
     cok = list_all (cok C), cnrm = map (cnrm C)\<rparr>"

type_synonym strmap = "(string, string) fmap"

text \<open>\<open>map[string]string\<close>: keys are written in sorted order.\<close>

definition map_keys :: "('k::linorder, 'v) fmap \<Rightarrow> 'k list" where
  "map_keys m = sorted_list_of_fset (fmdom m)"

fun dec_entries :: "(string \<times> json) list \<Rightarrow> strmap \<Rightarrow> strmap option" where
  "dec_entries [] m = Some m"
| "dec_entries ((k, JStr v) # ms) m = dec_entries ms (fmupd k v m)"
| "dec_entries ((k, JNull) # ms) m = dec_entries ms (fmupd k [] m)"
| "dec_entries (_ # ms) m = None"

definition map_codec :: "strmap codec" where
  "map_codec = \<lparr>cenc = (\<lambda>m. JObj (map (\<lambda>k. (k, JStr (the (fmlookup m k)))) (map_keys m))),
     cdec = (\<lambda>j m. case j of JObj ms \<Rightarrow> dec_entries ms m | JNull \<Rightarrow> Some fmempty | _ \<Rightarrow> None),
     czero = fmempty, cempty = (\<lambda>m. fmdom m = {||}), cok = (\<lambda>_. True), cnrm = id\<rparr>"

definition nonnull :: "'a codec \<Rightarrow> bool" where
  "nonnull C \<longleftrightarrow> (\<forall>x. cenc C x \<noteq> JNull)"

lemma ptr_law: "json_codec C \<Longrightarrow> nonnull C \<Longrightarrow> json_codec (ptr_codec C)"
  unfolding json_codec_def ptr_codec_def nonnull_def by (auto split: option.splits)

context json_codec
begin

lemma dec_items_enc: "list_all (cok C) xs \<Longrightarrow> dec_items C (map (cenc C) xs) = Some (map (cnrm C) xs)"
  unfolding dec_items_def by (simp add: dec_enc list_all_iff opt_all_map_cong comp_def)

lemma ptr_keeps: "nonnull C \<Longrightarrow> json_codec (ptr_codec C)"
  by unfold_locales
     (auto simp: ptr_codec_def nonnull_def enc_plain dec_enc enc_nrm ok_nrm split: option.splits)

lemma slice_keeps: "json_codec (slice_codec C)"
  by unfold_locales
     (auto simp: slice_codec_def elems_def list_all_iff enc_plain enc_nrm ok_nrm dec_items_enc
       map_option_case split: option.splits)

lemma list_keeps: "json_codec (list_codec C)"
  by unfold_locales
     (auto simp: list_codec_def list_all_iff enc_plain enc_nrm ok_nrm dec_items_enc)

end

lemmas [codec_laws] = json_codec.ptr_keeps json_codec.slice_keeps json_codec.list_keeps

named_theorems nonnulls "codecs that never write null"

lemma nonnull_scalars [nonnulls]:
  "nonnull str_codec" "nonnull bool_codec" "nonnull int_codec" "nonnull time_codec"
  by (simp_all add: nonnull_def str_codec_def bool_codec_def int_codec_def time_codec_def)

lemma dec_entries_enc:
  "dec_entries (map (\<lambda>k. (k, JStr (f k))) ks) m = Some (fold (\<lambda>k. fmupd k (f k)) ks m)"
  by (induction ks arbitrary: m) simp_all

lemma lookup_fold_fmupd:
  "fmlookup (fold (\<lambda>k. fmupd k (f k)) ks m) k = (if k \<in> set ks then Some (f k) else fmlookup m k)"
  by (induction ks arbitrary: m) auto

lemma set_map_keys [simp]: "set (map_keys m) = fmdom' m"
  by (simp add: map_keys_def fmdom'_alt_def)

lemma rebuild_map: "fold (\<lambda>k. fmupd k (the (fmlookup m k))) (map_keys m) fmempty = m"
  by (rule fmap_ext) (auto simp: lookup_fold_fmupd fmlookup_dom'_iff split: option.splits)

lemma map_law [codec_laws]: "json_codec map_codec"
  by unfold_locales
     (simp_all add: map_codec_def dec_entries_enc rebuild_map list_all_iff)

section \<open>Structs\<close>

text \<open>
  A struct is written and read field by field. A field knows its JSON name, whether it is left
  out of a given value, its JSON, how it is set, and (for the laws) what copying it from one
  value to another does and when two values agree on it.
\<close>

record 'a field =
  fname :: string
  fskip :: "'a \<Rightarrow> bool"
  fjson :: "'a \<Rightarrow> json"
  fput :: "json \<Rightarrow> 'a \<Rightarrow> 'a option"
  fcopy :: "'a \<Rightarrow> 'a \<Rightarrow> 'a"
  fok :: "'a \<Rightarrow> bool"
  fsame :: "'a \<Rightarrow> 'a \<Rightarrow> bool"

text \<open>What the field holds after the trip: its zero value if it was left out.\<close>

definition omit_val :: "bool \<Rightarrow> 'b codec \<Rightarrow> 'b \<Rightarrow> 'b" where
  "omit_val omit C v = (if omit \<and> cempty C v then czero C else cnrm C v)"

definition mk_field ::
    "string \<Rightarrow> bool \<Rightarrow> 'b codec \<Rightarrow> ('a \<Rightarrow> 'b) \<Rightarrow> (('b \<Rightarrow> 'b) \<Rightarrow> 'a \<Rightarrow> 'a) \<Rightarrow> 'a field" where
  "mk_field n omit C g u =
     \<lparr>fname = n, fskip = (\<lambda>x. omit \<and> cempty C (g x)), fjson = (\<lambda>x. cenc C (g x)),
      fput = (\<lambda>j y. map_option (\<lambda>v. u (\<lambda>_. v) y) (cdec C j (g y))),
      fcopy = (\<lambda>x. u (\<lambda>_. omit_val omit C (g x))), fok = (\<lambda>x. cok C (g x)),
      fsame = (\<lambda>y y'. g y = g y')\<rparr>"

text \<open>A key selects the field of that name, else one that differs in case only.\<close>

definition lower_char :: "char \<Rightarrow> char" where
  "lower_char c = (if 65 \<le> (of_char c :: nat) \<and> (of_char c :: nat) \<le> 90 then char_of (of_char c + 32 :: nat) else c)"

definition find_field :: "'a field list \<Rightarrow> string \<Rightarrow> 'a field option" where
  "find_field fs k =
     (case find (\<lambda>f. fname f = k) fs of
        Some f \<Rightarrow> Some f
      | None \<Rightarrow> find (\<lambda>f. map lower_char (fname f) = map lower_char k) fs)"

fun dec_members :: "'a field list \<Rightarrow> (string \<times> json) list \<Rightarrow> 'a \<Rightarrow> 'a option" where
  "dec_members fs [] y = Some y"
| "dec_members fs ((k, j) # ms) y =
     (case find_field fs k of
        None \<Rightarrow> dec_members fs ms y
      | Some f \<Rightarrow> (case fput f j y of None \<Rightarrow> None | Some y' \<Rightarrow> dec_members fs ms y'))"

definition enc_members :: "'a field list \<Rightarrow> 'a \<Rightarrow> (string \<times> json) list" where
  "enc_members fs x = map (\<lambda>f. (fname f, fjson f x)) (filter (\<lambda>f. \<not> fskip f x) fs)"

fun copy_fields :: "'a field list \<Rightarrow> 'a \<Rightarrow> 'a \<Rightarrow> 'a" where
  "copy_fields [] x y = y"
| "copy_fields (f # fs) x y = copy_fields fs x (fcopy f x y)"

definition struct_codec :: "'a field list \<Rightarrow> 'a \<Rightarrow> 'a codec" where
  "struct_codec fs z = \<lparr>cenc = (\<lambda>x. JObj (enc_members fs x)),
     cdec = (\<lambda>j y. case j of JObj ms \<Rightarrow> dec_members fs ms y | JNull \<Rightarrow> Some y | _ \<Rightarrow> None),
     czero = z, cempty = (\<lambda>_. False), cok = (\<lambda>x. list_all (\<lambda>f. fok f x) fs),
     cnrm = (\<lambda>x. copy_fields fs x z)\<rparr>"

subsection \<open>Laws of fields\<close>

definition field_law :: "'a \<Rightarrow> 'a field \<Rightarrow> bool" where
  "field_law z f \<longleftrightarrow>
     (\<forall>x. fok f x \<longrightarrow> plain (fjson f x)) \<and>
     (\<forall>x y. fok f x \<longrightarrow> \<not> fskip f x \<longrightarrow> fsame f y z \<longrightarrow> fput f (fjson f x) y = Some (fcopy f x y)) \<and>
     (\<forall>x y. fskip f x \<longrightarrow> fsame f y z \<longrightarrow> fcopy f x y = y) \<and>
     (\<forall>x y. \<not> fskip f x \<longrightarrow> fjson f (fcopy f x y) = fjson f x) \<and>
     (\<forall>x y. fskip f (fcopy f x y) = fskip f x) \<and>
     (\<forall>x y. fok f x \<longrightarrow> fok f (fcopy f x y)) \<and>
     (\<forall>y. fsame f y z \<longrightarrow> fok f y) \<and>
     (\<forall>y y'. fsame f y y' \<longrightarrow> fskip f y = fskip f y' \<and> fjson f y = fjson f y' \<and> fok f y = fok f y') \<and>
     (\<forall>y. fsame f y y) \<and> (\<forall>x y z. fsame f x y \<longrightarrow> fsame f y z \<longrightarrow> fsame f x z)"

definition indep :: "'a field \<Rightarrow> 'a field \<Rightarrow> bool" where
  "indep f g \<longleftrightarrow> (\<forall>x y. fsame f (fcopy g x y) y)"

fun indep_all :: "'a field list \<Rightarrow> bool" where
  "indep_all [] = True"
| "indep_all (f # fs) = (list_all (\<lambda>g. indep f g \<and> indep g f) fs \<and> indep_all fs)"

definition fields_ok :: "'a field list \<Rightarrow> 'a \<Rightarrow> bool" where
  "fields_ok fs z \<longleftrightarrow> list_all (field_law z) fs \<and> indep_all fs \<and> distinct (map fname fs)"

lemma mk_field_law [simp]:
  assumes "json_codec C" and "\<And>v y. g (u (\<lambda>_. v) y) = v" and "\<And>y. u (\<lambda>_. g y) y = y"
    and "g z = czero C"
  shows "field_law z (mk_field n omit C g u)"
proof -
  have "u (\<lambda>_. czero C) y = y" if "g y = czero C" for y
    using assms(3) [of y] that by simp
  then show ?thesis
    using assms(1,2,4) unfolding field_law_def mk_field_def omit_val_def
    by (auto simp: json_codec.enc_plain json_codec.dec_enc json_codec.enc_nrm json_codec.empty_nrm
      json_codec.ok_nrm json_codec.ok_zero json_codec.empty_zero)
qed

lemma mk_field_indep [simp]:
  assumes "\<And>v y. g (u' (\<lambda>_. v) y) = g y"
  shows "indep (mk_field n omit C g u) (mk_field n' omit' C' g' u')"
  using assms by (simp add: indep_def mk_field_def)

lemma mk_field_name [simp]: "fname (mk_field n omit C g u) = n"
  by (simp add: mk_field_def)

lemma find_field_self:
  assumes "distinct (map fname fs)" and "f \<in> set fs"
  shows "find_field fs (fname f) = Some f"
proof -
  have "find (\<lambda>g. fname g = fname f) fs = Some f"
    using assms by (induction fs) (auto simp: image_iff)
  then show ?thesis by (simp add: find_field_def)
qed

lemma field_lawD:
  assumes "field_law z f"
  shows "fok f x \<Longrightarrow> plain (fjson f x)"
    and "fok f x \<Longrightarrow> \<not> fskip f x \<Longrightarrow> fsame f y z \<Longrightarrow> fput f (fjson f x) y = Some (fcopy f x y)"
    and "fskip f x \<Longrightarrow> fsame f y z \<Longrightarrow> fcopy f x y = y"
    and "\<not> fskip f x \<Longrightarrow> fjson f (fcopy f x y) = fjson f x" and "fskip f (fcopy f x y) = fskip f x"
    and "fok f x \<Longrightarrow> fok f (fcopy f x y)" and "fsame f y z \<Longrightarrow> fok f y"
    and "fsame f y y' \<Longrightarrow> fskip f y = fskip f y' \<and> fjson f y = fjson f y' \<and> fok f y = fok f y'"
    and "fsame f y y" and "fsame f x y \<Longrightarrow> fsame f y v \<Longrightarrow> fsame f x v"
  using assms unfolding field_law_def by blast+

definition settled :: "'a field \<Rightarrow> 'a \<Rightarrow> 'a \<Rightarrow> bool" where
  "settled f x y \<longleftrightarrow> fskip f y = fskip f x \<and> (\<not> fskip f x \<longrightarrow> fjson f y = fjson f x) \<and> (fok f x \<longrightarrow> fok f y)"

lemma copy_fields_same:
  assumes "field_law z g" and "\<And>f. f \<in> set fs \<Longrightarrow> indep g f"
  shows "fsame g (copy_fields fs x y) y"
  using assms(2)
proof (induction fs arbitrary: y)
  case Nil
  then show ?case by (simp add: field_lawD(9) [OF assms(1)])
next
  case (Cons f fs)
  then have "fsame g (copy_fields fs x v) v" for v by simp
  moreover have "fsame g (fcopy f x y) y" using Cons.prems [of f] by (simp add: indep_def)
  ultimately show ?case using field_lawD(10) [OF assms(1)] by auto
qed

lemma copy_fields_settled:
  assumes "list_all (field_law z) fs" and "indep_all fs" and "f \<in> set fs"
  shows "settled f x (copy_fields fs x y)"
  using assms
proof (induction fs arbitrary: y)
  case Nil
  then show ?case by simp
next
  case (Cons g gs)
  show ?case
  proof (cases "f = g")
    case True
    have g: "field_law z g" and ind: "\<And>h. h \<in> set gs \<Longrightarrow> indep g h"
      using Cons.prems by (auto simp: list_all_iff)
    have "fsame g (copy_fields gs x (fcopy g x y)) (fcopy g x y)"
      using g ind by (rule copy_fields_same)
    then have "settled g x (copy_fields gs x (fcopy g x y)) = settled g x (fcopy g x y)"
      using field_lawD(8) [OF g] unfolding settled_def by metis
    moreover have "settled g x (fcopy g x y)"
      using field_lawD [OF g] by (simp add: settled_def)
    ultimately show ?thesis using True by simp
  next
    case False
    with Cons show ?thesis by simp
  qed
qed

lemma fresh_step:
  assumes "field_law z h" and "indep h g" and "fsame h y z"
  shows "fsame h (fcopy g x y) z"
proof -
  have "fsame h (fcopy g x y) y" using assms(2) by (simp add: indep_def)
  from field_lawD(10) [OF assms(1) this assms(3)] show ?thesis .
qed

lemma dec_members_enc:
  assumes "list_all (field_law z) fs" and "indep_all fs" and "\<And>f. f \<in> set fs \<Longrightarrow> fsame f y z"
    and "\<And>f. f \<in> set fs \<Longrightarrow> find_field all (fname f) = Some f" and "list_all (\<lambda>f. fok f x) fs"
  shows "dec_members all (enc_members fs x) y = Some (copy_fields fs x y)"
  using assms
proof (induction fs arbitrary: y)
  case Nil
  then show ?case by (simp add: enc_members_def)
next
  case (Cons g gs)
  have g: "field_law z g" and gs: "list_all (field_law z) gs" "indep_all gs"
    and ind: "\<And>h. h \<in> set gs \<Longrightarrow> indep h g"
    using Cons.prems by (auto simp: list_all_iff)
  have fresh: "fsame h (fcopy g x y) z" if "h \<in> set gs" for h
    using ind [OF that] Cons.prems(3) [of h] that gs(1) by (intro fresh_step) (auto simp: list_all_iff)
  have "dec_members all (enc_members gs x) (fcopy g x y) = Some (copy_fields gs x (fcopy g x y))"
    using Cons.prems(4,5) by (intro Cons.IH gs fresh) auto
  moreover have "fput g (fjson g x) y = Some (fcopy g x y)" if "\<not> fskip g x"
    using field_lawD(2) [OF g _ that] Cons.prems(3,5) by simp
  moreover have "fcopy g x y = y" if "fskip g x"
    using field_lawD(3) [OF g that] Cons.prems(3) by simp
  ultimately show ?case
    using Cons.prems(4) [of g] by (cases "fskip g x") (simp_all add: enc_members_def)
qed

lemma struct_law:
  assumes "fields_ok fs z"
  shows "json_codec (struct_codec fs z)"
proof -
  have laws: "list_all (field_law z) fs" "indep_all fs" "distinct (map fname fs)"
    using assms by (auto simp: fields_ok_def)
  have law: "f \<in> set fs \<Longrightarrow> field_law z f" for f using laws(1) by (simp add: list_all_iff)
  have set: "settled f x (copy_fields fs x z)" if "f \<in> set fs" for f x
    using laws(1,2) that by (rule copy_fields_settled)
  have "enc_members fs (copy_fields fs x z) = enc_members fs x" for x
    using set unfolding enc_members_def settled_def by (auto intro!: map_cong filter_cong)
  moreover have "dec_members fs (enc_members fs x) z = Some (copy_fields fs x z)"
    if "list_all (\<lambda>f. fok f x) fs" for x
    using laws that
    by (auto intro!: dec_members_enc find_field_self dest: law field_lawD(9))
  moreover have "plain (JObj (enc_members fs x))" if "list_all (\<lambda>f. fok f x) fs" for x
    using that by (auto simp: enc_members_def list_all_iff dest: field_lawD(1) [OF law])
  moreover have "list_all (\<lambda>f. fok f (copy_fields fs x z)) fs" if "list_all (\<lambda>f. fok f x) fs" for x
    using that set by (auto simp: list_all_iff settled_def)
  moreover have "list_all (\<lambda>f. fok f z) fs"
    using law field_lawD(7,9) by (fastforce simp: list_all_iff)
  ultimately show ?thesis by unfold_locales (auto simp: struct_codec_def)
qed

lemma nonnull_struct [nonnulls]: "nonnull (struct_codec fs z)"
  by (simp add: nonnull_def struct_codec_def)

lemma struct_zero [simp]: "czero (struct_codec fs z) = z"
  by (simp add: struct_codec_def)

lemma struct_empty [simp]: "cempty (struct_codec fs z) = (\<lambda>_. False)"
  by (simp add: struct_codec_def)

lemma codec_zeros [simp]:
  "czero str_codec = []" "czero bool_codec = False" "czero (int_codec :: 'n::len word codec) = 0"
  "czero time_codec = 0" "czero (ptr_codec C) = None" "czero (slice_codec C) = None"
  "czero (list_codec C) = []" "czero map_codec = fmempty"
  by (simp_all add: str_codec_def bool_codec_def int_codec_def time_codec_def ptr_codec_def
      slice_codec_def list_codec_def map_codec_def)

lemma codec_nrms [simp]:
  "cnrm str_codec = id" "cnrm bool_codec = id" "cnrm (int_codec :: 'n::len word codec) = id"
  "cnrm time_codec = id" "cnrm (ptr_codec C) = map_option (cnrm C)"
  "cnrm (slice_codec C) = map_option (map (cnrm C))" "cnrm (list_codec C) = map (cnrm C)"
  "cnrm map_codec = id"
  by (simp_all add: str_codec_def bool_codec_def int_codec_def time_codec_def ptr_codec_def
      slice_codec_def list_codec_def map_codec_def)

lemma codec_empties [simp]:
  "cempty str_codec = (\<lambda>s. s = [])" "cempty bool_codec = Not"
  "cempty (int_codec :: 'n::len word codec) = (\<lambda>w. w = 0)"
  "cempty time_codec = (\<lambda>_. False)" "cempty (ptr_codec C) = (\<lambda>p. p = None)"
  "cempty (slice_codec C) = (\<lambda>s. elems s = [])" "cempty (list_codec C) = (\<lambda>xs. xs = [])"
  "cempty map_codec = (\<lambda>m. fmdom m = {||})"
  by (simp_all add: str_codec_def bool_codec_def int_codec_def time_codec_def ptr_codec_def
      slice_codec_def list_codec_def map_codec_def)

lemma fmdom_emptyD: "fmdom m = {||} \<Longrightarrow> m = fmempty"
  by (metis fmrestrict_fset_dom fmrestrict_fset_null)

lemma omit_val_id [simp]:
  "omit_val b str_codec s = s" "omit_val b bool_codec v = v" "omit_val b int_codec w = w"
  "omit_val b time_codec t = t" "omit_val b map_codec m = m"
  by (auto simp: omit_val_def dest: fmdom_emptyD)

lemma omit_val_ptr [simp]: "omit_val b (ptr_codec C) p = map_option (cnrm C) p"
  by (simp add: omit_val_def)

lemma omit_val_list [simp]: "omit_val b (list_codec C) xs = map (cnrm C) xs"
  by (simp add: omit_val_def)

lemma omit_val_slice [simp]:
  "omit_val b (slice_codec C) s =
     (if b then slice_of (map (cnrm C) (elems s)) else map_option (map (cnrm C)) s)"
  by (cases s) (auto simp: omit_val_def slice_of_def)

lemma omit_val_struct [simp]: "omit_val b (struct_codec fs z) x = cnrm (struct_codec fs z) x"
  by (simp add: omit_val_def)

end
