(* ===== verification/ApiTypes.thy ===== *)
theory ApiTypes
  imports Codec
begin

text \<open>
  internal/api/types.go: every API type as a record in the order of its Go fields (field \<open>F\<close> of
  type \<open>T\<close> is \<open>t_F\<close> with a short prefix for \<open>T\<close>), its zero value, its tagged fields, and the
  codec they give. Each codec is proved to satisfy \<open>json_codec\<close>, and \<open>T_nrm\<close> says what a
  trip through JSON changes: nothing, but for the unused half of an \<open>IntOrString\<close> and empty
  non-nil slices of Endpoints, which come back nil.
  Go maps and slices that are \<open>omitempty\<close> do not distinguish nil from empty here, except in
  Endpoints, where the service controller compares them with \<open>reflect.DeepEqual\<close>.
\<close>

type_synonym int32 = "32 word"
type_synonym int64 = "64 word"
type_synonym goint = "64 word"

section \<open>IntOrString\<close>

record IntOrString =
  ios_Type :: goint \<comment> \<open>0: Int, 1: String\<close>
  ios_IntVal :: int32
  ios_StrVal :: string

definition IntOrString_zero :: IntOrString where
  "IntOrString_zero = \<lparr>ios_Type = 0, ios_IntVal = 0, ios_StrVal = []\<rparr>"

text \<open>\<open>String()\<close>, used for probe ports\<close>

definition IntOrString_String :: "IntOrString \<Rightarrow> string" where
  "IntOrString_String i = (if ios_Type i = 0 then print_int (sint (ios_IntVal i)) else ios_StrVal i)"

definition IntOrString_MarshalJSON :: "IntOrString \<Rightarrow> json" where
  "IntOrString_MarshalJSON i = (if ios_Type i = 0 then JInt (sint (ios_IntVal i)) else JStr (ios_StrVal i))"

text \<open>
  \<open>UnmarshalJSON\<close> looks at the first byte: a string literal sets \<open>StrVal\<close>, anything else has to
  be an \<open>int32\<close> (null leaves the fresh \<open>n\<close> at 0).
\<close>

definition IntOrString_UnmarshalJSON :: "json \<Rightarrow> IntOrString \<Rightarrow> IntOrString option" where
  "IntOrString_UnmarshalJSON j i =
     (case j of
        JStr s \<Rightarrow> Some (i\<lparr>ios_Type := 1, ios_StrVal := s\<rparr>)
      | _ \<Rightarrow> map_option (\<lambda>n. i\<lparr>ios_Type := 0, ios_IntVal := n\<rparr>) (cdec int_codec j 0))"

definition IntOrString_codec :: "IntOrString codec" where
  "IntOrString_codec = \<lparr>cenc = IntOrString_MarshalJSON, cdec = IntOrString_UnmarshalJSON,
     czero = IntOrString_zero, cempty = (\<lambda>_. False), cok = (\<lambda>_. True),
     cnrm = (\<lambda>i. if ios_Type i = 0 then i\<lparr>ios_StrVal := []\<rparr> else i\<lparr>ios_Type := 1, ios_IntVal := 0\<rparr>)\<rparr>"

lemma IntOrString_law [codec_laws, simp]: "json_codec IntOrString_codec"
proof -
  have dec: "cdec int_codec (JInt (sint w)) 0 = Some w" for w :: int32
    using json_codec.dec_enc [OF int_law, of w] by (simp add: int_codec_def)
  show ?thesis
    by unfold_locales
       (auto simp: IntOrString_codec_def IntOrString_MarshalJSON_def IntOrString_UnmarshalJSON_def
         IntOrString_zero_def dec)
qed

lemma IntOrString_codec_simps [simp]:
  "czero IntOrString_codec = IntOrString_zero" "cempty IntOrString_codec = (\<lambda>_. False)"
  "omit_val b IntOrString_codec i = cnrm IntOrString_codec i"
  by (simp_all add: IntOrString_codec_def omit_val_def)

lemma nonnull_IntOrString [nonnulls]: "nonnull IntOrString_codec"
  by (simp add: nonnull_def IntOrString_codec_def IntOrString_MarshalJSON_def)

declare codec_laws [simp] option.map_id0 [simp]
declare nonnulls [simp]

section \<open>TypeMeta\<close>

record TypeMeta =
  tm_Kind :: string
  tm_APIVersion :: string

definition TypeMeta_zero :: TypeMeta where
  "TypeMeta_zero = \<lparr>tm_Kind = [],
     tm_APIVersion = []\<rparr>"

text \<open>Embedded with the tag \<open>",inline"\<close>, which leaves the name empty: the two fields are promoted.\<close>

definition TypeMeta_fields :: "('a \<Rightarrow> TypeMeta) \<Rightarrow> ((TypeMeta \<Rightarrow> TypeMeta) \<Rightarrow> 'a \<Rightarrow> 'a) \<Rightarrow> 'a field list" where
  "TypeMeta_fields g u =
     [mk_field ''kind'' True str_codec (\<lambda>x. tm_Kind (g x)) (\<lambda>h. u (tm_Kind_update h)),
      mk_field ''apiVersion'' True str_codec (\<lambda>x. tm_APIVersion (g x)) (\<lambda>h. u (tm_APIVersion_update h))]"

section \<open>ObjectMeta\<close>

record ObjectMeta =
  om_Name :: string
  om_Namespace :: string
  om_Labels :: strmap
  om_Annotations :: strmap
  om_ResourceVersion :: string
  om_CreationTimestamp :: gotime
  om_DeletionTimestamp :: "gotime option"

definition ObjectMeta_zero :: ObjectMeta where
  "ObjectMeta_zero = \<lparr>om_Name = [],
     om_Namespace = [],
     om_Labels = fmempty,
     om_Annotations = fmempty,
     om_ResourceVersion = [],
     om_CreationTimestamp = 0,
     om_DeletionTimestamp = None\<rparr>"

definition ObjectMeta_fields :: "ObjectMeta field list" where
  "ObjectMeta_fields =
     [mk_field ''name'' True str_codec om_Name om_Name_update,
      mk_field ''namespace'' True str_codec om_Namespace om_Namespace_update,
      mk_field ''labels'' True map_codec om_Labels om_Labels_update,
      mk_field ''annotations'' True map_codec om_Annotations om_Annotations_update,
      mk_field ''resourceVersion'' True str_codec om_ResourceVersion om_ResourceVersion_update,
      mk_field ''creationTimestamp'' True time_codec om_CreationTimestamp om_CreationTimestamp_update,
      mk_field ''deletionTimestamp'' True (ptr_codec time_codec) om_DeletionTimestamp om_DeletionTimestamp_update]"

definition ObjectMeta_codec :: "ObjectMeta codec" where
  "ObjectMeta_codec = struct_codec ObjectMeta_fields ObjectMeta_zero"

lemma ObjectMeta_law [simp]: "json_codec ObjectMeta_codec"
  unfolding ObjectMeta_codec_def
  by (rule struct_law) (simp add: fields_ok_def ObjectMeta_fields_def ObjectMeta_zero_def)

lemma ObjectMeta_codec_simps [simp]:
  "czero ObjectMeta_codec = ObjectMeta_zero" "cempty ObjectMeta_codec = (\<lambda>_. False)"
  "omit_val b ObjectMeta_codec x = cnrm ObjectMeta_codec x" "nonnull ObjectMeta_codec"
  by (simp_all add: ObjectMeta_codec_def nonnull_struct)

lemma ObjectMeta_nrm [simp]: "cnrm ObjectMeta_codec = id"
  by (rule ext, rule ObjectMeta.equality)
     (simp_all add: ObjectMeta_codec_def struct_codec_def ObjectMeta_fields_def ObjectMeta_zero_def mk_field_def)

section \<open>ContainerPort\<close>

record ContainerPort =
  cp_Name :: string
  cp_ContainerPort :: goint
  cp_Protocol :: string

definition ContainerPort_zero :: ContainerPort where
  "ContainerPort_zero = \<lparr>cp_Name = [],
     cp_ContainerPort = 0,
     cp_Protocol = []\<rparr>"

definition ContainerPort_fields :: "ContainerPort field list" where
  "ContainerPort_fields =
     [mk_field ''name'' True str_codec cp_Name cp_Name_update,
      mk_field ''containerPort'' False int_codec cp_ContainerPort cp_ContainerPort_update,
      mk_field ''protocol'' True str_codec cp_Protocol cp_Protocol_update]"

definition ContainerPort_codec :: "ContainerPort codec" where
  "ContainerPort_codec = struct_codec ContainerPort_fields ContainerPort_zero"

lemma ContainerPort_law [simp]: "json_codec ContainerPort_codec"
  unfolding ContainerPort_codec_def
  by (rule struct_law) (simp add: fields_ok_def ContainerPort_fields_def ContainerPort_zero_def)

lemma ContainerPort_codec_simps [simp]:
  "czero ContainerPort_codec = ContainerPort_zero" "cempty ContainerPort_codec = (\<lambda>_. False)"
  "omit_val b ContainerPort_codec x = cnrm ContainerPort_codec x" "nonnull ContainerPort_codec"
  by (simp_all add: ContainerPort_codec_def nonnull_struct)

lemma ContainerPort_nrm [simp]: "cnrm ContainerPort_codec = id"
  by (rule ext, rule ContainerPort.equality)
     (simp_all add: ContainerPort_codec_def struct_codec_def ContainerPort_fields_def ContainerPort_zero_def mk_field_def)

section \<open>ResourceRequirements\<close>

record ResourceRequirements =
  rr_Requests :: strmap
  rr_Limits :: strmap

definition ResourceRequirements_zero :: ResourceRequirements where
  "ResourceRequirements_zero = \<lparr>rr_Requests = fmempty,
     rr_Limits = fmempty\<rparr>"

definition ResourceRequirements_fields :: "ResourceRequirements field list" where
  "ResourceRequirements_fields =
     [mk_field ''requests'' True map_codec rr_Requests rr_Requests_update,
      mk_field ''limits'' True map_codec rr_Limits rr_Limits_update]"

definition ResourceRequirements_codec :: "ResourceRequirements codec" where
  "ResourceRequirements_codec = struct_codec ResourceRequirements_fields ResourceRequirements_zero"

lemma ResourceRequirements_law [simp]: "json_codec ResourceRequirements_codec"
  unfolding ResourceRequirements_codec_def
  by (rule struct_law) (simp add: fields_ok_def ResourceRequirements_fields_def ResourceRequirements_zero_def)

lemma ResourceRequirements_codec_simps [simp]:
  "czero ResourceRequirements_codec = ResourceRequirements_zero" "cempty ResourceRequirements_codec = (\<lambda>_. False)"
  "omit_val b ResourceRequirements_codec x = cnrm ResourceRequirements_codec x" "nonnull ResourceRequirements_codec"
  by (simp_all add: ResourceRequirements_codec_def nonnull_struct)

lemma ResourceRequirements_nrm [simp]: "cnrm ResourceRequirements_codec = id"
  by (rule ext, rule ResourceRequirements.equality)
     (simp_all add: ResourceRequirements_codec_def struct_codec_def ResourceRequirements_fields_def ResourceRequirements_zero_def mk_field_def)

section \<open>HTTPGetAction\<close>

record HTTPGetAction =
  hg_Path :: string
  hg_Port :: IntOrString

definition HTTPGetAction_zero :: HTTPGetAction where
  "HTTPGetAction_zero = \<lparr>hg_Path = [],
     hg_Port = IntOrString_zero\<rparr>"

definition HTTPGetAction_fields :: "HTTPGetAction field list" where
  "HTTPGetAction_fields =
     [mk_field ''path'' True str_codec hg_Path hg_Path_update,
      mk_field ''port'' False IntOrString_codec hg_Port hg_Port_update]"

definition HTTPGetAction_codec :: "HTTPGetAction codec" where
  "HTTPGetAction_codec = struct_codec HTTPGetAction_fields HTTPGetAction_zero"

lemma HTTPGetAction_law [simp]: "json_codec HTTPGetAction_codec"
  unfolding HTTPGetAction_codec_def
  by (rule struct_law) (simp add: fields_ok_def HTTPGetAction_fields_def HTTPGetAction_zero_def)

lemma HTTPGetAction_codec_simps [simp]:
  "czero HTTPGetAction_codec = HTTPGetAction_zero" "cempty HTTPGetAction_codec = (\<lambda>_. False)"
  "omit_val b HTTPGetAction_codec x = cnrm HTTPGetAction_codec x" "nonnull HTTPGetAction_codec"
  by (simp_all add: HTTPGetAction_codec_def nonnull_struct)

lemma HTTPGetAction_nrm [simp]: "cnrm HTTPGetAction_codec x = x\<lparr>hg_Port := cnrm IntOrString_codec (hg_Port x)\<rparr>"
  by (cases x) (simp add: HTTPGetAction_codec_def struct_codec_def HTTPGetAction_fields_def HTTPGetAction_zero_def mk_field_def)

section \<open>TCPSocketAction\<close>

record TCPSocketAction =
  ts_Port :: IntOrString

definition TCPSocketAction_zero :: TCPSocketAction where
  "TCPSocketAction_zero = \<lparr>ts_Port = IntOrString_zero\<rparr>"

definition TCPSocketAction_fields :: "TCPSocketAction field list" where
  "TCPSocketAction_fields =
     [mk_field ''port'' False IntOrString_codec ts_Port ts_Port_update]"

definition TCPSocketAction_codec :: "TCPSocketAction codec" where
  "TCPSocketAction_codec = struct_codec TCPSocketAction_fields TCPSocketAction_zero"

lemma TCPSocketAction_law [simp]: "json_codec TCPSocketAction_codec"
  unfolding TCPSocketAction_codec_def
  by (rule struct_law) (simp add: fields_ok_def TCPSocketAction_fields_def TCPSocketAction_zero_def)

lemma TCPSocketAction_codec_simps [simp]:
  "czero TCPSocketAction_codec = TCPSocketAction_zero" "cempty TCPSocketAction_codec = (\<lambda>_. False)"
  "omit_val b TCPSocketAction_codec x = cnrm TCPSocketAction_codec x" "nonnull TCPSocketAction_codec"
  by (simp_all add: TCPSocketAction_codec_def nonnull_struct)

lemma TCPSocketAction_nrm [simp]: "cnrm TCPSocketAction_codec x = x\<lparr>ts_Port := cnrm IntOrString_codec (ts_Port x)\<rparr>"
  by (cases x) (simp add: TCPSocketAction_codec_def struct_codec_def TCPSocketAction_fields_def TCPSocketAction_zero_def mk_field_def)

section \<open>Probe\<close>

record Probe =
  pr_HTTPGet :: "HTTPGetAction option"
  pr_TCPSocket :: "TCPSocketAction option"
  pr_InitialDelaySeconds :: int32
  pr_PeriodSeconds :: int32

definition Probe_zero :: Probe where
  "Probe_zero = \<lparr>pr_HTTPGet = None,
     pr_TCPSocket = None,
     pr_InitialDelaySeconds = 0,
     pr_PeriodSeconds = 0\<rparr>"

definition Probe_fields :: "Probe field list" where
  "Probe_fields =
     [mk_field ''httpGet'' True (ptr_codec HTTPGetAction_codec) pr_HTTPGet pr_HTTPGet_update,
      mk_field ''tcpSocket'' True (ptr_codec TCPSocketAction_codec) pr_TCPSocket pr_TCPSocket_update,
      mk_field ''initialDelaySeconds'' True int_codec pr_InitialDelaySeconds pr_InitialDelaySeconds_update,
      mk_field ''periodSeconds'' True int_codec pr_PeriodSeconds pr_PeriodSeconds_update]"

definition Probe_codec :: "Probe codec" where
  "Probe_codec = struct_codec Probe_fields Probe_zero"

lemma Probe_law [simp]: "json_codec Probe_codec"
  unfolding Probe_codec_def
  by (rule struct_law) (simp add: fields_ok_def Probe_fields_def Probe_zero_def)

lemma Probe_codec_simps [simp]:
  "czero Probe_codec = Probe_zero" "cempty Probe_codec = (\<lambda>_. False)"
  "omit_val b Probe_codec x = cnrm Probe_codec x" "nonnull Probe_codec"
  by (simp_all add: Probe_codec_def nonnull_struct)

lemma Probe_nrm [simp]: "cnrm Probe_codec x = x\<lparr>pr_HTTPGet := map_option (cnrm HTTPGetAction_codec) (pr_HTTPGet x),
     pr_TCPSocket := map_option (cnrm TCPSocketAction_codec) (pr_TCPSocket x)\<rparr>"
  by (cases x) (simp add: Probe_codec_def struct_codec_def Probe_fields_def Probe_zero_def mk_field_def)

section \<open>Container\<close>

record Container =
  ctr_Name :: string
  ctr_Image :: string
  ctr_Command :: "string list"
  ctr_Args :: "string list"
  ctr_Ports :: "ContainerPort list"
  ctr_Resources :: ResourceRequirements
  ctr_LivenessProbe :: "Probe option"
  ctr_ReadinessProbe :: "Probe option"

definition Container_zero :: Container where
  "Container_zero = \<lparr>ctr_Name = [],
     ctr_Image = [],
     ctr_Command = [],
     ctr_Args = [],
     ctr_Ports = [],
     ctr_Resources = ResourceRequirements_zero,
     ctr_LivenessProbe = None,
     ctr_ReadinessProbe = None\<rparr>"

definition Container_fields :: "Container field list" where
  "Container_fields =
     [mk_field ''name'' False str_codec ctr_Name ctr_Name_update,
      mk_field ''image'' False str_codec ctr_Image ctr_Image_update,
      mk_field ''command'' True (list_codec str_codec) ctr_Command ctr_Command_update,
      mk_field ''args'' True (list_codec str_codec) ctr_Args ctr_Args_update,
      mk_field ''ports'' True (list_codec ContainerPort_codec) ctr_Ports ctr_Ports_update,
      mk_field ''resources'' True ResourceRequirements_codec ctr_Resources ctr_Resources_update,
      mk_field ''livenessProbe'' True (ptr_codec Probe_codec) ctr_LivenessProbe ctr_LivenessProbe_update,
      mk_field ''readinessProbe'' True (ptr_codec Probe_codec) ctr_ReadinessProbe ctr_ReadinessProbe_update]"

definition Container_codec :: "Container codec" where
  "Container_codec = struct_codec Container_fields Container_zero"

lemma Container_law [simp]: "json_codec Container_codec"
  unfolding Container_codec_def
  by (rule struct_law) (simp add: fields_ok_def Container_fields_def Container_zero_def)

lemma Container_codec_simps [simp]:
  "czero Container_codec = Container_zero" "cempty Container_codec = (\<lambda>_. False)"
  "omit_val b Container_codec x = cnrm Container_codec x" "nonnull Container_codec"
  by (simp_all add: Container_codec_def nonnull_struct)

lemma Container_nrm [simp]: "cnrm Container_codec x = x\<lparr>ctr_LivenessProbe := map_option (cnrm Probe_codec) (ctr_LivenessProbe x),
     ctr_ReadinessProbe := map_option (cnrm Probe_codec) (ctr_ReadinessProbe x)\<rparr>"
  by (cases x) (simp add: Container_codec_def struct_codec_def Container_fields_def Container_zero_def mk_field_def)

section \<open>PodSpec\<close>

record PodSpec =
  psp_Containers :: "Container slice"
  psp_NodeName :: string
  psp_RestartPolicy :: string

definition PodSpec_zero :: PodSpec where
  "PodSpec_zero = \<lparr>psp_Containers = None,
     psp_NodeName = [],
     psp_RestartPolicy = []\<rparr>"

definition PodSpec_fields :: "PodSpec field list" where
  "PodSpec_fields =
     [mk_field ''containers'' False (slice_codec Container_codec) psp_Containers psp_Containers_update,
      mk_field ''nodeName'' True str_codec psp_NodeName psp_NodeName_update,
      mk_field ''restartPolicy'' True str_codec psp_RestartPolicy psp_RestartPolicy_update]"

definition PodSpec_codec :: "PodSpec codec" where
  "PodSpec_codec = struct_codec PodSpec_fields PodSpec_zero"

lemma PodSpec_law [simp]: "json_codec PodSpec_codec"
  unfolding PodSpec_codec_def
  by (rule struct_law) (simp add: fields_ok_def PodSpec_fields_def PodSpec_zero_def)

lemma PodSpec_codec_simps [simp]:
  "czero PodSpec_codec = PodSpec_zero" "cempty PodSpec_codec = (\<lambda>_. False)"
  "omit_val b PodSpec_codec x = cnrm PodSpec_codec x" "nonnull PodSpec_codec"
  by (simp_all add: PodSpec_codec_def nonnull_struct)

lemma PodSpec_nrm [simp]: "cnrm PodSpec_codec x = x\<lparr>psp_Containers := map_option (map (cnrm Container_codec)) (psp_Containers x)\<rparr>"
  by (cases x) (simp add: PodSpec_codec_def struct_codec_def PodSpec_fields_def PodSpec_zero_def mk_field_def)

section \<open>PodCondition\<close>

record PodCondition =
  pc_Type :: string
  pc_Status :: string

definition PodCondition_zero :: PodCondition where
  "PodCondition_zero = \<lparr>pc_Type = [],
     pc_Status = []\<rparr>"

definition PodCondition_fields :: "PodCondition field list" where
  "PodCondition_fields =
     [mk_field ''type'' False str_codec pc_Type pc_Type_update,
      mk_field ''status'' False str_codec pc_Status pc_Status_update]"

definition PodCondition_codec :: "PodCondition codec" where
  "PodCondition_codec = struct_codec PodCondition_fields PodCondition_zero"

lemma PodCondition_law [simp]: "json_codec PodCondition_codec"
  unfolding PodCondition_codec_def
  by (rule struct_law) (simp add: fields_ok_def PodCondition_fields_def PodCondition_zero_def)

lemma PodCondition_codec_simps [simp]:
  "czero PodCondition_codec = PodCondition_zero" "cempty PodCondition_codec = (\<lambda>_. False)"
  "omit_val b PodCondition_codec x = cnrm PodCondition_codec x" "nonnull PodCondition_codec"
  by (simp_all add: PodCondition_codec_def nonnull_struct)

lemma PodCondition_nrm [simp]: "cnrm PodCondition_codec = id"
  by (rule ext, rule PodCondition.equality)
     (simp_all add: PodCondition_codec_def struct_codec_def PodCondition_fields_def PodCondition_zero_def mk_field_def)

section \<open>ContainerStateRunning\<close>

record ContainerStateRunning =
  csr_StartedAt :: gotime

definition ContainerStateRunning_zero :: ContainerStateRunning where
  "ContainerStateRunning_zero = \<lparr>csr_StartedAt = 0\<rparr>"

definition ContainerStateRunning_fields :: "ContainerStateRunning field list" where
  "ContainerStateRunning_fields =
     [mk_field ''startedAt'' True time_codec csr_StartedAt csr_StartedAt_update]"

definition ContainerStateRunning_codec :: "ContainerStateRunning codec" where
  "ContainerStateRunning_codec = struct_codec ContainerStateRunning_fields ContainerStateRunning_zero"

lemma ContainerStateRunning_law [simp]: "json_codec ContainerStateRunning_codec"
  unfolding ContainerStateRunning_codec_def
  by (rule struct_law) (simp add: fields_ok_def ContainerStateRunning_fields_def ContainerStateRunning_zero_def)

lemma ContainerStateRunning_codec_simps [simp]:
  "czero ContainerStateRunning_codec = ContainerStateRunning_zero" "cempty ContainerStateRunning_codec = (\<lambda>_. False)"
  "omit_val b ContainerStateRunning_codec x = cnrm ContainerStateRunning_codec x" "nonnull ContainerStateRunning_codec"
  by (simp_all add: ContainerStateRunning_codec_def nonnull_struct)

lemma ContainerStateRunning_nrm [simp]: "cnrm ContainerStateRunning_codec = id"
  by (rule ext, rule ContainerStateRunning.equality)
     (simp_all add: ContainerStateRunning_codec_def struct_codec_def ContainerStateRunning_fields_def ContainerStateRunning_zero_def mk_field_def)

section \<open>ContainerStateTerminated\<close>

record ContainerStateTerminated =
  cst_ExitCode :: goint
  cst_Reason :: string
  cst_Message :: string
  cst_StartedAt :: gotime
  cst_FinishedAt :: gotime

definition ContainerStateTerminated_zero :: ContainerStateTerminated where
  "ContainerStateTerminated_zero = \<lparr>cst_ExitCode = 0,
     cst_Reason = [],
     cst_Message = [],
     cst_StartedAt = 0,
     cst_FinishedAt = 0\<rparr>"

definition ContainerStateTerminated_fields :: "ContainerStateTerminated field list" where
  "ContainerStateTerminated_fields =
     [mk_field ''exitCode'' False int_codec cst_ExitCode cst_ExitCode_update,
      mk_field ''reason'' True str_codec cst_Reason cst_Reason_update,
      mk_field ''message'' True str_codec cst_Message cst_Message_update,
      mk_field ''startedAt'' True time_codec cst_StartedAt cst_StartedAt_update,
      mk_field ''finishedAt'' True time_codec cst_FinishedAt cst_FinishedAt_update]"

definition ContainerStateTerminated_codec :: "ContainerStateTerminated codec" where
  "ContainerStateTerminated_codec = struct_codec ContainerStateTerminated_fields ContainerStateTerminated_zero"

lemma ContainerStateTerminated_law [simp]: "json_codec ContainerStateTerminated_codec"
  unfolding ContainerStateTerminated_codec_def
  by (rule struct_law) (simp add: fields_ok_def ContainerStateTerminated_fields_def ContainerStateTerminated_zero_def)

lemma ContainerStateTerminated_codec_simps [simp]:
  "czero ContainerStateTerminated_codec = ContainerStateTerminated_zero" "cempty ContainerStateTerminated_codec = (\<lambda>_. False)"
  "omit_val b ContainerStateTerminated_codec x = cnrm ContainerStateTerminated_codec x" "nonnull ContainerStateTerminated_codec"
  by (simp_all add: ContainerStateTerminated_codec_def nonnull_struct)

lemma ContainerStateTerminated_nrm [simp]: "cnrm ContainerStateTerminated_codec = id"
  by (rule ext, rule ContainerStateTerminated.equality)
     (simp_all add: ContainerStateTerminated_codec_def struct_codec_def ContainerStateTerminated_fields_def ContainerStateTerminated_zero_def mk_field_def)

section \<open>ContainerStateWaiting\<close>

record ContainerStateWaiting =
  csw_Reason :: string
  csw_Message :: string

definition ContainerStateWaiting_zero :: ContainerStateWaiting where
  "ContainerStateWaiting_zero = \<lparr>csw_Reason = [],
     csw_Message = []\<rparr>"

definition ContainerStateWaiting_fields :: "ContainerStateWaiting field list" where
  "ContainerStateWaiting_fields =
     [mk_field ''reason'' True str_codec csw_Reason csw_Reason_update,
      mk_field ''message'' True str_codec csw_Message csw_Message_update]"

definition ContainerStateWaiting_codec :: "ContainerStateWaiting codec" where
  "ContainerStateWaiting_codec = struct_codec ContainerStateWaiting_fields ContainerStateWaiting_zero"

lemma ContainerStateWaiting_law [simp]: "json_codec ContainerStateWaiting_codec"
  unfolding ContainerStateWaiting_codec_def
  by (rule struct_law) (simp add: fields_ok_def ContainerStateWaiting_fields_def ContainerStateWaiting_zero_def)

lemma ContainerStateWaiting_codec_simps [simp]:
  "czero ContainerStateWaiting_codec = ContainerStateWaiting_zero" "cempty ContainerStateWaiting_codec = (\<lambda>_. False)"
  "omit_val b ContainerStateWaiting_codec x = cnrm ContainerStateWaiting_codec x" "nonnull ContainerStateWaiting_codec"
  by (simp_all add: ContainerStateWaiting_codec_def nonnull_struct)

lemma ContainerStateWaiting_nrm [simp]: "cnrm ContainerStateWaiting_codec = id"
  by (rule ext, rule ContainerStateWaiting.equality)
     (simp_all add: ContainerStateWaiting_codec_def struct_codec_def ContainerStateWaiting_fields_def ContainerStateWaiting_zero_def mk_field_def)

section \<open>ContainerState\<close>

record ContainerState =
  cs_Running :: "ContainerStateRunning option"
  cs_Terminated :: "ContainerStateTerminated option"
  cs_Waiting :: "ContainerStateWaiting option"

definition ContainerState_zero :: ContainerState where
  "ContainerState_zero = \<lparr>cs_Running = None,
     cs_Terminated = None,
     cs_Waiting = None\<rparr>"

definition ContainerState_fields :: "ContainerState field list" where
  "ContainerState_fields =
     [mk_field ''running'' True (ptr_codec ContainerStateRunning_codec) cs_Running cs_Running_update,
      mk_field ''terminated'' True (ptr_codec ContainerStateTerminated_codec) cs_Terminated cs_Terminated_update,
      mk_field ''waiting'' True (ptr_codec ContainerStateWaiting_codec) cs_Waiting cs_Waiting_update]"

definition ContainerState_codec :: "ContainerState codec" where
  "ContainerState_codec = struct_codec ContainerState_fields ContainerState_zero"

lemma ContainerState_law [simp]: "json_codec ContainerState_codec"
  unfolding ContainerState_codec_def
  by (rule struct_law) (simp add: fields_ok_def ContainerState_fields_def ContainerState_zero_def)

lemma ContainerState_codec_simps [simp]:
  "czero ContainerState_codec = ContainerState_zero" "cempty ContainerState_codec = (\<lambda>_. False)"
  "omit_val b ContainerState_codec x = cnrm ContainerState_codec x" "nonnull ContainerState_codec"
  by (simp_all add: ContainerState_codec_def nonnull_struct)

lemma ContainerState_nrm [simp]: "cnrm ContainerState_codec = id"
  by (rule ext, rule ContainerState.equality)
     (simp_all add: ContainerState_codec_def struct_codec_def ContainerState_fields_def ContainerState_zero_def mk_field_def)

section \<open>ContainerStatus\<close>

record ContainerStatus =
  cstat_Name :: string
  cstat_State :: ContainerState
  cstat_Ready :: bool
  cstat_RestartCount :: goint
  cstat_Image :: string
  cstat_ContainerID :: string

definition ContainerStatus_zero :: ContainerStatus where
  "ContainerStatus_zero = \<lparr>cstat_Name = [],
     cstat_State = ContainerState_zero,
     cstat_Ready = False,
     cstat_RestartCount = 0,
     cstat_Image = [],
     cstat_ContainerID = []\<rparr>"

definition ContainerStatus_fields :: "ContainerStatus field list" where
  "ContainerStatus_fields =
     [mk_field ''name'' False str_codec cstat_Name cstat_Name_update,
      mk_field ''state'' False ContainerState_codec cstat_State cstat_State_update,
      mk_field ''ready'' False bool_codec cstat_Ready cstat_Ready_update,
      mk_field ''restartCount'' False int_codec cstat_RestartCount cstat_RestartCount_update,
      mk_field ''image'' False str_codec cstat_Image cstat_Image_update,
      mk_field ''containerID'' True str_codec cstat_ContainerID cstat_ContainerID_update]"

definition ContainerStatus_codec :: "ContainerStatus codec" where
  "ContainerStatus_codec = struct_codec ContainerStatus_fields ContainerStatus_zero"

lemma ContainerStatus_law [simp]: "json_codec ContainerStatus_codec"
  unfolding ContainerStatus_codec_def
  by (rule struct_law) (simp add: fields_ok_def ContainerStatus_fields_def ContainerStatus_zero_def)

lemma ContainerStatus_codec_simps [simp]:
  "czero ContainerStatus_codec = ContainerStatus_zero" "cempty ContainerStatus_codec = (\<lambda>_. False)"
  "omit_val b ContainerStatus_codec x = cnrm ContainerStatus_codec x" "nonnull ContainerStatus_codec"
  by (simp_all add: ContainerStatus_codec_def nonnull_struct)

lemma ContainerStatus_nrm [simp]: "cnrm ContainerStatus_codec = id"
  by (rule ext, rule ContainerStatus.equality)
     (simp_all add: ContainerStatus_codec_def struct_codec_def ContainerStatus_fields_def ContainerStatus_zero_def mk_field_def)

section \<open>PodStatus\<close>

record PodStatus =
  pst_Phase :: string
  pst_Conditions :: "PodCondition list"
  pst_HostIP :: string
  pst_PodIP :: string
  pst_ContainerStatuses :: "ContainerStatus list"

definition PodStatus_zero :: PodStatus where
  "PodStatus_zero = \<lparr>pst_Phase = [],
     pst_Conditions = [],
     pst_HostIP = [],
     pst_PodIP = [],
     pst_ContainerStatuses = []\<rparr>"

definition PodStatus_fields :: "PodStatus field list" where
  "PodStatus_fields =
     [mk_field ''phase'' True str_codec pst_Phase pst_Phase_update,
      mk_field ''conditions'' True (list_codec PodCondition_codec) pst_Conditions pst_Conditions_update,
      mk_field ''hostIP'' True str_codec pst_HostIP pst_HostIP_update,
      mk_field ''podIP'' True str_codec pst_PodIP pst_PodIP_update,
      mk_field ''containerStatuses'' True (list_codec ContainerStatus_codec) pst_ContainerStatuses pst_ContainerStatuses_update]"

definition PodStatus_codec :: "PodStatus codec" where
  "PodStatus_codec = struct_codec PodStatus_fields PodStatus_zero"

lemma PodStatus_law [simp]: "json_codec PodStatus_codec"
  unfolding PodStatus_codec_def
  by (rule struct_law) (simp add: fields_ok_def PodStatus_fields_def PodStatus_zero_def)

lemma PodStatus_codec_simps [simp]:
  "czero PodStatus_codec = PodStatus_zero" "cempty PodStatus_codec = (\<lambda>_. False)"
  "omit_val b PodStatus_codec x = cnrm PodStatus_codec x" "nonnull PodStatus_codec"
  by (simp_all add: PodStatus_codec_def nonnull_struct)

lemma PodStatus_nrm [simp]: "cnrm PodStatus_codec = id"
  by (rule ext, rule PodStatus.equality)
     (simp_all add: PodStatus_codec_def struct_codec_def PodStatus_fields_def PodStatus_zero_def mk_field_def)

section \<open>Pod\<close>

record Pod =
  pod_TypeMeta :: TypeMeta
  pod_ObjectMeta :: ObjectMeta
  pod_Spec :: PodSpec
  pod_Status :: PodStatus

definition Pod_zero :: Pod where
  "Pod_zero = \<lparr>pod_TypeMeta = TypeMeta_zero,
     pod_ObjectMeta = ObjectMeta_zero,
     pod_Spec = PodSpec_zero,
     pod_Status = PodStatus_zero\<rparr>"

definition Pod_fields :: "Pod field list" where
  "Pod_fields =
     TypeMeta_fields pod_TypeMeta pod_TypeMeta_update @
     [mk_field ''metadata'' True ObjectMeta_codec pod_ObjectMeta pod_ObjectMeta_update,
      mk_field ''spec'' True PodSpec_codec pod_Spec pod_Spec_update,
      mk_field ''status'' True PodStatus_codec pod_Status pod_Status_update]"

definition Pod_codec :: "Pod codec" where
  "Pod_codec = struct_codec Pod_fields Pod_zero"

lemma Pod_law [simp]: "json_codec Pod_codec"
  unfolding Pod_codec_def
  by (rule struct_law) (simp add: fields_ok_def Pod_fields_def Pod_zero_def TypeMeta_fields_def TypeMeta_zero_def)

lemma Pod_codec_simps [simp]:
  "czero Pod_codec = Pod_zero" "cempty Pod_codec = (\<lambda>_. False)"
  "omit_val b Pod_codec x = cnrm Pod_codec x" "nonnull Pod_codec"
  by (simp_all add: Pod_codec_def nonnull_struct)

lemma Pod_nrm [simp]: "cnrm Pod_codec x = x\<lparr>pod_Spec := cnrm PodSpec_codec (pod_Spec x)\<rparr>"
  by (cases x) (simp add: Pod_codec_def struct_codec_def Pod_fields_def Pod_zero_def mk_field_def TypeMeta_fields_def TypeMeta_zero_def)

section \<open>NodeSpec\<close>

record NodeSpec =
  nsp_Unschedulable :: bool
  nsp_PodCIDR :: string

definition NodeSpec_zero :: NodeSpec where
  "NodeSpec_zero = \<lparr>nsp_Unschedulable = False,
     nsp_PodCIDR = []\<rparr>"

definition NodeSpec_fields :: "NodeSpec field list" where
  "NodeSpec_fields =
     [mk_field ''unschedulable'' True bool_codec nsp_Unschedulable nsp_Unschedulable_update,
      mk_field ''podCIDR'' True str_codec nsp_PodCIDR nsp_PodCIDR_update]"

definition NodeSpec_codec :: "NodeSpec codec" where
  "NodeSpec_codec = struct_codec NodeSpec_fields NodeSpec_zero"

lemma NodeSpec_law [simp]: "json_codec NodeSpec_codec"
  unfolding NodeSpec_codec_def
  by (rule struct_law) (simp add: fields_ok_def NodeSpec_fields_def NodeSpec_zero_def)

lemma NodeSpec_codec_simps [simp]:
  "czero NodeSpec_codec = NodeSpec_zero" "cempty NodeSpec_codec = (\<lambda>_. False)"
  "omit_val b NodeSpec_codec x = cnrm NodeSpec_codec x" "nonnull NodeSpec_codec"
  by (simp_all add: NodeSpec_codec_def nonnull_struct)

lemma NodeSpec_nrm [simp]: "cnrm NodeSpec_codec = id"
  by (rule ext, rule NodeSpec.equality)
     (simp_all add: NodeSpec_codec_def struct_codec_def NodeSpec_fields_def NodeSpec_zero_def mk_field_def)

section \<open>NodeCondition\<close>

record NodeCondition =
  nc_Type :: string
  nc_Status :: string
  nc_LastHeartbeatTime :: gotime

definition NodeCondition_zero :: NodeCondition where
  "NodeCondition_zero = \<lparr>nc_Type = [],
     nc_Status = [],
     nc_LastHeartbeatTime = 0\<rparr>"

definition NodeCondition_fields :: "NodeCondition field list" where
  "NodeCondition_fields =
     [mk_field ''type'' False str_codec nc_Type nc_Type_update,
      mk_field ''status'' False str_codec nc_Status nc_Status_update,
      mk_field ''lastHeartbeatTime'' True time_codec nc_LastHeartbeatTime nc_LastHeartbeatTime_update]"

definition NodeCondition_codec :: "NodeCondition codec" where
  "NodeCondition_codec = struct_codec NodeCondition_fields NodeCondition_zero"

lemma NodeCondition_law [simp]: "json_codec NodeCondition_codec"
  unfolding NodeCondition_codec_def
  by (rule struct_law) (simp add: fields_ok_def NodeCondition_fields_def NodeCondition_zero_def)

lemma NodeCondition_codec_simps [simp]:
  "czero NodeCondition_codec = NodeCondition_zero" "cempty NodeCondition_codec = (\<lambda>_. False)"
  "omit_val b NodeCondition_codec x = cnrm NodeCondition_codec x" "nonnull NodeCondition_codec"
  by (simp_all add: NodeCondition_codec_def nonnull_struct)

lemma NodeCondition_nrm [simp]: "cnrm NodeCondition_codec = id"
  by (rule ext, rule NodeCondition.equality)
     (simp_all add: NodeCondition_codec_def struct_codec_def NodeCondition_fields_def NodeCondition_zero_def mk_field_def)

section \<open>NodeAddress\<close>

record NodeAddress =
  na_Type :: string
  na_Address :: string

definition NodeAddress_zero :: NodeAddress where
  "NodeAddress_zero = \<lparr>na_Type = [],
     na_Address = []\<rparr>"

definition NodeAddress_fields :: "NodeAddress field list" where
  "NodeAddress_fields =
     [mk_field ''type'' False str_codec na_Type na_Type_update,
      mk_field ''address'' False str_codec na_Address na_Address_update]"

definition NodeAddress_codec :: "NodeAddress codec" where
  "NodeAddress_codec = struct_codec NodeAddress_fields NodeAddress_zero"

lemma NodeAddress_law [simp]: "json_codec NodeAddress_codec"
  unfolding NodeAddress_codec_def
  by (rule struct_law) (simp add: fields_ok_def NodeAddress_fields_def NodeAddress_zero_def)

lemma NodeAddress_codec_simps [simp]:
  "czero NodeAddress_codec = NodeAddress_zero" "cempty NodeAddress_codec = (\<lambda>_. False)"
  "omit_val b NodeAddress_codec x = cnrm NodeAddress_codec x" "nonnull NodeAddress_codec"
  by (simp_all add: NodeAddress_codec_def nonnull_struct)

lemma NodeAddress_nrm [simp]: "cnrm NodeAddress_codec = id"
  by (rule ext, rule NodeAddress.equality)
     (simp_all add: NodeAddress_codec_def struct_codec_def NodeAddress_fields_def NodeAddress_zero_def mk_field_def)

section \<open>NodeSystemInfo\<close>

record NodeSystemInfo =
  nsi_MachineID :: string
  nsi_SystemUUID :: string
  nsi_BootID :: string
  nsi_KernelVersion :: string
  nsi_OSImage :: string
  nsi_ContainerRuntimeVersion :: string
  nsi_KubeletVersion :: string
  nsi_OperatingSystem :: string
  nsi_Architecture :: string

definition NodeSystemInfo_zero :: NodeSystemInfo where
  "NodeSystemInfo_zero = \<lparr>nsi_MachineID = [],
     nsi_SystemUUID = [],
     nsi_BootID = [],
     nsi_KernelVersion = [],
     nsi_OSImage = [],
     nsi_ContainerRuntimeVersion = [],
     nsi_KubeletVersion = [],
     nsi_OperatingSystem = [],
     nsi_Architecture = []\<rparr>"

definition NodeSystemInfo_fields :: "NodeSystemInfo field list" where
  "NodeSystemInfo_fields =
     [mk_field ''machineID'' False str_codec nsi_MachineID nsi_MachineID_update,
      mk_field ''systemUUID'' False str_codec nsi_SystemUUID nsi_SystemUUID_update,
      mk_field ''bootID'' False str_codec nsi_BootID nsi_BootID_update,
      mk_field ''kernelVersion'' False str_codec nsi_KernelVersion nsi_KernelVersion_update,
      mk_field ''osImage'' False str_codec nsi_OSImage nsi_OSImage_update,
      mk_field ''containerRuntimeVersion'' False str_codec nsi_ContainerRuntimeVersion nsi_ContainerRuntimeVersion_update,
      mk_field ''kubeletVersion'' False str_codec nsi_KubeletVersion nsi_KubeletVersion_update,
      mk_field ''operatingSystem'' False str_codec nsi_OperatingSystem nsi_OperatingSystem_update,
      mk_field ''architecture'' False str_codec nsi_Architecture nsi_Architecture_update]"

definition NodeSystemInfo_codec :: "NodeSystemInfo codec" where
  "NodeSystemInfo_codec = struct_codec NodeSystemInfo_fields NodeSystemInfo_zero"

lemma NodeSystemInfo_law [simp]: "json_codec NodeSystemInfo_codec"
  unfolding NodeSystemInfo_codec_def
  by (rule struct_law) (simp add: fields_ok_def NodeSystemInfo_fields_def NodeSystemInfo_zero_def)

lemma NodeSystemInfo_codec_simps [simp]:
  "czero NodeSystemInfo_codec = NodeSystemInfo_zero" "cempty NodeSystemInfo_codec = (\<lambda>_. False)"
  "omit_val b NodeSystemInfo_codec x = cnrm NodeSystemInfo_codec x" "nonnull NodeSystemInfo_codec"
  by (simp_all add: NodeSystemInfo_codec_def nonnull_struct)

lemma NodeSystemInfo_nrm [simp]: "cnrm NodeSystemInfo_codec = id"
  by (rule ext, rule NodeSystemInfo.equality)
     (simp_all add: NodeSystemInfo_codec_def struct_codec_def NodeSystemInfo_fields_def NodeSystemInfo_zero_def mk_field_def)

section \<open>NodeStatus\<close>

record NodeStatus =
  nst_Capacity :: strmap
  nst_Allocatable :: strmap
  nst_Conditions :: "NodeCondition list"
  nst_Addresses :: "NodeAddress list"
  nst_NodeInfo :: NodeSystemInfo

definition NodeStatus_zero :: NodeStatus where
  "NodeStatus_zero = \<lparr>nst_Capacity = fmempty,
     nst_Allocatable = fmempty,
     nst_Conditions = [],
     nst_Addresses = [],
     nst_NodeInfo = NodeSystemInfo_zero\<rparr>"

definition NodeStatus_fields :: "NodeStatus field list" where
  "NodeStatus_fields =
     [mk_field ''capacity'' True map_codec nst_Capacity nst_Capacity_update,
      mk_field ''allocatable'' True map_codec nst_Allocatable nst_Allocatable_update,
      mk_field ''conditions'' True (list_codec NodeCondition_codec) nst_Conditions nst_Conditions_update,
      mk_field ''addresses'' True (list_codec NodeAddress_codec) nst_Addresses nst_Addresses_update,
      mk_field ''nodeInfo'' True NodeSystemInfo_codec nst_NodeInfo nst_NodeInfo_update]"

definition NodeStatus_codec :: "NodeStatus codec" where
  "NodeStatus_codec = struct_codec NodeStatus_fields NodeStatus_zero"

lemma NodeStatus_law [simp]: "json_codec NodeStatus_codec"
  unfolding NodeStatus_codec_def
  by (rule struct_law) (simp add: fields_ok_def NodeStatus_fields_def NodeStatus_zero_def)

lemma NodeStatus_codec_simps [simp]:
  "czero NodeStatus_codec = NodeStatus_zero" "cempty NodeStatus_codec = (\<lambda>_. False)"
  "omit_val b NodeStatus_codec x = cnrm NodeStatus_codec x" "nonnull NodeStatus_codec"
  by (simp_all add: NodeStatus_codec_def nonnull_struct)

lemma NodeStatus_nrm [simp]: "cnrm NodeStatus_codec = id"
  by (rule ext, rule NodeStatus.equality)
     (simp_all add: NodeStatus_codec_def struct_codec_def NodeStatus_fields_def NodeStatus_zero_def mk_field_def)

section \<open>Node\<close>

record Node =
  node_TypeMeta :: TypeMeta
  node_ObjectMeta :: ObjectMeta
  node_Spec :: NodeSpec
  node_Status :: NodeStatus

definition Node_zero :: Node where
  "Node_zero = \<lparr>node_TypeMeta = TypeMeta_zero,
     node_ObjectMeta = ObjectMeta_zero,
     node_Spec = NodeSpec_zero,
     node_Status = NodeStatus_zero\<rparr>"

definition Node_fields :: "Node field list" where
  "Node_fields =
     TypeMeta_fields node_TypeMeta node_TypeMeta_update @
     [mk_field ''metadata'' True ObjectMeta_codec node_ObjectMeta node_ObjectMeta_update,
      mk_field ''spec'' True NodeSpec_codec node_Spec node_Spec_update,
      mk_field ''status'' True NodeStatus_codec node_Status node_Status_update]"

definition Node_codec :: "Node codec" where
  "Node_codec = struct_codec Node_fields Node_zero"

lemma Node_law [simp]: "json_codec Node_codec"
  unfolding Node_codec_def
  by (rule struct_law) (simp add: fields_ok_def Node_fields_def Node_zero_def TypeMeta_fields_def TypeMeta_zero_def)

lemma Node_codec_simps [simp]:
  "czero Node_codec = Node_zero" "cempty Node_codec = (\<lambda>_. False)"
  "omit_val b Node_codec x = cnrm Node_codec x" "nonnull Node_codec"
  by (simp_all add: Node_codec_def nonnull_struct)

lemma Node_nrm [simp]: "cnrm Node_codec = id"
  by (rule ext, rule Node.equality)
     (simp_all add: Node_codec_def struct_codec_def Node_fields_def Node_zero_def mk_field_def TypeMeta_fields_def TypeMeta_zero_def)

section \<open>LabelSelector\<close>

record LabelSelector =
  ls_MatchLabels :: strmap

definition LabelSelector_zero :: LabelSelector where
  "LabelSelector_zero = \<lparr>ls_MatchLabels = fmempty\<rparr>"

definition LabelSelector_fields :: "LabelSelector field list" where
  "LabelSelector_fields =
     [mk_field ''matchLabels'' True map_codec ls_MatchLabels ls_MatchLabels_update]"

definition LabelSelector_codec :: "LabelSelector codec" where
  "LabelSelector_codec = struct_codec LabelSelector_fields LabelSelector_zero"

lemma LabelSelector_law [simp]: "json_codec LabelSelector_codec"
  unfolding LabelSelector_codec_def
  by (rule struct_law) (simp add: fields_ok_def LabelSelector_fields_def LabelSelector_zero_def)

lemma LabelSelector_codec_simps [simp]:
  "czero LabelSelector_codec = LabelSelector_zero" "cempty LabelSelector_codec = (\<lambda>_. False)"
  "omit_val b LabelSelector_codec x = cnrm LabelSelector_codec x" "nonnull LabelSelector_codec"
  by (simp_all add: LabelSelector_codec_def nonnull_struct)

lemma LabelSelector_nrm [simp]: "cnrm LabelSelector_codec = id"
  by (rule ext, rule LabelSelector.equality)
     (simp_all add: LabelSelector_codec_def struct_codec_def LabelSelector_fields_def LabelSelector_zero_def mk_field_def)

section \<open>PodTemplateSpec\<close>

record PodTemplateSpec =
  pts_ObjectMeta :: ObjectMeta
  pts_Spec :: PodSpec

definition PodTemplateSpec_zero :: PodTemplateSpec where
  "PodTemplateSpec_zero = \<lparr>pts_ObjectMeta = ObjectMeta_zero,
     pts_Spec = PodSpec_zero\<rparr>"

definition PodTemplateSpec_fields :: "PodTemplateSpec field list" where
  "PodTemplateSpec_fields =
     [mk_field ''metadata'' True ObjectMeta_codec pts_ObjectMeta pts_ObjectMeta_update,
      mk_field ''spec'' True PodSpec_codec pts_Spec pts_Spec_update]"

definition PodTemplateSpec_codec :: "PodTemplateSpec codec" where
  "PodTemplateSpec_codec = struct_codec PodTemplateSpec_fields PodTemplateSpec_zero"

lemma PodTemplateSpec_law [simp]: "json_codec PodTemplateSpec_codec"
  unfolding PodTemplateSpec_codec_def
  by (rule struct_law) (simp add: fields_ok_def PodTemplateSpec_fields_def PodTemplateSpec_zero_def)

lemma PodTemplateSpec_codec_simps [simp]:
  "czero PodTemplateSpec_codec = PodTemplateSpec_zero" "cempty PodTemplateSpec_codec = (\<lambda>_. False)"
  "omit_val b PodTemplateSpec_codec x = cnrm PodTemplateSpec_codec x" "nonnull PodTemplateSpec_codec"
  by (simp_all add: PodTemplateSpec_codec_def nonnull_struct)

lemma PodTemplateSpec_nrm [simp]: "cnrm PodTemplateSpec_codec x = x\<lparr>pts_Spec := cnrm PodSpec_codec (pts_Spec x)\<rparr>"
  by (cases x) (simp add: PodTemplateSpec_codec_def struct_codec_def PodTemplateSpec_fields_def PodTemplateSpec_zero_def mk_field_def)

section \<open>ReplicaSetSpec\<close>

record ReplicaSetSpec =
  rssp_Replicas :: "int32 option"
  rssp_Selector :: LabelSelector
  rssp_Template :: PodTemplateSpec

definition ReplicaSetSpec_zero :: ReplicaSetSpec where
  "ReplicaSetSpec_zero = \<lparr>rssp_Replicas = None,
     rssp_Selector = LabelSelector_zero,
     rssp_Template = PodTemplateSpec_zero\<rparr>"

definition ReplicaSetSpec_fields :: "ReplicaSetSpec field list" where
  "ReplicaSetSpec_fields =
     [mk_field ''replicas'' True (ptr_codec int_codec) rssp_Replicas rssp_Replicas_update,
      mk_field ''selector'' False LabelSelector_codec rssp_Selector rssp_Selector_update,
      mk_field ''template'' True PodTemplateSpec_codec rssp_Template rssp_Template_update]"

definition ReplicaSetSpec_codec :: "ReplicaSetSpec codec" where
  "ReplicaSetSpec_codec = struct_codec ReplicaSetSpec_fields ReplicaSetSpec_zero"

lemma ReplicaSetSpec_law [simp]: "json_codec ReplicaSetSpec_codec"
  unfolding ReplicaSetSpec_codec_def
  by (rule struct_law) (simp add: fields_ok_def ReplicaSetSpec_fields_def ReplicaSetSpec_zero_def)

lemma ReplicaSetSpec_codec_simps [simp]:
  "czero ReplicaSetSpec_codec = ReplicaSetSpec_zero" "cempty ReplicaSetSpec_codec = (\<lambda>_. False)"
  "omit_val b ReplicaSetSpec_codec x = cnrm ReplicaSetSpec_codec x" "nonnull ReplicaSetSpec_codec"
  by (simp_all add: ReplicaSetSpec_codec_def nonnull_struct)

lemma ReplicaSetSpec_nrm [simp]: "cnrm ReplicaSetSpec_codec x = x\<lparr>rssp_Template := cnrm PodTemplateSpec_codec (rssp_Template x)\<rparr>"
  by (cases x) (simp add: ReplicaSetSpec_codec_def struct_codec_def ReplicaSetSpec_fields_def ReplicaSetSpec_zero_def mk_field_def)

section \<open>ReplicaSetStatus\<close>

record ReplicaSetStatus =
  rsst_Replicas :: int32
  rsst_FullyLabeledReplicas :: int32
  rsst_ReadyReplicas :: int32
  rsst_AvailableReplicas :: int32

definition ReplicaSetStatus_zero :: ReplicaSetStatus where
  "ReplicaSetStatus_zero = \<lparr>rsst_Replicas = 0,
     rsst_FullyLabeledReplicas = 0,
     rsst_ReadyReplicas = 0,
     rsst_AvailableReplicas = 0\<rparr>"

definition ReplicaSetStatus_fields :: "ReplicaSetStatus field list" where
  "ReplicaSetStatus_fields =
     [mk_field ''replicas'' False int_codec rsst_Replicas rsst_Replicas_update,
      mk_field ''fullyLabeledReplicas'' True int_codec rsst_FullyLabeledReplicas rsst_FullyLabeledReplicas_update,
      mk_field ''readyReplicas'' True int_codec rsst_ReadyReplicas rsst_ReadyReplicas_update,
      mk_field ''availableReplicas'' True int_codec rsst_AvailableReplicas rsst_AvailableReplicas_update]"

definition ReplicaSetStatus_codec :: "ReplicaSetStatus codec" where
  "ReplicaSetStatus_codec = struct_codec ReplicaSetStatus_fields ReplicaSetStatus_zero"

lemma ReplicaSetStatus_law [simp]: "json_codec ReplicaSetStatus_codec"
  unfolding ReplicaSetStatus_codec_def
  by (rule struct_law) (simp add: fields_ok_def ReplicaSetStatus_fields_def ReplicaSetStatus_zero_def)

lemma ReplicaSetStatus_codec_simps [simp]:
  "czero ReplicaSetStatus_codec = ReplicaSetStatus_zero" "cempty ReplicaSetStatus_codec = (\<lambda>_. False)"
  "omit_val b ReplicaSetStatus_codec x = cnrm ReplicaSetStatus_codec x" "nonnull ReplicaSetStatus_codec"
  by (simp_all add: ReplicaSetStatus_codec_def nonnull_struct)

lemma ReplicaSetStatus_nrm [simp]: "cnrm ReplicaSetStatus_codec = id"
  by (rule ext, rule ReplicaSetStatus.equality)
     (simp_all add: ReplicaSetStatus_codec_def struct_codec_def ReplicaSetStatus_fields_def ReplicaSetStatus_zero_def mk_field_def)

section \<open>ReplicaSet\<close>

record ReplicaSet =
  rs_TypeMeta :: TypeMeta
  rs_ObjectMeta :: ObjectMeta
  rs_Spec :: ReplicaSetSpec
  rs_Status :: ReplicaSetStatus

definition ReplicaSet_zero :: ReplicaSet where
  "ReplicaSet_zero = \<lparr>rs_TypeMeta = TypeMeta_zero,
     rs_ObjectMeta = ObjectMeta_zero,
     rs_Spec = ReplicaSetSpec_zero,
     rs_Status = ReplicaSetStatus_zero\<rparr>"

definition ReplicaSet_fields :: "ReplicaSet field list" where
  "ReplicaSet_fields =
     TypeMeta_fields rs_TypeMeta rs_TypeMeta_update @
     [mk_field ''metadata'' True ObjectMeta_codec rs_ObjectMeta rs_ObjectMeta_update,
      mk_field ''spec'' True ReplicaSetSpec_codec rs_Spec rs_Spec_update,
      mk_field ''status'' True ReplicaSetStatus_codec rs_Status rs_Status_update]"

definition ReplicaSet_codec :: "ReplicaSet codec" where
  "ReplicaSet_codec = struct_codec ReplicaSet_fields ReplicaSet_zero"

lemma ReplicaSet_law [simp]: "json_codec ReplicaSet_codec"
  unfolding ReplicaSet_codec_def
  by (rule struct_law) (simp add: fields_ok_def ReplicaSet_fields_def ReplicaSet_zero_def TypeMeta_fields_def TypeMeta_zero_def)

lemma ReplicaSet_codec_simps [simp]:
  "czero ReplicaSet_codec = ReplicaSet_zero" "cempty ReplicaSet_codec = (\<lambda>_. False)"
  "omit_val b ReplicaSet_codec x = cnrm ReplicaSet_codec x" "nonnull ReplicaSet_codec"
  by (simp_all add: ReplicaSet_codec_def nonnull_struct)

lemma ReplicaSet_nrm [simp]: "cnrm ReplicaSet_codec x = x\<lparr>rs_Spec := cnrm ReplicaSetSpec_codec (rs_Spec x)\<rparr>"
  by (cases x) (simp add: ReplicaSet_codec_def struct_codec_def ReplicaSet_fields_def ReplicaSet_zero_def mk_field_def TypeMeta_fields_def TypeMeta_zero_def)

section \<open>ListMeta\<close>

record ListMeta =
  lm_ResourceVersion :: string

definition ListMeta_zero :: ListMeta where
  "ListMeta_zero = \<lparr>lm_ResourceVersion = []\<rparr>"

definition ListMeta_fields :: "ListMeta field list" where
  "ListMeta_fields =
     [mk_field ''resourceVersion'' True str_codec lm_ResourceVersion lm_ResourceVersion_update]"

definition ListMeta_codec :: "ListMeta codec" where
  "ListMeta_codec = struct_codec ListMeta_fields ListMeta_zero"

lemma ListMeta_law [simp]: "json_codec ListMeta_codec"
  unfolding ListMeta_codec_def
  by (rule struct_law) (simp add: fields_ok_def ListMeta_fields_def ListMeta_zero_def)

lemma ListMeta_codec_simps [simp]:
  "czero ListMeta_codec = ListMeta_zero" "cempty ListMeta_codec = (\<lambda>_. False)"
  "omit_val b ListMeta_codec x = cnrm ListMeta_codec x" "nonnull ListMeta_codec"
  by (simp_all add: ListMeta_codec_def nonnull_struct)

lemma ListMeta_nrm [simp]: "cnrm ListMeta_codec = id"
  by (rule ext, rule ListMeta.equality)
     (simp_all add: ListMeta_codec_def struct_codec_def ListMeta_fields_def ListMeta_zero_def mk_field_def)

section \<open>PodList\<close>

record PodList =
  podl_TypeMeta :: TypeMeta
  podl_ListMeta :: ListMeta
  podl_Items :: "Pod slice"

definition PodList_zero :: PodList where
  "PodList_zero = \<lparr>podl_TypeMeta = TypeMeta_zero,
     podl_ListMeta = ListMeta_zero,
     podl_Items = None\<rparr>"

definition PodList_fields :: "PodList field list" where
  "PodList_fields =
     TypeMeta_fields podl_TypeMeta podl_TypeMeta_update @
     [mk_field ''metadata'' True ListMeta_codec podl_ListMeta podl_ListMeta_update,
      mk_field ''items'' False (slice_codec Pod_codec) podl_Items podl_Items_update]"

definition PodList_codec :: "PodList codec" where
  "PodList_codec = struct_codec PodList_fields PodList_zero"

lemma PodList_law [simp]: "json_codec PodList_codec"
  unfolding PodList_codec_def
  by (rule struct_law) (simp add: fields_ok_def PodList_fields_def PodList_zero_def TypeMeta_fields_def TypeMeta_zero_def)

lemma PodList_codec_simps [simp]:
  "czero PodList_codec = PodList_zero" "cempty PodList_codec = (\<lambda>_. False)"
  "omit_val b PodList_codec x = cnrm PodList_codec x" "nonnull PodList_codec"
  by (simp_all add: PodList_codec_def nonnull_struct)

lemma PodList_nrm [simp]: "cnrm PodList_codec x = x\<lparr>podl_Items := map_option (map (cnrm Pod_codec)) (podl_Items x)\<rparr>"
  by (cases x) (simp add: PodList_codec_def struct_codec_def PodList_fields_def PodList_zero_def mk_field_def TypeMeta_fields_def TypeMeta_zero_def)

section \<open>NodeList\<close>

record NodeList =
  nodel_TypeMeta :: TypeMeta
  nodel_ListMeta :: ListMeta
  nodel_Items :: "Node slice"

definition NodeList_zero :: NodeList where
  "NodeList_zero = \<lparr>nodel_TypeMeta = TypeMeta_zero,
     nodel_ListMeta = ListMeta_zero,
     nodel_Items = None\<rparr>"

definition NodeList_fields :: "NodeList field list" where
  "NodeList_fields =
     TypeMeta_fields nodel_TypeMeta nodel_TypeMeta_update @
     [mk_field ''metadata'' True ListMeta_codec nodel_ListMeta nodel_ListMeta_update,
      mk_field ''items'' False (slice_codec Node_codec) nodel_Items nodel_Items_update]"

definition NodeList_codec :: "NodeList codec" where
  "NodeList_codec = struct_codec NodeList_fields NodeList_zero"

lemma NodeList_law [simp]: "json_codec NodeList_codec"
  unfolding NodeList_codec_def
  by (rule struct_law) (simp add: fields_ok_def NodeList_fields_def NodeList_zero_def TypeMeta_fields_def TypeMeta_zero_def)

lemma NodeList_codec_simps [simp]:
  "czero NodeList_codec = NodeList_zero" "cempty NodeList_codec = (\<lambda>_. False)"
  "omit_val b NodeList_codec x = cnrm NodeList_codec x" "nonnull NodeList_codec"
  by (simp_all add: NodeList_codec_def nonnull_struct)

lemma NodeList_nrm [simp]: "cnrm NodeList_codec = id"
  by (rule ext, rule NodeList.equality)
     (simp_all add: NodeList_codec_def struct_codec_def NodeList_fields_def NodeList_zero_def mk_field_def TypeMeta_fields_def TypeMeta_zero_def)

section \<open>ReplicaSetList\<close>

record ReplicaSetList =
  rsl_TypeMeta :: TypeMeta
  rsl_ListMeta :: ListMeta
  rsl_Items :: "ReplicaSet slice"

definition ReplicaSetList_zero :: ReplicaSetList where
  "ReplicaSetList_zero = \<lparr>rsl_TypeMeta = TypeMeta_zero,
     rsl_ListMeta = ListMeta_zero,
     rsl_Items = None\<rparr>"

definition ReplicaSetList_fields :: "ReplicaSetList field list" where
  "ReplicaSetList_fields =
     TypeMeta_fields rsl_TypeMeta rsl_TypeMeta_update @
     [mk_field ''metadata'' True ListMeta_codec rsl_ListMeta rsl_ListMeta_update,
      mk_field ''items'' False (slice_codec ReplicaSet_codec) rsl_Items rsl_Items_update]"

definition ReplicaSetList_codec :: "ReplicaSetList codec" where
  "ReplicaSetList_codec = struct_codec ReplicaSetList_fields ReplicaSetList_zero"

lemma ReplicaSetList_law [simp]: "json_codec ReplicaSetList_codec"
  unfolding ReplicaSetList_codec_def
  by (rule struct_law) (simp add: fields_ok_def ReplicaSetList_fields_def ReplicaSetList_zero_def TypeMeta_fields_def TypeMeta_zero_def)

lemma ReplicaSetList_codec_simps [simp]:
  "czero ReplicaSetList_codec = ReplicaSetList_zero" "cempty ReplicaSetList_codec = (\<lambda>_. False)"
  "omit_val b ReplicaSetList_codec x = cnrm ReplicaSetList_codec x" "nonnull ReplicaSetList_codec"
  by (simp_all add: ReplicaSetList_codec_def nonnull_struct)

lemma ReplicaSetList_nrm [simp]: "cnrm ReplicaSetList_codec x = x\<lparr>rsl_Items := map_option (map (cnrm ReplicaSet_codec)) (rsl_Items x)\<rparr>"
  by (cases x) (simp add: ReplicaSetList_codec_def struct_codec_def ReplicaSetList_fields_def ReplicaSetList_zero_def mk_field_def TypeMeta_fields_def TypeMeta_zero_def)

section \<open>RollingUpdateDeployment\<close>

record RollingUpdateDeployment =
  rud_MaxUnavailable :: "IntOrString option"
  rud_MaxSurge :: "IntOrString option"

definition RollingUpdateDeployment_zero :: RollingUpdateDeployment where
  "RollingUpdateDeployment_zero = \<lparr>rud_MaxUnavailable = None,
     rud_MaxSurge = None\<rparr>"

definition RollingUpdateDeployment_fields :: "RollingUpdateDeployment field list" where
  "RollingUpdateDeployment_fields =
     [mk_field ''maxUnavailable'' True (ptr_codec IntOrString_codec) rud_MaxUnavailable rud_MaxUnavailable_update,
      mk_field ''maxSurge'' True (ptr_codec IntOrString_codec) rud_MaxSurge rud_MaxSurge_update]"

definition RollingUpdateDeployment_codec :: "RollingUpdateDeployment codec" where
  "RollingUpdateDeployment_codec = struct_codec RollingUpdateDeployment_fields RollingUpdateDeployment_zero"

lemma RollingUpdateDeployment_law [simp]: "json_codec RollingUpdateDeployment_codec"
  unfolding RollingUpdateDeployment_codec_def
  by (rule struct_law) (simp add: fields_ok_def RollingUpdateDeployment_fields_def RollingUpdateDeployment_zero_def)

lemma RollingUpdateDeployment_codec_simps [simp]:
  "czero RollingUpdateDeployment_codec = RollingUpdateDeployment_zero" "cempty RollingUpdateDeployment_codec = (\<lambda>_. False)"
  "omit_val b RollingUpdateDeployment_codec x = cnrm RollingUpdateDeployment_codec x" "nonnull RollingUpdateDeployment_codec"
  by (simp_all add: RollingUpdateDeployment_codec_def nonnull_struct)

lemma RollingUpdateDeployment_nrm [simp]: "cnrm RollingUpdateDeployment_codec x = x\<lparr>rud_MaxUnavailable := map_option (cnrm IntOrString_codec) (rud_MaxUnavailable x),
     rud_MaxSurge := map_option (cnrm IntOrString_codec) (rud_MaxSurge x)\<rparr>"
  by (cases x) (simp add: RollingUpdateDeployment_codec_def struct_codec_def RollingUpdateDeployment_fields_def RollingUpdateDeployment_zero_def mk_field_def)

section \<open>DeploymentStrategy\<close>

record DeploymentStrategy =
  dstr_Type :: string
  dstr_RollingUpdate :: "RollingUpdateDeployment option"

definition DeploymentStrategy_zero :: DeploymentStrategy where
  "DeploymentStrategy_zero = \<lparr>dstr_Type = [],
     dstr_RollingUpdate = None\<rparr>"

definition DeploymentStrategy_fields :: "DeploymentStrategy field list" where
  "DeploymentStrategy_fields =
     [mk_field ''type'' True str_codec dstr_Type dstr_Type_update,
      mk_field ''rollingUpdate'' True (ptr_codec RollingUpdateDeployment_codec) dstr_RollingUpdate dstr_RollingUpdate_update]"

definition DeploymentStrategy_codec :: "DeploymentStrategy codec" where
  "DeploymentStrategy_codec = struct_codec DeploymentStrategy_fields DeploymentStrategy_zero"

lemma DeploymentStrategy_law [simp]: "json_codec DeploymentStrategy_codec"
  unfolding DeploymentStrategy_codec_def
  by (rule struct_law) (simp add: fields_ok_def DeploymentStrategy_fields_def DeploymentStrategy_zero_def)

lemma DeploymentStrategy_codec_simps [simp]:
  "czero DeploymentStrategy_codec = DeploymentStrategy_zero" "cempty DeploymentStrategy_codec = (\<lambda>_. False)"
  "omit_val b DeploymentStrategy_codec x = cnrm DeploymentStrategy_codec x" "nonnull DeploymentStrategy_codec"
  by (simp_all add: DeploymentStrategy_codec_def nonnull_struct)

lemma DeploymentStrategy_nrm [simp]: "cnrm DeploymentStrategy_codec x = x\<lparr>dstr_RollingUpdate := map_option (cnrm RollingUpdateDeployment_codec) (dstr_RollingUpdate x)\<rparr>"
  by (cases x) (simp add: DeploymentStrategy_codec_def struct_codec_def DeploymentStrategy_fields_def DeploymentStrategy_zero_def mk_field_def)

section \<open>DeploymentSpec\<close>

record DeploymentSpec =
  dsp_Replicas :: "int32 option"
  dsp_Selector :: LabelSelector
  dsp_Template :: PodTemplateSpec
  dsp_Strategy :: DeploymentStrategy

definition DeploymentSpec_zero :: DeploymentSpec where
  "DeploymentSpec_zero = \<lparr>dsp_Replicas = None,
     dsp_Selector = LabelSelector_zero,
     dsp_Template = PodTemplateSpec_zero,
     dsp_Strategy = DeploymentStrategy_zero\<rparr>"

definition DeploymentSpec_fields :: "DeploymentSpec field list" where
  "DeploymentSpec_fields =
     [mk_field ''replicas'' True (ptr_codec int_codec) dsp_Replicas dsp_Replicas_update,
      mk_field ''selector'' False LabelSelector_codec dsp_Selector dsp_Selector_update,
      mk_field ''template'' False PodTemplateSpec_codec dsp_Template dsp_Template_update,
      mk_field ''strategy'' True DeploymentStrategy_codec dsp_Strategy dsp_Strategy_update]"

definition DeploymentSpec_codec :: "DeploymentSpec codec" where
  "DeploymentSpec_codec = struct_codec DeploymentSpec_fields DeploymentSpec_zero"

lemma DeploymentSpec_law [simp]: "json_codec DeploymentSpec_codec"
  unfolding DeploymentSpec_codec_def
  by (rule struct_law) (simp add: fields_ok_def DeploymentSpec_fields_def DeploymentSpec_zero_def)

lemma DeploymentSpec_codec_simps [simp]:
  "czero DeploymentSpec_codec = DeploymentSpec_zero" "cempty DeploymentSpec_codec = (\<lambda>_. False)"
  "omit_val b DeploymentSpec_codec x = cnrm DeploymentSpec_codec x" "nonnull DeploymentSpec_codec"
  by (simp_all add: DeploymentSpec_codec_def nonnull_struct)

lemma DeploymentSpec_nrm [simp]: "cnrm DeploymentSpec_codec x = x\<lparr>dsp_Template := cnrm PodTemplateSpec_codec (dsp_Template x),
     dsp_Strategy := cnrm DeploymentStrategy_codec (dsp_Strategy x)\<rparr>"
  by (cases x) (simp add: DeploymentSpec_codec_def struct_codec_def DeploymentSpec_fields_def DeploymentSpec_zero_def mk_field_def)

section \<open>DeploymentStatus\<close>

record DeploymentStatus =
  dst_ObservedGeneration :: int64
  dst_Replicas :: int32
  dst_UpdatedReplicas :: int32
  dst_ReadyReplicas :: int32
  dst_AvailableReplicas :: int32
  dst_UnavailableReplicas :: int32

definition DeploymentStatus_zero :: DeploymentStatus where
  "DeploymentStatus_zero = \<lparr>dst_ObservedGeneration = 0,
     dst_Replicas = 0,
     dst_UpdatedReplicas = 0,
     dst_ReadyReplicas = 0,
     dst_AvailableReplicas = 0,
     dst_UnavailableReplicas = 0\<rparr>"

definition DeploymentStatus_fields :: "DeploymentStatus field list" where
  "DeploymentStatus_fields =
     [mk_field ''observedGeneration'' True int_codec dst_ObservedGeneration dst_ObservedGeneration_update,
      mk_field ''replicas'' True int_codec dst_Replicas dst_Replicas_update,
      mk_field ''updatedReplicas'' True int_codec dst_UpdatedReplicas dst_UpdatedReplicas_update,
      mk_field ''readyReplicas'' True int_codec dst_ReadyReplicas dst_ReadyReplicas_update,
      mk_field ''availableReplicas'' True int_codec dst_AvailableReplicas dst_AvailableReplicas_update,
      mk_field ''unavailableReplicas'' True int_codec dst_UnavailableReplicas dst_UnavailableReplicas_update]"

definition DeploymentStatus_codec :: "DeploymentStatus codec" where
  "DeploymentStatus_codec = struct_codec DeploymentStatus_fields DeploymentStatus_zero"

lemma DeploymentStatus_law [simp]: "json_codec DeploymentStatus_codec"
  unfolding DeploymentStatus_codec_def
  by (rule struct_law) (simp add: fields_ok_def DeploymentStatus_fields_def DeploymentStatus_zero_def)

lemma DeploymentStatus_codec_simps [simp]:
  "czero DeploymentStatus_codec = DeploymentStatus_zero" "cempty DeploymentStatus_codec = (\<lambda>_. False)"
  "omit_val b DeploymentStatus_codec x = cnrm DeploymentStatus_codec x" "nonnull DeploymentStatus_codec"
  by (simp_all add: DeploymentStatus_codec_def nonnull_struct)

lemma DeploymentStatus_nrm [simp]: "cnrm DeploymentStatus_codec = id"
  by (rule ext, rule DeploymentStatus.equality)
     (simp_all add: DeploymentStatus_codec_def struct_codec_def DeploymentStatus_fields_def DeploymentStatus_zero_def mk_field_def)

section \<open>Deployment\<close>

record Deployment =
  dep_TypeMeta :: TypeMeta
  dep_ObjectMeta :: ObjectMeta
  dep_Spec :: DeploymentSpec
  dep_Status :: DeploymentStatus

definition Deployment_zero :: Deployment where
  "Deployment_zero = \<lparr>dep_TypeMeta = TypeMeta_zero,
     dep_ObjectMeta = ObjectMeta_zero,
     dep_Spec = DeploymentSpec_zero,
     dep_Status = DeploymentStatus_zero\<rparr>"

definition Deployment_fields :: "Deployment field list" where
  "Deployment_fields =
     TypeMeta_fields dep_TypeMeta dep_TypeMeta_update @
     [mk_field ''metadata'' True ObjectMeta_codec dep_ObjectMeta dep_ObjectMeta_update,
      mk_field ''spec'' True DeploymentSpec_codec dep_Spec dep_Spec_update,
      mk_field ''status'' True DeploymentStatus_codec dep_Status dep_Status_update]"

definition Deployment_codec :: "Deployment codec" where
  "Deployment_codec = struct_codec Deployment_fields Deployment_zero"

lemma Deployment_law [simp]: "json_codec Deployment_codec"
  unfolding Deployment_codec_def
  by (rule struct_law) (simp add: fields_ok_def Deployment_fields_def Deployment_zero_def TypeMeta_fields_def TypeMeta_zero_def)

lemma Deployment_codec_simps [simp]:
  "czero Deployment_codec = Deployment_zero" "cempty Deployment_codec = (\<lambda>_. False)"
  "omit_val b Deployment_codec x = cnrm Deployment_codec x" "nonnull Deployment_codec"
  by (simp_all add: Deployment_codec_def nonnull_struct)

lemma Deployment_nrm [simp]: "cnrm Deployment_codec x = x\<lparr>dep_Spec := cnrm DeploymentSpec_codec (dep_Spec x)\<rparr>"
  by (cases x) (simp add: Deployment_codec_def struct_codec_def Deployment_fields_def Deployment_zero_def mk_field_def TypeMeta_fields_def TypeMeta_zero_def)

section \<open>DeploymentList\<close>

record DeploymentList =
  depl_TypeMeta :: TypeMeta
  depl_Items :: "Deployment slice"

definition DeploymentList_zero :: DeploymentList where
  "DeploymentList_zero = \<lparr>depl_TypeMeta = TypeMeta_zero,
     depl_Items = None\<rparr>"

definition DeploymentList_fields :: "DeploymentList field list" where
  "DeploymentList_fields =
     TypeMeta_fields depl_TypeMeta depl_TypeMeta_update @
     [mk_field ''items'' False (slice_codec Deployment_codec) depl_Items depl_Items_update]"

definition DeploymentList_codec :: "DeploymentList codec" where
  "DeploymentList_codec = struct_codec DeploymentList_fields DeploymentList_zero"

lemma DeploymentList_law [simp]: "json_codec DeploymentList_codec"
  unfolding DeploymentList_codec_def
  by (rule struct_law) (simp add: fields_ok_def DeploymentList_fields_def DeploymentList_zero_def TypeMeta_fields_def TypeMeta_zero_def)

lemma DeploymentList_codec_simps [simp]:
  "czero DeploymentList_codec = DeploymentList_zero" "cempty DeploymentList_codec = (\<lambda>_. False)"
  "omit_val b DeploymentList_codec x = cnrm DeploymentList_codec x" "nonnull DeploymentList_codec"
  by (simp_all add: DeploymentList_codec_def nonnull_struct)

lemma DeploymentList_nrm [simp]: "cnrm DeploymentList_codec x = x\<lparr>depl_Items := map_option (map (cnrm Deployment_codec)) (depl_Items x)\<rparr>"
  by (cases x) (simp add: DeploymentList_codec_def struct_codec_def DeploymentList_fields_def DeploymentList_zero_def mk_field_def TypeMeta_fields_def TypeMeta_zero_def)

section \<open>ServicePort\<close>

record ServicePort =
  sp_Name :: string
  sp_Protocol :: string
  sp_Port :: int32
  sp_TargetPort :: IntOrString
  sp_NodePort :: int32

definition ServicePort_zero :: ServicePort where
  "ServicePort_zero = \<lparr>sp_Name = [],
     sp_Protocol = [],
     sp_Port = 0,
     sp_TargetPort = IntOrString_zero,
     sp_NodePort = 0\<rparr>"

definition ServicePort_fields :: "ServicePort field list" where
  "ServicePort_fields =
     [mk_field ''name'' True str_codec sp_Name sp_Name_update,
      mk_field ''protocol'' True str_codec sp_Protocol sp_Protocol_update,
      mk_field ''port'' False int_codec sp_Port sp_Port_update,
      mk_field ''targetPort'' True IntOrString_codec sp_TargetPort sp_TargetPort_update,
      mk_field ''nodePort'' True int_codec sp_NodePort sp_NodePort_update]"

definition ServicePort_codec :: "ServicePort codec" where
  "ServicePort_codec = struct_codec ServicePort_fields ServicePort_zero"

lemma ServicePort_law [simp]: "json_codec ServicePort_codec"
  unfolding ServicePort_codec_def
  by (rule struct_law) (simp add: fields_ok_def ServicePort_fields_def ServicePort_zero_def)

lemma ServicePort_codec_simps [simp]:
  "czero ServicePort_codec = ServicePort_zero" "cempty ServicePort_codec = (\<lambda>_. False)"
  "omit_val b ServicePort_codec x = cnrm ServicePort_codec x" "nonnull ServicePort_codec"
  by (simp_all add: ServicePort_codec_def nonnull_struct)

lemma ServicePort_nrm [simp]: "cnrm ServicePort_codec x = x\<lparr>sp_TargetPort := cnrm IntOrString_codec (sp_TargetPort x)\<rparr>"
  by (cases x) (simp add: ServicePort_codec_def struct_codec_def ServicePort_fields_def ServicePort_zero_def mk_field_def)

section \<open>ServiceSpec\<close>

record ServiceSpec =
  ssp_Selector :: strmap
  ssp_Ports :: "ServicePort list"
  ssp_Type :: string
  ssp_ClusterIP :: string

definition ServiceSpec_zero :: ServiceSpec where
  "ServiceSpec_zero = \<lparr>ssp_Selector = fmempty,
     ssp_Ports = [],
     ssp_Type = [],
     ssp_ClusterIP = []\<rparr>"

definition ServiceSpec_fields :: "ServiceSpec field list" where
  "ServiceSpec_fields =
     [mk_field ''selector'' True map_codec ssp_Selector ssp_Selector_update,
      mk_field ''ports'' True (list_codec ServicePort_codec) ssp_Ports ssp_Ports_update,
      mk_field ''type'' True str_codec ssp_Type ssp_Type_update,
      mk_field ''clusterIP'' True str_codec ssp_ClusterIP ssp_ClusterIP_update]"

definition ServiceSpec_codec :: "ServiceSpec codec" where
  "ServiceSpec_codec = struct_codec ServiceSpec_fields ServiceSpec_zero"

lemma ServiceSpec_law [simp]: "json_codec ServiceSpec_codec"
  unfolding ServiceSpec_codec_def
  by (rule struct_law) (simp add: fields_ok_def ServiceSpec_fields_def ServiceSpec_zero_def)

lemma ServiceSpec_codec_simps [simp]:
  "czero ServiceSpec_codec = ServiceSpec_zero" "cempty ServiceSpec_codec = (\<lambda>_. False)"
  "omit_val b ServiceSpec_codec x = cnrm ServiceSpec_codec x" "nonnull ServiceSpec_codec"
  by (simp_all add: ServiceSpec_codec_def nonnull_struct)

lemma ServiceSpec_nrm [simp]: "cnrm ServiceSpec_codec x = x\<lparr>ssp_Ports := map (cnrm ServicePort_codec) (ssp_Ports x)\<rparr>"
  by (cases x) (simp add: ServiceSpec_codec_def struct_codec_def ServiceSpec_fields_def ServiceSpec_zero_def mk_field_def)

section \<open>LoadBalancerIngress\<close>

record LoadBalancerIngress =
  lbi_IP :: string
  lbi_Hostname :: string

definition LoadBalancerIngress_zero :: LoadBalancerIngress where
  "LoadBalancerIngress_zero = \<lparr>lbi_IP = [],
     lbi_Hostname = []\<rparr>"

definition LoadBalancerIngress_fields :: "LoadBalancerIngress field list" where
  "LoadBalancerIngress_fields =
     [mk_field ''ip'' True str_codec lbi_IP lbi_IP_update,
      mk_field ''hostname'' True str_codec lbi_Hostname lbi_Hostname_update]"

definition LoadBalancerIngress_codec :: "LoadBalancerIngress codec" where
  "LoadBalancerIngress_codec = struct_codec LoadBalancerIngress_fields LoadBalancerIngress_zero"

lemma LoadBalancerIngress_law [simp]: "json_codec LoadBalancerIngress_codec"
  unfolding LoadBalancerIngress_codec_def
  by (rule struct_law) (simp add: fields_ok_def LoadBalancerIngress_fields_def LoadBalancerIngress_zero_def)

lemma LoadBalancerIngress_codec_simps [simp]:
  "czero LoadBalancerIngress_codec = LoadBalancerIngress_zero" "cempty LoadBalancerIngress_codec = (\<lambda>_. False)"
  "omit_val b LoadBalancerIngress_codec x = cnrm LoadBalancerIngress_codec x" "nonnull LoadBalancerIngress_codec"
  by (simp_all add: LoadBalancerIngress_codec_def nonnull_struct)

lemma LoadBalancerIngress_nrm [simp]: "cnrm LoadBalancerIngress_codec = id"
  by (rule ext, rule LoadBalancerIngress.equality)
     (simp_all add: LoadBalancerIngress_codec_def struct_codec_def LoadBalancerIngress_fields_def LoadBalancerIngress_zero_def mk_field_def)

section \<open>LoadBalancerStatus\<close>

record LoadBalancerStatus =
  lbs_Ingress :: "LoadBalancerIngress list"

definition LoadBalancerStatus_zero :: LoadBalancerStatus where
  "LoadBalancerStatus_zero = \<lparr>lbs_Ingress = []\<rparr>"

definition LoadBalancerStatus_fields :: "LoadBalancerStatus field list" where
  "LoadBalancerStatus_fields =
     [mk_field ''ingress'' True (list_codec LoadBalancerIngress_codec) lbs_Ingress lbs_Ingress_update]"

definition LoadBalancerStatus_codec :: "LoadBalancerStatus codec" where
  "LoadBalancerStatus_codec = struct_codec LoadBalancerStatus_fields LoadBalancerStatus_zero"

lemma LoadBalancerStatus_law [simp]: "json_codec LoadBalancerStatus_codec"
  unfolding LoadBalancerStatus_codec_def
  by (rule struct_law) (simp add: fields_ok_def LoadBalancerStatus_fields_def LoadBalancerStatus_zero_def)

lemma LoadBalancerStatus_codec_simps [simp]:
  "czero LoadBalancerStatus_codec = LoadBalancerStatus_zero" "cempty LoadBalancerStatus_codec = (\<lambda>_. False)"
  "omit_val b LoadBalancerStatus_codec x = cnrm LoadBalancerStatus_codec x" "nonnull LoadBalancerStatus_codec"
  by (simp_all add: LoadBalancerStatus_codec_def nonnull_struct)

lemma LoadBalancerStatus_nrm [simp]: "cnrm LoadBalancerStatus_codec = id"
  by (rule ext, rule LoadBalancerStatus.equality)
     (simp_all add: LoadBalancerStatus_codec_def struct_codec_def LoadBalancerStatus_fields_def LoadBalancerStatus_zero_def mk_field_def)

section \<open>ServiceStatus\<close>

record ServiceStatus =
  sst_LoadBalancer :: LoadBalancerStatus

definition ServiceStatus_zero :: ServiceStatus where
  "ServiceStatus_zero = \<lparr>sst_LoadBalancer = LoadBalancerStatus_zero\<rparr>"

definition ServiceStatus_fields :: "ServiceStatus field list" where
  "ServiceStatus_fields =
     [mk_field ''loadBalancer'' True LoadBalancerStatus_codec sst_LoadBalancer sst_LoadBalancer_update]"

definition ServiceStatus_codec :: "ServiceStatus codec" where
  "ServiceStatus_codec = struct_codec ServiceStatus_fields ServiceStatus_zero"

lemma ServiceStatus_law [simp]: "json_codec ServiceStatus_codec"
  unfolding ServiceStatus_codec_def
  by (rule struct_law) (simp add: fields_ok_def ServiceStatus_fields_def ServiceStatus_zero_def)

lemma ServiceStatus_codec_simps [simp]:
  "czero ServiceStatus_codec = ServiceStatus_zero" "cempty ServiceStatus_codec = (\<lambda>_. False)"
  "omit_val b ServiceStatus_codec x = cnrm ServiceStatus_codec x" "nonnull ServiceStatus_codec"
  by (simp_all add: ServiceStatus_codec_def nonnull_struct)

lemma ServiceStatus_nrm [simp]: "cnrm ServiceStatus_codec = id"
  by (rule ext, rule ServiceStatus.equality)
     (simp_all add: ServiceStatus_codec_def struct_codec_def ServiceStatus_fields_def ServiceStatus_zero_def mk_field_def)

section \<open>Service\<close>

record Service =
  svc_TypeMeta :: TypeMeta
  svc_ObjectMeta :: ObjectMeta
  svc_Spec :: ServiceSpec
  svc_Status :: ServiceStatus

definition Service_zero :: Service where
  "Service_zero = \<lparr>svc_TypeMeta = TypeMeta_zero,
     svc_ObjectMeta = ObjectMeta_zero,
     svc_Spec = ServiceSpec_zero,
     svc_Status = ServiceStatus_zero\<rparr>"

definition Service_fields :: "Service field list" where
  "Service_fields =
     TypeMeta_fields svc_TypeMeta svc_TypeMeta_update @
     [mk_field ''metadata'' True ObjectMeta_codec svc_ObjectMeta svc_ObjectMeta_update,
      mk_field ''spec'' True ServiceSpec_codec svc_Spec svc_Spec_update,
      mk_field ''status'' True ServiceStatus_codec svc_Status svc_Status_update]"

definition Service_codec :: "Service codec" where
  "Service_codec = struct_codec Service_fields Service_zero"

lemma Service_law [simp]: "json_codec Service_codec"
  unfolding Service_codec_def
  by (rule struct_law) (simp add: fields_ok_def Service_fields_def Service_zero_def TypeMeta_fields_def TypeMeta_zero_def)

lemma Service_codec_simps [simp]:
  "czero Service_codec = Service_zero" "cempty Service_codec = (\<lambda>_. False)"
  "omit_val b Service_codec x = cnrm Service_codec x" "nonnull Service_codec"
  by (simp_all add: Service_codec_def nonnull_struct)

lemma Service_nrm [simp]: "cnrm Service_codec x = x\<lparr>svc_Spec := cnrm ServiceSpec_codec (svc_Spec x)\<rparr>"
  by (cases x) (simp add: Service_codec_def struct_codec_def Service_fields_def Service_zero_def mk_field_def TypeMeta_fields_def TypeMeta_zero_def)

section \<open>ServiceList\<close>

record ServiceList =
  svcl_TypeMeta :: TypeMeta
  svcl_ListMeta :: ListMeta
  svcl_Items :: "Service slice"

definition ServiceList_zero :: ServiceList where
  "ServiceList_zero = \<lparr>svcl_TypeMeta = TypeMeta_zero,
     svcl_ListMeta = ListMeta_zero,
     svcl_Items = None\<rparr>"

definition ServiceList_fields :: "ServiceList field list" where
  "ServiceList_fields =
     TypeMeta_fields svcl_TypeMeta svcl_TypeMeta_update @
     [mk_field ''metadata'' True ListMeta_codec svcl_ListMeta svcl_ListMeta_update,
      mk_field ''items'' False (slice_codec Service_codec) svcl_Items svcl_Items_update]"

definition ServiceList_codec :: "ServiceList codec" where
  "ServiceList_codec = struct_codec ServiceList_fields ServiceList_zero"

lemma ServiceList_law [simp]: "json_codec ServiceList_codec"
  unfolding ServiceList_codec_def
  by (rule struct_law) (simp add: fields_ok_def ServiceList_fields_def ServiceList_zero_def TypeMeta_fields_def TypeMeta_zero_def)

lemma ServiceList_codec_simps [simp]:
  "czero ServiceList_codec = ServiceList_zero" "cempty ServiceList_codec = (\<lambda>_. False)"
  "omit_val b ServiceList_codec x = cnrm ServiceList_codec x" "nonnull ServiceList_codec"
  by (simp_all add: ServiceList_codec_def nonnull_struct)

lemma ServiceList_nrm [simp]: "cnrm ServiceList_codec x = x\<lparr>svcl_Items := map_option (map (cnrm Service_codec)) (svcl_Items x)\<rparr>"
  by (cases x) (simp add: ServiceList_codec_def struct_codec_def ServiceList_fields_def ServiceList_zero_def mk_field_def TypeMeta_fields_def TypeMeta_zero_def)

section \<open>EndpointAddress\<close>

record EndpointAddress =
  ea_IP :: string
  ea_NodeName :: string

definition EndpointAddress_zero :: EndpointAddress where
  "EndpointAddress_zero = \<lparr>ea_IP = [],
     ea_NodeName = []\<rparr>"

definition EndpointAddress_fields :: "EndpointAddress field list" where
  "EndpointAddress_fields =
     [mk_field ''ip'' False str_codec ea_IP ea_IP_update,
      mk_field ''nodeName'' True str_codec ea_NodeName ea_NodeName_update]"

definition EndpointAddress_codec :: "EndpointAddress codec" where
  "EndpointAddress_codec = struct_codec EndpointAddress_fields EndpointAddress_zero"

lemma EndpointAddress_law [simp]: "json_codec EndpointAddress_codec"
  unfolding EndpointAddress_codec_def
  by (rule struct_law) (simp add: fields_ok_def EndpointAddress_fields_def EndpointAddress_zero_def)

lemma EndpointAddress_codec_simps [simp]:
  "czero EndpointAddress_codec = EndpointAddress_zero" "cempty EndpointAddress_codec = (\<lambda>_. False)"
  "omit_val b EndpointAddress_codec x = cnrm EndpointAddress_codec x" "nonnull EndpointAddress_codec"
  by (simp_all add: EndpointAddress_codec_def nonnull_struct)

lemma EndpointAddress_nrm [simp]: "cnrm EndpointAddress_codec = id"
  by (rule ext, rule EndpointAddress.equality)
     (simp_all add: EndpointAddress_codec_def struct_codec_def EndpointAddress_fields_def EndpointAddress_zero_def mk_field_def)

section \<open>EndpointPort\<close>

record EndpointPort =
  epp_Name :: string
  epp_Port :: int32
  epp_Protocol :: string

definition EndpointPort_zero :: EndpointPort where
  "EndpointPort_zero = \<lparr>epp_Name = [],
     epp_Port = 0,
     epp_Protocol = []\<rparr>"

definition EndpointPort_fields :: "EndpointPort field list" where
  "EndpointPort_fields =
     [mk_field ''name'' True str_codec epp_Name epp_Name_update,
      mk_field ''port'' False int_codec epp_Port epp_Port_update,
      mk_field ''protocol'' True str_codec epp_Protocol epp_Protocol_update]"

definition EndpointPort_codec :: "EndpointPort codec" where
  "EndpointPort_codec = struct_codec EndpointPort_fields EndpointPort_zero"

lemma EndpointPort_law [simp]: "json_codec EndpointPort_codec"
  unfolding EndpointPort_codec_def
  by (rule struct_law) (simp add: fields_ok_def EndpointPort_fields_def EndpointPort_zero_def)

lemma EndpointPort_codec_simps [simp]:
  "czero EndpointPort_codec = EndpointPort_zero" "cempty EndpointPort_codec = (\<lambda>_. False)"
  "omit_val b EndpointPort_codec x = cnrm EndpointPort_codec x" "nonnull EndpointPort_codec"
  by (simp_all add: EndpointPort_codec_def nonnull_struct)

lemma EndpointPort_nrm [simp]: "cnrm EndpointPort_codec = id"
  by (rule ext, rule EndpointPort.equality)
     (simp_all add: EndpointPort_codec_def struct_codec_def EndpointPort_fields_def EndpointPort_zero_def mk_field_def)

section \<open>EndpointSubset\<close>

record EndpointSubset =
  es_Addresses :: "EndpointAddress slice"
  es_Ports :: "EndpointPort slice"

definition EndpointSubset_zero :: EndpointSubset where
  "EndpointSubset_zero = \<lparr>es_Addresses = None,
     es_Ports = None\<rparr>"

definition EndpointSubset_fields :: "EndpointSubset field list" where
  "EndpointSubset_fields =
     [mk_field ''addresses'' True (slice_codec EndpointAddress_codec) es_Addresses es_Addresses_update,
      mk_field ''ports'' True (slice_codec EndpointPort_codec) es_Ports es_Ports_update]"

definition EndpointSubset_codec :: "EndpointSubset codec" where
  "EndpointSubset_codec = struct_codec EndpointSubset_fields EndpointSubset_zero"

lemma EndpointSubset_law [simp]: "json_codec EndpointSubset_codec"
  unfolding EndpointSubset_codec_def
  by (rule struct_law) (simp add: fields_ok_def EndpointSubset_fields_def EndpointSubset_zero_def)

lemma EndpointSubset_codec_simps [simp]:
  "czero EndpointSubset_codec = EndpointSubset_zero" "cempty EndpointSubset_codec = (\<lambda>_. False)"
  "omit_val b EndpointSubset_codec x = cnrm EndpointSubset_codec x" "nonnull EndpointSubset_codec"
  by (simp_all add: EndpointSubset_codec_def nonnull_struct)

lemma EndpointSubset_nrm [simp]: "cnrm EndpointSubset_codec x = x\<lparr>es_Addresses := slice_of (elems (es_Addresses x)),
     es_Ports := slice_of (elems (es_Ports x))\<rparr>"
  by (cases x) (simp add: EndpointSubset_codec_def struct_codec_def EndpointSubset_fields_def EndpointSubset_zero_def mk_field_def)

section \<open>Endpoints\<close>

record Endpoints =
  ep_TypeMeta :: TypeMeta
  ep_ObjectMeta :: ObjectMeta
  ep_Subsets :: "EndpointSubset slice"

definition Endpoints_zero :: Endpoints where
  "Endpoints_zero = \<lparr>ep_TypeMeta = TypeMeta_zero,
     ep_ObjectMeta = ObjectMeta_zero,
     ep_Subsets = None\<rparr>"

definition Endpoints_fields :: "Endpoints field list" where
  "Endpoints_fields =
     TypeMeta_fields ep_TypeMeta ep_TypeMeta_update @
     [mk_field ''metadata'' True ObjectMeta_codec ep_ObjectMeta ep_ObjectMeta_update,
      mk_field ''subsets'' True (slice_codec EndpointSubset_codec) ep_Subsets ep_Subsets_update]"

definition Endpoints_codec :: "Endpoints codec" where
  "Endpoints_codec = struct_codec Endpoints_fields Endpoints_zero"

lemma Endpoints_law [simp]: "json_codec Endpoints_codec"
  unfolding Endpoints_codec_def
  by (rule struct_law) (simp add: fields_ok_def Endpoints_fields_def Endpoints_zero_def TypeMeta_fields_def TypeMeta_zero_def)

lemma Endpoints_codec_simps [simp]:
  "czero Endpoints_codec = Endpoints_zero" "cempty Endpoints_codec = (\<lambda>_. False)"
  "omit_val b Endpoints_codec x = cnrm Endpoints_codec x" "nonnull Endpoints_codec"
  by (simp_all add: Endpoints_codec_def nonnull_struct)

lemma Endpoints_nrm [simp]: "cnrm Endpoints_codec x = x\<lparr>ep_Subsets := slice_of (map (cnrm EndpointSubset_codec) (elems (ep_Subsets x)))\<rparr>"
  by (cases x) (simp add: Endpoints_codec_def struct_codec_def Endpoints_fields_def Endpoints_zero_def mk_field_def TypeMeta_fields_def TypeMeta_zero_def)

section \<open>EndpointsList\<close>

record EndpointsList =
  epl_TypeMeta :: TypeMeta
  epl_ListMeta :: ListMeta
  epl_Items :: "Endpoints slice"

definition EndpointsList_zero :: EndpointsList where
  "EndpointsList_zero = \<lparr>epl_TypeMeta = TypeMeta_zero,
     epl_ListMeta = ListMeta_zero,
     epl_Items = None\<rparr>"

definition EndpointsList_fields :: "EndpointsList field list" where
  "EndpointsList_fields =
     TypeMeta_fields epl_TypeMeta epl_TypeMeta_update @
     [mk_field ''metadata'' True ListMeta_codec epl_ListMeta epl_ListMeta_update,
      mk_field ''items'' False (slice_codec Endpoints_codec) epl_Items epl_Items_update]"

definition EndpointsList_codec :: "EndpointsList codec" where
  "EndpointsList_codec = struct_codec EndpointsList_fields EndpointsList_zero"

lemma EndpointsList_law [simp]: "json_codec EndpointsList_codec"
  unfolding EndpointsList_codec_def
  by (rule struct_law) (simp add: fields_ok_def EndpointsList_fields_def EndpointsList_zero_def TypeMeta_fields_def TypeMeta_zero_def)

lemma EndpointsList_codec_simps [simp]:
  "czero EndpointsList_codec = EndpointsList_zero" "cempty EndpointsList_codec = (\<lambda>_. False)"
  "omit_val b EndpointsList_codec x = cnrm EndpointsList_codec x" "nonnull EndpointsList_codec"
  by (simp_all add: EndpointsList_codec_def nonnull_struct)

lemma EndpointsList_nrm [simp]: "cnrm EndpointsList_codec x = x\<lparr>epl_Items := map_option (map (cnrm Endpoints_codec)) (epl_Items x)\<rparr>"
  by (cases x) (simp add: EndpointsList_codec_def struct_codec_def EndpointsList_fields_def EndpointsList_zero_def mk_field_def TypeMeta_fields_def TypeMeta_zero_def)

section \<open>LeaseSpec\<close>

record LeaseSpec =
  lsp_HolderIdentity :: "string option"
  lsp_LeaseDurationSeconds :: "int32 option"
  lsp_AcquireTime :: "gotime option"
  lsp_RenewTime :: "gotime option"
  lsp_LeaseTransitions :: "int32 option"

definition LeaseSpec_zero :: LeaseSpec where
  "LeaseSpec_zero = \<lparr>lsp_HolderIdentity = None,
     lsp_LeaseDurationSeconds = None,
     lsp_AcquireTime = None,
     lsp_RenewTime = None,
     lsp_LeaseTransitions = None\<rparr>"

definition LeaseSpec_fields :: "LeaseSpec field list" where
  "LeaseSpec_fields =
     [mk_field ''holderIdentity'' True (ptr_codec str_codec) lsp_HolderIdentity lsp_HolderIdentity_update,
      mk_field ''leaseDurationSeconds'' True (ptr_codec int_codec) lsp_LeaseDurationSeconds lsp_LeaseDurationSeconds_update,
      mk_field ''acquireTime'' True (ptr_codec time_codec) lsp_AcquireTime lsp_AcquireTime_update,
      mk_field ''renewTime'' True (ptr_codec time_codec) lsp_RenewTime lsp_RenewTime_update,
      mk_field ''leaseTransitions'' True (ptr_codec int_codec) lsp_LeaseTransitions lsp_LeaseTransitions_update]"

definition LeaseSpec_codec :: "LeaseSpec codec" where
  "LeaseSpec_codec = struct_codec LeaseSpec_fields LeaseSpec_zero"

lemma LeaseSpec_law [simp]: "json_codec LeaseSpec_codec"
  unfolding LeaseSpec_codec_def
  by (rule struct_law) (simp add: fields_ok_def LeaseSpec_fields_def LeaseSpec_zero_def)

lemma LeaseSpec_codec_simps [simp]:
  "czero LeaseSpec_codec = LeaseSpec_zero" "cempty LeaseSpec_codec = (\<lambda>_. False)"
  "omit_val b LeaseSpec_codec x = cnrm LeaseSpec_codec x" "nonnull LeaseSpec_codec"
  by (simp_all add: LeaseSpec_codec_def nonnull_struct)

lemma LeaseSpec_nrm [simp]: "cnrm LeaseSpec_codec = id"
  by (rule ext, rule LeaseSpec.equality)
     (simp_all add: LeaseSpec_codec_def struct_codec_def LeaseSpec_fields_def LeaseSpec_zero_def mk_field_def)

section \<open>Lease\<close>

record Lease =
  lease_TypeMeta :: TypeMeta
  lease_ObjectMeta :: ObjectMeta
  lease_Spec :: LeaseSpec

definition Lease_zero :: Lease where
  "Lease_zero = \<lparr>lease_TypeMeta = TypeMeta_zero,
     lease_ObjectMeta = ObjectMeta_zero,
     lease_Spec = LeaseSpec_zero\<rparr>"

definition Lease_fields :: "Lease field list" where
  "Lease_fields =
     TypeMeta_fields lease_TypeMeta lease_TypeMeta_update @
     [mk_field ''metadata'' True ObjectMeta_codec lease_ObjectMeta lease_ObjectMeta_update,
      mk_field ''spec'' True LeaseSpec_codec lease_Spec lease_Spec_update]"

definition Lease_codec :: "Lease codec" where
  "Lease_codec = struct_codec Lease_fields Lease_zero"

lemma Lease_law [simp]: "json_codec Lease_codec"
  unfolding Lease_codec_def
  by (rule struct_law) (simp add: fields_ok_def Lease_fields_def Lease_zero_def TypeMeta_fields_def TypeMeta_zero_def)

lemma Lease_codec_simps [simp]:
  "czero Lease_codec = Lease_zero" "cempty Lease_codec = (\<lambda>_. False)"
  "omit_val b Lease_codec x = cnrm Lease_codec x" "nonnull Lease_codec"
  by (simp_all add: Lease_codec_def nonnull_struct)

lemma Lease_nrm [simp]: "cnrm Lease_codec = id"
  by (rule ext, rule Lease.equality)
     (simp_all add: Lease_codec_def struct_codec_def Lease_fields_def Lease_zero_def mk_field_def TypeMeta_fields_def TypeMeta_zero_def)

section \<open>LeaseList\<close>

record LeaseList =
  leasel_TypeMeta :: TypeMeta
  leasel_ListMeta :: ListMeta
  leasel_Items :: "Lease slice"

definition LeaseList_zero :: LeaseList where
  "LeaseList_zero = \<lparr>leasel_TypeMeta = TypeMeta_zero,
     leasel_ListMeta = ListMeta_zero,
     leasel_Items = None\<rparr>"

definition LeaseList_fields :: "LeaseList field list" where
  "LeaseList_fields =
     TypeMeta_fields leasel_TypeMeta leasel_TypeMeta_update @
     [mk_field ''metadata'' True ListMeta_codec leasel_ListMeta leasel_ListMeta_update,
      mk_field ''items'' False (slice_codec Lease_codec) leasel_Items leasel_Items_update]"

definition LeaseList_codec :: "LeaseList codec" where
  "LeaseList_codec = struct_codec LeaseList_fields LeaseList_zero"

lemma LeaseList_law [simp]: "json_codec LeaseList_codec"
  unfolding LeaseList_codec_def
  by (rule struct_law) (simp add: fields_ok_def LeaseList_fields_def LeaseList_zero_def TypeMeta_fields_def TypeMeta_zero_def)

lemma LeaseList_codec_simps [simp]:
  "czero LeaseList_codec = LeaseList_zero" "cempty LeaseList_codec = (\<lambda>_. False)"
  "omit_val b LeaseList_codec x = cnrm LeaseList_codec x" "nonnull LeaseList_codec"
  by (simp_all add: LeaseList_codec_def nonnull_struct)

lemma LeaseList_nrm [simp]: "cnrm LeaseList_codec = id"
  by (rule ext, rule LeaseList.equality)
     (simp_all add: LeaseList_codec_def struct_codec_def LeaseList_fields_def LeaseList_zero_def mk_field_def TypeMeta_fields_def TypeMeta_zero_def)

end
