(* ===== verification/Objects.thy ===== *)
theory Objects
  imports ApiTypes
begin

text \<open>
  The dynamic types the API server stores: an \<open>interface{}\<close> holding a pointer to one of the
  seven resource kinds, with marshalling by its dynamic type. \<open>fresh\<close> is the zero value of the
  same type (\<open>reflect.New\<close>, \<open>&api.Pod{}\<close>), \<open>obj_nrm\<close> the value after a trip through JSON.
\<close>

datatype obj =
    OPod Pod
  | ONode Node
  | OReplicaSet ReplicaSet
  | ODeployment Deployment
  | OService Service
  | OEndpoints Endpoints
  | OLease Lease

fun fresh :: "obj \<Rightarrow> obj" where
  "fresh (OPod _) = OPod Pod_zero"
| "fresh (ONode _) = ONode Node_zero"
| "fresh (OReplicaSet _) = OReplicaSet ReplicaSet_zero"
| "fresh (ODeployment _) = ODeployment Deployment_zero"
| "fresh (OService _) = OService Service_zero"
| "fresh (OEndpoints _) = OEndpoints Endpoints_zero"
| "fresh (OLease _) = OLease Lease_zero"

fun marshal_obj :: "obj \<Rightarrow> string option" where
  "marshal_obj (OPod x) = marshal Pod_codec x"
| "marshal_obj (ONode x) = marshal Node_codec x"
| "marshal_obj (OReplicaSet x) = marshal ReplicaSet_codec x"
| "marshal_obj (ODeployment x) = marshal Deployment_codec x"
| "marshal_obj (OService x) = marshal Service_codec x"
| "marshal_obj (OEndpoints x) = marshal Endpoints_codec x"
| "marshal_obj (OLease x) = marshal Lease_codec x"

fun unmarshal_obj :: "string \<Rightarrow> obj \<Rightarrow> obj option" where
  "unmarshal_obj s (OPod x) = map_option OPod (unmarshal Pod_codec s x)"
| "unmarshal_obj s (ONode x) = map_option ONode (unmarshal Node_codec s x)"
| "unmarshal_obj s (OReplicaSet x) = map_option OReplicaSet (unmarshal ReplicaSet_codec s x)"
| "unmarshal_obj s (ODeployment x) = map_option ODeployment (unmarshal Deployment_codec s x)"
| "unmarshal_obj s (OService x) = map_option OService (unmarshal Service_codec s x)"
| "unmarshal_obj s (OEndpoints x) = map_option OEndpoints (unmarshal Endpoints_codec s x)"
| "unmarshal_obj s (OLease x) = map_option OLease (unmarshal Lease_codec s x)"

fun decode_obj :: "string \<Rightarrow> obj \<Rightarrow> obj option" where
  "decode_obj s (OPod x) = map_option OPod (decode Pod_codec s x)"
| "decode_obj s (ONode x) = map_option ONode (decode Node_codec s x)"
| "decode_obj s (OReplicaSet x) = map_option OReplicaSet (decode ReplicaSet_codec s x)"
| "decode_obj s (ODeployment x) = map_option ODeployment (decode Deployment_codec s x)"
| "decode_obj s (OService x) = map_option OService (decode Service_codec s x)"
| "decode_obj s (OEndpoints x) = map_option OEndpoints (decode Endpoints_codec s x)"
| "decode_obj s (OLease x) = map_option OLease (decode Lease_codec s x)"

fun obj_nrm :: "obj \<Rightarrow> obj" where
  "obj_nrm (OPod x) = OPod (cnrm Pod_codec x)"
| "obj_nrm (ONode x) = ONode (cnrm Node_codec x)"
| "obj_nrm (OReplicaSet x) = OReplicaSet (cnrm ReplicaSet_codec x)"
| "obj_nrm (ODeployment x) = ODeployment (cnrm Deployment_codec x)"
| "obj_nrm (OService x) = OService (cnrm Service_codec x)"
| "obj_nrm (OEndpoints x) = OEndpoints (cnrm Endpoints_codec x)"
| "obj_nrm (OLease x) = OLease (cnrm Lease_codec x)"

interpretation Pod: json_codec Pod_codec by (rule Pod_law)
interpretation Node: json_codec Node_codec by (rule Node_law)
interpretation ReplicaSet: json_codec ReplicaSet_codec by (rule ReplicaSet_law)
interpretation Deployment: json_codec Deployment_codec by (rule Deployment_law)
interpretation Service: json_codec Service_codec by (rule Service_law)
interpretation Endpoints: json_codec Endpoints_codec by (rule Endpoints_law)
interpretation Lease: json_codec Lease_codec by (rule Lease_law)

lemmas unmarshal_rules = Pod.unmarshal_marshal Node.unmarshal_marshal ReplicaSet.unmarshal_marshal
  Deployment.unmarshal_marshal Service.unmarshal_marshal Endpoints.unmarshal_marshal
  Lease.unmarshal_marshal

lemmas decode_rules = Pod.decode_marshal Node.decode_marshal ReplicaSet.decode_marshal
  Deployment.decode_marshal Service.decode_marshal Endpoints.decode_marshal Lease.decode_marshal

text \<open>The codec lemmas are used through these rules only; their own equations stay folded.\<close>

lemmas nrm_simps = Pod_nrm Node_nrm ReplicaSet_nrm Deployment_nrm Service_nrm Endpoints_nrm Lease_nrm

lemma fresh_idem [simp]: "fresh (fresh ob) = fresh ob"
  by (cases ob) simp_all

lemma fresh_nrm [simp]: "fresh (obj_nrm ob) = fresh ob"
  by (cases ob) simp_all

lemma unmarshal_marshal_obj:
  "marshal_obj ob = Some s \<Longrightarrow> unmarshal_obj s (fresh ob) = Some (obj_nrm ob)"
  by (cases ob) (auto dest!: unmarshal_rules simp del: nrm_simps)

lemma decode_marshal_obj:
  "marshal_obj ob = Some s \<Longrightarrow> num_end r \<Longrightarrow> decode_obj (s @ r) (fresh ob) = Some (obj_nrm ob)"
  by (cases ob) (auto dest!: decode_rules simp del: nrm_simps)

lemma marshal_obj_nrm: "marshal_obj ob = Some s \<Longrightarrow> marshal_obj (obj_nrm ob) = Some s"
  by (cases ob)
     (auto simp del: nrm_simps intro: Pod.marshal_nrm_Some Node.marshal_nrm_Some
       ReplicaSet.marshal_nrm_Some Deployment.marshal_nrm_Some Service.marshal_nrm_Some
       Endpoints.marshal_nrm_Some Lease.marshal_nrm_Some)

lemma obj_nrm_idem: "marshal_obj ob = Some s \<Longrightarrow> obj_nrm (obj_nrm ob) = obj_nrm ob"
  using unmarshal_marshal_obj [of ob s] unmarshal_marshal_obj [of "obj_nrm ob" s] marshal_obj_nrm [of ob s]
  by simp

lemma unmarshal_obj_fresh: "unmarshal_obj s z = Some ob \<Longrightarrow> fresh ob = fresh z"
  by (cases z) auto

lemma decode_obj_fresh: "decode_obj s z = Some ob \<Longrightarrow> fresh ob = fresh z"
  by (cases z) auto

section \<open>What can be marshalled\<close>

named_theorems codec_oks "which values of a type can be marshalled"

lemma leaf_oks [codec_oks]:
  "cok str_codec s" "cok bool_codec b" "cok (int_codec :: 'n::len word codec) i" "cok map_codec m"
  "cok time_codec t \<longleftrightarrow> time_ok t" "cok (ptr_codec C) p \<longleftrightarrow> (\<forall>v. p = Some v \<longrightarrow> cok C v)"
  "cok (slice_codec C) xs \<longleftrightarrow> list_all (cok C) (elems xs)" "cok (list_codec C) ys \<longleftrightarrow> list_all (cok C) ys"
  by (simp_all add: str_codec_def bool_codec_def int_codec_def map_codec_def time_codec_def ptr_codec_def
      slice_codec_def list_codec_def split: option.split)

declare time_ok_zero [simp]

lemma IntOrString_ok [codec_oks]: "cok IntOrString_codec x"
  by (simp add: IntOrString_codec_def)

lemma ObjectMeta_ok [codec_oks]: "cok ObjectMeta_codec x \<longleftrightarrow> 
     cok time_codec (om_CreationTimestamp x) \<and>
     cok (ptr_codec time_codec) (om_DeletionTimestamp x)"
  by (simp add: ObjectMeta_codec_def struct_codec_def ObjectMeta_fields_def mk_field_def TypeMeta_fields_def codec_oks)

lemma ContainerPort_ok [codec_oks]: "cok ContainerPort_codec x \<longleftrightarrow> True"
  by (simp add: ContainerPort_codec_def struct_codec_def ContainerPort_fields_def mk_field_def TypeMeta_fields_def codec_oks)

lemma ResourceRequirements_ok [codec_oks]: "cok ResourceRequirements_codec x \<longleftrightarrow> True"
  by (simp add: ResourceRequirements_codec_def struct_codec_def ResourceRequirements_fields_def mk_field_def TypeMeta_fields_def codec_oks)

lemma HTTPGetAction_ok [codec_oks]: "cok HTTPGetAction_codec x \<longleftrightarrow> cok IntOrString_codec (hg_Port x)"
  by (simp add: HTTPGetAction_codec_def struct_codec_def HTTPGetAction_fields_def mk_field_def TypeMeta_fields_def codec_oks)

lemma TCPSocketAction_ok [codec_oks]: "cok TCPSocketAction_codec x \<longleftrightarrow> cok IntOrString_codec (ts_Port x)"
  by (simp add: TCPSocketAction_codec_def struct_codec_def TCPSocketAction_fields_def mk_field_def TypeMeta_fields_def codec_oks)

lemma Probe_ok [codec_oks]: "cok Probe_codec x \<longleftrightarrow> 
     cok (ptr_codec HTTPGetAction_codec) (pr_HTTPGet x) \<and>
     cok (ptr_codec TCPSocketAction_codec) (pr_TCPSocket x)"
  by (simp add: Probe_codec_def struct_codec_def Probe_fields_def mk_field_def TypeMeta_fields_def codec_oks)

lemma Container_ok [codec_oks]: "cok Container_codec x \<longleftrightarrow> 
     cok (list_codec str_codec) (ctr_Command x) \<and> cok (list_codec str_codec) (ctr_Args x) \<and>
     cok (list_codec ContainerPort_codec) (ctr_Ports x) \<and>
     cok ResourceRequirements_codec (ctr_Resources x) \<and>
     cok (ptr_codec Probe_codec) (ctr_LivenessProbe x) \<and>
     cok (ptr_codec Probe_codec) (ctr_ReadinessProbe x)"
  by (simp add: Container_codec_def struct_codec_def Container_fields_def mk_field_def TypeMeta_fields_def codec_oks)

lemma PodSpec_ok [codec_oks]: "cok PodSpec_codec x \<longleftrightarrow> cok (slice_codec Container_codec) (psp_Containers x)"
  by (simp add: PodSpec_codec_def struct_codec_def PodSpec_fields_def mk_field_def TypeMeta_fields_def codec_oks)

lemma PodCondition_ok [codec_oks]: "cok PodCondition_codec x \<longleftrightarrow> True"
  by (simp add: PodCondition_codec_def struct_codec_def PodCondition_fields_def mk_field_def TypeMeta_fields_def codec_oks)

lemma ContainerStateRunning_ok [codec_oks]: "cok ContainerStateRunning_codec x \<longleftrightarrow> cok time_codec (csr_StartedAt x)"
  by (simp add: ContainerStateRunning_codec_def struct_codec_def ContainerStateRunning_fields_def mk_field_def TypeMeta_fields_def codec_oks)

lemma ContainerStateTerminated_ok [codec_oks]: "cok ContainerStateTerminated_codec x \<longleftrightarrow> 
     cok time_codec (cst_StartedAt x) \<and> cok time_codec (cst_FinishedAt x)"
  by (simp add: ContainerStateTerminated_codec_def struct_codec_def ContainerStateTerminated_fields_def mk_field_def TypeMeta_fields_def codec_oks)

lemma ContainerStateWaiting_ok [codec_oks]: "cok ContainerStateWaiting_codec x \<longleftrightarrow> True"
  by (simp add: ContainerStateWaiting_codec_def struct_codec_def ContainerStateWaiting_fields_def mk_field_def TypeMeta_fields_def codec_oks)

lemma ContainerState_ok [codec_oks]: "cok ContainerState_codec x \<longleftrightarrow> 
     cok (ptr_codec ContainerStateRunning_codec) (cs_Running x) \<and>
     cok (ptr_codec ContainerStateTerminated_codec) (cs_Terminated x) \<and>
     cok (ptr_codec ContainerStateWaiting_codec) (cs_Waiting x)"
  by (simp add: ContainerState_codec_def struct_codec_def ContainerState_fields_def mk_field_def TypeMeta_fields_def codec_oks)

lemma ContainerStatus_ok [codec_oks]: "cok ContainerStatus_codec x \<longleftrightarrow> cok ContainerState_codec (cstat_State x)"
  by (simp add: ContainerStatus_codec_def struct_codec_def ContainerStatus_fields_def mk_field_def TypeMeta_fields_def codec_oks)

lemma PodStatus_ok [codec_oks]: "cok PodStatus_codec x \<longleftrightarrow> 
     cok (list_codec PodCondition_codec) (pst_Conditions x) \<and>
     cok (list_codec ContainerStatus_codec) (pst_ContainerStatuses x)"
  by (simp add: PodStatus_codec_def struct_codec_def PodStatus_fields_def mk_field_def TypeMeta_fields_def codec_oks)

lemma Pod_ok [codec_oks]: "cok Pod_codec x \<longleftrightarrow> 
     cok ObjectMeta_codec (pod_ObjectMeta x) \<and> cok PodSpec_codec (pod_Spec x) \<and>
     cok PodStatus_codec (pod_Status x)"
  by (simp add: Pod_codec_def struct_codec_def Pod_fields_def mk_field_def TypeMeta_fields_def codec_oks)

lemma NodeSpec_ok [codec_oks]: "cok NodeSpec_codec x \<longleftrightarrow> True"
  by (simp add: NodeSpec_codec_def struct_codec_def NodeSpec_fields_def mk_field_def TypeMeta_fields_def codec_oks)

lemma NodeCondition_ok [codec_oks]: "cok NodeCondition_codec x \<longleftrightarrow> cok time_codec (nc_LastHeartbeatTime x)"
  by (simp add: NodeCondition_codec_def struct_codec_def NodeCondition_fields_def mk_field_def TypeMeta_fields_def codec_oks)

lemma NodeAddress_ok [codec_oks]: "cok NodeAddress_codec x \<longleftrightarrow> True"
  by (simp add: NodeAddress_codec_def struct_codec_def NodeAddress_fields_def mk_field_def TypeMeta_fields_def codec_oks)

lemma NodeSystemInfo_ok [codec_oks]: "cok NodeSystemInfo_codec x \<longleftrightarrow> True"
  by (simp add: NodeSystemInfo_codec_def struct_codec_def NodeSystemInfo_fields_def mk_field_def TypeMeta_fields_def codec_oks)

lemma NodeStatus_ok [codec_oks]: "cok NodeStatus_codec x \<longleftrightarrow> 
     cok (list_codec NodeCondition_codec) (nst_Conditions x) \<and>
     cok (list_codec NodeAddress_codec) (nst_Addresses x) \<and>
     cok NodeSystemInfo_codec (nst_NodeInfo x)"
  by (simp add: NodeStatus_codec_def struct_codec_def NodeStatus_fields_def mk_field_def TypeMeta_fields_def codec_oks)

lemma Node_ok [codec_oks]: "cok Node_codec x \<longleftrightarrow> 
     cok ObjectMeta_codec (node_ObjectMeta x) \<and> cok NodeSpec_codec (node_Spec x) \<and>
     cok NodeStatus_codec (node_Status x)"
  by (simp add: Node_codec_def struct_codec_def Node_fields_def mk_field_def TypeMeta_fields_def codec_oks)

lemma LabelSelector_ok [codec_oks]: "cok LabelSelector_codec x \<longleftrightarrow> True"
  by (simp add: LabelSelector_codec_def struct_codec_def LabelSelector_fields_def mk_field_def TypeMeta_fields_def codec_oks)

lemma PodTemplateSpec_ok [codec_oks]: "cok PodTemplateSpec_codec x \<longleftrightarrow> 
     cok ObjectMeta_codec (pts_ObjectMeta x) \<and> cok PodSpec_codec (pts_Spec x)"
  by (simp add: PodTemplateSpec_codec_def struct_codec_def PodTemplateSpec_fields_def mk_field_def TypeMeta_fields_def codec_oks)

lemma ReplicaSetSpec_ok [codec_oks]: "cok ReplicaSetSpec_codec x \<longleftrightarrow> 
     cok (ptr_codec int_codec) (rssp_Replicas x) \<and>
     cok LabelSelector_codec (rssp_Selector x) \<and>
     cok PodTemplateSpec_codec (rssp_Template x)"
  by (simp add: ReplicaSetSpec_codec_def struct_codec_def ReplicaSetSpec_fields_def mk_field_def TypeMeta_fields_def codec_oks)

lemma ReplicaSetStatus_ok [codec_oks]: "cok ReplicaSetStatus_codec x \<longleftrightarrow> True"
  by (simp add: ReplicaSetStatus_codec_def struct_codec_def ReplicaSetStatus_fields_def mk_field_def TypeMeta_fields_def codec_oks)

lemma ReplicaSet_ok [codec_oks]: "cok ReplicaSet_codec x \<longleftrightarrow> 
     cok ObjectMeta_codec (rs_ObjectMeta x) \<and> cok ReplicaSetSpec_codec (rs_Spec x) \<and>
     cok ReplicaSetStatus_codec (rs_Status x)"
  by (simp add: ReplicaSet_codec_def struct_codec_def ReplicaSet_fields_def mk_field_def TypeMeta_fields_def codec_oks)

lemma ListMeta_ok [codec_oks]: "cok ListMeta_codec x \<longleftrightarrow> True"
  by (simp add: ListMeta_codec_def struct_codec_def ListMeta_fields_def mk_field_def TypeMeta_fields_def codec_oks)

lemma PodList_ok [codec_oks]: "cok PodList_codec x \<longleftrightarrow> 
     cok ListMeta_codec (podl_ListMeta x) \<and> cok (slice_codec Pod_codec) (podl_Items x)"
  by (simp add: PodList_codec_def struct_codec_def PodList_fields_def mk_field_def TypeMeta_fields_def codec_oks)

lemma NodeList_ok [codec_oks]: "cok NodeList_codec x \<longleftrightarrow> 
     cok ListMeta_codec (nodel_ListMeta x) \<and> cok (slice_codec Node_codec) (nodel_Items x)"
  by (simp add: NodeList_codec_def struct_codec_def NodeList_fields_def mk_field_def TypeMeta_fields_def codec_oks)

lemma ReplicaSetList_ok [codec_oks]: "cok ReplicaSetList_codec x \<longleftrightarrow> 
     cok ListMeta_codec (rsl_ListMeta x) \<and>
     cok (slice_codec ReplicaSet_codec) (rsl_Items x)"
  by (simp add: ReplicaSetList_codec_def struct_codec_def ReplicaSetList_fields_def mk_field_def TypeMeta_fields_def codec_oks)

lemma RollingUpdateDeployment_ok [codec_oks]: "cok RollingUpdateDeployment_codec x \<longleftrightarrow> 
     cok (ptr_codec IntOrString_codec) (rud_MaxUnavailable x) \<and>
     cok (ptr_codec IntOrString_codec) (rud_MaxSurge x)"
  by (simp add: RollingUpdateDeployment_codec_def struct_codec_def RollingUpdateDeployment_fields_def mk_field_def TypeMeta_fields_def codec_oks)

lemma DeploymentStrategy_ok [codec_oks]: "cok DeploymentStrategy_codec x \<longleftrightarrow> 
     cok (ptr_codec RollingUpdateDeployment_codec) (dstr_RollingUpdate x)"
  by (simp add: DeploymentStrategy_codec_def struct_codec_def DeploymentStrategy_fields_def mk_field_def TypeMeta_fields_def codec_oks)

lemma DeploymentSpec_ok [codec_oks]: "cok DeploymentSpec_codec x \<longleftrightarrow> 
     cok (ptr_codec int_codec) (dsp_Replicas x) \<and> cok LabelSelector_codec (dsp_Selector x) \<and>
     cok PodTemplateSpec_codec (dsp_Template x) \<and>
     cok DeploymentStrategy_codec (dsp_Strategy x)"
  by (simp add: DeploymentSpec_codec_def struct_codec_def DeploymentSpec_fields_def mk_field_def TypeMeta_fields_def codec_oks)

lemma DeploymentStatus_ok [codec_oks]: "cok DeploymentStatus_codec x \<longleftrightarrow> True"
  by (simp add: DeploymentStatus_codec_def struct_codec_def DeploymentStatus_fields_def mk_field_def TypeMeta_fields_def codec_oks)

lemma Deployment_ok [codec_oks]: "cok Deployment_codec x \<longleftrightarrow> 
     cok ObjectMeta_codec (dep_ObjectMeta x) \<and> cok DeploymentSpec_codec (dep_Spec x) \<and>
     cok DeploymentStatus_codec (dep_Status x)"
  by (simp add: Deployment_codec_def struct_codec_def Deployment_fields_def mk_field_def TypeMeta_fields_def codec_oks)

lemma DeploymentList_ok [codec_oks]: "cok DeploymentList_codec x \<longleftrightarrow> cok (slice_codec Deployment_codec) (depl_Items x)"
  by (simp add: DeploymentList_codec_def struct_codec_def DeploymentList_fields_def mk_field_def TypeMeta_fields_def codec_oks)

lemma ServicePort_ok [codec_oks]: "cok ServicePort_codec x \<longleftrightarrow> cok IntOrString_codec (sp_TargetPort x)"
  by (simp add: ServicePort_codec_def struct_codec_def ServicePort_fields_def mk_field_def TypeMeta_fields_def codec_oks)

lemma ServiceSpec_ok [codec_oks]: "cok ServiceSpec_codec x \<longleftrightarrow> cok (list_codec ServicePort_codec) (ssp_Ports x)"
  by (simp add: ServiceSpec_codec_def struct_codec_def ServiceSpec_fields_def mk_field_def TypeMeta_fields_def codec_oks)

lemma LoadBalancerIngress_ok [codec_oks]: "cok LoadBalancerIngress_codec x \<longleftrightarrow> True"
  by (simp add: LoadBalancerIngress_codec_def struct_codec_def LoadBalancerIngress_fields_def mk_field_def TypeMeta_fields_def codec_oks)

lemma LoadBalancerStatus_ok [codec_oks]: "cok LoadBalancerStatus_codec x \<longleftrightarrow> 
     cok (list_codec LoadBalancerIngress_codec) (lbs_Ingress x)"
  by (simp add: LoadBalancerStatus_codec_def struct_codec_def LoadBalancerStatus_fields_def mk_field_def TypeMeta_fields_def codec_oks)

lemma ServiceStatus_ok [codec_oks]: "cok ServiceStatus_codec x \<longleftrightarrow> cok LoadBalancerStatus_codec (sst_LoadBalancer x)"
  by (simp add: ServiceStatus_codec_def struct_codec_def ServiceStatus_fields_def mk_field_def TypeMeta_fields_def codec_oks)

lemma Service_ok [codec_oks]: "cok Service_codec x \<longleftrightarrow> 
     cok ObjectMeta_codec (svc_ObjectMeta x) \<and> cok ServiceSpec_codec (svc_Spec x) \<and>
     cok ServiceStatus_codec (svc_Status x)"
  by (simp add: Service_codec_def struct_codec_def Service_fields_def mk_field_def TypeMeta_fields_def codec_oks)

lemma ServiceList_ok [codec_oks]: "cok ServiceList_codec x \<longleftrightarrow> 
     cok ListMeta_codec (svcl_ListMeta x) \<and> cok (slice_codec Service_codec) (svcl_Items x)"
  by (simp add: ServiceList_codec_def struct_codec_def ServiceList_fields_def mk_field_def TypeMeta_fields_def codec_oks)

lemma EndpointAddress_ok [codec_oks]: "cok EndpointAddress_codec x \<longleftrightarrow> True"
  by (simp add: EndpointAddress_codec_def struct_codec_def EndpointAddress_fields_def mk_field_def TypeMeta_fields_def codec_oks)

lemma EndpointPort_ok [codec_oks]: "cok EndpointPort_codec x \<longleftrightarrow> True"
  by (simp add: EndpointPort_codec_def struct_codec_def EndpointPort_fields_def mk_field_def TypeMeta_fields_def codec_oks)

lemma EndpointSubset_ok [codec_oks]: "cok EndpointSubset_codec x \<longleftrightarrow> 
     cok (slice_codec EndpointAddress_codec) (es_Addresses x) \<and>
     cok (slice_codec EndpointPort_codec) (es_Ports x)"
  by (simp add: EndpointSubset_codec_def struct_codec_def EndpointSubset_fields_def mk_field_def TypeMeta_fields_def codec_oks)

lemma Endpoints_ok [codec_oks]: "cok Endpoints_codec x \<longleftrightarrow> 
     cok ObjectMeta_codec (ep_ObjectMeta x) \<and>
     cok (slice_codec EndpointSubset_codec) (ep_Subsets x)"
  by (simp add: Endpoints_codec_def struct_codec_def Endpoints_fields_def mk_field_def TypeMeta_fields_def codec_oks)

lemma EndpointsList_ok [codec_oks]: "cok EndpointsList_codec x \<longleftrightarrow> 
     cok ListMeta_codec (epl_ListMeta x) \<and> cok (slice_codec Endpoints_codec) (epl_Items x)"
  by (simp add: EndpointsList_codec_def struct_codec_def EndpointsList_fields_def mk_field_def TypeMeta_fields_def codec_oks)

lemma LeaseSpec_ok [codec_oks]: "cok LeaseSpec_codec x \<longleftrightarrow> 
     cok (ptr_codec str_codec) (lsp_HolderIdentity x) \<and>
     cok (ptr_codec int_codec) (lsp_LeaseDurationSeconds x) \<and>
     cok (ptr_codec time_codec) (lsp_AcquireTime x) \<and>
     cok (ptr_codec time_codec) (lsp_RenewTime x) \<and>
     cok (ptr_codec int_codec) (lsp_LeaseTransitions x)"
  by (simp add: LeaseSpec_codec_def struct_codec_def LeaseSpec_fields_def mk_field_def TypeMeta_fields_def codec_oks)

lemma Lease_ok [codec_oks]: "cok Lease_codec x \<longleftrightarrow> 
     cok ObjectMeta_codec (lease_ObjectMeta x) \<and> cok LeaseSpec_codec (lease_Spec x)"
  by (simp add: Lease_codec_def struct_codec_def Lease_fields_def mk_field_def TypeMeta_fields_def codec_oks)

lemma LeaseList_ok [codec_oks]: "cok LeaseList_codec x \<longleftrightarrow> 
     cok ListMeta_codec (leasel_ListMeta x) \<and>
     cok (slice_codec Lease_codec) (leasel_Items x)"
  by (simp add: LeaseList_codec_def struct_codec_def LeaseList_fields_def mk_field_def TypeMeta_fields_def codec_oks)

end
