(* ===== verification/Base64.thy ===== *)
theory Base64
  imports Json
begin

text \<open>
  encoding/json writes a \<open>[]byte\<close> as a base64 string (standard alphabet, padded). The store's data
  file is a \<open>map[string][]byte\<close>, so it passes through this coding; \<open>b64_roundtrip\<close> is what a
  restart relies on.
\<close>

definition b64_alphabet :: string where
  "b64_alphabet = ''ABCDEFGHIJKLMNOPQRSTUVWXYZabcdefghijklmnopqrstuvwxyz0123456789+/''"

definition b64_char :: "nat \<Rightarrow> char" where
  "b64_char n = b64_alphabet ! n"

fun index_of :: "'a list \<Rightarrow> 'a \<Rightarrow> nat option" where
  "index_of [] c = None"
| "index_of (d # ds) c = (if c = d then Some 0 else map_option Suc (index_of ds c))"

definition b64_val :: "char \<Rightarrow> nat option" where
  "b64_val c = index_of b64_alphabet c"

fun b64_encode :: "string \<Rightarrow> string" where
  "b64_encode [] = []"
| "b64_encode [a] =
     (let n = of_char a :: nat in
      [b64_char (n div 4), b64_char (n mod 4 * 16), CHR ''='', CHR ''=''])"
| "b64_encode [a, b] =
     (let n = of_char a :: nat; m = of_char b :: nat in
      [b64_char (n div 4), b64_char (n mod 4 * 16 + m div 16), b64_char (m mod 16 * 4), CHR ''=''])"
| "b64_encode (a # b # c # s) =
     (let n = of_char a :: nat; m = of_char b :: nat; k = of_char c :: nat in
      b64_char (n div 4) # b64_char (n mod 4 * 16 + m div 16)
      # b64_char (m mod 16 * 4 + k div 64) # b64_char (k mod 64) # b64_encode s)"

text \<open>The reader; padding may only end the text.\<close>

fun b64_decode :: "string \<Rightarrow> string option" where
  "b64_decode [] = Some []"
| "b64_decode (a # b # c # d # s) =
     (case (b64_val a, b64_val b) of
        (Some i, Some j) \<Rightarrow>
          if c = CHR ''='' then
            (if d = CHR ''='' \<and> s = [] then Some [char_of (4 * i + j div 16)] else None)
          else (case b64_val c of
             None \<Rightarrow> None
           | Some k \<Rightarrow>
               if d = CHR ''='' then
                 (if s = [] then Some [char_of (4 * i + j div 16), char_of (j mod 16 * 16 + k div 4)]
                  else None)
               else (case b64_val d of
                  None \<Rightarrow> None
                | Some l \<Rightarrow>
                    map_option (\<lambda>r. char_of (4 * i + j div 16) # char_of (j mod 16 * 16 + k div 4)
                                 # char_of (k mod 4 * 64 + l) # r) (b64_decode s)))
      | _ \<Rightarrow> None)"
| "b64_decode _ = None"

lemma b64_table: "list_all (\<lambda>n. b64_val (b64_char n) = Some n \<and> b64_char n \<noteq> CHR ''='') [0..<64]"
  by code_simp

lemma b64_char_facts:
  "n < 64 \<Longrightarrow> b64_val (b64_char n) = Some n" "n < 64 \<Longrightarrow> b64_char n \<noteq> CHR ''=''"
  using b64_table by (auto simp: list_all_iff)

lemma char_of_of_char_nat: "n = of_char c \<Longrightarrow> char_of (n :: nat) = c"
  by simp

lemma sextets:
  fixes n m k :: nat
  assumes "n < 256" and "m < 256" and "k < 256"
  shows "n div 4 < 64" "n mod 4 * 16 < 64" "n mod 4 * 16 + m div 16 < 64" "m mod 16 * 4 < 64"
    "m mod 16 * 4 + k div 64 < 64" "k mod 64 < 64"
    "4 * (n div 4) + n mod 4 * 16 div 16 = n"
    "4 * (n div 4) + (n mod 4 * 16 + m div 16) div 16 = n"
    "(n mod 4 * 16 + m div 16) mod 16 * 16 + m mod 16 * 4 div 4 = m"
    "(n mod 4 * 16 + m div 16) mod 16 * 16 + (m mod 16 * 4 + k div 64) div 4 = m"
    "(m mod 16 * 4 + k div 64) mod 4 * 64 + k mod 64 = k"
proof -
  have b: "n mod 4 < 4" "m mod 16 < 16" "m div 16 < 16" "k div 64 < 4" "k mod 64 < 64"
    using assms by (simp_all add: less_mult_imp_div_less)
  have e: "4 * (n div 4) + n mod 4 = n" "16 * (m div 16) + m mod 16 = m" "64 * (k div 64) + k mod 64 = k"
    by simp_all
  have d: "(x * 16 + y) div 16 = x" "(x * 16 + y) mod 16 = y" if "y < 16" for x y :: nat
    using that by simp_all
  have f: "(x * 4 + y) div 4 = x" "(x * 4 + y) mod 4 = y" if "y < 4" for x y :: nat
    using that by simp_all
  show "n div 4 < 64" using assms by (simp add: less_mult_imp_div_less)
  show "n mod 4 * 16 < 64" "n mod 4 * 16 + m div 16 < 64" "m mod 16 * 4 < 64"
    "m mod 16 * 4 + k div 64 < 64" "k mod 64 < 64"
    using b by linarith+
  show "4 * (n div 4) + n mod 4 * 16 div 16 = n" using e(1) by simp
  show "4 * (n div 4) + (n mod 4 * 16 + m div 16) div 16 = n" using e(1) d(1) [OF b(3)] by simp
  show "(n mod 4 * 16 + m div 16) mod 16 * 16 + m mod 16 * 4 div 4 = m"
    using e(2) d(2) [OF b(3), of "n mod 4"] by simp
  show "(n mod 4 * 16 + m div 16) mod 16 * 16 + (m mod 16 * 4 + k div 64) div 4 = m"
    using e(2) d(2) [OF b(3), of "n mod 4"] f(1) [OF b(4), of "m mod 16"] by simp
  show "(m mod 16 * 4 + k div 64) mod 4 * 64 + k mod 64 = k"
    using e(3) f(2) [OF b(4), of "m mod 16"] by simp
qed

lemma of_char_bound: "(of_char c :: nat) < 256"
proof -
  have "(of_char c :: nat) mod 256 = of_char c" by (simp add: of_char_mod_256)
  then show ?thesis by (metis mod_less_divisor zero_less_numeral)
qed

lemma b64_roundtrip: "b64_decode (b64_encode s) = Some s"
proof (induction s rule: b64_encode.induct)
  case 1
  then show ?case by simp
next
  case (2 a)
  note sextets(1,2,7) [OF of_char_bound [of a] of_char_bound [of a] of_char_bound [of a]]
  then show ?case by (simp add: Let_def b64_char_facts)
next
  case (3 a b)
  note sextets(1,3,4,8,9) [OF of_char_bound [of a] of_char_bound [of b] of_char_bound [of b]]
  then show ?case by (simp add: Let_def b64_char_facts)
next
  case (4 a b c s)
  note sextets(1,3,5,6,8,10,11) [OF of_char_bound [of a] of_char_bound [of b] of_char_bound [of c]]
  with 4 show ?case by (simp add: Let_def b64_char_facts)
qed

end
