(* ===== verification/Storage.thy ===== *)
theory Storage
  imports Objects Base64 "HOL-Library.AList" "HOL-Library.Multiset"
begin

text \<open>
  internal/storage: the \<open>Store\<close> interface (interface.go) as a record of operations with its
  contract as the locale \<open>store\<close>, and \<open>MemoryStore\<close> (memory.go) as the implementation that
  satisfies it. An operation runs under the store's lock; one that would have to wait for room in
  a watcher's channel, which it does with the lock held, has no result (\<open>None\<close>).
\<close>

section \<open>Events and watchers\<close>

datatype EventType = Added | Modified | Deleted | ErrorEvent

text \<open>A delete is announced with the generic map the old bytes unmarshal to (nil if they do not).\<close>

datatype payload = Live obj | Tombstone "(string \<times> json) list option"

record Event =
  ev_Type :: EventType
  ev_Object :: payload

text \<open>\<open>memoryWatcher\<close>: \<open>w_id\<close> is its identity as a pointer, \<open>w_chan\<close> what its channel buffers.\<close>

record watcher =
  w_id :: nat
  w_keyPrefix :: string
  w_chan :: "Event list"

definition chan_cap :: nat where
  "chan_cap = 10"

section \<open>The Store interface\<close>

text \<open>\<open>Get\<close> and \<open>List\<close> take a value of the wanted type and return what the pointer holds afterwards.\<close>

record 's Store =
  st_Create :: "string \<Rightarrow> obj \<Rightarrow> 's \<Rightarrow> (gerror option \<times> 's) option"
  st_Update :: "string \<Rightarrow> obj \<Rightarrow> 's \<Rightarrow> (gerror option \<times> 's) option"
  st_Get :: "string \<Rightarrow> obj \<Rightarrow> 's \<Rightarrow> obj result"
  st_Delete :: "string \<Rightarrow> 's \<Rightarrow> (gerror option \<times> 's) option"
  st_List :: "string \<Rightarrow> obj \<Rightarrow> 's \<Rightarrow> obj list result"
  st_Watch :: "string \<Rightarrow> 's \<Rightarrow> nat \<times> 's"

section \<open>MemoryStore\<close>

text \<open>
  \<open>ms_data\<close> is the Go map as an association list without duplicate keys, \<open>ms_iter\<close> the order in
  which the runtime happens to range over it. \<open>ms_file\<close> is what the file at \<open>ms_filePath\<close> holds
  (\<open>None\<close>: no such file) and \<open>ms_io\<close> the fate of the coming writes: \<open>Some x\<close> is a failed write
  that leaves \<open>x\<close> behind; beyond the list writes succeed.
\<close>

type_synonym entries = "(string \<times> string) list"

record MemoryStore =
  ms_data :: entries
  ms_watchers :: "watcher list"
  ms_next :: nat
  ms_filePath :: string
  ms_file :: "string option"
  ms_unreadable :: bool
  ms_io :: "string option list"
  ms_iter :: "entries \<Rightarrow> entries"

fun notify :: "EventType \<Rightarrow> string \<Rightarrow> payload \<Rightarrow> watcher list \<Rightarrow> watcher list option" where
  "notify t key ob [] = Some []"
| "notify t key ob (w # ws) =
     (if has_prefix key (w_keyPrefix w) then
        (if length (w_chan w) < chan_cap
         then map_option (Cons (w\<lparr>w_chan := w_chan w @ [\<lparr>ev_Type = t, ev_Object = ob\<rparr>]\<rparr>)) (notify t key ob ws)
         else None)
      else map_option (Cons w) (notify t key ob ws))"

definition notifyWatchers :: "EventType \<Rightarrow> string \<Rightarrow> payload \<Rightarrow> MemoryStore \<Rightarrow> MemoryStore option" where
  "notifyWatchers t key ob s = map_option (\<lambda>ws. s\<lparr>ms_watchers := ws\<rparr>) (notify t key ob (ms_watchers s))"

text \<open>The data file: a JSON object from keys to base64 texts, keys sorted.\<close>

definition dump :: "entries \<Rightarrow> string" where
  "dump d = print_json (JObj (map (\<lambda>k. (k, JStr (b64_encode (the (map_of d k))))) (sort (map fst d))))"

definition ms_sync :: "MemoryStore \<Rightarrow> gerror option \<times> MemoryStore" where
  "ms_sync s =
     (if ms_filePath s = [] then (None, s)
      else case ms_io s of
        Some junk # rest \<Rightarrow> (Some (Errorf ''write''), s\<lparr>ms_file := Some junk, ms_io := rest\<rparr>)
      | io \<Rightarrow> (None, s\<lparr>ms_file := Some (dump (ms_data s)), ms_io := tl io\<rparr>))"

text \<open>
  \<open>json.Unmarshal\<close> into the map keeps going after an ill-typed value, whose entry is left empty,
  and reports the error at the end. A \<open>[]byte\<close> is a base64 text, null, or an array of its bytes, one of
  which is left zero where it is no byte.
\<close>

definition read_byte :: "json \<Rightarrow> char option" where
  "read_byte j = (case j of JInt i \<Rightarrow> if 0 \<le> i \<and> i \<le> 255 then Some (char_of (nat i)) else None | JNull \<Rightarrow> Some (CHR 0x00) | _ \<Rightarrow> None)"

definition read_bytes :: "json \<Rightarrow> bool \<times> string" where
  "read_bytes j =
     (case j of
        JStr t \<Rightarrow> (case b64_decode t of Some b \<Rightarrow> (True, b) | None \<Rightarrow> (False, []))
      | JNull \<Rightarrow> (True, [])
      | JArr xs \<Rightarrow> (list_all (\<lambda>x. read_byte x \<noteq> None) xs, map (\<lambda>x. case read_byte x of Some c \<Rightarrow> c | None \<Rightarrow> CHR 0x00) xs)
      | _ \<Rightarrow> (False, []))"

fun load_members :: "(string \<times> json) list \<Rightarrow> entries \<Rightarrow> gerror option \<Rightarrow> gerror option \<times> entries" where
  "load_members [] d e = (e, d)"
| "load_members ((k, j) # ms) d e =
     (let (ok, b) = read_bytes j in load_members ms (AList.update k b d) (if ok then e else Some (Errorf ''unmarshal'')))"

definition ms_load :: "MemoryStore \<Rightarrow> gerror option \<times> MemoryStore" where
  "ms_load s =
     (case ms_file s of
        None \<Rightarrow> (None, s)
      | Some text \<Rightarrow>
          if ms_unreadable s then (Some (Errorf ''read''), s)
          else (case parse_json text of
            Some (JObj ms) \<Rightarrow>
              (let (e, d) = load_members ms (ms_data s) None in (e, s\<lparr>ms_data := d\<rparr>))
          | Some JNull \<Rightarrow> (None, s\<lparr>ms_data := []\<rparr>)
          | _ \<Rightarrow> (Some (Errorf ''unmarshal''), s)))"

text \<open>The constructor; a load error is only printed. \<open>file\<close>, \<open>unreadable\<close>, \<open>io\<close>, \<open>iter\<close> are the environment.\<close>

definition NewMemoryStore :: "string \<Rightarrow> string option \<Rightarrow> bool \<Rightarrow> string option list \<Rightarrow> (entries \<Rightarrow> entries) \<Rightarrow> MemoryStore" where
  "NewMemoryStore path file unreadable io iter =
     (let s = \<lparr>ms_data = [], ms_watchers = [], ms_next = 0, ms_filePath = path, ms_file = file,
               ms_unreadable = unreadable, ms_io = io, ms_iter = iter\<rparr>
      in if path = [] then s else snd (ms_load s))"

definition ms_Create :: "string \<Rightarrow> obj \<Rightarrow> MemoryStore \<Rightarrow> (gerror option \<times> MemoryStore) option" where
  "ms_Create key ob s =
     (case map_of (ms_data s) key of
        Some _ \<Rightarrow> Some (Some ErrConflict, s)
      | None \<Rightarrow>
          (case marshal_obj ob of
             None \<Rightarrow> Some (Some (Errorf ''marshal''), s)
           | Some b \<Rightarrow>
               map_option ms_sync
                 (notifyWatchers Added key (Live ob) (s\<lparr>ms_data := AList.update key b (ms_data s)\<rparr>))))"

definition ms_Update :: "string \<Rightarrow> obj \<Rightarrow> MemoryStore \<Rightarrow> (gerror option \<times> MemoryStore) option" where
  "ms_Update key ob s =
     (case map_of (ms_data s) key of
        None \<Rightarrow> Some (Some ErrNotFound, s)
      | Some _ \<Rightarrow>
          (case marshal_obj ob of
             None \<Rightarrow> Some (Some (Errorf ''marshal''), s)
           | Some b \<Rightarrow>
               map_option ms_sync
                 (notifyWatchers Modified key (Live ob) (s\<lparr>ms_data := AList.update key b (ms_data s)\<rparr>))))"

definition ms_Get :: "string \<Rightarrow> obj \<Rightarrow> MemoryStore \<Rightarrow> obj result" where
  "ms_Get key ob s =
     (case map_of (ms_data s) key of
        None \<Rightarrow> Inl ErrNotFound
      | Some b \<Rightarrow> (case unmarshal_obj b ob of None \<Rightarrow> Inl (Errorf ''unmarshal'') | Some v \<Rightarrow> Inr v))"

definition tombstone :: "string \<Rightarrow> payload" where
  "tombstone b = (case parse_json b of Some (JObj ms) \<Rightarrow> Tombstone (Some ms) | _ \<Rightarrow> Tombstone None)"

definition ms_Delete :: "string \<Rightarrow> MemoryStore \<Rightarrow> (gerror option \<times> MemoryStore) option" where
  "ms_Delete key s =
     (case map_of (ms_data s) key of
        None \<Rightarrow> Some (Some ErrNotFound, s)
      | Some b \<Rightarrow>
          map_option ms_sync
            (notifyWatchers Deleted key (tombstone b) (s\<lparr>ms_data := AList.delete key (ms_data s)\<rparr>)))"

fun list_loop :: "string \<Rightarrow> obj \<Rightarrow> entries \<Rightarrow> obj list \<Rightarrow> obj list result" where
  "list_loop prefix z [] acc = Inr acc"
| "list_loop prefix z ((k, v) # d) acc =
     (if has_prefix k prefix then
        (case unmarshal_obj v (fresh z) of
           None \<Rightarrow> Inl (Errorf ''unmarshal'')
         | Some x \<Rightarrow> list_loop prefix z d (acc @ [x]))
      else list_loop prefix z d acc)"

definition ms_List :: "string \<Rightarrow> obj \<Rightarrow> MemoryStore \<Rightarrow> obj list result" where
  "ms_List prefix z s = list_loop prefix z (ms_iter s (ms_data s)) []"

definition ms_Watch :: "string \<Rightarrow> MemoryStore \<Rightarrow> nat \<times> MemoryStore" where
  "ms_Watch prefix s =
     (ms_next s,
      s\<lparr>ms_watchers := ms_watchers s @ [\<lparr>w_id = ms_next s, w_keyPrefix = prefix, w_chan = []\<rparr>],
        ms_next := Suc (ms_next s)\<rparr>)"

text \<open>\<open>Stop\<close>: leave the list, close the channel. Closing a second time panics (\<open>None\<close>).\<close>

fun drop_watcher :: "nat \<Rightarrow> watcher list \<Rightarrow> watcher list" where
  "drop_watcher i [] = []"
| "drop_watcher i (w # ws) = (if w_id w = i then ws else w # drop_watcher i ws)"

definition ms_Stop :: "nat \<Rightarrow> MemoryStore \<Rightarrow> MemoryStore option" where
  "ms_Stop i s =
     (if i \<in> w_id ` set (ms_watchers s) then Some (s\<lparr>ms_watchers := drop_watcher i (ms_watchers s)\<rparr>) else None)"

definition MemoryStore_ops :: "MemoryStore Store" where
  "MemoryStore_ops = \<lparr>st_Create = ms_Create, st_Update = ms_Update, st_Get = ms_Get,
     st_Delete = ms_Delete, st_List = ms_List, st_Watch = ms_Watch\<rparr>"

section \<open>The contract of the interface\<close>

text \<open>
  The abstract store is a map from keys to the marshalled bytes. The three changing operations as
  functions on it: what the caller is told, and the map afterwards.
\<close>

type_synonym kv = "string \<rightharpoonup> string"

definition put_spec :: "gerror option \<Rightarrow> string \<Rightarrow> obj \<Rightarrow> kv \<Rightarrow> gerror option \<times> kv" where
  "put_spec refuse key ob m =
     (case refuse of
        Some e \<Rightarrow> (Some e, m)
      | None \<Rightarrow> (case marshal_obj ob of
          None \<Rightarrow> (Some (Errorf ''marshal''), m) | Some b \<Rightarrow> (None, m(key \<mapsto> b))))"

definition create_spec :: "string \<Rightarrow> obj \<Rightarrow> kv \<Rightarrow> gerror option \<times> kv" where
  "create_spec key ob m = put_spec (if m key = None then None else Some ErrConflict) key ob m"

definition update_spec :: "string \<Rightarrow> obj \<Rightarrow> kv \<Rightarrow> gerror option \<times> kv" where
  "update_spec key ob m = put_spec (if m key = None then Some ErrNotFound else None) key ob m"

definition delete_spec :: "string \<Rightarrow> kv \<Rightarrow> gerror option \<times> kv" where
  "delete_spec key m = (if m key = None then (Some ErrNotFound, m) else (None, m(key := None)))"

definition get_spec :: "string \<Rightarrow> obj \<Rightarrow> kv \<Rightarrow> obj result" where
  "get_spec key z m =
     (case m key of
        None \<Rightarrow> Inl ErrNotFound
      | Some b \<Rightarrow> (case unmarshal_obj b z of None \<Rightarrow> Inl (Errorf ''unmarshal'') | Some v \<Rightarrow> Inr v))"

text \<open>Listing visits the matching keys once each, in an order nobody promises.\<close>

definition list_spec :: "string list \<Rightarrow> obj \<Rightarrow> kv \<Rightarrow> obj list result" where
  "list_spec ks z m =
     (case opt_all (map (\<lambda>k. unmarshal_obj (the (m k)) (fresh z)) ks) of
        None \<Rightarrow> Inl (Errorf ''unmarshal'') | Some xs \<Rightarrow> Inr xs)"

text \<open>
  An implementation may fail late: it has changed the map and then reports an I/O error. A store
  that is \<open>quiet\<close> (nobody watches, the disk works) answers exactly as the functions say.
\<close>

definition late :: "gerror option \<Rightarrow> gerror option \<Rightarrow> bool" where
  "late e spec \<longleftrightarrow> e = spec \<or> (spec = None \<and> (\<exists>t. e = Some (Errorf t)))"

definition refines :: "('s \<Rightarrow> bool) \<Rightarrow> ('s \<Rightarrow> bool) \<Rightarrow> ('s \<Rightarrow> kv) \<Rightarrow>
    ('s \<Rightarrow> (gerror option \<times> 's) option) \<Rightarrow> (kv \<Rightarrow> gerror option \<times> kv) \<Rightarrow> bool" where
  "refines good quiet view op spec \<longleftrightarrow>
     (\<forall>s e s'. good s \<longrightarrow> op s = Some (e, s') \<longrightarrow>
        good s' \<and> view s' = snd (spec (view s)) \<and> late e (fst (spec (view s)))) \<and>
     (\<forall>s. good s \<longrightarrow> quiet s \<longrightarrow> (\<exists>s'. op s = Some (fst (spec (view s)), s') \<and> quiet s'))"

locale store =
  fixes S :: "'s Store"
    and good :: "'s \<Rightarrow> bool" and quiet :: "'s \<Rightarrow> bool" and view :: "'s \<Rightarrow> kv"
  assumes create: "refines good quiet view (st_Create S key ob) (create_spec key ob)"
    and update: "refines good quiet view (st_Update S key ob) (update_spec key ob)"
    and delete: "refines good quiet view (st_Delete S key) (delete_spec key)"
    and get: "st_Get S key z s = get_spec key z (view s)"
    and list: "good s \<Longrightarrow> \<exists>ks. distinct ks \<and> set ks = {k \<in> dom (view s). has_prefix k prefix} \<and>
                 st_List S prefix z s = list_spec ks z (view s)"
    and watch: "good s \<Longrightarrow> st_Watch S prefix s = (i, s') \<Longrightarrow> good s' \<and> view s' = view s"

lemma refinesD:
  assumes "refines good quiet view op spec"
  shows "good s \<Longrightarrow> op s = Some (e, s') \<Longrightarrow> good s'"
    and "good s \<Longrightarrow> op s = Some (e, s') \<Longrightarrow> view s' = snd (spec (view s))"
    and "good s \<Longrightarrow> op s = Some (e, s') \<Longrightarrow> late e (fst (spec (view s)))"
  using assms unfolding refines_def by blast+

lemma refines_quiet:
  assumes "refines good quiet view op spec" and "good s" and "quiet s"
  obtains s' where "op s = Some (fst (spec (view s)), s')" "good s'" "quiet s'"
    "view s' = snd (spec (view s))"
  using assms unfolding refines_def by metis

lemma late_None [simp]: "late None spec \<longleftrightarrow> spec = None"
  by (auto simp: late_def)

context store
begin

lemma get_after_create:
  assumes "good s" and "st_Create S key ob s = Some (None, s')"
  shows "st_Get S key (fresh ob) s' = Inr (obj_nrm ob)"
proof -
  have "late None (fst (create_spec key ob (view s)))" and v: "view s' = snd (create_spec key ob (view s))"
    using refinesD [OF create assms] by auto
  then show ?thesis
    by (auto simp: get get_spec_def create_spec_def put_spec_def unmarshal_marshal_obj
        split: option.splits if_splits)
qed

lemma get_after_update:
  assumes "good s" and "st_Update S key ob s = Some (None, s')"
  shows "st_Get S key (fresh ob) s' = Inr (obj_nrm ob)"
proof -
  have "late None (fst (update_spec key ob (view s)))" and v: "view s' = snd (update_spec key ob (view s))"
    using refinesD [OF update assms] by auto
  then show ?thesis
    by (auto simp: get get_spec_def update_spec_def put_spec_def unmarshal_marshal_obj
        split: option.splits if_splits)
qed

lemma get_after_delete:
  assumes "good s" and "st_Delete S key s = Some (None, s')"
  shows "st_Get S key z s' = Inl ErrNotFound"
  using refinesD [OF delete assms]
  by (auto simp: get get_spec_def delete_spec_def split: if_splits)

lemma other_keys:
  assumes "good s" and "key' \<noteq> key"
    and "st_Create S key ob s = Some (e, s') \<or> st_Update S key ob s = Some (e, s') \<or>
         st_Delete S key s = Some (e, s')"
  shows "st_Get S key' z s' = st_Get S key' z s"
proof -
  note effects = refinesD(2) [OF create assms(1)] refinesD(2) [OF update assms(1)]
    refinesD(2) [OF delete assms(1)]
  have "view s' key' = view s key'"
    using assms(2,3)
    by (auto dest!: effects simp: create_spec_def update_spec_def delete_spec_def put_spec_def
        split: option.splits)
  then show ?thesis by (simp add: get get_spec_def)
qed

lemma second_create_conflicts:
  assumes "good s" and "st_Create S key ob s = Some (None, s1)" and "st_Create S key ob' s1 = Some (e, s2)"
  shows "e = Some ErrConflict \<and> view s2 = view s1"
proof -
  have "view s1 key \<noteq> None"
    using refinesD(2,3) [OF create assms(1,2)]
    by (auto simp: create_spec_def put_spec_def split: option.splits if_splits)
  moreover have "good s1" using refinesD(1) [OF create assms(1,2)] .
  ultimately show ?thesis
    using refinesD(2,3) [OF create _ assms(3)] by (auto simp: create_spec_def put_spec_def late_def)
qed

end

section \<open>MemoryStore satisfies the contract\<close>

definition ms_inv :: "MemoryStore \<Rightarrow> bool" where
  "ms_inv s \<longleftrightarrow> distinct (map fst (ms_data s)) \<and> (\<forall>d. mset (ms_iter s d) = mset d)"

definition ms_quiet :: "MemoryStore \<Rightarrow> bool" where
  "ms_quiet s \<longleftrightarrow> ms_watchers s = [] \<and> list_all (\<lambda>f. f = None) (ms_io s)"

definition ms_view :: "MemoryStore \<Rightarrow> kv" where
  "ms_view s = map_of (ms_data s)"

lemma ms_sync_data [simp]:
  "ms_data (snd (ms_sync s)) = ms_data s" "ms_iter (snd (ms_sync s)) = ms_iter s"
  "ms_watchers (snd (ms_sync s)) = ms_watchers s" "ms_filePath (snd (ms_sync s)) = ms_filePath s"
  by (auto simp: ms_sync_def split: list.splits option.splits)

lemma ms_sync_error: "late (fst (ms_sync s)) None"
  by (auto simp: ms_sync_def late_def split: list.splits option.splits)

lemma ms_sync_quiet:
  "list_all (\<lambda>f. f = None) (ms_io s) \<Longrightarrow>
   fst (ms_sync s) = None \<and> list_all (\<lambda>f. f = None) (ms_io (snd (ms_sync s)))"
  by (auto simp: ms_sync_def split: list.splits option.splits)

text \<open>The common shape of a change: replace the data, notify, write the file.\<close>

definition commit :: "EventType \<Rightarrow> string \<Rightarrow> payload \<Rightarrow> entries \<Rightarrow> MemoryStore \<Rightarrow> (gerror option \<times> MemoryStore) option" where
  "commit t key p d s = map_option ms_sync (notifyWatchers t key p (s\<lparr>ms_data := d\<rparr>))"

lemma commit_effect:
  assumes "commit t key p d s = Some (e, s')"
  shows "ms_data s' = d" "ms_iter s' = ms_iter s" "late e None" "ms_filePath s' = ms_filePath s"
proof -
  obtain ws where s: "ms_sync (s\<lparr>ms_data := d, ms_watchers := ws\<rparr>) = (e, s')"
    using assms by (auto simp: commit_def notifyWatchers_def)
  then have "s' = snd (ms_sync (s\<lparr>ms_data := d, ms_watchers := ws\<rparr>))"
    and e: "e = fst (ms_sync (s\<lparr>ms_data := d, ms_watchers := ws\<rparr>))"
    by (metis snd_conv, metis fst_conv)
  then show "ms_data s' = d" "ms_iter s' = ms_iter s" "ms_filePath s' = ms_filePath s" by simp_all
  show "late e None" unfolding e by (rule ms_sync_error)
qed

lemma commit_quiet:
  assumes "ms_quiet s"
  shows "\<exists>s'. commit t key p d s = Some (None, s') \<and> ms_quiet s'"
proof -
  let ?s = "s\<lparr>ms_data := d, ms_watchers := []\<rparr>"
  have w: "ms_watchers s = []" and io: "list_all (\<lambda>f. f = None) (ms_io ?s)"
    using assms by (simp_all add: ms_quiet_def)
  have "commit t key p d s = Some (ms_sync ?s)"
    by (simp add: commit_def notifyWatchers_def w)
  moreover have "ms_sync ?s = (None, snd (ms_sync ?s))" "ms_quiet (snd (ms_sync ?s))"
    using ms_sync_quiet [OF io] by (auto simp: prod_eq_iff ms_quiet_def)
  ultimately show ?thesis by metis
qed

lemma refines_commit:
  assumes op: "\<And>s. op s = (case guard (ms_view s) of
        Some err \<Rightarrow> Some (Some err, s)
      | None \<Rightarrow> commit t key (p s) (f (ms_data s)) s)"
    and spec: "\<And>m. spec m = (case guard m of Some err \<Rightarrow> (Some err, m) | None \<Rightarrow> (None, g m))"
    and f: "\<And>d. distinct (map fst d) \<Longrightarrow> distinct (map fst (f d)) \<and> map_of (f d) = g (map_of d)"
  shows "refines ms_inv ms_quiet ms_view op spec"
  unfolding refines_def
proof (intro conjI allI impI)
  fix s e s' assume good: "ms_inv s" and r: "op s = Some (e, s')"
  show "ms_inv s'" "ms_view s' = snd (spec (ms_view s))" "late e (fst (spec (ms_view s)))"
    using good r f [of "ms_data s"]
    by (auto simp: op spec ms_inv_def ms_view_def late_def [of _ "Some _"] dest: commit_effect
        split: option.splits)
next
  fix s assume "ms_inv s" "ms_quiet s"
  then show "\<exists>s'. op s = Some (fst (spec (ms_view s)), s') \<and> ms_quiet s'"
    using commit_quiet [of s t key "p s" "f (ms_data s)"] by (auto simp: op spec split: option.splits)
qed

text \<open>The guard of each operation, and what it does to the map when the guard lets it.\<close>

definition create_guard :: "string \<Rightarrow> obj \<Rightarrow> kv \<Rightarrow> gerror option" where
  "create_guard key ob m =
     (if m key \<noteq> None then Some ErrConflict
      else if marshal_obj ob = None then Some (Errorf ''marshal'') else None)"

definition update_guard :: "string \<Rightarrow> obj \<Rightarrow> kv \<Rightarrow> gerror option" where
  "update_guard key ob m =
     (if m key = None then Some ErrNotFound
      else if marshal_obj ob = None then Some (Errorf ''marshal'') else None)"

definition delete_guard :: "string \<Rightarrow> kv \<Rightarrow> gerror option" where
  "delete_guard key m = (if m key = None then Some ErrNotFound else None)"

lemma put_entries:
  "distinct (map fst d) \<Longrightarrow> distinct (map fst (AList.update k b d)) \<and> map_of (AList.update k b d) = (map_of d)(k \<mapsto> b)"
  by (simp add: distinct_update update_conv')

lemma delete_entries:
  "distinct (map fst d) \<Longrightarrow> distinct (map fst (AList.delete k d)) \<and> map_of (AList.delete k d) = (map_of d)(k := None)"
  by (simp add: distinct_delete delete_conv')

lemma ms_create_refines: "refines ms_inv ms_quiet ms_view (ms_Create key ob) (create_spec key ob)"
  by (rule refines_commit [where guard = "create_guard key ob" and t = Added and key = key and p = "\<lambda>_. Live ob"
        and f = "AList.update key (the (marshal_obj ob))" and g = "\<lambda>m. m(key \<mapsto> the (marshal_obj ob))"])
     (auto simp: ms_Create_def commit_def create_guard_def create_spec_def put_spec_def ms_view_def put_entries
       split: option.splits)

lemma ms_update_refines: "refines ms_inv ms_quiet ms_view (ms_Update key ob) (update_spec key ob)"
  by (rule refines_commit [where guard = "update_guard key ob" and t = Modified and key = key and p = "\<lambda>_. Live ob"
        and f = "AList.update key (the (marshal_obj ob))" and g = "\<lambda>m. m(key \<mapsto> the (marshal_obj ob))"])
     (auto simp: ms_Update_def commit_def update_guard_def update_spec_def put_spec_def ms_view_def put_entries
       split: option.splits)

lemma ms_delete_refines: "refines ms_inv ms_quiet ms_view (ms_Delete key) (delete_spec key)"
  by (rule refines_commit [where guard = "delete_guard key" and t = Deleted and key = key
        and p = "\<lambda>s. tombstone (the (ms_view s key))" and f = "AList.delete key" and g = "\<lambda>m. m(key := None)"])
     (auto simp: ms_Delete_def commit_def delete_guard_def delete_spec_def ms_view_def delete_entries
       split: option.splits)

lemma list_loop_filter:
  "list_loop p z d acc =
     (case opt_all (map (\<lambda>(k, v). unmarshal_obj v (fresh z)) (filter (\<lambda>(k, v). has_prefix k p) d)) of
        None \<Rightarrow> Inl (Errorf ''unmarshal'') | Some xs \<Rightarrow> Inr (acc @ xs))"
proof (induction d arbitrary: acc)
  case (Cons e d)
  obtain k v where e: "e = (k, v)" by (cases e)
  with Cons show ?case
    by (cases "unmarshal_obj v (fresh z)") (auto split: option.splits)
qed simp

lemma ms_list_spec:
  assumes "ms_inv s"
  shows "\<exists>ks. distinct ks \<and> set ks = {k \<in> dom (ms_view s). has_prefix k prefix} \<and>
     ms_List prefix z s = list_spec ks z (ms_view s)"
proof -
  let ?d = "filter (\<lambda>(k, v). has_prefix k prefix) (ms_iter s (ms_data s))"
  have m: "mset (ms_iter s (ms_data s)) = mset (ms_data s)" and dist: "distinct (map fst (ms_data s))"
    using assms by (auto simp: ms_inv_def)
  have d: "distinct (map fst (ms_iter s (ms_data s)))"
    using dist m by (metis mset_map mset_eq_imp_distinct_iff)
  then have d': "distinct (map fst ?d)" by (rule distinct_map_filter)
  have set: "set (ms_iter s (ms_data s)) = set (ms_data s)"
    using m by (metis set_mset_mset)
  have look: "ms_view s k = Some v" if "(k, v) \<in> set ?d" for k v
    using that set dist by (auto simp: ms_view_def)
  have keys: "set (map fst ?d) = {k \<in> dom (ms_view s). has_prefix k prefix}"
    using set by (force simp: ms_view_def dom_map_of_conv_image_fst)
  have items: "map (\<lambda>(k, v). unmarshal_obj v (fresh z)) ?d =
      map (\<lambda>k. unmarshal_obj (the (ms_view s k)) (fresh z)) (map fst ?d)"
    using look by (auto simp: comp_def intro!: map_cong)
  have "ms_List prefix z s = list_spec (map fst ?d) z (ms_view s)"
    unfolding ms_List_def list_loop_filter list_spec_def items by (simp split: option.splits)
  with d' keys show ?thesis by blast
qed

lemma ms_watch_ok: "ms_inv s \<Longrightarrow> ms_Watch p s = (i, s') \<Longrightarrow> ms_inv s' \<and> ms_view s' = ms_view s"
  by (auto simp: ms_Watch_def ms_inv_def ms_view_def)

lemma ms_get_spec: "ms_Get key z s = get_spec key z (ms_view s)"
  by (simp add: ms_Get_def get_spec_def ms_view_def)

interpretation MemoryStore: store MemoryStore_ops ms_inv ms_quiet ms_view
  by unfold_locales
     (simp_all add: MemoryStore_ops_def ms_create_refines ms_update_refines ms_delete_refines
       ms_get_spec ms_list_spec ms_watch_ok)

end
