(* ===== verification/StorageSpec.thy ===== *)
theory StorageSpec
  imports Storage
begin

text \<open>
  What \<open>MemoryStore\<close> promises beyond the contract of its interface: exactly which watchers an
  operation reaches and when it blocks, that a successful operation survives a restart, and that
  an operation that fails on the disk has taken place all the same.
\<close>

section \<open>Notification\<close>

definition matches :: "string \<Rightarrow> watcher \<Rightarrow> bool" where
  "matches key w = has_prefix key (w_keyPrefix w)"

definition full :: "watcher \<Rightarrow> bool" where
  "full w \<longleftrightarrow> chan_cap \<le> length (w_chan w)"

definition receive :: "Event \<Rightarrow> watcher \<Rightarrow> watcher" where
  "receive ev w = w\<lparr>w_chan := w_chan w @ [ev]\<rparr>"

lemma notify_iff:
  "notify t key ob ws =
     (if \<exists>w \<in> set ws. matches key w \<and> full w then None
      else Some (map (\<lambda>w. if matches key w then receive \<lparr>ev_Type = t, ev_Object = ob\<rparr> w else w) ws))"
  by (induction ws) (auto simp: matches_def full_def receive_def)

lemma commit_iff:
  "commit t key p d s =
     (if \<exists>w \<in> set (ms_watchers s). matches key w \<and> full w then None
      else Some (ms_sync (s\<lparr>ms_data := d, ms_watchers :=
        map (\<lambda>w. if matches key w then receive \<lparr>ev_Type = t, ev_Object = p\<rparr> w else w) (ms_watchers s)\<rparr>)))"
  by (simp add: commit_def notifyWatchers_def notify_iff)

text \<open>The three changing operations as a guard and a commit\<close>

lemma ms_op_commits:
  "ms_Create key ob s = (case create_guard key ob (ms_view s) of
     Some err \<Rightarrow> Some (Some err, s)
   | None \<Rightarrow> commit Added key (Live ob) (AList.update key (the (marshal_obj ob)) (ms_data s)) s)"
  "ms_Update key ob s = (case update_guard key ob (ms_view s) of
     Some err \<Rightarrow> Some (Some err, s)
   | None \<Rightarrow> commit Modified key (Live ob) (AList.update key (the (marshal_obj ob)) (ms_data s)) s)"
  "ms_Delete key s = (case delete_guard key (ms_view s) of
     Some err \<Rightarrow> Some (Some err, s)
   | None \<Rightarrow> commit Deleted key (tombstone (the (ms_view s key))) (AList.delete key (ms_data s)) s)"
  by (auto simp: ms_Create_def ms_Update_def ms_Delete_def commit_def create_guard_def update_guard_def
      delete_guard_def ms_view_def split: option.splits)

section \<open>The data file\<close>

lemma load_members_strings:
  "load_members (map (\<lambda>k. (k, JStr (b64_encode (f k)))) ks) d e =
     (e, fold (\<lambda>k. AList.update k (f k)) ks d)"
  by (induction ks arbitrary: d) (simp_all add: b64_roundtrip read_bytes_def)

lemma fold_update_map_of:
  "map_of (fold (\<lambda>k. AList.update k (f k)) ks d) k = (if k \<in> set ks then Some (f k) else map_of d k)"
  by (induction ks arbitrary: d) (auto simp: update_conv')

lemma load_dump:
  assumes "path \<noteq> []"
  shows "ms_view (NewMemoryStore path (Some (dump d)) False io iter) = map_of d"
proof
  fix k
  let ?ks = "sort (map fst d)" and ?f = "\<lambda>k. the (map_of d k)"
  let ?s = "\<lparr>ms_data = [], ms_watchers = [], ms_next = 0, ms_filePath = path, ms_file = Some (dump d),
      ms_unreadable = False, ms_io = io, ms_iter = iter\<rparr>"
  have "parse_json (dump d) = Some (JObj (map (\<lambda>k. (k, JStr (b64_encode (?f k)))) ?ks))"
    unfolding dump_def by (rule parse_print) (simp add: list_all_iff)
  then have "ms_load ?s = (None, ?s\<lparr>ms_data := fold (\<lambda>k. AList.update k (?f k)) ?ks []\<rparr>)"
    by (simp add: ms_load_def load_members_strings)
  then show "ms_view (NewMemoryStore path (Some (dump d)) False io iter) k = map_of d k"
    using assms by (simp add: NewMemoryStore_def ms_view_def fold_update_map_of)
      (metis domI domIff dom_map_of_conv_image_fst option.collapse)
qed

lemma commit_file:
  assumes "commit t key p d s = Some (None, s')" and "ms_filePath s \<noteq> []"
  shows "ms_file s' = Some (dump (ms_data s'))" and "ms_filePath s' = ms_filePath s"
  using assms by (auto simp: commit_iff ms_sync_def split: if_splits list.splits option.splits)

section \<open>Properties\<close>

text \<open>C8: Every operation of \<open>MemoryStore\<close> refines the abstract map: it answers as the specification does
  and leaves the map the specification leaves, except that it may report an I/O error after having
  done its work; invariants are kept, and on a quiet store it does not block.\<close>

theorem MemoryStore_refines_map:
  "refines ms_inv ms_quiet ms_view (ms_Create key ob) (create_spec key ob) \<and>
   refines ms_inv ms_quiet ms_view (ms_Update key ob) (update_spec key ob) \<and>
   refines ms_inv ms_quiet ms_view (ms_Delete key) (delete_spec key)"
  by (intro conjI ms_create_refines ms_update_refines ms_delete_refines)

text \<open>An operation that is not refused either blocks, exactly when a watcher of the key has a full
  channel, or appends one event of the right type to every watcher of the key and to no other.\<close>

lemma create_notifies_exactly:
  assumes "create_guard key ob (ms_view s) = None"
  shows "map_option (ms_watchers \<circ> snd) (ms_Create key ob s) =
    (if \<exists>w \<in> set (ms_watchers s). has_prefix key (w_keyPrefix w) \<and> 10 \<le> length (w_chan w) then None
     else Some (map (\<lambda>w. if has_prefix key (w_keyPrefix w)
        then w\<lparr>w_chan := w_chan w @ [\<lparr>ev_Type = Added, ev_Object = Live ob\<rparr>]\<rparr> else w) (ms_watchers s)))"
  unfolding ms_op_commits assms option.case commit_iff matches_def full_def receive_def chan_cap_def
  by (simp del: map_option_eq_Some)

text \<open>C17: What a successful operation leaves survives a restart: a store opened on the file it wrote
  holds the same map.\<close>

theorem success_survives_restart:
  assumes "ms_Create key ob s = Some (None, s') \<or> ms_Update key ob s = Some (None, s') \<or>
      ms_Delete key s = Some (None, s')"
    and "ms_filePath s \<noteq> []"
  shows "ms_view (NewMemoryStore (ms_filePath s') (ms_file s') False io iter) = ms_view s'"
proof -
  obtain t p d where c: "commit t key p d s = Some (None, s')"
    using assms(1) by (auto simp: ms_op_commits split: option.splits)
  have "ms_filePath s' \<noteq> []" using commit_file(2) [OF c assms(2)] assms(2) by simp
  then show ?thesis
    using commit_file(1) [OF c assms(2)] load_dump by (simp add: ms_view_def)
qed

text \<open>An operation whose file write fails with \<open>junk\<close> left behind: it blocks exactly when a watcher of the
  key has no room; otherwise it returns the error with the map \<open>m\<close> in place, the watchers of the key
  told, and \<open>later\<close> true of the store it leaves.\<close>

definition applied_late ::
  "(MemoryStore \<Rightarrow> (gerror option \<times> MemoryStore) option) \<Rightarrow> string \<Rightarrow> Event \<Rightarrow> string \<Rightarrow> MemoryStore \<Rightarrow> kv \<Rightarrow>
     (MemoryStore \<Rightarrow> bool) \<Rightarrow> bool" where
  "applied_late op key ev junk s m later \<longleftrightarrow>
     (if \<exists>w \<in> set (ms_watchers s). matches key w \<and> full w then op s = None
      else \<exists>s'. op s = Some (Some (Errorf ''write''), s') \<and> ms_view s' = m \<and> ms_file s' = Some junk \<and>
        ms_watchers s' = map (\<lambda>w. if matches key w then receive ev w else w) (ms_watchers s) \<and> later s')"

lemma commit_applied_late:
  assumes "op s = commit t key p d s" and "ms_filePath s \<noteq> []" and "ms_io s = Some junk # rest" and "map_of d = m"
    and "\<And>s'. ms_data s' = d \<Longrightarrow> later s'"
  shows "applied_late op key \<lparr>ev_Type = t, ev_Object = p\<rparr> junk s m later"
  using assms by (simp add: applied_late_def commit_iff ms_sync_def ms_view_def)

text \<open>C33: An operation that is not refused and whose file write fails has taken place all the same: with or
  without watchers, the store holds what the specification of a success says, every watcher of the
  key is told, readers see the new value, and yet the caller gets the error. A create retried is a
  conflict and a delete retried finds nothing; the file holds what the failed write left.\<close>

theorem failed_write_is_applied:
  assumes "ms_filePath s \<noteq> []" and "ms_io s = Some junk # rest"
  shows "(fst (create_spec key ob (ms_view s)) = None \<longrightarrow>
      applied_late (ms_Create key ob) key \<lparr>ev_Type = Added, ev_Object = Live ob\<rparr> junk s (snd (create_spec key ob (ms_view s)))
        (\<lambda>s'. ms_Get key (fresh ob) s' = Inr (obj_nrm ob) \<and> ms_Create key ob' s' = Some (Some ErrConflict, s'))) \<and>
    (fst (update_spec key ob (ms_view s)) = None \<longrightarrow>
      applied_late (ms_Update key ob) key \<lparr>ev_Type = Modified, ev_Object = Live ob\<rparr> junk s (snd (update_spec key ob (ms_view s)))
        (\<lambda>s'. ms_Get key (fresh ob) s' = Inr (obj_nrm ob))) \<and>
    (fst (delete_spec key (ms_view s)) = None \<longrightarrow>
      applied_late (ms_Delete key) key \<lparr>ev_Type = Deleted, ev_Object = tombstone (the (ms_view s key))\<rparr> junk s
        (snd (delete_spec key (ms_view s)))
        (\<lambda>s'. ms_Get key (fresh ob) s' = Inl ErrNotFound \<and> ms_Delete key s' = Some (Some ErrNotFound, s')))"
proof (intro conjI impI)
  let ?m = "ms_view s"
  show "applied_late (ms_Create key ob) key \<lparr>ev_Type = Added, ev_Object = Live ob\<rparr> junk s (snd (create_spec key ob ?m))
      (\<lambda>s'. ms_Get key (fresh ob) s' = Inr (obj_nrm ob) \<and> ms_Create key ob' s' = Some (Some ErrConflict, s'))"
    if "fst (create_spec key ob ?m) = None"
    using that assms
    by (intro commit_applied_late [where d = "AList.update key (the (marshal_obj ob)) (ms_data s)"])
       (auto simp: ms_op_commits create_guard_def create_spec_def put_spec_def ms_view_def update_conv' ms_Get_def
          ms_Create_def unmarshal_marshal_obj split: option.splits if_splits)
  show "applied_late (ms_Update key ob) key \<lparr>ev_Type = Modified, ev_Object = Live ob\<rparr> junk s (snd (update_spec key ob ?m))
      (\<lambda>s'. ms_Get key (fresh ob) s' = Inr (obj_nrm ob))"
    if "fst (update_spec key ob ?m) = None"
    using that assms
    by (intro commit_applied_late [where d = "AList.update key (the (marshal_obj ob)) (ms_data s)"])
       (auto simp: ms_op_commits update_guard_def update_spec_def put_spec_def ms_view_def update_conv' ms_Get_def
          unmarshal_marshal_obj split: option.splits if_splits)
  show "applied_late (ms_Delete key) key \<lparr>ev_Type = Deleted, ev_Object = tombstone (the (?m key))\<rparr> junk s (snd (delete_spec key ?m))
      (\<lambda>s'. ms_Get key (fresh ob) s' = Inl ErrNotFound \<and> ms_Delete key s' = Some (Some ErrNotFound, s'))"
    if "fst (delete_spec key ?m) = None"
    using that assms
    by (intro commit_applied_late [where d = "AList.delete key (ms_data s)"])
       (auto simp: ms_op_commits delete_guard_def delete_spec_def ms_view_def delete_conv' ms_Get_def ms_Delete_def
          split: option.splits if_splits)
qed

definition demo_store :: "string option list \<Rightarrow> MemoryStore" where
  "demo_store io = NewMemoryStore ''data.json'' None False io id"

lemma demo_store_simps [simp]:
  "ms_view (demo_store io) = Map.empty" "ms_filePath (demo_store io) = ''data.json''"
  "ms_io (demo_store io) = io" "ms_watchers (demo_store io) = []"
  by (simp_all add: demo_store_def NewMemoryStore_def ms_load_def ms_view_def)

lemma zero_lease_marshals: "\<exists>b. marshal_obj (OLease Lease_zero) = Some b"
  using json_codec.ok_zero [OF Lease_law] by (simp add: marshal_def)

lemma create_notifies_exactly_witness:
  "map_option (ms_watchers \<circ> snd) (ms_Create ''k'' (OLease Lease_zero) (snd (ms_Watch ''k'' (demo_store [])))) =
     Some [\<lparr>w_id = 0, w_keyPrefix = ''k'', w_chan = [\<lparr>ev_Type = Added, ev_Object = Live (OLease Lease_zero)\<rparr>]\<rparr>]"
proof -
  have "create_guard ''k'' (OLease Lease_zero) (ms_view (snd (ms_Watch ''k'' (demo_store [])))) = None"
    using zero_lease_marshals
    by (auto simp: create_guard_def ms_Watch_def ms_view_def demo_store_def NewMemoryStore_def ms_load_def)
  from create_notifies_exactly [OF this] show ?thesis
    by (simp add: ms_Watch_def demo_store_def NewMemoryStore_def ms_load_def)
qed

theorem success_survives_restart_witness:
  "\<exists>s'. ms_Create ''k'' (OLease Lease_zero) (demo_store []) = Some (None, s') \<and>
     ms_view (NewMemoryStore (ms_filePath s') (ms_file s') False [] id) = ms_view s'"
proof -
  obtain s' where s': "ms_Create ''k'' (OLease Lease_zero) (demo_store []) = Some (None, s')"
    using zero_lease_marshals
    by (auto simp: ms_Create_def notifyWatchers_def ms_sync_def demo_store_def NewMemoryStore_def ms_load_def)
  then show ?thesis using success_survives_restart [of "''k''" "OLease Lease_zero" "demo_store []" s'] by simp
qed

text \<open>A store with an object under \<open>k\<close>, a watcher of \<open>k\<close> and a disk that fails next\<close>

definition failing_store :: "string \<Rightarrow> MemoryStore" where
  "failing_store b = snd (ms_Watch ''k'' ((demo_store [Some []])\<lparr>ms_data := [(''k'', b)]\<rparr>))"

lemma failing_store_simps [simp]:
  "ms_view (failing_store b) = [''k'' \<mapsto> b]" "ms_filePath (failing_store b) = ''data.json''"
  "ms_io (failing_store b) = [Some []]"
  "ms_watchers (failing_store b) = [\<lparr>w_id = 0, w_keyPrefix = ''k'', w_chan = []\<rparr>]"
  by (simp_all add: failing_store_def ms_Watch_def demo_store_def NewMemoryStore_def ms_load_def ms_view_def fun_eq_iff)

theorem failed_write_is_applied_witness:
  "(\<exists>s'. ms_Create ''k'' (OLease Lease_zero) (demo_store [Some []]) = Some (Some (Errorf ''write''), s') \<and>
      ms_Create ''k'' (OLease Lease_zero) s' = Some (Some ErrConflict, s')) \<and>
   (\<exists>s'. ms_Update ''k'' (OLease Lease_zero) (failing_store []) = Some (Some (Errorf ''write''), s') \<and>
      ms_Get ''k'' (OLease Lease_zero) s' = Inr (OLease Lease_zero) \<and> map (length \<circ> w_chan) (ms_watchers s') = [1]) \<and>
   (\<exists>s'. ms_Delete ''k'' (failing_store []) = Some (Some (Errorf ''write''), s') \<and> ms_view s' = Map.empty \<and>
      map w_chan (ms_watchers s') = [[\<lparr>ev_Type = Deleted, ev_Object = Tombstone None\<rparr>]])"
proof -
  let ?ob = "OLease Lease_zero"
  obtain b where b: "marshal_obj ?ob = Some b" using zero_lease_marshals by blast
  have "obj_nrm ?ob = ?ob" by (simp add: Lease_zero_def)
  moreover have "fresh ?ob = ?ob" by simp
  moreover have "parse_json [] = None" by code_simp
  moreover have "fst (create_spec ''k'' ?ob Map.empty) = None" "fst (update_spec ''k'' ?ob [''k'' \<mapsto> []]) = None"
      "fst (delete_spec ''k'' [''k'' \<mapsto> []]) = None"
    using b by (simp_all add: create_spec_def update_spec_def delete_spec_def put_spec_def)
  ultimately show ?thesis
    using failed_write_is_applied [of "demo_store [Some []]" "[]" "[]" "''k''" ?ob ?ob]
      failed_write_is_applied [of "failing_store []" "[]" "[]" "''k''" ?ob ?ob]
    by (auto simp: applied_late_def full_def chan_cap_def matches_def receive_def delete_spec_def tombstone_def)
qed

end
