(* ===== verification/Apiserver.thy ===== *)
theory Apiserver
  imports Storage
begin

text \<open>
  internal/apiserver/server.go: the handlers of the REST interface over any \<open>Store\<close>. The chi
  router and the render package are not part of the repository: the server carries them as
  functions (\<open>Router\<close>, \<open>Render\<close>), and what the code relies on is \<open>router_ok\<close> and \<open>render_ok\<close>.
  A handler whose store operation blocks has no result.
\<close>

section \<open>HTTP\<close>

datatype http_method = GET | POST | PUT | DELETE

record http_request =
  rq_method :: http_method
  rq_url :: string
  rq_watch :: bool \<comment> \<open>query parameter watch=true\<close>
  rq_body :: string

record http_response =
  rp_status :: nat
  rp_body :: string

text \<open>A watch request is answered by a stream fed by the watcher of that identity.\<close>

datatype answer = Done http_response | Streaming nat

text \<open>Where chi sends a request; what it does not know it answers itself (404, 405).\<close>

datatype route = Home | Metrics | Collection string | Item string string | NoRoute http_response

record 's Server =
  sv_Store :: "'s Store"
  sv_Router :: "http_method \<Rightarrow> string \<Rightarrow> route"
  sv_Render :: "nat \<Rightarrow> json \<Rightarrow> http_response"

section \<open>Errors\<close>

record ErrResponse =
  er_HTTPStatusCode :: nat
  er_StatusText :: string
  er_AppCode :: int64
  er_ErrorText :: string

definition ErrResponse_json :: "ErrResponse \<Rightarrow> json" where
  "ErrResponse_json e =
     JObj ([(''status'', JStr (er_StatusText e))]
       @ (if er_AppCode e = 0 then [] else [(''code'', JInt (sint (er_AppCode e)))])
       @ (if er_ErrorText e = [] then [] else [(''error'', JStr (er_ErrorText e))]))"

fun Error :: "gerror \<Rightarrow> string" where
  "Error ErrNotFound = ''resource not found''"
| "Error ErrConflict = ''resource conflict''"
| "Error (Errorf t) = t"

definition ErrInvalidRequest :: "gerror \<Rightarrow> ErrResponse" where
  "ErrInvalidRequest e = \<lparr>er_HTTPStatusCode = 400, er_StatusText = ''Invalid request'',
     er_AppCode = 0, er_ErrorText = Error e\<rparr>"

definition ErrConflict_response :: "gerror \<Rightarrow> ErrResponse" where
  "ErrConflict_response e = \<lparr>er_HTTPStatusCode = 409, er_StatusText = ''Resource already exists'',
     er_AppCode = 0, er_ErrorText = Error e\<rparr>"

definition ErrNotFound_response :: ErrResponse where
  "ErrNotFound_response = \<lparr>er_HTTPStatusCode = 404, er_StatusText = ''Resource not found'',
     er_AppCode = 0, er_ErrorText = []\<rparr>"

definition ErrInternal :: "gerror \<Rightarrow> ErrResponse" where
  "ErrInternal e = \<lparr>er_HTTPStatusCode = 500, er_StatusText = ''Internal server error'',
     er_AppCode = 0, er_ErrorText = Error e\<rparr>"

text \<open>\<open>render.Render\<close> of an \<open>ErrResponse\<close>, whose \<open>Render\<close> method sets the status\<close>

definition render_err :: "'s Server \<Rightarrow> ErrResponse \<Rightarrow> answer" where
  "render_err srv e = Done (sv_Render srv (er_HTTPStatusCode e) (ErrResponse_json e))"

section \<open>Resources\<close>

text \<open>The arguments of \<open>registerResourceRoutes\<close>, in the order of \<open>routes\<close>\<close>

definition resource_routes :: "(string \<times> string) list" where
  "resource_routes =
     [(''/api/v1'', ''pods''), (''/api/v1'', ''nodes''), (''/apis/apps/v1'', ''replicasets''),
      (''/apis/apps/v1'', ''deployments''), (''/api/v1'', ''services''), (''/api/v1'', ''endpoints''),
      (''/api/v1'', ''leases'')]"

definition NewServer :: "'s Store \<Rightarrow> ((string \<times> string) list \<Rightarrow> http_method \<Rightarrow> string \<Rightarrow> route) \<Rightarrow>
    (nat \<Rightarrow> json \<Rightarrow> http_response) \<Rightarrow> 's Server" where
  "NewServer st chi render = \<lparr>sv_Store = st, sv_Router = chi resource_routes, sv_Render = render\<rparr>"

text \<open>The type switch every handler starts with: a fresh object of the resource's type\<close>

definition newObj :: "string \<Rightarrow> obj option" where
  "newObj resource =
     (if resource = ''pods'' then Some (OPod Pod_zero)
      else if resource = ''nodes'' then Some (ONode Node_zero)
      else if resource = ''replicasets'' then Some (OReplicaSet ReplicaSet_zero)
      else if resource = ''deployments'' then Some (ODeployment Deployment_zero)
      else if resource = ''services'' then Some (OService Service_zero)
      else if resource = ''endpoints'' then Some (OEndpoints Endpoints_zero)
      else if resource = ''leases'' then Some (OLease Lease_zero)
      else None)"

fun getObjectMeta :: "obj \<Rightarrow> ObjectMeta" where
  "getObjectMeta (OPod x) = pod_ObjectMeta x"
| "getObjectMeta (ONode x) = node_ObjectMeta x"
| "getObjectMeta (OReplicaSet x) = rs_ObjectMeta x"
| "getObjectMeta (ODeployment x) = dep_ObjectMeta x"
| "getObjectMeta (OService x) = svc_ObjectMeta x"
| "getObjectMeta (OEndpoints x) = ep_ObjectMeta x"
| "getObjectMeta (OLease x) = lease_ObjectMeta x"

definition obj_name :: "obj \<Rightarrow> string" where
  "obj_name ob = om_Name (getObjectMeta ob)"

fun obj_json :: "obj \<Rightarrow> json" where
  "obj_json (OPod x) = cenc Pod_codec x"
| "obj_json (ONode x) = cenc Node_codec x"
| "obj_json (OReplicaSet x) = cenc ReplicaSet_codec x"
| "obj_json (ODeployment x) = cenc Deployment_codec x"
| "obj_json (OService x) = cenc Service_codec x"
| "obj_json (OEndpoints x) = cenc Endpoints_codec x"
| "obj_json (OLease x) = cenc Lease_codec x"

definition registry_key :: "string \<Rightarrow> string \<Rightarrow> string" where
  "registry_key resource name = ''/registry/'' @ resource @ ''/'' @ name"

definition registry_prefix :: "string \<Rightarrow> string" where
  "registry_prefix resource = ''/registry/'' @ resource"

text \<open>\<open>render.JSON\<close>: the value's JSON with the status set on the request\<close>

definition render_obj :: "'s Server \<Rightarrow> nat \<Rightarrow> obj \<Rightarrow> answer" where
  "render_obj srv st ob =
     (case marshal_obj ob of
        Some _ \<Rightarrow> Done (sv_Render srv st (obj_json ob))
      | None \<Rightarrow> render_err srv (ErrInternal (Errorf ''marshal'')))"

text \<open>The list objects; a list nothing was appended to is nil.\<close>

definition pods_in :: "obj list \<Rightarrow> Pod list" where
  "pods_in xs = List.map_filter (\<lambda>x. case x of OPod p \<Rightarrow> Some p | _ \<Rightarrow> None) xs"

definition nodes_in :: "obj list \<Rightarrow> Node list" where
  "nodes_in xs = List.map_filter (\<lambda>x. case x of ONode p \<Rightarrow> Some p | _ \<Rightarrow> None) xs"

definition replicasets_in :: "obj list \<Rightarrow> ReplicaSet list" where
  "replicasets_in xs = List.map_filter (\<lambda>x. case x of OReplicaSet p \<Rightarrow> Some p | _ \<Rightarrow> None) xs"

definition deployments_in :: "obj list \<Rightarrow> Deployment list" where
  "deployments_in xs = List.map_filter (\<lambda>x. case x of ODeployment p \<Rightarrow> Some p | _ \<Rightarrow> None) xs"

definition services_in :: "obj list \<Rightarrow> Service list" where
  "services_in xs = List.map_filter (\<lambda>x. case x of OService p \<Rightarrow> Some p | _ \<Rightarrow> None) xs"

definition endpoints_in :: "obj list \<Rightarrow> Endpoints list" where
  "endpoints_in xs = List.map_filter (\<lambda>x. case x of OEndpoints p \<Rightarrow> Some p | _ \<Rightarrow> None) xs"

definition leases_in :: "obj list \<Rightarrow> Lease list" where
  "leases_in xs = List.map_filter (\<lambda>x. case x of OLease p \<Rightarrow> Some p | _ \<Rightarrow> None) xs"

definition list_of_kind :: "obj \<Rightarrow> obj list \<Rightarrow> (json \<times> bool)" where
  "list_of_kind z xs =
     (case z of
        OPod _ \<Rightarrow> (let l = PodList_zero\<lparr>podl_Items := slice_of (pods_in xs)\<rparr>
                   in (cenc PodList_codec l, cok PodList_codec l))
      | ONode _ \<Rightarrow> (let l = NodeList_zero\<lparr>nodel_Items := slice_of (nodes_in xs)\<rparr>
                    in (cenc NodeList_codec l, cok NodeList_codec l))
      | OReplicaSet _ \<Rightarrow> (let l = ReplicaSetList_zero\<lparr>rsl_Items := slice_of (replicasets_in xs)\<rparr>
                          in (cenc ReplicaSetList_codec l, cok ReplicaSetList_codec l))
      | ODeployment _ \<Rightarrow> (let l = DeploymentList_zero\<lparr>depl_Items := slice_of (deployments_in xs)\<rparr>
                          in (cenc DeploymentList_codec l, cok DeploymentList_codec l))
      | OService _ \<Rightarrow> (let l = ServiceList_zero\<lparr>svcl_Items := slice_of (services_in xs)\<rparr>
                       in (cenc ServiceList_codec l, cok ServiceList_codec l))
      | OEndpoints _ \<Rightarrow> (let l = EndpointsList_zero\<lparr>epl_Items := slice_of (endpoints_in xs)\<rparr>
                         in (cenc EndpointsList_codec l, cok EndpointsList_codec l))
      | OLease _ \<Rightarrow> (let l = LeaseList_zero\<lparr>leasel_Items := slice_of (leases_in xs)\<rparr>
                     in (cenc LeaseList_codec l, cok LeaseList_codec l)))"

section \<open>Handlers\<close>

definition handleUpdate :: "'s Server \<Rightarrow> string \<Rightarrow> string \<Rightarrow> string \<Rightarrow> 's \<Rightarrow> (answer \<times> 's) option" where
  "handleUpdate srv resource name body s =
     (let key = registry_key resource name in
      case Option.bind (newObj resource) (decode_obj body) of
        None \<Rightarrow> Some (render_err srv (ErrInvalidRequest (Errorf ''decode'')), s)
      | Some ob \<Rightarrow>
          (case st_Update (sv_Store srv) key ob s of
             None \<Rightarrow> None
           | Some (Some err, s') \<Rightarrow>
               Some (render_err srv (if err = ErrNotFound then ErrNotFound_response else ErrInternal err), s')
           | Some (None, s') \<Rightarrow> Some (render_obj srv 200 ob, s')))"

text \<open>
  The refusal of a writer that cannot flush (\<open>Streaming not supported\<close>) is dead: the middleware in front
  wraps every writer in one that can.
\<close>

definition handleWatch :: "'s Server \<Rightarrow> string \<Rightarrow> 's \<Rightarrow> (answer \<times> 's) option" where
  "handleWatch srv resource s =
     (let (i, s') = st_Watch (sv_Store srv) (registry_prefix resource) s in Some (Streaming i, s'))"

definition handleList :: "'s Server \<Rightarrow> string \<Rightarrow> bool \<Rightarrow> 's \<Rightarrow> (answer \<times> 's) option" where
  "handleList srv resource watch s =
     (if watch then handleWatch srv resource s
      else case newObj resource of
        None \<Rightarrow> Some (render_err srv ErrNotFound_response, s)
      | Some z \<Rightarrow>
          (case st_List (sv_Store srv) (registry_prefix resource) z s of
             Inl err \<Rightarrow> Some (render_err srv (ErrInternal err), s)
           | Inr xs \<Rightarrow>
               (let (j, ok) = list_of_kind z xs in
                Some (if ok then Done (sv_Render srv 200 j)
                      else render_err srv (ErrInternal (Errorf ''marshal'')), s))))"

definition handleCreate :: "'s Server \<Rightarrow> string \<Rightarrow> string \<Rightarrow> 's \<Rightarrow> (answer \<times> 's) option" where
  "handleCreate srv resource body s =
     (case Option.bind (newObj resource) (decode_obj body) of
        None \<Rightarrow> Some (render_err srv (ErrInvalidRequest (Errorf ''decode'')), s)
      | Some ob \<Rightarrow>
          if obj_name ob = []
          then Some (render_err srv (ErrInvalidRequest (Errorf ''metadata.name is required'')), s)
          else
            (case st_Create (sv_Store srv) (registry_key resource (obj_name ob)) ob s of
               None \<Rightarrow> None
             | Some (Some err, s') \<Rightarrow>
                 Some (render_err srv
                   (if err = ErrConflict then ErrConflict_response err else ErrInternal err), s')
             | Some (None, s') \<Rightarrow> Some (render_obj srv 201 ob, s')))"

definition handleGet :: "'s Server \<Rightarrow> string \<Rightarrow> string \<Rightarrow> 's \<Rightarrow> (answer \<times> 's) option" where
  "handleGet srv resource name s =
     (case newObj resource of
        None \<Rightarrow> Some (render_err srv ErrNotFound_response, s)
      | Some z \<Rightarrow>
          (case st_Get (sv_Store srv) (registry_key resource name) z s of
             Inl err \<Rightarrow>
               Some (render_err srv (if err = ErrNotFound then ErrNotFound_response else ErrInternal err), s)
           | Inr ob \<Rightarrow> Some (render_obj srv 200 ob, s)))"

definition handleDelete :: "'s Server \<Rightarrow> string \<Rightarrow> string \<Rightarrow> 's \<Rightarrow> (answer \<times> 's) option" where
  "handleDelete srv resource name s =
     (case st_Delete (sv_Store srv) (registry_key resource name) s of
        None \<Rightarrow> None
      | Some (Some err, s') \<Rightarrow>
          Some (render_err srv (if err = ErrNotFound then ErrNotFound_response else ErrInternal err), s')
      | Some (None, s') \<Rightarrow>
          Some (Done (sv_Render srv 200 (JObj [(''status'', JStr ''deleted'')])), s'))"

text \<open>The method table of \<open>registerResourceRoutes\<close>, behind the router\<close>

definition ServeHTTP :: "'s Server \<Rightarrow> http_request \<Rightarrow> 's \<Rightarrow> (answer \<times> 's) option" where
  "ServeHTTP srv rq s =
     (case sv_Router srv (rq_method rq) (rq_url rq) of
        Home \<Rightarrow> Some (Done \<lparr>rp_status = 200, rp_body = ''K8s-Lite API Server''\<rparr>, s)
      | Metrics \<Rightarrow> Some (Done \<lparr>rp_status = 200, rp_body = []\<rparr>, s)
      | NoRoute r \<Rightarrow> Some (Done r, s)
      | Collection resource \<Rightarrow>
          if rq_method rq = POST then handleCreate srv resource (rq_body rq) s
          else handleList srv resource (rq_watch rq) s
      | Item resource name \<Rightarrow>
          if rq_method rq = DELETE then handleDelete srv resource name s
          else if rq_method rq = PUT then handleUpdate srv resource name (rq_body rq) s
          else handleGet srv resource name s)"

end
