(* ===== verification/ApiserverSpec.thy ===== *)
theory ApiserverSpec
  imports Apiserver
begin

text \<open>
  What the API server does, seen from outside: a table from resource and name to objects
  (\<open>objs\<close>), and for each handler its status and its effect on the table. The lemmas are proved
  for every store that satisfies the contract of the locale \<open>store\<close>.
\<close>

section \<open>What the server relies on\<close>

definition name_char :: "char \<Rightarrow> bool" where
  "name_char c \<longleftrightarrow> (let n = (of_char c :: nat) in
     48 \<le> n \<and> n \<le> 57 \<or> 65 \<le> n \<and> n \<le> 90 \<or> 97 \<le> n \<and> n \<le> 122 \<or> c = CHR ''-'')"

text \<open>Names that a URL path carries unchanged: letters, digits, hyphens.\<close>

definition plain_name :: "string \<Rightarrow> bool" where
  "plain_name n \<longleftrightarrow> n \<noteq> [] \<and> list_all name_char n"

definition router_ok :: "(http_method \<Rightarrow> string \<Rightarrow> route) \<Rightarrow> bool" where
  "router_ok R \<longleftrightarrow> (\<forall>(p, r) \<in> set resource_routes.
     R GET (p @ ''/'' @ r) = Collection r \<and> R POST (p @ ''/'' @ r) = Collection r \<and>
     (\<forall>n. plain_name n \<longrightarrow>
        R GET (p @ ''/'' @ r @ ''/'' @ n) = Item r n \<and> R PUT (p @ ''/'' @ r @ ''/'' @ n) = Item r n \<and>
        R DELETE (p @ ''/'' @ r @ ''/'' @ n) = Item r n))"

definition render_ok :: "(nat \<Rightarrow> json \<Rightarrow> http_response) \<Rightarrow> bool" where
  "render_ok f \<longleftrightarrow> (\<forall>st j. rp_status (f st j) = st \<and>
     (\<exists>rest. num_end rest \<and> rp_body (f st j) = print_json j @ rest))"

section \<open>The object table\<close>

type_synonym table = "string \<Rightarrow> string \<Rightarrow> obj option"

definition objs :: "kv \<Rightarrow> table" where
  "objs m r n =
     Option.bind (newObj r) (\<lambda>z. Option.bind (m (registry_key r n)) (\<lambda>b. unmarshal_obj b z))"

definition set_obj :: "string \<Rightarrow> string \<Rightarrow> obj option \<Rightarrow> table \<Rightarrow> table" where
  "set_obj r n x t = t(r := (t r)(n := x))"

text \<open>Every entry is the JSON of an object of the resource its key names.\<close>

definition typed :: "kv \<Rightarrow> bool" where
  "typed m \<longleftrightarrow> (\<forall>k b. m k = Some b \<longrightarrow>
     (\<exists>r n ob. k = registry_key r n \<and> newObj r = Some (fresh ob) \<and> marshal_obj ob = Some b))"

text \<open>A value that has been through JSON and can go again\<close>

definition settled_obj :: "obj \<Rightarrow> bool" where
  "settled_obj x \<longleftrightarrow> obj_nrm x = x \<and> marshal_obj x \<noteq> None"

text \<open>A list that holds each object of a resource once, in some order\<close>

definition enumerates :: "obj list \<Rightarrow> (string \<Rightarrow> obj option) \<Rightarrow> bool" where
  "enumerates xs t \<longleftrightarrow> (\<exists>ns. distinct ns \<and> set ns = dom t \<and> xs = map (\<lambda>n. the (t n)) ns)"

lemma resource_cases:
  assumes "newObj r = Some z"
  shows "r \<in> {''pods'', ''nodes'', ''replicasets'', ''deployments'', ''services'', ''endpoints'', ''leases''}"
  using assms by (auto simp: newObj_def split: if_splits)

lemma newObj_fresh: "newObj r = Some z \<Longrightarrow> fresh z = z"
  by (auto simp: newObj_def split: if_splits)

lemma newObj_inj: "newObj r = Some z \<Longrightarrow> newObj r' = Some z \<Longrightarrow> r = r'"
  by (auto simp: newObj_def split: if_splits)

lemma registry_key_inj: "registry_key r n = registry_key r n' \<longleftrightarrow> n = n'"
  by (simp add: registry_key_def)

lemma prefix_isolates:
  assumes "newObj r = Some z" and "newObj r' = Some z'"
  shows "has_prefix (registry_key r n) (registry_prefix r') \<longleftrightarrow> r = r'"
  using resource_cases [OF assms(1)] resource_cases [OF assms(2)]
  by (auto simp: registry_key_def registry_prefix_def)

lemma registry_key_eq:
  assumes "newObj r = Some z" and "newObj r' = Some z'"
  shows "registry_key r n = registry_key r' n' \<longleftrightarrow> r = r' \<and> n = n'"
proof
  assume eq: "registry_key r n = registry_key r' n'"
  have "has_prefix (registry_key r n) (registry_prefix r')"
    unfolding eq by (simp add: registry_key_def registry_prefix_def flip: append_assoc)
  with prefix_isolates [OF assms] have "r = r'" by simp
  with eq show "r = r' \<and> n = n'" by (simp add: registry_key_inj)
qed simp

lemma typed_entry:
  assumes "typed m" and "newObj r = Some z" and "m (registry_key r n) = Some b"
  obtains ob where "fresh ob = z" and "marshal_obj ob = Some b" and "objs m r n = Some (obj_nrm ob)"
proof -
  obtain r' n' ob where o: "registry_key r n = registry_key r' n'" "newObj r' = Some (fresh ob)"
    "marshal_obj ob = Some b"
    using assms(1,3) unfolding typed_def by blast
  then have "r' = r" using registry_key_eq [OF assms(2) o(2)] by simp
  with o assms(2) have "fresh ob = z" by simp
  moreover from this have "objs m r n = Some (obj_nrm ob)"
    using unmarshal_marshal_obj [OF o(3)] assms(2,3) by (auto simp: objs_def)
  ultimately show ?thesis using o(3) that by blast
qed

lemma settled_nrm: "marshal_obj ob = Some b \<Longrightarrow> settled_obj (obj_nrm ob)"
  using obj_nrm_idem marshal_obj_nrm by (auto simp: settled_obj_def)

lemma objs_settled:
  assumes "typed m" and "objs m r n = Some x"
  shows "settled_obj x" and "newObj r = Some (fresh x)"
proof -
  from assms(2) obtain z b where z: "newObj r = Some z" and b: "m (registry_key r n) = Some b"
    by (auto simp: objs_def split: Option.bind_splits)
  obtain ob where "fresh ob = z" "marshal_obj ob = Some b" "objs m r n = Some (obj_nrm ob)"
    using assms(1) z b by (rule typed_entry)
  with assms(2) z show "settled_obj x" "newObj r = Some (fresh x)"
    using settled_nrm by auto
qed

lemma objs_None_iff:
  assumes "typed m" and "newObj r = Some z"
  shows "objs m r n = None \<longleftrightarrow> m (registry_key r n) = None"
  using assms by (cases "m (registry_key r n)") (auto simp: objs_def elim: typed_entry)

lemma objs_upd:
  assumes "newObj r = Some (fresh ob)" and "marshal_obj ob = Some b"
  shows "objs (m(registry_key r n \<mapsto> b)) = set_obj r n (Some (obj_nrm ob)) (objs m)"
proof (intro ext)
  fix r' n'
  show "objs (m(registry_key r n \<mapsto> b)) r' n' = set_obj r n (Some (obj_nrm ob)) (objs m) r' n'"
    using registry_key_eq [OF assms(1), of r' _ n n'] unmarshal_marshal_obj [OF assms(2)] assms(1)
    by (cases "newObj r'") (auto simp: objs_def set_obj_def)
qed

lemma objs_del:
  assumes "newObj r = Some z"
  shows "objs (m(registry_key r n := None)) = set_obj r n None (objs m)"
proof (intro ext)
  fix r' n'
  show "objs (m(registry_key r n := None)) r' n' = set_obj r n None (objs m) r' n'"
    using registry_key_eq [OF assms, of r' _ n n'] assms
    by (cases "newObj r'") (auto simp: objs_def set_obj_def)
qed

lemma typed_upd:
  "typed m \<Longrightarrow> newObj r = Some (fresh ob) \<Longrightarrow> marshal_obj ob = Some b \<Longrightarrow> typed (m(registry_key r n \<mapsto> b))"
  unfolding typed_def by (auto split: if_splits)

lemma typed_del: "typed m \<Longrightarrow> typed (m(k := None))"
  unfolding typed_def by (auto split: if_splits)

section \<open>Every handler keeps the table well typed\<close>

lemma typed_put_spec:
  "typed m \<Longrightarrow> newObj r = Some (fresh ob) \<Longrightarrow> typed (snd (put_spec e (registry_key r n) ob m))"
  by (auto simp: put_spec_def typed_upd split: option.splits)

lemma typed_specs:
  assumes "typed m"
  shows "newObj r = Some (fresh ob) \<Longrightarrow> typed (snd (create_spec (registry_key r n) ob m))"
    and "newObj r = Some (fresh ob) \<Longrightarrow> typed (snd (update_spec (registry_key r n) ob m))"
    and "typed (snd (delete_spec k m))"
  using assms by (simp_all add: create_spec_def update_spec_def delete_spec_def typed_put_spec typed_del)

lemma decoded_kind:
  assumes "Option.bind (newObj r) (decode_obj body) = Some ob"
  shows "newObj r = Some (fresh ob)"
proof -
  from assms obtain z where "newObj r = Some z" "decode_obj body z = Some ob"
    by (auto split: Option.bind_splits)
  then show ?thesis using decode_obj_fresh newObj_fresh by metis
qed

text \<open>A store in its invariant with a well typed map\<close>

definition keeps :: "('s \<Rightarrow> bool) \<Rightarrow> ('s \<Rightarrow> kv) \<Rightarrow> 's \<Rightarrow> bool" where
  "keeps good view s \<longleftrightarrow> good s \<and> typed (view s)"

context store
begin

lemma create_keeps:
  assumes "keeps good view s" and "newObj r = Some (fresh ob)"
    and "st_Create S (registry_key r n) ob s = Some (e, s')"
  shows "keeps good view s'"
  using assms refinesD(1,2) [OF create _ assms(3)] by (simp add: keeps_def typed_specs)

lemma update_keeps:
  assumes "keeps good view s" and "newObj r = Some (fresh ob)"
    and "st_Update S (registry_key r n) ob s = Some (e, s')"
  shows "keeps good view s'"
  using assms refinesD(1,2) [OF update _ assms(3)] by (simp add: keeps_def typed_specs)

lemma delete_keeps: "keeps good view s \<Longrightarrow> st_Delete S key s = Some (e, s') \<Longrightarrow> keeps good view s'"
  unfolding keeps_def using refinesD(1,2) [OF delete, of s key e s'] typed_specs(3) [of "view s" key] by auto

lemma watch_keeps: "keeps good view s \<Longrightarrow> st_Watch S p s = (i, s') \<Longrightarrow> keeps good view s'"
  unfolding keeps_def using watch [of s p i s'] by auto

lemma handleCreate_typed:
  assumes "sv_Store srv = S" and "keeps good view s" and "handleCreate srv r body s = Some (a, s')"
  shows "keeps good view s'"
  using assms by (auto simp: handleCreate_def split: option.splits if_splits
      dest: decoded_kind intro: create_keeps)

lemma handleUpdate_typed:
  assumes "sv_Store srv = S" and "keeps good view s" and "handleUpdate srv r n body s = Some (a, s')"
  shows "keeps good view s'"
  using assms by (auto simp: handleUpdate_def Let_def split: option.splits if_splits
      dest: decoded_kind intro: update_keeps)

lemma handleDelete_typed:
  assumes "sv_Store srv = S" and "keeps good view s" and "handleDelete srv r n s = Some (a, s')"
  shows "keeps good view s'"
  using assms by (auto simp: handleDelete_def split: option.splits if_splits intro: delete_keeps)

lemma handleList_typed:
  assumes "sv_Store srv = S" and "keeps good view s" and "handleList srv r w s = Some (a, s')"
  shows "keeps good view s'"
  using assms by (auto simp: handleList_def handleWatch_def Let_def
      split: option.splits if_splits sum.splits prod.splits intro: watch_keeps)

lemma handleGet_typed: "keeps good view s \<Longrightarrow> handleGet srv r n s = Some (a, s') \<Longrightarrow> keeps good view s'"
  by (auto simp: handleGet_def split: option.splits sum.splits)

lemma ServeHTTP_typed:
  assumes "sv_Store srv = S" and "keeps good view s" and "ServeHTTP srv rq s = Some (a, s')"
  shows "keeps good view s'"
  using assms by (auto simp: ServeHTTP_def split: route.splits if_splits
      intro: handleCreate_typed handleUpdate_typed handleDelete_typed handleList_typed handleGet_typed)

end

end
