(* ===== verification/Rest.thy ===== *)
theory Rest
  imports ApiserverSpec
begin

text \<open>
  The REST interface of the API server as functions on the object table: status and table after a
  POST, PUT, GET, DELETE and list request, proved of the handlers over every store that satisfies
  the contract \<open>store\<close>, as long as that store is quiet (nobody watches, the disk works).
\<close>

section \<open>The effect of each request\<close>

definition post_effect :: "string \<Rightarrow> obj \<Rightarrow> table \<Rightarrow> nat \<times> table" where
  "post_effect r ob t =
     (if obj_name ob = [] then (400, t)
      else if t r (obj_name ob) = None then (201, set_obj r (obj_name ob) (Some (obj_nrm ob)) t)
      else (409, t))"

definition put_effect :: "string \<Rightarrow> string \<Rightarrow> obj \<Rightarrow> table \<Rightarrow> nat \<times> table" where
  "put_effect r n ob t = (if t r n = None then (404, t) else (200, set_obj r n (Some (obj_nrm ob)) t))"

definition delete_effect :: "string \<Rightarrow> string \<Rightarrow> table \<Rightarrow> nat \<times> table" where
  "delete_effect r n t = (if t r n = None then (404, t) else (200, set_obj r n None t))"

text \<open>A response whose body is that JSON value, followed by what a decoder does not read\<close>

definition says :: "nat \<Rightarrow> json \<Rightarrow> http_response \<Rightarrow> bool" where
  "says st j resp \<longleftrightarrow> rp_status resp = st \<and> (\<exists>rest. num_end rest \<and> rp_body resp = print_json j @ rest)"

definition get_answer :: "obj option \<Rightarrow> http_response \<Rightarrow> bool" where
  "get_answer x resp = (case x of None \<Rightarrow> rp_status resp = 404 | Some ob \<Rightarrow> says 200 (obj_json ob) resp)"

definition list_answer :: "obj \<Rightarrow> (string \<Rightarrow> obj option) \<Rightarrow> http_response \<Rightarrow> bool" where
  "list_answer z t resp \<longleftrightarrow> (\<exists>xs. enumerates xs t \<and> says 200 (fst (list_of_kind z xs)) resp)"

section \<open>Rendering\<close>

definition server_ok :: "'s Store \<Rightarrow> 's Server \<Rightarrow> bool" where
  "server_ok st srv \<longleftrightarrow> sv_Store srv = st \<and> router_ok (sv_Router srv) \<and> render_ok (sv_Render srv)"

lemma render_says: "server_ok st srv \<Longrightarrow> says n j (sv_Render srv n j)"
  by (auto simp: server_ok_def render_ok_def says_def)

lemma render_status: "server_ok st srv \<Longrightarrow> rp_status (sv_Render srv n j) = n"
  by (auto simp: server_ok_def render_ok_def)

lemma render_err_answer:
  "server_ok st srv \<Longrightarrow> \<exists>resp. render_err srv e = Done resp \<and> rp_status resp = er_HTTPStatusCode e"
  by (simp add: render_err_def render_status)

lemma render_obj_answer:
  "server_ok st srv \<Longrightarrow> marshal_obj ob = Some b \<Longrightarrow> \<exists>resp. render_obj srv n ob = Done resp \<and> says n (obj_json ob) resp"
  by (simp add: render_obj_def render_says)

lemma says_status: "says n j resp \<Longrightarrow> rp_status resp = n"
  by (simp add: says_def)

lemma err_statuses [simp]:
  "er_HTTPStatusCode (ErrInvalidRequest e) = 400" "er_HTTPStatusCode (ErrConflict_response e) = 409"
  "er_HTTPStatusCode ErrNotFound_response = 404" "er_HTTPStatusCode (ErrInternal e) = 500"
  by (simp_all add: ErrInvalidRequest_def ErrConflict_response_def ErrNotFound_response_def ErrInternal_def)

lemma marshal_obj_json: "marshal_obj ob = Some b \<Longrightarrow> b = print_json (obj_json ob)"
  by (cases ob) (auto simp: marshal_def split: if_splits)

lemma decode_body: "marshal_obj ob = Some b \<Longrightarrow> decode_obj b (fresh ob) = Some (obj_nrm ob)"
  using decode_marshal_obj [of ob b "[]"] by simp

lemma obj_name_nrm [simp]: "obj_name (obj_nrm ob) = obj_name ob"
  by (cases ob) (simp_all add: obj_name_def)

subsection \<open>Lists\<close>

text \<open>A list object can be marshalled when its items can, and comes back as it was.\<close>

lemma list_heads_ok [simp]: "cok str_codec (tm_Kind TypeMeta_zero)" "cok str_codec (tm_APIVersion TypeMeta_zero)"
  "cok ListMeta_codec ListMeta_zero"
  using json_codec.ok_zero [OF ListMeta_law] by (simp_all add: str_codec_def TypeMeta_zero_def)

lemma PodList_items_ok: "cok PodList_codec (PodList_zero\<lparr>podl_Items := s\<rparr>) = list_all (cok Pod_codec) (elems s)"
  by (simp add: PodList_codec_def struct_codec_def PodList_fields_def mk_field_def slice_codec_def
      TypeMeta_fields_def PodList_zero_def)

lemma NodeList_items_ok: "cok NodeList_codec (NodeList_zero\<lparr>nodel_Items := s\<rparr>) = list_all (cok Node_codec) (elems s)"
  by (simp add: NodeList_codec_def struct_codec_def NodeList_fields_def mk_field_def slice_codec_def
      TypeMeta_fields_def NodeList_zero_def)

lemma ReplicaSetList_items_ok: "cok ReplicaSetList_codec (ReplicaSetList_zero\<lparr>rsl_Items := s\<rparr>) = list_all (cok ReplicaSet_codec) (elems s)"
  by (simp add: ReplicaSetList_codec_def struct_codec_def ReplicaSetList_fields_def mk_field_def slice_codec_def
      TypeMeta_fields_def ReplicaSetList_zero_def)

lemma DeploymentList_items_ok: "cok DeploymentList_codec (DeploymentList_zero\<lparr>depl_Items := s\<rparr>) = list_all (cok Deployment_codec) (elems s)"
  by (simp add: DeploymentList_codec_def struct_codec_def DeploymentList_fields_def mk_field_def slice_codec_def
      TypeMeta_fields_def DeploymentList_zero_def)

lemma ServiceList_items_ok: "cok ServiceList_codec (ServiceList_zero\<lparr>svcl_Items := s\<rparr>) = list_all (cok Service_codec) (elems s)"
  by (simp add: ServiceList_codec_def struct_codec_def ServiceList_fields_def mk_field_def slice_codec_def
      TypeMeta_fields_def ServiceList_zero_def)

lemma EndpointsList_items_ok: "cok EndpointsList_codec (EndpointsList_zero\<lparr>epl_Items := s\<rparr>) = list_all (cok Endpoints_codec) (elems s)"
  by (simp add: EndpointsList_codec_def struct_codec_def EndpointsList_fields_def mk_field_def slice_codec_def
      TypeMeta_fields_def EndpointsList_zero_def)

lemma LeaseList_items_ok: "cok LeaseList_codec (LeaseList_zero\<lparr>leasel_Items := s\<rparr>) = list_all (cok Lease_codec) (elems s)"
  by (simp add: LeaseList_codec_def struct_codec_def LeaseList_fields_def mk_field_def slice_codec_def
      TypeMeta_fields_def LeaseList_zero_def)

lemmas list_oks = PodList_items_ok NodeList_items_ok ReplicaSetList_items_ok DeploymentList_items_ok ServiceList_items_ok EndpointsList_items_ok LeaseList_items_ok

lemma settled_ok:
  "settled_obj (OPod x0) \<Longrightarrow> cok Pod_codec x0 \<and> cnrm Pod_codec x0 = x0"
  "settled_obj (ONode x1) \<Longrightarrow> cok Node_codec x1 \<and> cnrm Node_codec x1 = x1"
  "settled_obj (OReplicaSet x2) \<Longrightarrow> cok ReplicaSet_codec x2 \<and> cnrm ReplicaSet_codec x2 = x2"
  "settled_obj (ODeployment x3) \<Longrightarrow> cok Deployment_codec x3 \<and> cnrm Deployment_codec x3 = x3"
  "settled_obj (OService x4) \<Longrightarrow> cok Service_codec x4 \<and> cnrm Service_codec x4 = x4"
  "settled_obj (OEndpoints x5) \<Longrightarrow> cok Endpoints_codec x5 \<and> cnrm Endpoints_codec x5 = x5"
  "settled_obj (OLease x6) \<Longrightarrow> cok Lease_codec x6 \<and> cnrm Lease_codec x6 = x6"
  by (auto simp: settled_obj_def marshal_def split: if_splits)

text \<open>The items of a list of objects of one kind\<close>

lemma map_filter_map: "List.map_filter f (map g xs) = List.map_filter (\<lambda>x. f (g x)) xs"
  by (induction xs) (simp_all add: List.map_filter_def split: option.splits)

lemma map_filter_Some: "List.map_filter Some xs = xs"
  by (induction xs) (simp_all add: List.map_filter_def)

lemma items_of_kind:
  "pods_in (map OPod xs0) = xs0"
  "nodes_in (map ONode xs1) = xs1"
  "replicasets_in (map OReplicaSet xs2) = xs2"
  "deployments_in (map ODeployment xs3) = xs3"
  "services_in (map OService xs4) = xs4"
  "endpoints_in (map OEndpoints xs5) = xs5"
  "leases_in (map OLease xs6) = xs6"
  by (simp_all add: pods_in_def nodes_in_def replicasets_in_def deployments_in_def services_in_def
      endpoints_in_def leases_in_def map_filter_map map_filter_Some)

lemma fresh_kind:
  "fresh x = OPod Pod_zero \<Longrightarrow> \<exists>p. x = OPod p"
  "fresh x = ONode Node_zero \<Longrightarrow> \<exists>p. x = ONode p"
  "fresh x = OReplicaSet ReplicaSet_zero \<Longrightarrow> \<exists>p. x = OReplicaSet p"
  "fresh x = ODeployment Deployment_zero \<Longrightarrow> \<exists>p. x = ODeployment p"
  "fresh x = OService Service_zero \<Longrightarrow> \<exists>p. x = OService p"
  "fresh x = OEndpoints Endpoints_zero \<Longrightarrow> \<exists>p. x = OEndpoints p"
  "fresh x = OLease Lease_zero \<Longrightarrow> \<exists>p. x = OLease p"
  by (cases x; simp)+

lemma list_of_kind_ok:
  assumes "\<And>x. x \<in> set xs \<Longrightarrow> settled_obj x \<and> fresh x = fresh z"
  shows "snd (list_of_kind z xs)"
proof (cases z)
  case (OPod y)
  then have "\<forall>x \<in> set xs. \<exists>p. x = OPod p" using assms fresh_kind(1) by simp
  then obtain ps where ps: "xs = map OPod ps" by (metis ex_map_conv)
  with assms have "list_all (cok Pod_codec) ps" by (auto simp: list_all_iff settled_ok)
  with OPod ps show ?thesis by (simp add: list_of_kind_def list_oks items_of_kind)
next
  case (ONode y)
  then have "\<forall>x \<in> set xs. \<exists>p. x = ONode p" using assms fresh_kind(2) by simp
  then obtain ps where ps: "xs = map ONode ps" by (metis ex_map_conv)
  with assms have "list_all (cok Node_codec) ps" by (auto simp: list_all_iff settled_ok)
  with ONode ps show ?thesis by (simp add: list_of_kind_def list_oks items_of_kind)
next
  case (OReplicaSet y)
  then have "\<forall>x \<in> set xs. \<exists>p. x = OReplicaSet p" using assms fresh_kind(3) by simp
  then obtain ps where ps: "xs = map OReplicaSet ps" by (metis ex_map_conv)
  with assms have "list_all (cok ReplicaSet_codec) ps" by (auto simp: list_all_iff settled_ok)
  with OReplicaSet ps show ?thesis by (simp add: list_of_kind_def list_oks items_of_kind)
next
  case (ODeployment y)
  then have "\<forall>x \<in> set xs. \<exists>p. x = ODeployment p" using assms fresh_kind(4) by simp
  then obtain ps where ps: "xs = map ODeployment ps" by (metis ex_map_conv)
  with assms have "list_all (cok Deployment_codec) ps" by (auto simp: list_all_iff settled_ok)
  with ODeployment ps show ?thesis by (simp add: list_of_kind_def list_oks items_of_kind)
next
  case (OService y)
  then have "\<forall>x \<in> set xs. \<exists>p. x = OService p" using assms fresh_kind(5) by simp
  then obtain ps where ps: "xs = map OService ps" by (metis ex_map_conv)
  with assms have "list_all (cok Service_codec) ps" by (auto simp: list_all_iff settled_ok)
  with OService ps show ?thesis by (simp add: list_of_kind_def list_oks items_of_kind)
next
  case (OEndpoints y)
  then have "\<forall>x \<in> set xs. \<exists>p. x = OEndpoints p" using assms fresh_kind(6) by simp
  then obtain ps where ps: "xs = map OEndpoints ps" by (metis ex_map_conv)
  with assms have "list_all (cok Endpoints_codec) ps" by (auto simp: list_all_iff settled_ok)
  with OEndpoints ps show ?thesis by (simp add: list_of_kind_def list_oks items_of_kind)
next
  case (OLease y)
  then have "\<forall>x \<in> set xs. \<exists>p. x = OLease p" using assms fresh_kind(7) by simp
  then obtain ps where ps: "xs = map OLease ps" by (metis ex_map_conv)
  with assms have "list_all (cok Lease_codec) ps" by (auto simp: list_all_iff settled_ok)
  with OLease ps show ?thesis by (simp add: list_of_kind_def list_oks items_of_kind)
qed

section \<open>The handlers of a quiet store\<close>

context store
begin

lemma handleCreate_effect:
  assumes srv: "server_ok S srv" and k: "keeps good view s" and q: "quiet s"
    and r: "newObj r = Some (fresh ob)" and b: "marshal_obj ob = Some b"
  shows "\<exists>resp s'. handleCreate srv r b s = Some (Done resp, s') \<and> keeps good view s' \<and> quiet s' \<and>
    (rp_status resp, objs (view s')) = post_effect r ob (objs (view s))"
proof -
  have S: "sv_Store srv = S" using srv by (simp add: server_ok_def)
  let ?o = "obj_nrm ob" and ?n = "obj_name ob" and ?key = "registry_key r (obj_name ob)"
  have o: "marshal_obj ?o = Some b" "obj_nrm ?o = ?o" "newObj r = Some (fresh ?o)"
    using marshal_obj_nrm [OF b] obj_nrm_idem [OF b] r by simp_all
  have none: "objs (view s) r ?n = None \<longleftrightarrow> view s ?key = None"
    using k r by (intro objs_None_iff) (auto simp: keeps_def)
  obtain s' where c: "st_Create S ?key ?o s = Some (fst (create_spec ?key ?o (view s)), s')"
      "good s'" "quiet s'" "view s' = snd (create_spec ?key ?o (view s))"
    using k q by (auto simp: keeps_def elim: refines_quiet [OF create])
  have k': "keeps good view s'" using create_keeps [OF k o(3) c(1)] .
  show ?thesis
  proof (cases "?n = []")
    case True
    then show ?thesis
      using k q render_err_answer [OF srv, of "ErrInvalidRequest (Errorf ''metadata.name is required'')"]
      by (auto simp: handleCreate_def r decode_body [OF b] post_effect_def)
  next
    case False
    show ?thesis
    proof (cases "view s ?key")
      case None
      then show ?thesis
        using False c k' o none objs_upd [OF o(3,1), of "view s" ?n] render_obj_answer [OF srv o(1), of 201]
        by (auto simp: handleCreate_def r decode_body [OF b] S create_spec_def put_spec_def post_effect_def
            dest: says_status)
    next
      case (Some x)
      then show ?thesis
        using False c k' none render_err_answer [OF srv, of "ErrConflict_response ErrConflict"]
        by (auto simp: handleCreate_def r decode_body [OF b] S create_spec_def put_spec_def post_effect_def)
    qed
  qed
qed

lemma handleUpdate_effect:
  assumes srv: "server_ok S srv" and k: "keeps good view s" and q: "quiet s"
    and r: "newObj r = Some (fresh ob)" and b: "marshal_obj ob = Some b"
  shows "\<exists>resp s'. handleUpdate srv r n b s = Some (Done resp, s') \<and> keeps good view s' \<and> quiet s' \<and>
    (rp_status resp, objs (view s')) = put_effect r n ob (objs (view s))"
proof -
  have S: "sv_Store srv = S" using srv by (simp add: server_ok_def)
  let ?o = "obj_nrm ob" and ?key = "registry_key r n"
  have o: "marshal_obj ?o = Some b" "obj_nrm ?o = ?o" "newObj r = Some (fresh ?o)"
    using marshal_obj_nrm [OF b] obj_nrm_idem [OF b] r by simp_all
  have none: "objs (view s) r n = None \<longleftrightarrow> view s ?key = None"
    using k r by (intro objs_None_iff) (auto simp: keeps_def)
  obtain s' where c: "st_Update S ?key ?o s = Some (fst (update_spec ?key ?o (view s)), s')"
      "good s'" "quiet s'" "view s' = snd (update_spec ?key ?o (view s))"
    using k q by (auto simp: keeps_def elim: refines_quiet [OF update])
  have k': "keeps good view s'" using update_keeps [OF k o(3) c(1)] .
  show ?thesis
  proof (cases "view s ?key")
    case None
    then show ?thesis
      using c k' none render_err_answer [OF srv, of ErrNotFound_response]
      by (auto simp: handleUpdate_def r decode_body [OF b] S update_spec_def put_spec_def put_effect_def)
  next
    case (Some x)
    then show ?thesis
      using c k' o none objs_upd [OF o(3,1), of "view s" n] render_obj_answer [OF srv o(1), of 200]
      by (auto simp: handleUpdate_def r decode_body [OF b] S update_spec_def put_spec_def put_effect_def
          dest: says_status)
  qed
qed

lemma handleDelete_effect:
  assumes srv: "server_ok S srv" and k: "keeps good view s" and q: "quiet s" and r: "newObj r = Some z"
  shows "\<exists>resp s'. handleDelete srv r n s = Some (Done resp, s') \<and> keeps good view s' \<and> quiet s' \<and>
    (rp_status resp, objs (view s')) = delete_effect r n (objs (view s))"
proof -
  have S: "sv_Store srv = S" using srv by (simp add: server_ok_def)
  let ?key = "registry_key r n"
  have none: "objs (view s) r n = None \<longleftrightarrow> view s ?key = None"
    using k r by (intro objs_None_iff) (auto simp: keeps_def)
  obtain s' where c: "st_Delete S ?key s = Some (fst (delete_spec ?key (view s)), s')"
      "good s'" "quiet s'" "view s' = snd (delete_spec ?key (view s))"
    using k q by (auto simp: keeps_def elim: refines_quiet [OF delete])
  have k': "keeps good view s'" using delete_keeps [OF k c(1)] .
  show ?thesis
    using c k' none objs_del [OF r, of "view s" n] render_err_answer [OF srv, of ErrNotFound_response]
      render_status [OF srv]
    by (cases "view s ?key") (auto simp: handleDelete_def S delete_spec_def delete_effect_def)
qed

lemma handleGet_effect:
  assumes srv: "server_ok S srv" and k: "keeps good view s" and r: "newObj r = Some z"
  shows "\<exists>resp. handleGet srv r n s = Some (Done resp, s) \<and> get_answer (objs (view s) r n) resp"
proof -
  have S: "sv_Store srv = S" using srv by (simp add: server_ok_def)
  let ?key = "registry_key r n"
  have t: "typed (view s)" using k by (simp add: keeps_def)
  show ?thesis
  proof (cases "view s ?key")
    case None
    then show ?thesis
      using objs_None_iff [OF t r, of n] render_err_answer [OF srv, of ErrNotFound_response]
      by (auto simp: handleGet_def r S get get_spec_def get_answer_def)
  next
    case (Some b)
    then obtain ob where "fresh ob = z" "marshal_obj ob = Some b" "objs (view s) r n = Some (obj_nrm ob)"
      using t r by (blast elim: typed_entry)
    with Some show ?thesis
      using unmarshal_marshal_obj [of ob b] render_obj_answer [OF srv marshal_obj_nrm [of ob b], of 200]
      by (auto simp: handleGet_def r S get get_spec_def get_answer_def)
  qed
qed

text \<open>What a listing visits are the names of the resource, in some order.\<close>

lemma list_items:
  assumes k: "keeps good view s" and r: "newObj r = Some z"
  shows "\<exists>ns. distinct ns \<and> set ns = dom (objs (view s) r) \<and>
    st_List S (registry_prefix r) z s = Inr (map (\<lambda>n. the (objs (view s) r n)) ns)"
proof -
  have t: "typed (view s)" and g: "good s" using k by (simp_all add: keeps_def)
  obtain ks where d: "distinct ks" and ks: "set ks = {k \<in> dom (view s). has_prefix k (registry_prefix r)}"
    and l: "st_List S (registry_prefix r) z s = list_spec ks z (view s)"
    using list [OF g, of "registry_prefix r" z] by blast
  have "\<exists>n. k = registry_key r n" if "k \<in> set ks" for k
  proof -
    from that ks t obtain r' n where "k = registry_key r' n" "newObj r' \<noteq> None"
      unfolding typed_def by blast
    with that ks r prefix_isolates show ?thesis by blast
  qed
  then have "\<forall>k \<in> set ks. \<exists>n. k = registry_key r n" by blast
  then obtain ns where ns: "ks = map (registry_key r) ns" by (metis ex_map_conv)
  have "distinct ns" using d by (simp add: ns distinct_map)
  moreover have dom: "set ns = dom (objs (view s) r)"
  proof -
    have "n \<in> set ns \<longleftrightarrow> registry_key r n \<in> set ks" for n
      using ns by (auto simp: registry_key_inj)
    moreover have "has_prefix (registry_key r n) (registry_prefix r)" for n
      using prefix_isolates [OF r r] by simp
    ultimately have "n \<in> set ns \<longleftrightarrow> n \<in> dom (objs (view s) r)" for n
      using objs_None_iff [OF t r, of n] by (simp add: ks domIff)
    then show ?thesis by blast
  qed
  moreover have "unmarshal_obj (the (view s (registry_key r n))) (fresh z) = Some (the (objs (view s) r n))"
    if n: "n \<in> set ns" for n
  proof -
    obtain b where b: "view s (registry_key r n) = Some b" using n dom objs_None_iff [OF t r, of n] by blast
    with t r obtain ob where "fresh ob = z" "marshal_obj ob = Some b" "objs (view s) r n = Some (obj_nrm ob)"
      by (blast elim: typed_entry)
    with b show ?thesis using unmarshal_marshal_obj [of ob b] by auto
  qed
  then have "st_List S (registry_prefix r) z s = Inr (map (\<lambda>n. the (objs (view s) r n)) ns)"
    unfolding l list_spec_def ns by (simp add: opt_all_map_cong [of ns] comp_def)
  ultimately show ?thesis by blast
qed

lemma handleList_effect:
  assumes srv: "server_ok S srv" and k: "keeps good view s" and r: "newObj r = Some z"
  shows "\<exists>resp. handleList srv r False s = Some (Done resp, s) \<and> list_answer z (objs (view s) r) resp"
proof -
  have S: "sv_Store srv = S" and t: "typed (view s)" using srv k by (simp_all add: server_ok_def keeps_def)
  obtain ns where ns: "distinct ns" "set ns = dom (objs (view s) r)"
    "st_List S (registry_prefix r) z s = Inr (map (\<lambda>n. the (objs (view s) r n)) ns)"
    using list_items [OF k r] by blast
  let ?xs = "map (\<lambda>n. the (objs (view s) r n)) ns"
  have "settled_obj x \<and> fresh x = fresh z" if "x \<in> set ?xs" for x
    using that ns(2) objs_settled [OF t] r by (fastforce simp: dom_def)
  then have "snd (list_of_kind z ?xs)" by (rule list_of_kind_ok)
  then have "handleList srv r False s = Some (Done (sv_Render srv 200 (fst (list_of_kind z ?xs))), s)"
    by (simp add: handleList_def S r ns(3) case_prod_beta del: fresh_nrm)
  moreover have "enumerates ?xs (objs (view s) r)"
    using ns(1,2) unfolding enumerates_def by blast
  then have "list_answer z (objs (view s) r) (sv_Render srv 200 (fst (list_of_kind z ?xs)))"
    unfolding list_answer_def using render_says [OF srv] by blast
  ultimately show ?thesis by blast
qed

subsection \<open>Behind the router\<close>

lemma ServeHTTP_post:
  assumes srv: "server_ok S srv" and k: "keeps good view s" and q: "quiet s"
    and p: "(p, r) \<in> set resource_routes" and r: "newObj r = Some (fresh ob)" and b: "marshal_obj ob = Some b"
  shows "\<exists>resp s'. ServeHTTP srv \<lparr>rq_method = POST, rq_url = p @ ''/'' @ r, rq_watch = w, rq_body = b\<rparr> s
      = Some (Done resp, s') \<and> keeps good view s' \<and> quiet s' \<and>
    (rp_status resp, objs (view s')) = post_effect r ob (objs (view s))"
proof -
  have "sv_Router srv POST (p @ ''/'' @ r) = Collection r"
    using srv p by (auto simp: server_ok_def router_ok_def)
  then show ?thesis using handleCreate_effect [OF srv k q r b] by (simp add: ServeHTTP_def)
qed

lemma ServeHTTP_list:
  assumes srv: "server_ok S srv" and k: "keeps good view s"
    and p: "(p, r) \<in> set resource_routes" and r: "newObj r = Some z"
  shows "\<exists>resp. ServeHTTP srv \<lparr>rq_method = GET, rq_url = p @ ''/'' @ r, rq_watch = False, rq_body = b\<rparr> s
      = Some (Done resp, s) \<and> list_answer z (objs (view s) r) resp"
proof -
  have "sv_Router srv GET (p @ ''/'' @ r) = Collection r"
    using srv p by (auto simp: server_ok_def router_ok_def)
  then show ?thesis using handleList_effect [OF srv k r] by (simp add: ServeHTTP_def)
qed

lemma ServeHTTP_put:
  assumes srv: "server_ok S srv" and k: "keeps good view s" and q: "quiet s" and n: "plain_name n"
    and p: "(p, r) \<in> set resource_routes" and r: "newObj r = Some (fresh ob)" and b: "marshal_obj ob = Some b"
  shows "\<exists>resp s'. ServeHTTP srv \<lparr>rq_method = PUT, rq_url = p @ ''/'' @ r @ ''/'' @ n, rq_watch = w, rq_body = b\<rparr> s
      = Some (Done resp, s') \<and> keeps good view s' \<and> quiet s' \<and>
    (rp_status resp, objs (view s')) = put_effect r n ob (objs (view s))"
proof -
  have "sv_Router srv PUT (p @ ''/'' @ r @ ''/'' @ n) = Item r n"
    using srv p n by (fastforce simp: server_ok_def router_ok_def)
  then show ?thesis using handleUpdate_effect [OF srv k q r b, of n] by (simp add: ServeHTTP_def)
qed

lemma ServeHTTP_get:
  assumes srv: "server_ok S srv" and k: "keeps good view s" and n: "plain_name n"
    and p: "(p, r) \<in> set resource_routes" and r: "newObj r = Some z"
  shows "\<exists>resp. ServeHTTP srv \<lparr>rq_method = GET, rq_url = p @ ''/'' @ r @ ''/'' @ n, rq_watch = w, rq_body = b\<rparr> s
      = Some (Done resp, s) \<and> get_answer (objs (view s) r n) resp"
proof -
  have "sv_Router srv GET (p @ ''/'' @ r @ ''/'' @ n) = Item r n"
    using srv p n by (fastforce simp: server_ok_def router_ok_def)
  then show ?thesis using handleGet_effect [OF srv k r, of n] by (simp add: ServeHTTP_def)
qed

lemma ServeHTTP_delete:
  assumes srv: "server_ok S srv" and k: "keeps good view s" and q: "quiet s" and n: "plain_name n"
    and p: "(p, r) \<in> set resource_routes" and r: "newObj r = Some z"
  shows "\<exists>resp s'. ServeHTTP srv \<lparr>rq_method = DELETE, rq_url = p @ ''/'' @ r @ ''/'' @ n, rq_watch = w, rq_body = b\<rparr> s
      = Some (Done resp, s') \<and> keeps good view s' \<and> quiet s' \<and>
    (rp_status resp, objs (view s')) = delete_effect r n (objs (view s))"
proof -
  have "sv_Router srv DELETE (p @ ''/'' @ r @ ''/'' @ n) = Item r n"
    using srv p n by (fastforce simp: server_ok_def router_ok_def)
  then show ?thesis using handleDelete_effect [OF srv k q r, of n] by (simp add: ServeHTTP_def)
qed

end

end
