(* ===== verification/Client.thy ===== *)
theory Client
  imports Rest
begin

text \<open>
  internal/client/client.go: the typed REST client every component of the control plane and the
  node agents go through. The HTTP transport is a component of the client (\<open>cl_HTTP\<close>: it builds
  and sends the request; an unparsable URL, a refused connection or an expired context is an
  error). The locale \<open>rest\<close> is what a cluster promises its clients; inside it the effect of every
  method on the object table is proved once.
\<close>

section \<open>The client\<close>

record 'w Client =
  cl_BaseURL :: string
  cl_HTTP :: "http_request \<Rightarrow> 'w \<Rightarrow> http_response result \<times> 'w"

text \<open>
  \<open>New\<close>: \<open>load\<close> and \<open>read\<close> stand for the certificate files, \<open>transport\<close> for the HTTP client over
  the default transport or one with that key pair and root certificate. A file that cannot be
  loaded ends the process.
\<close>

definition New_client :: "(string \<Rightarrow> string \<Rightarrow> 'k result) \<Rightarrow> (string \<Rightarrow> string result) \<Rightarrow>
    (('k \<times> string) option \<Rightarrow> http_request \<Rightarrow> 'w \<Rightarrow> http_response result \<times> 'w) \<Rightarrow>
    string \<Rightarrow> string \<Rightarrow> string \<Rightarrow> string \<Rightarrow> 'w Client outcome" where
  "New_client load read transport baseURL tlsCert tlsKey tlsCA =
     (if tlsCert \<noteq> [] \<and> tlsKey \<noteq> [] \<and> tlsCA \<noteq> [] then
        (case load tlsCert tlsKey of
           Inl _ \<Rightarrow> Panic Fatal
         | Inr cert \<Rightarrow>
             (case read tlsCA of
                Inl _ \<Rightarrow> Panic Fatal
              | Inr ca \<Rightarrow> Ret \<lparr>cl_BaseURL = baseURL, cl_HTTP = transport (Some (cert, ca))\<rparr>))
      else Ret \<lparr>cl_BaseURL = baseURL, cl_HTTP = transport None\<rparr>)"

definition HTTP_Do :: "'w Client \<Rightarrow> http_method \<Rightarrow> string \<Rightarrow> string \<Rightarrow> ('w, http_response result) go" where
  "HTTP_Do c m path body =
     (\<lambda>w. let (r, w') = cl_HTTP c \<lparr>rq_method = m, rq_url = cl_BaseURL c @ path, rq_watch = False, rq_body = body\<rparr> w
          in (Ret r, w'))"

text \<open>
  The four shapes of a method. \<open>what\<close> is the text of the error a bad status gives; the status text
  that follows it in the source is only ever printed.
\<close>

definition get_items :: "'w Client \<Rightarrow> string \<Rightarrow> 'l codec \<Rightarrow> ('l \<Rightarrow> 'a slice) \<Rightarrow> ('w, 'a slice result) go" where
  "get_items c path L items =
     gbind (HTTP_Do c GET path []) (\<lambda>r. gret (case r of
        Inl err \<Rightarrow> Inl err
      | Inr resp \<Rightarrow>
          if rp_status resp \<noteq> 200 then Inl (Errorf ''api request failed'')
          else (case decode L (rp_body resp) (czero L) of
              None \<Rightarrow> Inl (Errorf ''decode'') | Some l \<Rightarrow> Inr (items l))))"

definition get_object :: "'w Client \<Rightarrow> string \<Rightarrow> 'a codec \<Rightarrow> ('w, 'a option result) go" where
  "get_object c path K =
     gbind (HTTP_Do c GET path []) (\<lambda>r. gret (case r of
        Inl err \<Rightarrow> Inl err
      | Inr resp \<Rightarrow>
          if rp_status resp \<noteq> 200
          then (if rp_status resp = 404 then Inr None else Inl (Errorf ''api request failed''))
          else (case decode K (rp_body resp) (czero K) of
              None \<Rightarrow> Inl (Errorf ''decode'') | Some x \<Rightarrow> Inr (Some x))))"

definition post_object :: "'w Client \<Rightarrow> string \<Rightarrow> obj \<Rightarrow> nat list \<Rightarrow> string \<Rightarrow> ('w, gerror option) go" where
  "post_object c path ob fine what =
     (case marshal_obj ob of
        None \<Rightarrow> gret (Some (Errorf ''marshal''))
      | Some data \<Rightarrow>
          gbind (HTTP_Do c POST path data) (\<lambda>r. gret (case r of
             Inl err \<Rightarrow> Some err
           | Inr resp \<Rightarrow> if rp_status resp \<in> set fine then None else Some (Errorf what))))"

definition put_object :: "'w Client \<Rightarrow> string \<Rightarrow> obj \<Rightarrow> string \<Rightarrow> ('w, gerror option) go" where
  "put_object c path ob what =
     (case marshal_obj ob of
        None \<Rightarrow> gret (Some (Errorf ''marshal''))
      | Some data \<Rightarrow>
          gbind (HTTP_Do c PUT path data) (\<lambda>r. gret (case r of
             Inl err \<Rightarrow> Some err
           | Inr resp \<Rightarrow> if rp_status resp \<noteq> 200 then Some (Errorf what) else None)))"

section \<open>The methods\<close>

definition ListPods :: "'w Client \<Rightarrow> string \<Rightarrow> ('w, Pod slice result) go" where
  "ListPods c nodeName = get_items c ''/api/v1/pods'' PodList_codec podl_Items"

definition UpdatePod :: "'w Client \<Rightarrow> Pod \<Rightarrow> ('w, gerror option) go" where
  "UpdatePod c x = put_object c (''/api/v1/pods/'' @ om_Name (pod_ObjectMeta x)) (OPod x) ''failed to update pod''"

definition UpdatePodStatus :: "'w Client \<Rightarrow> Pod \<Rightarrow> ('w, gerror option) go" where
  "UpdatePodStatus c x = UpdatePod c x"

definition CreatePod :: "'w Client \<Rightarrow> Pod \<Rightarrow> ('w, gerror option) go" where
  "CreatePod c x = post_object c ''/api/v1/pods'' (OPod x) [201, 200] ''failed to create pod''"

definition DeletePod :: "'w Client \<Rightarrow> string \<Rightarrow> ('w, gerror option) go" where
  "DeletePod c name =
     gbind (HTTP_Do c DELETE (''/api/v1/pods/'' @ name) []) (\<lambda>r. gret (case r of
        Inl err \<Rightarrow> Some err
      | Inr resp \<Rightarrow>
          if rp_status resp \<noteq> 200 \<and> rp_status resp \<noteq> 204
          then (if rp_status resp = 404 then None else Some (Errorf ''failed to delete pod''))
          else None))"

definition RegisterNode :: "'w Client \<Rightarrow> Node \<Rightarrow> ('w, gerror option) go" where
  "RegisterNode c x = post_object c ''/api/v1/nodes'' (ONode x) [409, 201, 200] ''failed to register node''"

definition ListNodes :: "'w Client \<Rightarrow> ('w, Node slice result) go" where
  "ListNodes c = get_items c ''/api/v1/nodes'' NodeList_codec nodel_Items"

definition ListReplicaSets :: "'w Client \<Rightarrow> ('w, ReplicaSet slice result) go" where
  "ListReplicaSets c = get_items c ''/apis/apps/v1/replicasets'' ReplicaSetList_codec rsl_Items"

definition CreateReplicaSet :: "'w Client \<Rightarrow> ReplicaSet \<Rightarrow> ('w, gerror option) go" where
  "CreateReplicaSet c x = post_object c ''/apis/apps/v1/replicasets'' (OReplicaSet x) [201, 200] ''failed to create replicaset''"

definition UpdateReplicaSet :: "'w Client \<Rightarrow> ReplicaSet \<Rightarrow> ('w, gerror option) go" where
  "UpdateReplicaSet c x = put_object c (''/apis/apps/v1/replicasets/'' @ om_Name (rs_ObjectMeta x)) (OReplicaSet x) ''failed to update replicaset''"

definition ListDeployments :: "'w Client \<Rightarrow> ('w, Deployment slice result) go" where
  "ListDeployments c = get_items c ''/apis/apps/v1/deployments'' DeploymentList_codec depl_Items"

definition UpdateDeployment :: "'w Client \<Rightarrow> Deployment \<Rightarrow> ('w, gerror option) go" where
  "UpdateDeployment c x = put_object c (''/apis/apps/v1/deployments/'' @ om_Name (dep_ObjectMeta x)) (ODeployment x) ''failed to update deployment''"

definition CreateDeployment :: "'w Client \<Rightarrow> Deployment \<Rightarrow> ('w, gerror option) go" where
  "CreateDeployment c x = post_object c ''/apis/apps/v1/deployments'' (ODeployment x) [201, 200] ''failed to create deployment''"

definition ListServices :: "'w Client \<Rightarrow> ('w, Service slice result) go" where
  "ListServices c = get_items c ''/api/v1/services'' ServiceList_codec svcl_Items"

definition CreateService :: "'w Client \<Rightarrow> Service \<Rightarrow> ('w, gerror option) go" where
  "CreateService c x = post_object c ''/api/v1/services'' (OService x) [201, 200] ''failed to create service''"

definition GetEndpoints :: "'w Client \<Rightarrow> string \<Rightarrow> ('w, Endpoints option result) go" where
  "GetEndpoints c name = get_object c (''/api/v1/endpoints/'' @ name) Endpoints_codec"

definition CreateEndpoints :: "'w Client \<Rightarrow> Endpoints \<Rightarrow> ('w, gerror option) go" where
  "CreateEndpoints c x = post_object c ''/api/v1/endpoints'' (OEndpoints x) [201, 200] ''failed to create endpoints''"

definition UpdateEndpoints :: "'w Client \<Rightarrow> Endpoints \<Rightarrow> ('w, gerror option) go" where
  "UpdateEndpoints c x = put_object c (''/api/v1/endpoints/'' @ om_Name (ep_ObjectMeta x)) (OEndpoints x) ''failed to update endpoints''"

definition GetLease :: "'w Client \<Rightarrow> string \<Rightarrow> ('w, Lease option result) go" where
  "GetLease c name = get_object c (''/api/v1/leases/'' @ name) Lease_codec"

definition CreateLease :: "'w Client \<Rightarrow> Lease \<Rightarrow> ('w, gerror option) go" where
  "CreateLease c x = post_object c ''/api/v1/leases'' (OLease x) [201, 200] ''failed to create lease''"

definition UpdateLease :: "'w Client \<Rightarrow> Lease \<Rightarrow> ('w, gerror option) go" where
  "UpdateLease c x = put_object c (''/api/v1/leases/'' @ om_Name (lease_ObjectMeta x)) (OLease x) ''failed to update lease''"

section \<open>What a cluster promises its clients\<close>

text \<open>
  \<open>good\<close>: the cluster answers. \<open>tab\<close>: its object table. \<open>env\<close>: everything else in the world, which
  requests leave alone. \<open>world_at\<close> pins down table and rest.
\<close>

definition world_at :: "('w \<Rightarrow> bool) \<Rightarrow> ('w \<Rightarrow> table) \<Rightarrow> ('w \<Rightarrow> 'e) \<Rightarrow> table \<Rightarrow> 'e \<Rightarrow> 'w \<Rightarrow> bool" where
  "world_at good tab env t e w \<longleftrightarrow> good w \<and> tab w = t \<and> env w = e"

definition answers :: "('w \<Rightarrow> bool) \<Rightarrow> ('w \<Rightarrow> table) \<Rightarrow> ('w \<Rightarrow> 'e) \<Rightarrow> 'w Client \<Rightarrow> http_method \<Rightarrow> string \<Rightarrow>
    string \<Rightarrow> table \<Rightarrow> (http_response \<Rightarrow> table \<Rightarrow> bool) \<Rightarrow> bool" where
  "answers good tab env c m path body t P \<longleftrightarrow>
     (\<forall>e. triple (world_at good tab env t e) (HTTP_Do c m path body)
            (\<lambda>r w. \<exists>resp. r = Inr resp \<and> P resp (tab w) \<and> world_at good tab env (tab w) e w))"

locale rest =
  fixes C :: "'w Client" and good :: "'w \<Rightarrow> bool" and tab :: "'w \<Rightarrow> table" and env :: "'w \<Rightarrow> 'e"
  assumes post: "(p, r) \<in> set resource_routes \<Longrightarrow> newObj r = Some (fresh ob) \<Longrightarrow> marshal_obj ob = Some b \<Longrightarrow>
      answers good tab env C POST (p @ ''/'' @ r) b t (\<lambda>resp t'. (rp_status resp, t') = post_effect r ob t)"
    and put: "(p, r) \<in> set resource_routes \<Longrightarrow> newObj r = Some (fresh ob) \<Longrightarrow> marshal_obj ob = Some b \<Longrightarrow>
      plain_name n \<Longrightarrow>
      answers good tab env C PUT (p @ ''/'' @ r @ ''/'' @ n) b t (\<lambda>resp t'. (rp_status resp, t') = put_effect r n ob t)"
    and delete: "(p, r) \<in> set resource_routes \<Longrightarrow> newObj r = Some z \<Longrightarrow> plain_name n \<Longrightarrow>
      answers good tab env C DELETE (p @ ''/'' @ r @ ''/'' @ n) b t
        (\<lambda>resp t'. (rp_status resp, t') = delete_effect r n t)"
    and get: "(p, r) \<in> set resource_routes \<Longrightarrow> newObj r = Some z \<Longrightarrow> plain_name n \<Longrightarrow>
      answers good tab env C GET (p @ ''/'' @ r @ ''/'' @ n) b t (\<lambda>resp t'. t' = t \<and> get_answer (t r n) resp)"
    and list: "(p, r) \<in> set resource_routes \<Longrightarrow> newObj r = Some z \<Longrightarrow>
      answers good tab env C GET (p @ ''/'' @ r) b t (\<lambda>resp t'. t' = t \<and> list_answer z (t r) resp)"
    and entry: "good w \<Longrightarrow> tab w r n = Some x \<Longrightarrow> settled_obj x \<and> newObj r = Some (fresh x)"

section \<open>The effect of every method\<close>

text \<open>A listing: each object of the table's row once, in some order.\<close>

definition lists :: "('a \<Rightarrow> obj) \<Rightarrow> (string \<Rightarrow> obj option) \<Rightarrow> 'a slice result \<Rightarrow> bool" where
  "lists mk row res \<longleftrightarrow> (\<exists>xs. res = Inr (slice_of xs) \<and> enumerates (map mk xs) row)"

definition send_result :: "nat list \<Rightarrow> string \<Rightarrow> nat \<Rightarrow> gerror option" where
  "send_result fine what st = (if st \<in> set fine then None else Some (Errorf what))"

lemma routes:
  "(''/api/v1'', ''pods'') \<in> set resource_routes" "(''/api/v1'', ''nodes'') \<in> set resource_routes"
  "(''/apis/apps/v1'', ''replicasets'') \<in> set resource_routes"
  "(''/apis/apps/v1'', ''deployments'') \<in> set resource_routes"
  "(''/api/v1'', ''services'') \<in> set resource_routes" "(''/api/v1'', ''endpoints'') \<in> set resource_routes"
  "(''/api/v1'', ''leases'') \<in> set resource_routes"
  by (simp_all add: resource_routes_def)

lemma newObjs [simp]:
  "newObj ''pods'' = Some (OPod Pod_zero)" "newObj ''nodes'' = Some (ONode Node_zero)"
  "newObj ''replicasets'' = Some (OReplicaSet ReplicaSet_zero)"
  "newObj ''deployments'' = Some (ODeployment Deployment_zero)"
  "newObj ''services'' = Some (OService Service_zero)" "newObj ''endpoints'' = Some (OEndpoints Endpoints_zero)"
  "newObj ''leases'' = Some (OLease Lease_zero)"
  by (simp_all add: newObj_def)

lemma enumerates_range: "enumerates xs t \<Longrightarrow> x \<in> set xs \<Longrightarrow> \<exists>n. t n = Some x"
  by (auto simp: enumerates_def) (metis domD option.sel)

lemma says_decode:
  assumes "json_codec L" and "cok L l" and "says n (cenc L l) resp"
  shows "decode L (rp_body resp) (czero L) = Some (cnrm L l)"
proof -
  have "marshal L l = Some (print_json (cenc L l))" using assms(2) by (simp add: marshal_def)
  then show ?thesis
    using assms(3) json_codec.decode_marshal [OF assms(1)] by (auto simp: says_def)
qed

context rest
begin

abbreviation (input) at_table :: "table \<Rightarrow> 'e \<Rightarrow> 'w \<Rightarrow> bool" where
  "at_table \<equiv> world_at good tab env"

lemma at_entry: "at_table t e w \<Longrightarrow> t r n = Some x \<Longrightarrow> settled_obj x \<and> newObj r = Some (fresh x)"
  using entry by (auto simp: world_at_def)

lemma answersD:
  assumes "answers good tab env C m path body t P"
  shows "triple (at_table t e) (HTTP_Do C m path body)
    (\<lambda>r w. \<exists>resp. r = Inr resp \<and> P resp (tab w) \<and> at_table (tab w) e w)"
  using assms by (simp add: answers_def)

lemma post_object_effect:
  assumes "(p, r) \<in> set resource_routes" and "newObj r = Some (fresh ob)" and "marshal_obj ob \<noteq> None"
  shows "triple (at_table t e) (post_object C (p @ ''/'' @ r) ob fine what)
    (\<lambda>err w. at_table (snd (post_effect r ob t)) e w \<and> err = send_result fine what (fst (post_effect r ob t)))"
proof -
  obtain b where b: "marshal_obj ob = Some b" using assms(3) by blast
  show ?thesis
    unfolding post_object_def b option.case
    by (rule triple_gbind [OF answersD [OF post [OF assms(1,2) b]]], rule triple_gret)
      (auto simp: send_result_def dest: arg_cong [of _ _ fst] arg_cong [of _ _ snd])
qed

lemma put_object_effect:
  assumes "(p, r) \<in> set resource_routes" and "newObj r = Some (fresh ob)" and "marshal_obj ob \<noteq> None"
    and "plain_name n"
  shows "triple (at_table t e) (put_object C (p @ ''/'' @ r @ ''/'' @ n) ob what)
    (\<lambda>err w. at_table (snd (put_effect r n ob t)) e w \<and> err = send_result [200] what (fst (put_effect r n ob t)))"
proof -
  obtain b where b: "marshal_obj ob = Some b" using assms(3) by blast
  show ?thesis
    unfolding put_object_def b option.case
    by (rule triple_gbind [OF answersD [OF put [OF assms(1,2) b assms(4)]]], rule triple_gret)
      (auto simp: send_result_def dest: arg_cong [of _ _ fst] arg_cong [of _ _ snd])
qed

lemma get_items_effect:
  assumes "(p, r) \<in> set resource_routes" and "newObj r = Some z"
    and "\<And>xs resp. enumerates xs (t r) \<Longrightarrow> (\<And>x. x \<in> set xs \<Longrightarrow> settled_obj x \<and> fresh x = z) \<Longrightarrow>
      says 200 (fst (list_of_kind z xs)) resp \<Longrightarrow>
      \<exists>l. decode L (rp_body resp) (czero L) = Some l \<and> lists mk (t r) (Inr (items l))"
  shows "triple (at_table t e) (get_items C (p @ ''/'' @ r) L items) (\<lambda>res w. at_table t e w \<and> lists mk (t r) res)"
  unfolding get_items_def
proof (rule triple_gbind [OF answersD [OF list [OF assms(1,2)]]], rule triple_gret)
  fix res :: "http_response result" and w
  assume "\<exists>resp. res = Inr resp \<and> (tab w = t \<and> list_answer z (t r) resp) \<and> at_table (tab w) e w"
  then obtain resp xs where res: "res = Inr resp" and at: "at_table t e w" and xs: "enumerates xs (t r)"
    and says: "says 200 (fst (list_of_kind z xs)) resp"
    by (auto simp: list_answer_def)
  have "settled_obj x \<and> fresh x = z" if "x \<in> set xs" for x
    using enumerates_range [OF xs that] at_entry [OF at] assms(2) by fastforce
  with xs says assms(3) obtain l where "decode L (rp_body resp) (czero L) = Some l" "lists mk (t r) (Inr (items l))"
    by blast
  with res at says_status [OF says]
  show "at_table t e w \<and> lists mk (t r) (case res of Inl err \<Rightarrow> Inl err
      | Inr resp \<Rightarrow> if rp_status resp \<noteq> 200 then Inl (Errorf ''api request failed'')
          else (case decode L (rp_body resp) (czero L) of
              None \<Rightarrow> Inl (Errorf ''decode'') | Some l \<Rightarrow> Inr (items l)))"
    by simp
qed

lemma ListPods_effect:
  "triple (at_table t e) (ListPods C nodeName) (\<lambda>res w. at_table t e w \<and> lists OPod (t ''pods'') res)"
proof -
  have "triple (at_table t e) (get_items C (''/api/v1'' @ ''/'' @ ''pods'') PodList_codec podl_Items)
    (\<lambda>res w. at_table t e w \<and> lists OPod (t ''pods'') res)"
  proof (rule get_items_effect [where z = "OPod Pod_zero"])
    fix xs resp
    assume xs: "enumerates xs (t ''pods'')" and good: "\<And>x. x \<in> set xs \<Longrightarrow> settled_obj x \<and> fresh x = OPod Pod_zero"
      and says: "says 200 (fst (list_of_kind (OPod Pod_zero) xs)) resp"
    obtain ys where ys: "xs = map OPod ys" using good fresh_kind(1) by (metis ex_map_conv)
    let ?l = "PodList_zero\<lparr>podl_Items := slice_of ys\<rparr>"
    have y: "cok Pod_codec y \<and> cnrm Pod_codec y = y" if "y \<in> set ys" for y
      using good [of "OPod y"] that settled_ok(1) by (auto simp: ys)
    have "map (cnrm Pod_codec) ys = ys" using y by (intro map_idI) blast
    then have "cnrm PodList_codec ?l = ?l" by (simp add: slice_of_def id_def del: nrm_simps)
    moreover have "decode PodList_codec (rp_body resp) (czero PodList_codec) = Some (cnrm PodList_codec ?l)"
      using says y by (intro says_decode) (auto simp: ys list_of_kind_def items_of_kind list_oks list_all_iff simp del: nrm_simps)
    ultimately show "\<exists>l. decode PodList_codec (rp_body resp) (czero PodList_codec) = Some l \<and>
        lists OPod (t ''pods'') (Inr (podl_Items l))"
      using xs by (auto simp: lists_def ys)
  qed (simp_all add: routes)
  then show ?thesis by (simp add: ListPods_def)
qed

lemma ListNodes_effect:
  "triple (at_table t e) (ListNodes C) (\<lambda>res w. at_table t e w \<and> lists ONode (t ''nodes'') res)"
proof -
  have "triple (at_table t e) (get_items C (''/api/v1'' @ ''/'' @ ''nodes'') NodeList_codec nodel_Items)
    (\<lambda>res w. at_table t e w \<and> lists ONode (t ''nodes'') res)"
  proof (rule get_items_effect [where z = "ONode Node_zero"])
    fix xs resp
    assume xs: "enumerates xs (t ''nodes'')" and good: "\<And>x. x \<in> set xs \<Longrightarrow> settled_obj x \<and> fresh x = ONode Node_zero"
      and says: "says 200 (fst (list_of_kind (ONode Node_zero) xs)) resp"
    obtain ys where ys: "xs = map ONode ys" using good fresh_kind(2) by (metis ex_map_conv)
    let ?l = "NodeList_zero\<lparr>nodel_Items := slice_of ys\<rparr>"
    have y: "cok Node_codec y \<and> cnrm Node_codec y = y" if "y \<in> set ys" for y
      using good [of "ONode y"] that settled_ok(2) by (auto simp: ys)
    have "map (cnrm Node_codec) ys = ys" using y by (intro map_idI) blast
    then have "cnrm NodeList_codec ?l = ?l" by (simp add: slice_of_def id_def del: nrm_simps)
    moreover have "decode NodeList_codec (rp_body resp) (czero NodeList_codec) = Some (cnrm NodeList_codec ?l)"
      using says y by (intro says_decode) (auto simp: ys list_of_kind_def items_of_kind list_oks list_all_iff simp del: nrm_simps)
    ultimately show "\<exists>l. decode NodeList_codec (rp_body resp) (czero NodeList_codec) = Some l \<and>
        lists ONode (t ''nodes'') (Inr (nodel_Items l))"
      using xs by (auto simp: lists_def ys)
  qed (simp_all add: routes)
  then show ?thesis by (simp add: ListNodes_def)
qed

lemma ListReplicaSets_effect:
  "triple (at_table t e) (ListReplicaSets C) (\<lambda>res w. at_table t e w \<and> lists OReplicaSet (t ''replicasets'') res)"
proof -
  have "triple (at_table t e) (get_items C (''/apis/apps/v1'' @ ''/'' @ ''replicasets'') ReplicaSetList_codec rsl_Items)
    (\<lambda>res w. at_table t e w \<and> lists OReplicaSet (t ''replicasets'') res)"
  proof (rule get_items_effect [where z = "OReplicaSet ReplicaSet_zero"])
    fix xs resp
    assume xs: "enumerates xs (t ''replicasets'')" and good: "\<And>x. x \<in> set xs \<Longrightarrow> settled_obj x \<and> fresh x = OReplicaSet ReplicaSet_zero"
      and says: "says 200 (fst (list_of_kind (OReplicaSet ReplicaSet_zero) xs)) resp"
    obtain ys where ys: "xs = map OReplicaSet ys" using good fresh_kind(3) by (metis ex_map_conv)
    let ?l = "ReplicaSetList_zero\<lparr>rsl_Items := slice_of ys\<rparr>"
    have y: "cok ReplicaSet_codec y \<and> cnrm ReplicaSet_codec y = y" if "y \<in> set ys" for y
      using good [of "OReplicaSet y"] that settled_ok(3) by (auto simp: ys)
    have "map (cnrm ReplicaSet_codec) ys = ys" using y by (intro map_idI) blast
    then have "cnrm ReplicaSetList_codec ?l = ?l" by (simp add: slice_of_def id_def del: nrm_simps)
    moreover have "decode ReplicaSetList_codec (rp_body resp) (czero ReplicaSetList_codec) = Some (cnrm ReplicaSetList_codec ?l)"
      using says y by (intro says_decode) (auto simp: ys list_of_kind_def items_of_kind list_oks list_all_iff simp del: nrm_simps)
    ultimately show "\<exists>l. decode ReplicaSetList_codec (rp_body resp) (czero ReplicaSetList_codec) = Some l \<and>
        lists OReplicaSet (t ''replicasets'') (Inr (rsl_Items l))"
      using xs by (auto simp: lists_def ys)
  qed (simp_all add: routes)
  then show ?thesis by (simp add: ListReplicaSets_def)
qed

lemma ListDeployments_effect:
  "triple (at_table t e) (ListDeployments C) (\<lambda>res w. at_table t e w \<and> lists ODeployment (t ''deployments'') res)"
proof -
  have "triple (at_table t e) (get_items C (''/apis/apps/v1'' @ ''/'' @ ''deployments'') DeploymentList_codec depl_Items)
    (\<lambda>res w. at_table t e w \<and> lists ODeployment (t ''deployments'') res)"
  proof (rule get_items_effect [where z = "ODeployment Deployment_zero"])
    fix xs resp
    assume xs: "enumerates xs (t ''deployments'')" and good: "\<And>x. x \<in> set xs \<Longrightarrow> settled_obj x \<and> fresh x = ODeployment Deployment_zero"
      and says: "says 200 (fst (list_of_kind (ODeployment Deployment_zero) xs)) resp"
    obtain ys where ys: "xs = map ODeployment ys" using good fresh_kind(4) by (metis ex_map_conv)
    let ?l = "DeploymentList_zero\<lparr>depl_Items := slice_of ys\<rparr>"
    have y: "cok Deployment_codec y \<and> cnrm Deployment_codec y = y" if "y \<in> set ys" for y
      using good [of "ODeployment y"] that settled_ok(4) by (auto simp: ys)
    have "map (cnrm Deployment_codec) ys = ys" using y by (intro map_idI) blast
    then have "cnrm DeploymentList_codec ?l = ?l" by (simp add: slice_of_def id_def del: nrm_simps)
    moreover have "decode DeploymentList_codec (rp_body resp) (czero DeploymentList_codec) = Some (cnrm DeploymentList_codec ?l)"
      using says y by (intro says_decode) (auto simp: ys list_of_kind_def items_of_kind list_oks list_all_iff simp del: nrm_simps)
    ultimately show "\<exists>l. decode DeploymentList_codec (rp_body resp) (czero DeploymentList_codec) = Some l \<and>
        lists ODeployment (t ''deployments'') (Inr (depl_Items l))"
      using xs by (auto simp: lists_def ys)
  qed (simp_all add: routes)
  then show ?thesis by (simp add: ListDeployments_def)
qed

lemma ListServices_effect:
  "triple (at_table t e) (ListServices C) (\<lambda>res w. at_table t e w \<and> lists OService (t ''services'') res)"
proof -
  have "triple (at_table t e) (get_items C (''/api/v1'' @ ''/'' @ ''services'') ServiceList_codec svcl_Items)
    (\<lambda>res w. at_table t e w \<and> lists OService (t ''services'') res)"
  proof (rule get_items_effect [where z = "OService Service_zero"])
    fix xs resp
    assume xs: "enumerates xs (t ''services'')" and good: "\<And>x. x \<in> set xs \<Longrightarrow> settled_obj x \<and> fresh x = OService Service_zero"
      and says: "says 200 (fst (list_of_kind (OService Service_zero) xs)) resp"
    obtain ys where ys: "xs = map OService ys" using good fresh_kind(5) by (metis ex_map_conv)
    let ?l = "ServiceList_zero\<lparr>svcl_Items := slice_of ys\<rparr>"
    have y: "cok Service_codec y \<and> cnrm Service_codec y = y" if "y \<in> set ys" for y
      using good [of "OService y"] that settled_ok(5) by (auto simp: ys)
    have "map (cnrm Service_codec) ys = ys" using y by (intro map_idI) blast
    then have "cnrm ServiceList_codec ?l = ?l" by (simp add: slice_of_def id_def del: nrm_simps)
    moreover have "decode ServiceList_codec (rp_body resp) (czero ServiceList_codec) = Some (cnrm ServiceList_codec ?l)"
      using says y by (intro says_decode) (auto simp: ys list_of_kind_def items_of_kind list_oks list_all_iff simp del: nrm_simps)
    ultimately show "\<exists>l. decode ServiceList_codec (rp_body resp) (czero ServiceList_codec) = Some l \<and>
        lists OService (t ''services'') (Inr (svcl_Items l))"
      using xs by (auto simp: lists_def ys)
  qed (simp_all add: routes)
  then show ?thesis by (simp add: ListServices_def)
qed

text \<open>A method that posts or puts an object succeeds exactly when the request does.\<close>

lemma CreatePod_effect:
  assumes "marshal_obj (OPod x) \<noteq> None"
  shows "triple (at_table t e) (CreatePod C x)
    (\<lambda>err w. at_table (snd (post_effect ''pods'' (OPod x) t)) e w \<and>
      err = send_result [201, 200] ''failed to create pod'' (fst (post_effect ''pods'' (OPod x) t)))"
  using post_object_effect [OF routes(1) _ assms, of t e "[201, 200]" "''failed to create pod''"]
  by (simp add: CreatePod_def)

lemma RegisterNode_effect:
  assumes "marshal_obj (ONode x) \<noteq> None"
  shows "triple (at_table t e) (RegisterNode C x)
    (\<lambda>err w. at_table (snd (post_effect ''nodes'' (ONode x) t)) e w \<and>
      err = send_result [409, 201, 200] ''failed to register node'' (fst (post_effect ''nodes'' (ONode x) t)))"
  using post_object_effect [OF routes(2) _ assms, of t e "[409, 201, 200]" "''failed to register node''"]
  by (simp add: RegisterNode_def)

lemma CreateReplicaSet_effect:
  assumes "marshal_obj (OReplicaSet x) \<noteq> None"
  shows "triple (at_table t e) (CreateReplicaSet C x)
    (\<lambda>err w. at_table (snd (post_effect ''replicasets'' (OReplicaSet x) t)) e w \<and>
      err = send_result [201, 200] ''failed to create replicaset'' (fst (post_effect ''replicasets'' (OReplicaSet x) t)))"
  using post_object_effect [OF routes(3) _ assms, of t e "[201, 200]" "''failed to create replicaset''"]
  by (simp add: CreateReplicaSet_def)

lemma CreateDeployment_effect:
  assumes "marshal_obj (ODeployment x) \<noteq> None"
  shows "triple (at_table t e) (CreateDeployment C x)
    (\<lambda>err w. at_table (snd (post_effect ''deployments'' (ODeployment x) t)) e w \<and>
      err = send_result [201, 200] ''failed to create deployment'' (fst (post_effect ''deployments'' (ODeployment x) t)))"
  using post_object_effect [OF routes(4) _ assms, of t e "[201, 200]" "''failed to create deployment''"]
  by (simp add: CreateDeployment_def)

lemma CreateService_effect:
  assumes "marshal_obj (OService x) \<noteq> None"
  shows "triple (at_table t e) (CreateService C x)
    (\<lambda>err w. at_table (snd (post_effect ''services'' (OService x) t)) e w \<and>
      err = send_result [201, 200] ''failed to create service'' (fst (post_effect ''services'' (OService x) t)))"
  using post_object_effect [OF routes(5) _ assms, of t e "[201, 200]" "''failed to create service''"]
  by (simp add: CreateService_def)

lemma CreateEndpoints_effect:
  assumes "marshal_obj (OEndpoints x) \<noteq> None"
  shows "triple (at_table t e) (CreateEndpoints C x)
    (\<lambda>err w. at_table (snd (post_effect ''endpoints'' (OEndpoints x) t)) e w \<and>
      err = send_result [201, 200] ''failed to create endpoints'' (fst (post_effect ''endpoints'' (OEndpoints x) t)))"
  using post_object_effect [OF routes(6) _ assms, of t e "[201, 200]" "''failed to create endpoints''"]
  by (simp add: CreateEndpoints_def)

lemma CreateLease_effect:
  assumes "marshal_obj (OLease x) \<noteq> None"
  shows "triple (at_table t e) (CreateLease C x)
    (\<lambda>err w. at_table (snd (post_effect ''leases'' (OLease x) t)) e w \<and>
      err = send_result [201, 200] ''failed to create lease'' (fst (post_effect ''leases'' (OLease x) t)))"
  using post_object_effect [OF routes(7) _ assms, of t e "[201, 200]" "''failed to create lease''"]
  by (simp add: CreateLease_def)

lemma UpdatePod_effect:
  assumes "marshal_obj (OPod x) \<noteq> None" and "plain_name (om_Name (pod_ObjectMeta x))"
  shows "triple (at_table t e) (UpdatePod C x)
    (\<lambda>err w. at_table (snd (put_effect ''pods'' (om_Name (pod_ObjectMeta x)) (OPod x) t)) e w \<and>
      err = send_result [200] ''failed to update pod'' (fst (put_effect ''pods'' (om_Name (pod_ObjectMeta x)) (OPod x) t)))"
  using put_object_effect [OF routes(1) _ assms(1,2), of t e "''failed to update pod''"]
  by (simp add: UpdatePod_def)

lemma UpdateReplicaSet_effect:
  assumes "marshal_obj (OReplicaSet x) \<noteq> None" and "plain_name (om_Name (rs_ObjectMeta x))"
  shows "triple (at_table t e) (UpdateReplicaSet C x)
    (\<lambda>err w. at_table (snd (put_effect ''replicasets'' (om_Name (rs_ObjectMeta x)) (OReplicaSet x) t)) e w \<and>
      err = send_result [200] ''failed to update replicaset'' (fst (put_effect ''replicasets'' (om_Name (rs_ObjectMeta x)) (OReplicaSet x) t)))"
  using put_object_effect [OF routes(3) _ assms(1,2), of t e "''failed to update replicaset''"]
  by (simp add: UpdateReplicaSet_def)

lemma UpdateDeployment_effect:
  assumes "marshal_obj (ODeployment x) \<noteq> None" and "plain_name (om_Name (dep_ObjectMeta x))"
  shows "triple (at_table t e) (UpdateDeployment C x)
    (\<lambda>err w. at_table (snd (put_effect ''deployments'' (om_Name (dep_ObjectMeta x)) (ODeployment x) t)) e w \<and>
      err = send_result [200] ''failed to update deployment'' (fst (put_effect ''deployments'' (om_Name (dep_ObjectMeta x)) (ODeployment x) t)))"
  using put_object_effect [OF routes(4) _ assms(1,2), of t e "''failed to update deployment''"]
  by (simp add: UpdateDeployment_def)

lemma UpdateEndpoints_effect:
  assumes "marshal_obj (OEndpoints x) \<noteq> None" and "plain_name (om_Name (ep_ObjectMeta x))"
  shows "triple (at_table t e) (UpdateEndpoints C x)
    (\<lambda>err w. at_table (snd (put_effect ''endpoints'' (om_Name (ep_ObjectMeta x)) (OEndpoints x) t)) e w \<and>
      err = send_result [200] ''failed to update endpoints'' (fst (put_effect ''endpoints'' (om_Name (ep_ObjectMeta x)) (OEndpoints x) t)))"
  using put_object_effect [OF routes(6) _ assms(1,2), of t e "''failed to update endpoints''"]
  by (simp add: UpdateEndpoints_def)

lemma UpdateLease_effect:
  assumes "marshal_obj (OLease x) \<noteq> None" and "plain_name (om_Name (lease_ObjectMeta x))"
  shows "triple (at_table t e) (UpdateLease C x)
    (\<lambda>err w. at_table (snd (put_effect ''leases'' (om_Name (lease_ObjectMeta x)) (OLease x) t)) e w \<and>
      err = send_result [200] ''failed to update lease'' (fst (put_effect ''leases'' (om_Name (lease_ObjectMeta x)) (OLease x) t)))"
  using put_object_effect [OF routes(7) _ assms(1,2), of t e "''failed to update lease''"]
  by (simp add: UpdateLease_def)

lemma DeletePod_effect:
  assumes "plain_name n"
  shows "triple (at_table t e) (DeletePod C n) (\<lambda>err w. at_table (set_obj ''pods'' n None t) e w \<and> err = None)"
proof -
  have same: "set_obj ''pods'' n None t = t" if "t ''pods'' n = None"
    using that by (simp add: set_obj_def fun_upd_idem)
  have "triple (at_table t e) (HTTP_Do C DELETE (''/api/v1'' @ ''/'' @ ''pods'' @ ''/'' @ n) [])
    (\<lambda>r w. \<exists>resp. r = Inr resp \<and> (rp_status resp, tab w) = delete_effect ''pods'' n t \<and> at_table (tab w) e w)"
    by (rule answersD [OF delete [OF routes(1) _ assms, of "OPod Pod_zero"]]) simp
  then have "triple (at_table t e) (HTTP_Do C DELETE (''/api/v1/pods/'' @ n) [])
    (\<lambda>r w. \<exists>resp. r = Inr resp \<and> (rp_status resp = 200 \<or> rp_status resp = 404) \<and>
       at_table (set_obj ''pods'' n None t) e w)"
    by (auto elim!: triple_post simp: delete_effect_def same split: if_splits)
  then show ?thesis
    unfolding DeletePod_def by (rule triple_gbind) (auto intro!: triple_gret)
qed

lemma get_object_effect:
  assumes "(p, r) \<in> set resource_routes" and "newObj r = Some (mk (czero K))" and "plain_name n"
    and "\<And>x. fresh x = mk (czero K) \<Longrightarrow> \<exists>y. x = mk y"
    and "\<And>y. settled_obj (mk y) \<Longrightarrow> cok K y \<and> cnrm K y = y" and "json_codec K"
    and "\<And>y. obj_json (mk y) = cenc K y"
  shows "triple (at_table t e) (get_object C (p @ ''/'' @ r @ ''/'' @ n) K)
    (\<lambda>res w. at_table t e w \<and> (\<exists>x. res = Inr x \<and> map_option mk x = t r n))"
  unfolding get_object_def
proof (rule triple_gbind [OF answersD [OF get [OF assms(1-3)]]], rule triple_gret)
  fix res :: "http_response result" and w
  assume "\<exists>resp. res = Inr resp \<and> (tab w = t \<and> get_answer (t r n) resp) \<and> at_table (tab w) e w"
  then obtain resp where res: "res = Inr resp" and at: "at_table t e w" and ans: "get_answer (t r n) resp"
    by auto
  show "at_table t e w \<and> (\<exists>x. (case res of Inl err \<Rightarrow> Inl err
      | Inr resp \<Rightarrow>
          if rp_status resp \<noteq> 200
          then (if rp_status resp = 404 then Inr None else Inl (Errorf ''api request failed''))
          else (case decode K (rp_body resp) (czero K) of
              None \<Rightarrow> Inl (Errorf ''decode'') | Some x \<Rightarrow> Inr (Some x))) = Inr x \<and> map_option mk x = t r n)"
  proof (cases "t r n")
    case None
    with at ans res show ?thesis by (simp add: get_answer_def)
  next
    case (Some x)
    with at_entry [OF at Some] assms(2,4) obtain y where y: "x = mk y" "settled_obj (mk y)" by auto
    with Some ans assms(7) have says: "says 200 (cenc K y) resp" by (simp add: get_answer_def)
    from says_decode [OF assms(6) _ says] assms(5) [OF y(2)]
    have "decode K (rp_body resp) (czero K) = Some y" by simp
    with at res y Some says_status [OF says] show ?thesis by simp
  qed
qed

lemma GetEndpoints_effect:
  assumes "plain_name n"
  shows "triple (at_table t e) (GetEndpoints C n)
    (\<lambda>res w. at_table t e w \<and> (\<exists>x. res = Inr x \<and> map_option OEndpoints x = t ''endpoints'' n))"
  using get_object_effect [OF routes(6) _ assms, of OEndpoints Endpoints_codec t e] fresh_kind(6) settled_ok(6)
  by (simp add: GetEndpoints_def del: nrm_simps)

lemma GetLease_effect:
  assumes "plain_name n"
  shows "triple (at_table t e) (GetLease C n)
    (\<lambda>res w. at_table t e w \<and> (\<exists>x. res = Inr x \<and> map_option OLease x = t ''leases'' n))"
  using get_object_effect [OF routes(7) _ assms, of OLease Lease_codec t e] fresh_kind(7) settled_ok(7)
  by (simp add: GetLease_def del: nrm_simps)

end

end
