(* ===== verification/Cluster.thy ===== *)
theory Cluster
  imports Client
begin

text \<open>
  The clients and the API server put together: a world holds the server with its store, and a
  client's transport hands each request to \<open>ServeHTTP\<close>. A handler that blocks (a full watcher
  channel, see \<open>Storage\<close>) keeps the store's lock, so from then on no request is answered before
  its context ends. The cluster of the \<open>MemoryStore\<close> satisfies the contract \<open>rest\<close>.
\<close>

section \<open>The world\<close>

record ('s, 'e) World =
  w_server :: "'s Server"
  w_store :: 's
  w_hung :: bool
  w_env :: 'e

definition cluster_send :: "string \<Rightarrow> http_request \<Rightarrow> ('s, 'e) World \<Rightarrow> http_response result \<times> ('s, 'e) World" where
  "cluster_send base rq w =
     (if w_hung w then (Inl (Errorf ''context deadline exceeded''), w)
      else case strip base (rq_url rq) of
        None \<Rightarrow> (Inl (Errorf ''no such host''), w)
      | Some path \<Rightarrow>
          (case ServeHTTP (w_server w) (rq\<lparr>rq_url := path\<rparr>) (w_store w) of
             None \<Rightarrow> (Inl (Errorf ''context deadline exceeded''), w\<lparr>w_hung := True\<rparr>)
           | Some (Done resp, s) \<Rightarrow> (Inr resp, w\<lparr>w_store := s\<rparr>)
           | Some (Streaming i, s) \<Rightarrow> (Inr \<lparr>rp_status = 200, rp_body = []\<rparr>, w\<lparr>w_store := s\<rparr>)))"

definition cluster_client :: "string \<Rightarrow> ('s, 'e) World Client" where
  "cluster_client base = \<lparr>cl_BaseURL = base, cl_HTTP = cluster_send base\<rparr>"

text \<open>The server is wired to that store and its parameters behave, its map is well typed, nobody watches.\<close>

definition world_good :: "'s Store \<Rightarrow> ('s \<Rightarrow> bool) \<Rightarrow> ('s \<Rightarrow> bool) \<Rightarrow> ('s \<Rightarrow> kv) \<Rightarrow> ('s, 'e) World \<Rightarrow> bool" where
  "world_good S good quiet view w \<longleftrightarrow>
     \<not> w_hung w \<and> server_ok S (w_server w) \<and> keeps good view (w_store w) \<and> quiet (w_store w)"

definition world_table :: "('s \<Rightarrow> kv) \<Rightarrow> ('s, 'e) World \<Rightarrow> table" where
  "world_table view w = objs (view (w_store w))"

lemma strip_append [simp]: "strip p (p @ s) = Some s"
  by (induction p) simp_all

lemma HTTP_Do_cluster:
  "HTTP_Do (cluster_client base) m path body w =
     (let (r, w') = cluster_send base \<lparr>rq_method = m, rq_url = base @ path, rq_watch = False, rq_body = body\<rparr> w
      in (Ret r, w'))"
  by (simp add: HTTP_Do_def cluster_client_def)

lemma cluster_answers:
  assumes "\<And>w :: ('s, 'e) World. world_good S good quiet view w \<Longrightarrow> world_table view w = t \<Longrightarrow>
    \<exists>resp s'. ServeHTTP (w_server w) \<lparr>rq_method = m, rq_url = path, rq_watch = False, rq_body = body\<rparr> (w_store w)
        = Some (Done resp, s') \<and> keeps good view s' \<and> quiet s' \<and> P resp (objs (view s'))"
  shows "answers (world_good S good quiet view) (world_table view) w_env
    (cluster_client base :: ('s, 'e) World Client) m path body t P"
  unfolding answers_def
proof (intro allI tripleI)
  fix e and w :: "('s, 'e) World"
  assume "world_at (world_good S good quiet view) (world_table view) w_env t e w"
  then have w: "world_good S good quiet view w" "world_table view w = t" "w_env w = e"
    by (simp_all add: world_at_def)
  then show "\<exists>x w'. HTTP_Do (cluster_client base) m path body w = (Ret x, w') \<and>
      (\<exists>resp. x = Inr resp \<and> P resp (world_table view w') \<and>
        world_at (world_good S good quiet view) (world_table view) w_env (world_table view w') e w')"
    using assms [OF w(1,2)]
    by (auto simp: HTTP_Do_cluster cluster_send_def world_good_def world_at_def world_table_def)
qed

context store
begin

lemma cluster_rest:
  "rest (cluster_client base :: ('s, 'e) World Client) (world_good S good quiet view) (world_table view) w_env"
proof
  fix p r ob b t
  assume "(p, r) \<in> set resource_routes" "newObj r = Some (fresh ob)" "marshal_obj ob = Some b"
  note a = this
  show "answers (world_good S good quiet view) (world_table view) w_env
      (cluster_client base :: ('s, 'e) World Client) POST (p @ ''/'' @ r) b t
      (\<lambda>resp t'. (rp_status resp, t') = post_effect r ob t)"
    by (rule cluster_answers)
      (use ServeHTTP_post [OF _ _ _ a] in \<open>auto simp: world_good_def world_table_def\<close>)
  fix n assume n: "plain_name n"
  show "answers (world_good S good quiet view) (world_table view) w_env
      (cluster_client base :: ('s, 'e) World Client) PUT (p @ ''/'' @ r @ ''/'' @ n) b t
      (\<lambda>resp t'. (rp_status resp, t') = put_effect r n ob t)"
    by (rule cluster_answers)
      (use ServeHTTP_put [OF _ _ _ n a] in \<open>auto simp: world_good_def world_table_def\<close>)
next
  fix p r z n b t
  assume "(p, r) \<in> set resource_routes" "newObj r = Some z"
  note a = this
  show "answers (world_good S good quiet view) (world_table view) w_env
      (cluster_client base :: ('s, 'e) World Client) GET (p @ ''/'' @ r) b t
      (\<lambda>resp t'. t' = t \<and> list_answer z (t r) resp)"
    by (rule cluster_answers)
      (use ServeHTTP_list [OF _ _ a] in \<open>fastforce simp: world_good_def world_table_def\<close>)
  assume n: "plain_name n"
  show "answers (world_good S good quiet view) (world_table view) w_env
      (cluster_client base :: ('s, 'e) World Client) DELETE (p @ ''/'' @ r @ ''/'' @ n) b t
      (\<lambda>resp t'. (rp_status resp, t') = delete_effect r n t)"
    by (rule cluster_answers)
      (use ServeHTTP_delete [OF _ _ _ n a] in \<open>auto simp: world_good_def world_table_def\<close>)
  show "answers (world_good S good quiet view) (world_table view) w_env
      (cluster_client base :: ('s, 'e) World Client) GET (p @ ''/'' @ r @ ''/'' @ n) b t
      (\<lambda>resp t'. t' = t \<and> get_answer (t r n) resp)"
    by (rule cluster_answers)
      (use ServeHTTP_get [OF _ _ n a] in \<open>fastforce simp: world_good_def world_table_def\<close>)
next
  fix w :: "('s, 'e) World" and r n x
  assume "world_good S good quiet view w" "world_table view w r n = Some x"
  then show "settled_obj x \<and> newObj r = Some (fresh x)"
    using objs_settled by (auto simp: world_good_def world_table_def keeps_def)
qed

end

section \<open>The cluster of the MemoryStore\<close>

type_synonym 'e cluster = "(MemoryStore, 'e) World"

definition cluster_good :: "'e cluster \<Rightarrow> bool" where
  "cluster_good = world_good MemoryStore_ops ms_inv ms_quiet ms_view"

definition cluster_table :: "'e cluster \<Rightarrow> table" where
  "cluster_table = world_table ms_view"

interpretation cluster: rest "cluster_client base" cluster_good cluster_table w_env for base
  unfolding cluster_good_def cluster_table_def by (rule MemoryStore.cluster_rest)

section \<open>A router and a renderer\<close>

text \<open>
  The parameters of the server at work: a router for the routes of \<open>resource_routes\<close>, and a
  renderer that writes the JSON text and a newline.
\<close>

fun find_route :: "(string \<times> string) list \<Rightarrow> string \<Rightarrow> route" where
  "find_route [] url = NoRoute \<lparr>rp_status = 404, rp_body = []\<rparr>"
| "find_route ((p, r) # rs) url =
     (case strip (p @ ''/'' @ r) url of
        Some [] \<Rightarrow> Collection r
      | Some (c # n) \<Rightarrow> if c = CHR ''/'' \<and> n \<noteq> [] then Item r n else find_route rs url
      | None \<Rightarrow> find_route rs url)"

definition plain_router :: "http_method \<Rightarrow> string \<Rightarrow> route" where
  "plain_router m url = find_route resource_routes url"

definition plain_render :: "nat \<Rightarrow> json \<Rightarrow> http_response" where
  "plain_render st j = \<lparr>rp_status = st, rp_body = print_json j @ [CHR 0x0A]\<rparr>"

lemma plain_router_ok: "router_ok plain_router"
  by (auto simp: router_ok_def plain_router_def resource_routes_def plain_name_def)

lemma plain_render_ok: "render_ok plain_render"
  by (auto simp: render_ok_def plain_render_def)

text \<open>A cluster that holds the given objects\<close>

definition plain_server :: "MemoryStore Server" where
  "plain_server = \<lparr>sv_Store = MemoryStore_ops, sv_Router = plain_router, sv_Render = plain_render\<rparr>"

definition cluster_of :: "(string \<times> string) list \<Rightarrow> 'e \<Rightarrow> 'e cluster" where
  "cluster_of d e = \<lparr>w_server = plain_server,
     w_store = \<lparr>ms_data = d, ms_watchers = [], ms_next = 0, ms_filePath = [], ms_file = None,
                ms_unreadable = False, ms_io = [], ms_iter = id\<rparr>,
     w_hung = False, w_env = e\<rparr>"

lemma cluster_of_good:
  assumes "distinct (map fst d)" and "typed (map_of d)"
  shows "cluster_good (cluster_of d e)"
  using assms plain_router_ok plain_render_ok
  by (simp add: cluster_good_def world_good_def cluster_of_def server_ok_def plain_server_def keeps_def
      ms_inv_def ms_quiet_def ms_view_def)

text \<open>The cluster that holds these objects, and its table\<close>

fun resource_of :: "obj \<Rightarrow> string" where
  "resource_of (OPod _) = ''pods''"
| "resource_of (ONode _) = ''nodes''"
| "resource_of (OReplicaSet _) = ''replicasets''"
| "resource_of (ODeployment _) = ''deployments''"
| "resource_of (OService _) = ''services''"
| "resource_of (OEndpoints _) = ''endpoints''"
| "resource_of (OLease _) = ''leases''"

definition cluster_with :: "obj list \<Rightarrow> 'e \<Rightarrow> 'e cluster" where
  "cluster_with obs e =
     cluster_of (map (\<lambda>ob. (registry_key (resource_of ob) (obj_name ob), the (marshal_obj ob))) obs) e"

definition table_of :: "obj list \<Rightarrow> table" where
  "table_of obs r n = map_of (map (\<lambda>ob. ((resource_of ob, obj_name ob), obj_nrm ob)) obs) (r, n)"

definition storable :: "obj list \<Rightarrow> bool" where
  "storable obs \<longleftrightarrow> distinct (map (\<lambda>ob. (resource_of ob, obj_name ob)) obs) \<and>
     list_all (\<lambda>ob. marshal_obj ob \<noteq> None) obs"

lemma resource_of_fresh [simp]: "newObj (resource_of ob) = Some (fresh ob)"
  by (cases ob) simp_all

lemma resource_key_inj:
  "registry_key (resource_of a) m = registry_key (resource_of b) n \<longleftrightarrow> resource_of a = resource_of b \<and> m = n"
  using registry_key_eq [OF resource_of_fresh resource_of_fresh] .

lemma cluster_with_table:
  assumes "storable obs"
  shows "cluster_table (cluster_with obs e) = table_of obs"
proof (intro ext)
  fix r n
  let ?d = "\<lambda>obs. map_of (map (\<lambda>ob. (registry_key (resource_of ob) (obj_name ob), the (marshal_obj ob))) obs)"
  have "objs (?d obs) r n = table_of obs r n"
    using assms
  proof (induction obs)
    case Nil
    then show ?case by (cases "newObj r") (simp_all add: objs_def table_of_def)
  next
    case (Cons ob obs)
    then obtain b where b: "marshal_obj ob = Some b" and s: "storable obs"
      by (auto simp: storable_def)
    have eq: "objs (?d (ob # obs)) = set_obj (resource_of ob) (obj_name ob) (Some (obj_nrm ob)) (objs (?d obs))"
      using objs_upd [OF resource_of_fresh b] b by simp
    show ?case unfolding eq using Cons.IH [OF s] by (cases "r = resource_of ob") (simp_all add: set_obj_def table_of_def)
  qed
  then show "cluster_table (cluster_with obs e) r n = table_of obs r n"
    by (simp add: cluster_table_def world_table_def cluster_with_def cluster_of_def ms_view_def)
qed

lemma cluster_with_good:
  assumes "storable obs"
  shows "cluster_good (cluster_with obs e)"
  unfolding cluster_with_def
proof (rule cluster_of_good)
  have "inj_on (\<lambda>ob. registry_key (resource_of ob) (obj_name ob)) (set obs)"
    using assms by (auto simp: storable_def distinct_map inj_on_def resource_key_inj)
  then show "distinct (map fst (map (\<lambda>ob. (registry_key (resource_of ob) (obj_name ob), the (marshal_obj ob))) obs))"
    using assms by (auto simp: storable_def distinct_map comp_def)
  show "typed (map_of (map (\<lambda>ob. (registry_key (resource_of ob) (obj_name ob), the (marshal_obj ob))) obs))"
    using assms unfolding typed_def storable_def list_all_iff
    by (fastforce dest!: map_of_SomeD)
qed

lemma cluster_with_env [simp]: "w_env (cluster_with obs e) = e"
  by (simp add: cluster_with_def cluster_of_def)

end
