(* ===== verification/ServerSpec.thy ===== *)
theory ServerSpec
  imports Cluster
begin

text \<open>
  Properties of the API server over \<open>MemoryStore\<close>, from its JSON up to what a client sees through
  the REST interface.
\<close>

text \<open>C21: An object that can be marshalled comes back from its JSON text as its JSON normal form,
  which is the object itself but for empty \<open>omitempty\<close> slices and the unused half of an
  \<open>IntOrString\<close>, and from then on never changes again.\<close>

theorem object_json_roundtrip:
  assumes "marshal_obj ob = Some tx"
  shows "unmarshal_obj tx (fresh ob) = Some (obj_nrm ob) \<and> marshal_obj (obj_nrm ob) = Some tx \<and>
    obj_nrm (obj_nrm ob) = obj_nrm ob \<and> getObjectMeta (obj_nrm ob) = getObjectMeta ob"
proof -
  have "getObjectMeta (obj_nrm ob) = getObjectMeta ob" by (cases ob) simp_all
  then show ?thesis using assms unmarshal_marshal_obj marshal_obj_nrm obj_nrm_idem by blast
qed

text \<open>An RFC 3339 time that JSON can carry (no negative year, at most 9999) is read back to the
  nanosecond.\<close>

lemma time_roundtrip:
  assumes "time_ok t"
  shows "parse_time (format_time t) = Some t"
  using assms by (rule parse_format_time)

text \<open>C20: Whatever is requested, over whatever router and renderer, the store keeps its invariant and
  holds under every key the JSON of an object of the resource the key names.\<close>

theorem requests_keep_types:
  assumes "sv_Store srv = MemoryStore_ops" and "ms_inv s" and "typed (ms_view s)"
    and "ServeHTTP srv rq s = Some (a, s')"
  shows "ms_inv s' \<and> typed (ms_view s')"
  using MemoryStore.ServeHTTP_typed [OF assms(1) _ assms(4)] assms(2,3) by (simp_all add: keeps_def)

text \<open>C9: Creating an object through the REST interface of a quiet server: 400 without a name, 409 when
  the name is taken in that resource, else 201, and then the table holds the object under its
  name and is otherwise what it was.\<close>

theorem post_creates:
  assumes "server_ok MemoryStore_ops srv" and "ms_inv s" and "typed (ms_view s)" and "ms_quiet s"
    and "(p, r) \<in> set resource_routes" and "newObj r = Some (fresh ob)" and "marshal_obj ob = Some b"
  shows "\<exists>resp s'. ServeHTTP srv \<lparr>rq_method = POST, rq_url = p @ ''/'' @ r, rq_watch = False, rq_body = b\<rparr> s
      = Some (Done resp, s') \<and>
    (if obj_name ob = [] then rp_status resp = 400 \<and> objs (ms_view s') = objs (ms_view s)
     else if objs (ms_view s) r (obj_name ob) \<noteq> None
     then rp_status resp = 409 \<and> objs (ms_view s') = objs (ms_view s)
     else rp_status resp = 201 \<and>
       objs (ms_view s') = set_obj r (obj_name ob) (Some (obj_nrm ob)) (objs (ms_view s)))"
proof -
  have "keeps ms_inv ms_view s" using assms(2,3) by (simp add: keeps_def)
  from MemoryStore.ServeHTTP_post [OF assms(1) this assms(4-7), where w = False]
  obtain resp s' where "ServeHTTP srv \<lparr>rq_method = POST, rq_url = p @ ''/'' @ r, rq_watch = False, rq_body = b\<rparr> s
      = Some (Done resp, s')" "(rp_status resp, objs (ms_view s')) = post_effect r ob (objs (ms_view s))"
    by (elim exE conjE)
  then show ?thesis by (intro exI [of _ resp] exI [of _ s'] conjI)
      (auto simp: post_effect_def split: if_splits)
qed

text \<open>C22: A listing answers with every object of the resource exactly once, and with nothing else.\<close>

theorem list_is_complete:
  assumes "server_ok MemoryStore_ops srv" and "ms_inv s" and "typed (ms_view s)"
    and "(p, r) \<in> set resource_routes" and "newObj r = Some z"
  shows "\<exists>resp ns. ServeHTTP srv \<lparr>rq_method = GET, rq_url = p @ ''/'' @ r, rq_watch = False, rq_body = b\<rparr> s
      = Some (Done resp, s) \<and> distinct ns \<and> set ns = {n. objs (ms_view s) r n \<noteq> None} \<and>
    says 200 (fst (list_of_kind z (map (\<lambda>n. the (objs (ms_view s) r n)) ns))) resp"
proof -
  have "keeps ms_inv ms_view s" using assms(2,3) by (simp add: keeps_def)
  from MemoryStore.ServeHTTP_list [OF assms(1) this assms(4,5), of b]
  show ?thesis by (fastforce simp: list_answer_def enumerates_def dom_def)
qed

text \<open>An update is stored under the name in the URL whatever name the body carries: after it the
  table holds, under one name, an object of another name.\<close>

lemma put_ignores_body_name:
  assumes "server_ok MemoryStore_ops srv" and "ms_inv s" and "typed (ms_view s)" and "ms_quiet s"
    and "(p, r) \<in> set resource_routes" and "newObj r = Some (fresh ob)" and "marshal_obj ob = Some b"
    and "plain_name n" and "obj_name ob \<noteq> n" and "objs (ms_view s) r n \<noteq> None"
  shows "\<exists>resp s' x. ServeHTTP srv \<lparr>rq_method = PUT, rq_url = p @ ''/'' @ r @ ''/'' @ n, rq_watch = False, rq_body = b\<rparr> s
      = Some (Done resp, s') \<and> rp_status resp = 200 \<and> objs (ms_view s') r n = Some x \<and> obj_name x \<noteq> n"
  using MemoryStore.ServeHTTP_put [OF assms(1) _ assms(4,8,5-7), where w = False] assms(2,3,9,10)
  by (auto simp: keeps_def put_effect_def set_obj_def)

text \<open>What a client creates, a client finds: after \<open>CreatePod\<close> returned nil, \<open>ListPods\<close> gives a
  list that holds the pod, as JSON carries it, exactly once.\<close>

lemma created_pod_is_listed:
  assumes "cluster_good w" and "cok Pod_codec p" and "CreatePod (cluster_client base) p w = (Ret None, w')"
  shows "\<exists>ps w''. ListPods (cluster_client base) nodeName w' = (Ret (Inr (slice_of ps)), w'') \<and>
    cnrm Pod_codec p \<in> set ps \<and> cluster_good w'' \<and> cluster_table w'' = cluster_table w'"
proof -
  have m: "marshal_obj (OPod p) \<noteq> None" using assms(2) by (simp add: marshal_def)
  have "world_at cluster_good cluster_table w_env (cluster_table w) (w_env w) w"
    using assms(1) by (simp add: world_at_def)
  from tripleD [OF cluster.CreatePod_effect [OF m], OF this, of base] assms(3)
  have at: "world_at cluster_good cluster_table w_env (snd (post_effect ''pods'' (OPod p) (cluster_table w))) (w_env w) w'"
    and "None = send_result [201, 200] ''failed to create pod'' (fst (post_effect ''pods'' (OPod p) (cluster_table w)))"
    by auto
  then have row: "cluster_table w' ''pods'' (obj_name (OPod p)) = Some (OPod (cnrm Pod_codec p))"
    by (auto simp: send_result_def post_effect_def world_at_def set_obj_def simp del: nrm_simps split: if_splits)
  from tripleD [OF cluster.ListPods_effect, OF at, of base nodeName]
  obtain res w'' where list: "ListPods (cluster_client base) nodeName w' = (Ret res, w'')"
    and at': "world_at cluster_good cluster_table w_env (snd (post_effect ''pods'' (OPod p) (cluster_table w))) (w_env w) w''"
    and "lists OPod (snd (post_effect ''pods'' (OPod p) (cluster_table w)) ''pods'') res"
    by blast
  then obtain ps where res: "res = Inr (slice_of ps)" and enum: "enumerates (map OPod ps) (cluster_table w' ''pods'')"
    using at by (auto simp: lists_def world_at_def)
  obtain ns where "set ns = dom (cluster_table w' ''pods'')"
      "map OPod ps = map (\<lambda>n. the (cluster_table w' ''pods'' n)) ns"
    using enum unfolding enumerates_def by blast
  then have "OPod (cnrm Pod_codec p) \<in> set (map OPod ps)"
    using row by (auto intro!: rev_image_eqI [of "obj_name (OPod p)"] simp del: nrm_simps)
  then have "cnrm Pod_codec p \<in> set ps" by auto
  then show ?thesis using list res at at' by (auto simp: world_at_def)
qed

section \<open>The properties at work\<close>

definition demo_lease :: "string \<Rightarrow> Lease" where
  "demo_lease n = Lease_zero\<lparr>lease_ObjectMeta := ObjectMeta_zero\<lparr>om_Name := n\<rparr>\<rparr>"

lemma demo_lease_ok: "\<exists>b. marshal_obj (OLease (demo_lease n)) = Some b"
  using json_codec.ok_zero [OF LeaseSpec_law]
  by (simp add: marshal_def codec_oks demo_lease_def Lease_zero_def ObjectMeta_zero_def)

lemma demo_lease_simps [simp]: "obj_name (OLease (demo_lease n)) = n"
  by (simp add: obj_name_def demo_lease_def)

text \<open>A store that holds the lease \<open>a\<close>\<close>

definition lease_cluster :: "unit cluster" where
  "lease_cluster = cluster_with [OLease (demo_lease ''a'')] ()"

definition lease_store :: MemoryStore where
  "lease_store = w_store lease_cluster"

lemma lease_store_facts:
  "server_ok MemoryStore_ops plain_server" "ms_inv lease_store" "typed (ms_view lease_store)" "ms_quiet lease_store"
proof -
  have "storable [OLease (demo_lease ''a'')]" using demo_lease_ok [of "''a''"] by (auto simp: storable_def)
  then have "cluster_good lease_cluster" unfolding lease_cluster_def by (rule cluster_with_good)
  then show "server_ok MemoryStore_ops plain_server" "ms_inv lease_store" "typed (ms_view lease_store)" "ms_quiet lease_store"
    by (auto simp: cluster_good_def world_good_def lease_store_def keeps_def lease_cluster_def cluster_with_def
        cluster_of_def)
qed

lemma lease_store_table:
  "objs (ms_view lease_store) r n = (if r = ''leases'' \<and> n = ''a'' then Some (OLease (demo_lease ''a'')) else None)"
proof -
  have "storable [OLease (demo_lease ''a'')]" using demo_lease_ok [of "''a''"] by (auto simp: storable_def)
  from cluster_with_table [OF this, of "()"] show ?thesis
    by (simp add: fun_eq_iff cluster_table_def world_table_def lease_store_def lease_cluster_def table_of_def)
qed

theorem object_json_roundtrip_witness:
  "\<exists>tx. marshal_obj (OLease (demo_lease ''a'')) = Some tx \<and>
     unmarshal_obj tx (OLease Lease_zero) = Some (OLease (demo_lease ''a''))"
proof -
  obtain tx where t: "marshal_obj (OLease (demo_lease ''a'')) = Some tx" using demo_lease_ok by blast
  from object_json_roundtrip [OF t] t show ?thesis by simp
qed

lemma time_roundtrip_witness: "parse_time (format_time 0) = Some 0"
  by (rule time_roundtrip) simp

theorem requests_keep_types_witness:
  "\<exists>a s'. ServeHTTP plain_server \<lparr>rq_method = DELETE, rq_url = ''/api/v1/leases/a'', rq_watch = False, rq_body = []\<rparr>
      lease_store = Some (a, s') \<and> ms_inv s' \<and> typed (ms_view s')"
proof -
  have "keeps ms_inv ms_view lease_store" using lease_store_facts by (simp add: keeps_def)
  from MemoryStore.ServeHTTP_delete [OF lease_store_facts(1) this lease_store_facts(4) _ routes(7),
      of "''a''" "OLease Lease_zero" False "[]"]
  obtain a s' where run: "ServeHTTP plain_server
      \<lparr>rq_method = DELETE, rq_url = ''/api/v1/leases/a'', rq_watch = False, rq_body = []\<rparr> lease_store = Some (a, s')"
    by (auto simp: plain_name_def name_char_def)
  have "sv_Store plain_server = MemoryStore_ops" by (simp add: plain_server_def)
  from requests_keep_types [OF this lease_store_facts(2,3) run] run show ?thesis by blast
qed

theorem post_creates_witness:
  "\<exists>b resp s'. ServeHTTP plain_server \<lparr>rq_method = POST, rq_url = ''/api/v1/leases'', rq_watch = False, rq_body = b\<rparr>
      lease_store = Some (Done resp, s') \<and> rp_status resp = 201 \<and>
      objs (ms_view s') ''leases'' ''b'' = Some (OLease (demo_lease ''b''))"
proof -
  obtain b where b: "marshal_obj (OLease (demo_lease ''b'')) = Some b" using demo_lease_ok by blast
  have "newObj ''leases'' = Some (fresh (OLease (demo_lease ''b'')))" by simp
  from post_creates [OF lease_store_facts routes(7) this b]
  obtain resp s' where "ServeHTTP plain_server
      \<lparr>rq_method = POST, rq_url = ''/api/v1/leases'', rq_watch = False, rq_body = b\<rparr> lease_store = Some (Done resp, s')"
      "rp_status resp = 201" "objs (ms_view s') = set_obj ''leases'' ''b'' (Some (OLease (demo_lease ''b''))) (objs (ms_view lease_store))"
    by (auto simp: lease_store_table)
  then show ?thesis by (intro exI [of _ b] exI [of _ resp] exI [of _ s'] conjI) (simp_all add: set_obj_def)
qed

theorem list_is_complete_witness:
  "\<exists>resp. ServeHTTP plain_server \<lparr>rq_method = GET, rq_url = ''/api/v1/leases'', rq_watch = False, rq_body = []\<rparr>
      lease_store = Some (Done resp, lease_store) \<and>
      says 200 (fst (list_of_kind (OLease Lease_zero) [OLease (demo_lease ''a'')])) resp"
proof -
  have row: "{n. objs (ms_view lease_store) ''leases'' n \<noteq> None} = {''a''}" by (auto simp: lease_store_table)
  have one: "ns = [''a'']" if "distinct ns" "set ns = {''a''}" for ns :: "string list"
    using that by (cases ns; cases "tl ns") auto
  from list_is_complete [OF lease_store_facts(1-3) routes(7), of "OLease Lease_zero" "[]"]
  obtain resp ns where "ServeHTTP plain_server
      \<lparr>rq_method = GET, rq_url = ''/api/v1/leases'', rq_watch = False, rq_body = []\<rparr> lease_store = Some (Done resp, lease_store)"
      "distinct ns" "set ns = {''a''}"
      "says 200 (fst (list_of_kind (OLease Lease_zero) (map (\<lambda>n. the (objs (ms_view lease_store) ''leases'' n)) ns))) resp"
    unfolding row by auto
  with one [of ns] show ?thesis by (auto simp: lease_store_table)
qed

lemma put_ignores_body_name_witness:
  "\<exists>b resp s' x. ServeHTTP plain_server \<lparr>rq_method = PUT, rq_url = ''/api/v1/leases/a'', rq_watch = False, rq_body = b\<rparr>
      lease_store = Some (Done resp, s') \<and> objs (ms_view s') ''leases'' ''a'' = Some x \<and> obj_name x \<noteq> ''a''"
proof -
  obtain b where b: "marshal_obj (OLease (demo_lease ''b'')) = Some b" using demo_lease_ok by blast
  have "newObj ''leases'' = Some (fresh (OLease (demo_lease ''b'')))" by simp
  from put_ignores_body_name [OF lease_store_facts routes(7) this b, of "''a''"]
  show ?thesis by (auto simp: lease_store_table plain_name_def name_char_def)
qed

lemma created_pod_is_listed_witness:
  "\<exists>w' ps w''. CreatePod (cluster_client ''http://api'') (Pod_zero\<lparr>pod_ObjectMeta := ObjectMeta_zero\<lparr>om_Name := ''p''\<rparr>\<rparr>)
       lease_cluster = (Ret None, w') \<and>
     ListPods (cluster_client ''http://api'') [] w' = (Ret (Inr (slice_of ps)), w'') \<and>
     Pod_zero\<lparr>pod_ObjectMeta := ObjectMeta_zero\<lparr>om_Name := ''p''\<rparr>\<rparr> \<in> set ps"
proof -
  let ?p = "Pod_zero\<lparr>pod_ObjectMeta := ObjectMeta_zero\<lparr>om_Name := ''p''\<rparr>\<rparr>"
  have st: "storable [OLease (demo_lease ''a'')]" using demo_lease_ok [of "''a''"] by (auto simp: storable_def)
  have good: "cluster_good lease_cluster" unfolding lease_cluster_def using st by (rule cluster_with_good)
  have ok: "cok Pod_codec ?p"
    using json_codec.ok_zero [OF PodStatus_law] json_codec.ok_zero [OF PodSpec_law]
    by (simp add: codec_oks Pod_zero_def ObjectMeta_zero_def)
  then have m: "marshal_obj (OPod ?p) \<noteq> None" by (simp add: marshal_def)
  have at: "world_at cluster_good cluster_table w_env (cluster_table lease_cluster) () lease_cluster"
    using good by (simp add: world_at_def)
  have "cluster_table lease_cluster ''pods'' ''p'' = None"
    by (simp add: lease_cluster_def cluster_with_table [OF st] table_of_def)
  then obtain w' where run: "CreatePod (cluster_client ''http://api'') ?p lease_cluster = (Ret None, w')"
    using tripleD [OF cluster.CreatePod_effect [OF m], OF at, of "''http://api''"]
    by (auto simp: post_effect_def send_result_def obj_name_def)
  have "cnrm Pod_codec ?p = ?p" by (simp add: Pod_zero_def PodSpec_zero_def)
  with created_pod_is_listed [OF good ok run, of "[]"] run show ?thesis by auto
qed

end
