(* ===== verification/Tables.thy ===== *)
theory Tables
  imports Cluster
begin

text \<open>What the controllers share about rows of the object table and listings of them.\<close>

text \<open>Every object sits under its own name.\<close>

definition named :: "(string \<Rightarrow> obj option) \<Rightarrow> bool" where
  "named row \<longleftrightarrow> (\<forall>n x. row n = Some x \<longrightarrow> obj_name x = n)"

lemma enumerates_mem:
  assumes "enumerates xs row" and "row n = Some x"
  shows "x \<in> set xs"
proof -
  obtain ns where "set ns = dom row" "xs = map (\<lambda>n. the (row n)) ns"
    using assms(1) unfolding enumerates_def by blast
  with assms(2) show ?thesis by (auto intro: rev_image_eqI [of n])
qed

lemma enumerates_finite: "enumerates xs row \<Longrightarrow> finite (dom row)"
  by (auto simp: enumerates_def) (metis List.finite_set)

lemma enumerates_named:
  assumes "enumerates xs row" and "named row"
  shows "distinct (map obj_name xs)" and "\<And>x. x \<in> set xs \<Longrightarrow> row (obj_name x) = Some x"
proof -
  obtain ns where ns: "distinct ns" "set ns = dom row" "xs = map (\<lambda>n. the (row n)) ns"
    using assms(1) unfolding enumerates_def by blast
  have name: "obj_name (the (row n)) = n" if "n \<in> set ns" for n
    using that ns(2) assms(2) by (auto simp: named_def)
  have "map obj_name xs = ns" using name by (simp add: ns(3) map_idI)
  then show "distinct (map obj_name xs)" using ns(1) by simp
  show "row (obj_name x) = Some x" if "x \<in> set xs" for x
  proof -
    have "x \<in> set (map (\<lambda>n. the (row n)) ns)" using that ns(3) by simp
    then obtain n where n: "n \<in> set ns" "x = the (row n)" by auto
    have "row n \<noteq> None" using n(1) ns(2) by blast
    then have "row n = Some x" unfolding n(2) by simp
    moreover have "obj_name x = n" unfolding n(2) using name [OF n(1)] .
    ultimately show ?thesis by simp
  qed
qed

lemma set_obj_row [simp]: "set_obj r n x t r' = (if r' = r then (t r)(n := x) else t r')"
  by (simp add: set_obj_def)

text \<open>Continuing from a listing that is known to hold the row\<close>

lemma triple_listed:
  assumes "\<And>xs. r = Inr (slice_of xs) \<Longrightarrow> enumerates (map mk xs) row \<Longrightarrow> triple P m Q"
  shows "triple (\<lambda>w. P w \<and> lists mk row r) m Q"
  using assms by (auto simp: triple_def lists_def)

text \<open>\<open>labels[k]\<close>: a missing label reads as the empty string.\<close>

definition label :: "strmap \<Rightarrow> string \<Rightarrow> string" where
  "label m k = (case fmlookup m k of None \<Rightarrow> [] | Some v \<Rightarrow> v)"

text \<open>Rows of a cluster the controllers work on: objects sit under their own, plain names.\<close>

definition tidy :: "(string \<Rightarrow> obj option) \<Rightarrow> bool" where
  "tidy row \<longleftrightarrow> named row \<and> (\<forall>n. row n \<noteq> None \<longrightarrow> plain_name n)"

lemma settled_iff: "settled_obj ob \<longleftrightarrow> marshal_obj ob \<noteq> None \<and> obj_nrm ob = ob"
  by (auto simp: settled_obj_def)

lemma find_mem: "find P xs = Some x \<Longrightarrow> x \<in> set xs \<and> P x"
  by (induction xs) (auto split: if_splits)

text \<open>The table of a small cluster of settled objects\<close>

definition demo_objects :: "obj list \<Rightarrow> bool" where
  "demo_objects obs \<longleftrightarrow> distinct (map (\<lambda>ob. (resource_of ob, obj_name ob)) obs) \<and> list_all settled_obj obs"

lemma demo_storable_objs: "demo_objects obs \<Longrightarrow> storable obs"
  by (auto simp: demo_objects_def storable_def list_all_iff settled_iff)

lemma demo_good: "demo_objects obs \<Longrightarrow> cluster_good (cluster_with obs e)"
  by (intro cluster_with_good demo_storable_objs)

lemma demo_table_objs:
  assumes "demo_objects obs"
  shows "cluster_table (cluster_with obs e) r n = map_of (map (\<lambda>ob. ((resource_of ob, obj_name ob), ob)) obs) (r, n)"
proof -
  have "map (\<lambda>ob. ((resource_of ob, obj_name ob), obj_nrm ob)) obs = map (\<lambda>ob. ((resource_of ob, obj_name ob), ob)) obs"
    using assms by (intro map_cong) (simp_all add: demo_objects_def list_all_iff settled_iff)
  then show ?thesis unfolding cluster_with_table [OF demo_storable_objs [OF assms]] table_of_def by (simp only:)
qed

lemma demo_objects_single [simp]: "demo_objects [ob] \<longleftrightarrow> settled_obj ob"
  by (simp add: demo_objects_def)

lemma demo_single:
  "settled_obj ob \<Longrightarrow>
     cluster_table (cluster_with [ob] e) r = (if r = resource_of ob then [obj_name ob \<mapsto> ob] else Map.empty)"
  by (rule ext) (simp add: demo_table_objs)

end
