(* ===== verification/ReplicaSetController.thy ===== *)
theory ReplicaSetController
  imports Tables
begin

text \<open>
  internal/controller/replicaset/controller.go: the loop that keeps the number of pods matching a
  replica set's selector at its replica count. UUIDs come from a third-party package: a parameter
  of the controller, with the locale \<open>uuids\<close> as what a supply of them provides.
\<close>

section \<open>The controller\<close>

text \<open>A Go range over a map visits the keys in an arbitrary order; the result does not depend on it.\<close>

definition rs_labelsMatch :: "strmap \<Rightarrow> strmap \<Rightarrow> bool" where
  "rs_labelsMatch selector labels =
     (if map_keys selector = [] then False
      else list_all (\<lambda>k. fmlookup labels k = fmlookup selector k) (map_keys selector))"

definition pod_from_template :: "ReplicaSet \<Rightarrow> string \<Rightarrow> Pod" where
  "pod_from_template rs uid =
     Pod_zero\<lparr>
       pod_TypeMeta := \<lparr>tm_Kind = ''Pod'', tm_APIVersion = ''v1''\<rparr>,
       pod_ObjectMeta := (pts_ObjectMeta (rssp_Template (rs_Spec rs)))
         \<lparr>om_Name := om_Name (rs_ObjectMeta rs) @ ''-'' @ take 5 uid\<rparr>,
       pod_Spec := pts_Spec (rssp_Template (rs_Spec rs))\<rparr>"

text \<open>\<open>uid[:5]\<close> panics on a shorter string.\<close>

definition createPod :: "'w Client \<Rightarrow> ('w, string) go \<Rightarrow> ReplicaSet \<Rightarrow> ('w, gerror option) go" where
  "createPod c newUUID rs =
     gbind newUUID (\<lambda>uid.
       if length uid < 5 then gpanic Index_out_of_range else CreatePod c (pod_from_template rs uid))"

definition reconcileRS :: "'w Client \<Rightarrow> ('w, string) go \<Rightarrow> ReplicaSet \<Rightarrow> Pod list \<Rightarrow> ('w, unit) go" where
  "reconcileRS c newUUID rs allPods =
     (case rssp_Replicas (rs_Spec rs) of
        None \<Rightarrow> gret ()
      | Some desired \<Rightarrow>
          (let ownedPods = filter (\<lambda>pod. rs_labelsMatch (ls_MatchLabels (rssp_Selector (rs_Spec rs)))
                                          (om_Labels (pod_ObjectMeta pod))) allPods;
               current = (word_of_nat (length ownedPods) :: int32) in
           if sint current < sint desired then
             for_upto (nat (sint (desired - current))) 0
               (\<lambda>i. gbind (createPod c newUUID rs) (\<lambda>err. gret ()))
           else if sint desired < sint current then
             for_upto (nat (sint (current - desired))) 0
               (\<lambda>i. if i < length ownedPods
                    then gbind (DeletePod c (om_Name (pod_ObjectMeta (ownedPods ! i)))) (\<lambda>err. gret ())
                    else gpanic Index_out_of_range)
           else gret ()))"

definition rs_reconcile :: "'w Client \<Rightarrow> ('w, string) go \<Rightarrow> ('w, unit) go" where
  "rs_reconcile c newUUID =
     gbind (ListReplicaSets c) (\<lambda>r. case r of
       Inl err \<Rightarrow> gret ()
     | Inr rss \<Rightarrow>
         gbind (ListPods c []) (\<lambda>r. case r of
           Inl err \<Rightarrow> gret ()
         | Inr pods \<Rightarrow> for_each (elems rss) (\<lambda>rs. reconcileRS c newUUID rs (elems pods))))"

definition rs_Start :: "'w Client \<Rightarrow> ('w, string) go \<Rightarrow> wake list \<Rightarrow> ('w, unit) go" where
  "rs_Start c newUUID = run_loop (rs_reconcile c newUUID)"

section \<open>Selectors\<close>

lemma rs_labelsMatch_iff:
  "rs_labelsMatch sel labels \<longleftrightarrow> sel \<noteq> fmempty \<and> (\<forall>k v. fmlookup sel k = Some v \<longrightarrow> fmlookup labels k = Some v)"
proof -
  have "map_keys sel = [] \<longleftrightarrow> sel = fmempty"
    using set_map_keys [of sel] by (metis fmdom'_empty fmrestrict_set_dom fmrestrict_set_null set_empty)
  then show ?thesis
    unfolding rs_labelsMatch_def list_all_iff set_map_keys fmdom'_alt_def
    by (auto simp: fmlookup_dom_iff)
qed

text \<open>The pods of a table a selector matches\<close>

definition owned :: "strmap \<Rightarrow> (string \<Rightarrow> obj option) \<Rightarrow> string set" where
  "owned sel row = {n. \<exists>p. row n = Some (OPod p) \<and> rs_labelsMatch sel (om_Labels (pod_ObjectMeta p))}"

lemma enumerates_owned:
  assumes "enumerates (map OPod ps) row"
  shows "length (filter (\<lambda>p. rs_labelsMatch sel (om_Labels (pod_ObjectMeta p))) ps) = card (owned sel row)"
proof -
  let ?m = "\<lambda>x. \<exists>p. x = OPod p \<and> rs_labelsMatch sel (om_Labels (pod_ObjectMeta p))"
  obtain ns where ns: "distinct ns" "set ns = dom row" "map OPod ps = map (\<lambda>n. the (row n)) ns"
    using assms unfolding enumerates_def by blast
  have "length (filter (\<lambda>p. rs_labelsMatch sel (om_Labels (pod_ObjectMeta p))) ps) = length (filter ?m (map OPod ps))"
    by (simp add: filter_map comp_def)
  also have "\<dots> = length (filter (\<lambda>n. ?m (the (row n))) ns)"
    unfolding ns(3) by (simp add: filter_map comp_def)
  also have "\<dots> = card (set (filter (\<lambda>n. ?m (the (row n))) ns))"
    using ns(1) by (simp add: distinct_card del: set_filter)
  also have "set (filter (\<lambda>n. ?m (the (row n))) ns) = owned sel row"
    using ns(2) by (force simp: owned_def)
  finally show ?thesis .
qed

lemma enumerates_names:
  assumes "enumerates (map OPod ps) row" and "named row"
  shows "distinct (map (\<lambda>p. om_Name (pod_ObjectMeta p)) ps)"
    and "\<And>p. p \<in> set ps \<Longrightarrow> row (om_Name (pod_ObjectMeta p)) = Some (OPod p)"
proof -
  obtain ns where ns: "distinct ns" "set ns = dom row" "map OPod ps = map (\<lambda>n. the (row n)) ns"
    using assms(1) unfolding enumerates_def by blast
  have "map (\<lambda>p. om_Name (pod_ObjectMeta p)) ps = map obj_name (map OPod ps)"
    by (simp add: obj_name_def)
  also have "\<dots> = ns"
    unfolding ns(3) using assms(2) ns(2) by (auto simp: named_def dom_def intro!: map_idI)
  finally have eq: "map (\<lambda>p. om_Name (pod_ObjectMeta p)) ps = ns" .
  then show "distinct (map (\<lambda>p. om_Name (pod_ObjectMeta p)) ps)" using ns(1) by simp
  fix p assume p: "p \<in> set ps"
  then have "OPod p \<in> set (map (\<lambda>n. the (row n)) ns)" using ns(3) by (metis image_eqI list.set_map)
  then obtain n where "n \<in> set ns" "OPod p = the (row n)" by auto
  then have "row n = Some (OPod p)" using ns(2) by auto
  moreover from this have "om_Name (pod_ObjectMeta p) = n" using assms(2) by (fastforce simp: named_def obj_name_def)
  ultimately show "row (om_Name (pod_ObjectMeta p)) = Some (OPod p)" by simp
qed

section \<open>What creating and deleting pods does to the table\<close>

definition add_pod :: "ReplicaSet \<Rightarrow> string \<Rightarrow> table \<Rightarrow> table" where
  "add_pod rs uid t = snd (post_effect ''pods'' (OPod (pod_from_template rs uid)) t)"

definition drop_pod :: "string \<Rightarrow> table \<Rightarrow> table" where
  "drop_pod n t = set_obj ''pods'' n None t"

definition rs_selector :: "ReplicaSet \<Rightarrow> strmap" where
  "rs_selector rs = ls_MatchLabels (rssp_Selector (rs_Spec rs))"

definition template_labels :: "ReplicaSet \<Rightarrow> strmap" where
  "template_labels rs = om_Labels (pts_ObjectMeta (rssp_Template (rs_Spec rs)))"

definition pod_name :: "ReplicaSet \<Rightarrow> string \<Rightarrow> string" where
  "pod_name rs uid = om_Name (rs_ObjectMeta rs) @ ''-'' @ take 5 uid"

lemma new_pod_simps [simp]:
  "obj_name (OPod (pod_from_template rs uid)) = pod_name rs uid"
  "om_Labels (pod_ObjectMeta (cnrm Pod_codec (pod_from_template rs uid))) = template_labels rs"
  by (simp_all add: pod_from_template_def obj_name_def pod_name_def template_labels_def)

lemma pod_name_not_Nil [simp]: "pod_name rs uid \<noteq> []"
  by (simp add: pod_name_def)

lemma add_pod_row:
  "add_pod rs uid t r = (if r = ''pods'' \<and> t ''pods'' (pod_name rs uid) = None
     then (t r)(pod_name rs uid \<mapsto> OPod (cnrm Pod_codec (pod_from_template rs uid))) else t r)"
  by (simp add: add_pod_def post_effect_def del: nrm_simps)

lemma owned_upd:
  "owned sel (row(n := x)) =
     (if \<exists>p. x = Some (OPod p) \<and> rs_labelsMatch sel (om_Labels (pod_ObjectMeta p))
      then insert n (owned sel row) else owned sel row - {n})"
  by (auto simp: owned_def split: if_splits)

lemma owned_add:
  assumes "rs_labelsMatch sel (template_labels rs)"
  shows "owned sel (add_pod rs uid t ''pods'') =
    (if t ''pods'' (pod_name rs uid) = None then insert (pod_name rs uid) (owned sel (t ''pods''))
     else owned sel (t ''pods''))"
  using assms by (simp add: add_pod_row owned_upd del: nrm_simps)

lemma owned_dom: "owned sel row \<subseteq> dom row"
  by (auto simp: owned_def)

lemma dom_add: "dom (add_pod rs uid t ''pods'') = insert (pod_name rs uid) (dom (t ''pods''))"
  by (auto simp: add_pod_row del: nrm_simps)

lemma card_owned_add:
  assumes "rs_labelsMatch sel (template_labels rs)" and "finite (dom (t ''pods''))"
  shows "card (owned sel (add_pod rs u t ''pods'')) =
    card (owned sel (t ''pods'')) + (if t ''pods'' (pod_name rs u) = None then 1 else 0)"
  using finite_subset [OF owned_dom assms(2), of sel] owned_dom [of sel "t ''pods''"]
  by (subst owned_add [OF assms(1)]) (auto simp: card_insert_if)

lemma card_owned_adds_le:
  assumes "rs_labelsMatch sel (template_labels rs)" and "finite (dom (t ''pods''))"
  shows "card (owned sel (fold (add_pod rs) uids t ''pods'')) \<le> card (owned sel (t ''pods'')) + length uids"
  using assms(2)
proof (induction uids arbitrary: t)
  case (Cons u uids)
  have "finite (dom (add_pod rs u t ''pods''))" using Cons.prems by (simp add: dom_add)
  from Cons.IH [of "add_pod rs u t", OF this] card_owned_add [of sel rs t u, OF assms(1) Cons.prems] show ?case
    by (simp split: if_splits)
qed simp

lemma card_owned_adds:
  assumes "rs_labelsMatch sel (template_labels rs)" and "finite (dom (t ''pods''))"
    and "distinct (map (pod_name rs) uids)" and "\<forall>u \<in> set uids. t ''pods'' (pod_name rs u) = None"
  shows "card (owned sel (fold (add_pod rs) uids t ''pods'')) = card (owned sel (t ''pods'')) + length uids"
  using assms(2-4)
proof (induction uids arbitrary: t)
  case (Cons u uids)
  have "card (owned sel (fold (add_pod rs) uids (add_pod rs u t) ''pods'')) =
      card (owned sel (add_pod rs u t ''pods'')) + length uids"
  proof (rule Cons.IH)
    show "finite (dom (add_pod rs u t ''pods''))" using Cons.prems(1) by (simp add: dom_add)
    show "\<forall>v \<in> set uids. add_pod rs u t ''pods'' (pod_name rs v) = None"
    proof
      fix v assume v: "v \<in> set uids"
      then have "pod_name rs v \<in> set (map (pod_name rs) uids)" by simp
      then have "pod_name rs v \<noteq> pod_name rs u" using Cons.prems(2) by (auto simp del: set_map)
      then show "add_pod rs u t ''pods'' (pod_name rs v) = None"
        using Cons.prems(3) v by (simp add: add_pod_row)
    qed
  qed (use Cons.prems(2) in simp)
  then show ?case using card_owned_add [of sel rs t u, OF assms(1) Cons.prems(1)] Cons.prems(3) by simp
qed simp

lemma owned_drops: "owned sel (fold drop_pod ns t ''pods'') = owned sel (t ''pods'') - set ns"
  by (induction ns arbitrary: t) (auto simp: drop_pod_def owned_upd)

lemma card_owned_drops:
  assumes "distinct ns" and "set ns \<subseteq> owned sel (t ''pods'')"
  shows "card (owned sel (fold drop_pod ns t ''pods'')) = card (owned sel (t ''pods'')) - length ns"
  using assms by (simp add: owned_drops card_Diff_subset distinct_card)

text \<open>Neither touches another resource, nor a pod outside the selector.\<close>

definition only_owned :: "strmap \<Rightarrow> table \<Rightarrow> table \<Rightarrow> bool" where
  "only_owned sel t t' \<longleftrightarrow> (\<forall>r. r \<noteq> ''pods'' \<longrightarrow> t' r = t r) \<and>
     (\<forall>n. t' ''pods'' n = t ''pods'' n \<or> n \<in> owned sel (t ''pods'') \<union> owned sel (t' ''pods''))"

lemma only_owned_adds:
  assumes "rs_labelsMatch sel (template_labels rs)"
  shows "only_owned sel t (fold (add_pod rs) uids t)"
proof (induction uids rule: rev_induct)
  case (snoc u uids)
  then show ?case
    using assms by (auto simp: only_owned_def add_pod_row owned_upd simp del: nrm_simps)
qed (simp add: only_owned_def)

lemma drops_row:
  "fold drop_pod ns t r = (if r = ''pods'' then (\<lambda>n. if n \<in> set ns then None else t r n) else t r)"
  by (induction ns arbitrary: t) (auto simp: drop_pod_def)

lemma only_owned_drops: "set ns \<subseteq> owned sel (t ''pods'') \<Longrightarrow> only_owned sel t (fold drop_pod ns t)"
  by (auto simp: only_owned_def drops_row)

section \<open>One replica set\<close>

lemma sint_of_nat32: "n < 2 ^ 31 \<Longrightarrow> sint (word_of_nat n :: int32) = int n"
  by (simp add: signed_of_nat signed_take_bit_int_eq_self)

lemma sint_diff32:
  "- (2 ^ 31) \<le> sint a - sint b \<Longrightarrow> sint a - sint b < 2 ^ 31 \<Longrightarrow> sint (a - b :: int32) = sint a - sint b"
  by (simp add: sint_word_ariths signed_take_bit_int_eq_self)

lemma sint_range32: "- (2 ^ 31) \<le> sint (a :: int32)" "sint (a :: int32) < 2 ^ 31"
  using sint_greater_eq [of a] sint_less [of a] by simp_all

text \<open>How many pods are missing, and the step one reconciliation takes on the table\<close>

definition rs_need :: "ReplicaSet \<Rightarrow> table \<Rightarrow> nat" where
  "rs_need rs t =
     (case rssp_Replicas (rs_Spec rs) of
        None \<Rightarrow> 0 | Some d \<Rightarrow> nat (sint d) - card (owned (rs_selector rs) (t ''pods'')))"

definition rs_step :: "ReplicaSet \<Rightarrow> (nat \<Rightarrow> string) \<Rightarrow> table \<Rightarrow> table \<Rightarrow> bool" where
  "rs_step rs u t t' \<longleftrightarrow>
     (case rssp_Replicas (rs_Spec rs) of
        None \<Rightarrow> t' = t
      | Some d \<Rightarrow>
          (let mine = owned (rs_selector rs) (t ''pods'') in
           if card mine \<le> nat (sint d) then t' = fold (add_pod rs) (map u [0..<rs_need rs t]) t
           else \<exists>ns. distinct ns \<and> set ns \<subseteq> mine \<and> length ns = card mine - nat (sint d) \<and> t' = fold drop_pod ns t))"

text \<open>The pods handed to the controller are those the table holds for the selector.\<close>

definition my_pods :: "strmap \<Rightarrow> Pod list \<Rightarrow> Pod list" where
  "my_pods sel ps = filter (\<lambda>p. rs_labelsMatch sel (om_Labels (pod_ObjectMeta p))) ps"

definition pod_names :: "Pod list \<Rightarrow> string list" where
  "pod_names ps = map (\<lambda>p. om_Name (pod_ObjectMeta p)) ps"

definition census :: "strmap \<Rightarrow> Pod list \<Rightarrow> (string \<Rightarrow> obj option) \<Rightarrow> bool" where
  "census sel ps row \<longleftrightarrow> distinct (pod_names (my_pods sel ps)) \<and> set (pod_names (my_pods sel ps)) = owned sel row"

lemma census_listing:
  assumes "enumerates (map OPod ps) row" and "named row"
  shows "census sel ps row"
proof -
  have row: "row (om_Name (pod_ObjectMeta p)) = Some (OPod p)" if "p \<in> set ps" for p
    using enumerates_names(2) [OF assms that] .
  have dist: "distinct (pod_names ps)" using enumerates_names(1) [OF assms] by (simp add: pod_names_def)
  have all: "\<exists>p \<in> set ps. om_Name (pod_ObjectMeta p) = n \<and> q = p" if "row n = Some (OPod q)" for n q
  proof -
    obtain ns where ns: "set ns = dom row" "map OPod ps = map (\<lambda>n. the (row n)) ns"
      using assms(1) unfolding enumerates_def by blast
    have "n \<in> set ns" using that ns(1) by auto
    then have "the (row n) \<in> set (map (\<lambda>n. the (row n)) ns)" by simp
    then have "OPod q \<in> set (map OPod ps)" using that ns(2) by simp
    then have "q \<in> set ps" by auto
    moreover have "obj_name (OPod q) = n" using assms(2) that unfolding named_def by blast
    ultimately show ?thesis by (auto simp: obj_name_def)
  qed
  have "distinct (pod_names (my_pods sel ps))"
    using dist unfolding pod_names_def my_pods_def by (rule distinct_map_filter)
  moreover have "set (pod_names (my_pods sel ps)) = owned sel row"
    using row all by (force simp: pod_names_def my_pods_def owned_def)
  ultimately show ?thesis by (simp add: census_def)
qed

lemma census_card: "census sel ps row \<Longrightarrow> length (my_pods sel ps) = card (owned sel row)"
  by (metis census_def distinct_card length_map pod_names_def)

text \<open>The two loops, once the 32-bit differences are known not to wrap\<close>

definition delete_first :: "'w Client \<Rightarrow> Pod list \<Rightarrow> nat \<Rightarrow> ('w, unit) go" where
  "delete_first c ps i =
     (if i < length ps then gbind (DeletePod c (om_Name (pod_ObjectMeta (ps ! i)))) (\<lambda>err. gret ())
      else gpanic Index_out_of_range)"

lemma my_pods_short: "length ps < k \<Longrightarrow> length (my_pods sel ps) < k"
  unfolding my_pods_def by (rule le_less_trans [OF length_filter_le])

lemma reconcileRS_body:
  assumes "rssp_Replicas (rs_Spec rs) = Some d" and "length ps < 2 ^ 31"
    and "int (length (my_pods (rs_selector rs) ps)) - sint d < 2 ^ 31"
  shows "reconcileRS c u rs ps =
    (let mine = my_pods (rs_selector rs) ps in
     if int (length mine) < sint d
     then for_upto (nat (sint d - int (length mine))) 0 (\<lambda>i. gbind (createPod c u rs) (\<lambda>err. gret ()))
     else for_upto (nat (int (length mine) - sint d)) 0 (delete_first c mine))"
proof -
  let ?m = "my_pods (rs_selector rs) ps"
  have short: "length ?m < 2 ^ 31" using assms(2) by (rule my_pods_short)
  have cur: "sint (word_of_nat (length ?m) :: int32) = int (length ?m)" using short by (rule sint_of_nat32)
  have up: "sint (d - word_of_nat (length ?m) :: int32) = sint d - int (length ?m)" if "int (length ?m) < sint d"
    using that short sint_range32 [of d] by (subst sint_diff32) (simp_all add: cur)
  have down: "sint (word_of_nat (length ?m) - d :: int32) = int (length ?m) - sint d" if "sint d < int (length ?m)"
    using that assms(3) by (subst sint_diff32) (simp_all add: cur)
  show ?thesis
    using up down
    by (auto simp: reconcileRS_def assms(1) Let_def cur delete_first_def [abs_def] simp flip: rs_selector_def my_pods_def)
qed

locale uuids = rest C good tab env
  for C :: "'w Client" and good tab and env :: "'w \<Rightarrow> 'e" +
  fixes newUUID :: "('w, string) go" and peek :: "'e \<Rightarrow> string" and advance :: "'e \<Rightarrow> 'e"
  assumes uuid: "triple (world_at good tab env t e) newUUID
    (\<lambda>u w. u = peek e \<and> world_at good tab env t (advance e) w)"

text \<open>The \<open>i\<close>-th UUID from now\<close>

definition draw :: "('e \<Rightarrow> string) \<Rightarrow> ('e \<Rightarrow> 'e) \<Rightarrow> 'e \<Rightarrow> nat \<Rightarrow> string" where
  "draw peek advance e i = peek ((advance ^^ i) e)"

context uuids
begin

lemma createPod_effect:
  assumes "5 \<le> length (peek e)" and "marshal_obj (OPod (pod_from_template rs (peek e))) \<noteq> None"
  shows "triple (world_at good tab env t e) (createPod C newUUID rs)
    (\<lambda>err. world_at good tab env (add_pod rs (peek e) t) (advance e))"
  unfolding createPod_def add_pod_def
proof (rule triple_gbind [OF uuid])
  fix u
  show "triple (\<lambda>w. u = peek e \<and> world_at good tab env t (advance e) w)
      (if length u < 5 then gpanic Index_out_of_range else CreatePod C (pod_from_template rs u))
      (\<lambda>err. world_at good tab env (snd (post_effect ''pods'' (OPod (pod_from_template rs (peek e))) t)) (advance e))"
  proof (cases "u = peek e")
    case True
    then show ?thesis
      using assms(1) by (auto intro: triple_weaken [OF CreatePod_effect [OF assms(2)]])
  qed (simp add: triple_def)
qed

lemma scale_up:
  assumes "\<And>i. i < n \<Longrightarrow> 5 \<le> length (draw peek advance e i)"
    and "\<And>u. marshal_obj (OPod (pod_from_template rs u)) \<noteq> None"
  shows "triple (world_at good tab env t e) (for_upto n 0 (\<lambda>i. gbind (createPod C newUUID rs) (\<lambda>err. gret ())))
    (\<lambda>_. world_at good tab env (fold (add_pod rs) (map (draw peek advance e) [0..<n]) t) ((advance ^^ n) e))"
proof -
  let ?I = "\<lambda>k. world_at good tab env (fold (add_pod rs) (map (draw peek advance e) [0..<k]) t) ((advance ^^ k) e)"
  have "triple (?I 0) (for_upto n 0 (\<lambda>i. gbind (createPod C newUUID rs) (\<lambda>err. gret ()))) (\<lambda>_. ?I (0 + n))"
  proof (rule triple_for_upto, rule triple_gbind)
    fix k :: nat assume "0 \<le> k" "k < 0 + n"
    with assms show "triple (?I k) (createPod C newUUID rs) (\<lambda>_. ?I (Suc k))"
      using createPod_effect [of "(advance ^^ k) e" rs] by (simp add: draw_def)
  qed (auto intro: triple_gret)
  then show ?thesis by simp
qed

lemma scale_down:
  assumes "k \<le> length ps" and "\<And>p. p \<in> set ps \<Longrightarrow> plain_name (om_Name (pod_ObjectMeta p))"
  shows "triple (world_at good tab env t e) (for_upto k 0 (delete_first C ps))
    (\<lambda>_. world_at good tab env (fold drop_pod (pod_names (take k ps)) t) e)"
proof -
  let ?I = "\<lambda>k. world_at good tab env (fold drop_pod (pod_names (take k ps)) t) e"
  have "triple (?I 0) (for_upto k 0 (delete_first C ps)) (\<lambda>_. ?I (0 + k))"
  proof (rule triple_for_upto)
    fix i :: nat assume "0 \<le> i" "i < 0 + k"
    then have i: "i < length ps" using assms(1) by simp
    have "triple (?I i) (DeletePod C (om_Name (pod_ObjectMeta (ps ! i)))) (\<lambda>err w. ?I (Suc i) w \<and> err = None)"
      using DeletePod_effect [OF assms(2) [OF nth_mem [OF i]]] i
      by (simp add: pod_names_def take_Suc_conv_app_nth drop_pod_def)
    then show "triple (?I i) (delete_first C ps i) (\<lambda>_. ?I (Suc i))"
      using i by (auto simp: delete_first_def intro!: triple_gbind triple_gret)
  qed
  then show ?thesis by (simp add: pod_names_def)
qed

lemma reconcileRS_effect:
  assumes "census (rs_selector rs) ps (t ''pods'')" and "length ps < 2 ^ 31"
    and "\<And>d. rssp_Replicas (rs_Spec rs) = Some d \<Longrightarrow> 0 \<le> sint d"
    and "\<And>p. p \<in> set (my_pods (rs_selector rs) ps) \<Longrightarrow> plain_name (om_Name (pod_ObjectMeta p))"
    and "\<And>u. marshal_obj (OPod (pod_from_template rs u)) \<noteq> None"
    and "\<And>i. i < rs_need rs t \<Longrightarrow> 5 \<le> length (draw peek advance e i)"
  shows "triple (world_at good tab env t e) (reconcileRS C newUUID rs ps)
    (\<lambda>_ w. \<exists>t'. rs_step rs (draw peek advance e) t t' \<and>
       world_at good tab env t' ((advance ^^ rs_need rs t) e) w)"
proof (cases "rssp_Replicas (rs_Spec rs)")
  case None
  then show ?thesis by (simp add: reconcileRS_def rs_step_def rs_need_def triple_gret)
next
  case (Some d)
  let ?m = "my_pods (rs_selector rs) ps" and ?own = "owned (rs_selector rs) (t ''pods'')"
  have d: "0 \<le> sint d" using assms(3) [OF Some] .
  have len: "length ?m = card ?own" using census_card [OF assms(1)] .
  have short: "length ?m < 2 ^ 31" using assms(2) by (rule my_pods_short)
  have need: "nat (sint d - int (length ?m)) = rs_need rs t"
    by (simp add: rs_need_def Some len nat_diff_distrib')
  have over: "nat (int (length ?m) - sint d) = length ?m - nat (sint d)" using d by linarith
  have body: "reconcileRS C newUUID rs ps =
     (if int (length ?m) < sint d
      then for_upto (rs_need rs t) 0 (\<lambda>i. gbind (createPod C newUUID rs) (\<lambda>err. gret ()))
      else for_upto (length ?m - nat (sint d)) 0 (delete_first C ?m))"
    using reconcileRS_body [OF Some assms(2), of C newUUID] short d by (simp add: Let_def need over)
  consider "int (length ?m) < sint d" | "sint d < int (length ?m)" | "sint d = int (length ?m)" by linarith
  then show ?thesis
  proof cases
    case 1
    then have "card ?own \<le> nat (sint d)" using len by simp
    then have "rs_step rs (draw peek advance e) t
        (fold (add_pod rs) (map (draw peek advance e) [0..<rs_need rs t]) t)"
      by (simp add: rs_step_def Some)
    with 1 show ?thesis
      unfolding body by (auto intro: triple_post [OF scale_up [OF assms(6,5)]])
  next
    case 2
    let ?k = "length ?m - nat (sint d)"
    have "distinct (pod_names (take ?k ?m))" "set (pod_names (take ?k ?m)) \<subseteq> ?own"
      using assms(1) by (auto simp: census_def pod_names_def simp flip: take_map dest: in_set_takeD)
    moreover have "length (pod_names (take ?k ?m)) = card ?own - nat (sint d)"
      using len by (simp add: pod_names_def)
    moreover have "\<not> card ?own \<le> nat (sint d)" using 2 d len by simp
    ultimately have "rs_step rs (draw peek advance e) t (fold drop_pod (pod_names (take ?k ?m)) t)"
      unfolding rs_step_def Some option.case Let_def by auto
    moreover have "rs_need rs t = 0" using 2 d len by (simp add: rs_need_def Some)
    ultimately show ?thesis
      using 2 unfolding body by (auto intro: triple_post [OF scale_down [OF _ assms(4)]])
  next
    case 3
    then have "rs_need rs t = 0" "rs_step rs (draw peek advance e) t t"
      using len by (simp_all add: rs_need_def rs_step_def Some)
    with 3 d show ?thesis unfolding body by (auto intro: triple_gret)
  qed
qed

end

section \<open>A whole round\<close>

text \<open>The next \<open>N\<close> UUIDs are long enough and give names that differ and are not taken.\<close>

definition fresh_ids :: "(nat \<Rightarrow> string) \<Rightarrow> nat \<Rightarrow> table \<Rightarrow> bool" where
  "fresh_ids u N t \<longleftrightarrow>
     (\<forall>i < N. 5 \<le> length (u i) \<and> (\<forall>p. t ''pods'' (p @ ''-'' @ take 5 (u i)) = None)) \<and>
     distinct (map (\<lambda>i. take 5 (u i)) [0..<N])"

text \<open>Two replica sets that claim no pod in common, now or after creating pods\<close>

definition apart :: "table \<Rightarrow> ReplicaSet \<Rightarrow> ReplicaSet \<Rightarrow> bool" where
  "apart t a b \<longleftrightarrow> \<not> rs_labelsMatch (rs_selector a) (template_labels b) \<and>
     \<not> rs_labelsMatch (rs_selector b) (template_labels a) \<and>
     owned (rs_selector a) (t ''pods'') \<inter> owned (rs_selector b) (t ''pods'') = {}"

definition satisfied :: "table \<Rightarrow> ReplicaSet \<Rightarrow> bool" where
  "satisfied t rs \<longleftrightarrow> (\<forall>d. rssp_Replicas (rs_Spec rs) = Some d \<longrightarrow>
     card (owned (rs_selector rs) (t ''pods'')) = nat (sint d))"

lemma fresh_distinct:
  assumes "fresh_ids u N t" and "i < N" and "j < N" and "take 5 (u i) = take 5 (u j)"
  shows "i = j"
proof -
  have "inj_on (\<lambda>i. take 5 (u i)) {0..<N}"
    using assms(1) by (simp add: fresh_ids_def distinct_map)
  then show ?thesis using assms(2-4) by (auto dest: inj_onD)
qed

lemma fresh_names:
  assumes "fresh_ids u N t" and "n \<le> N"
  shows "distinct (map (pod_name rs) (map u [0..<n]))"
    and "\<forall>v \<in> set (map u [0..<n]). t ''pods'' (pod_name rs v) = None"
proof -
  have "inj_on (\<lambda>i. pod_name rs (u i)) {0..<n}"
  proof (rule inj_onI)
    fix i j assume "i \<in> {0..<n}" "j \<in> {0..<n}" "pod_name rs (u i) = pod_name rs (u j)"
    then show "i = j" using assms(2) fresh_distinct [OF assms(1), of i j] by (simp add: pod_name_def)
  qed
  then show "distinct (map (pod_name rs) (map u [0..<n]))" by (simp add: distinct_map comp_def)
  show "\<forall>v \<in> set (map u [0..<n]). t ''pods'' (pod_name rs v) = None"
    using assms by (auto simp: fresh_ids_def pod_name_def)
qed

lemma rs_step_cases:
  assumes "rs_step rs u t t'"
  obtains "t' = t" | d where "rssp_Replicas (rs_Spec rs) = Some d"
      "card (owned (rs_selector rs) (t ''pods'')) \<le> nat (sint d)" "t' = fold (add_pod rs) (map u [0..<rs_need rs t]) t"
    | d ns where "rssp_Replicas (rs_Spec rs) = Some d"
      "distinct ns" "set ns \<subseteq> owned (rs_selector rs) (t ''pods'')" "t' = fold drop_pod ns t" "rs_need rs t = 0"
      "card (owned (rs_selector rs) (t ''pods'')) - length ns = nat (sint d)"
proof (cases "rssp_Replicas (rs_Spec rs)")
  case None
  with assms that(1) show ?thesis by (simp add: rs_step_def)
next
  case (Some d)
  show ?thesis
  proof (cases "card (owned (rs_selector rs) (t ''pods'')) \<le> nat (sint d)")
    case True
    with assms Some that(2) show ?thesis by (simp add: rs_step_def Let_def)
  next
    case False
    with assms Some obtain ns where "distinct ns" "set ns \<subseteq> owned (rs_selector rs) (t ''pods'')"
        "length ns = card (owned (rs_selector rs) (t ''pods'')) - nat (sint d)" "t' = fold drop_pod ns t"
      by (auto simp: rs_step_def Let_def)
    with False Some show ?thesis by (intro that(3) [of d ns]) (auto simp: rs_need_def)
  qed
qed

lemma rs_step_satisfied:
  assumes "rs_step rs u t t'" and "rs_labelsMatch (rs_selector rs) (template_labels rs)"
    and "finite (dom (t ''pods''))" and "fresh_ids u N t" and "rs_need rs t \<le> N"
  shows "satisfied t' rs"
  unfolding satisfied_def
proof (intro allI impI)
  fix d assume d: "rssp_Replicas (rs_Spec rs) = Some d"
  show "card (owned (rs_selector rs) (t' ''pods'')) = nat (sint d)"
  proof (cases "card (owned (rs_selector rs) (t ''pods'')) \<le> nat (sint d)")
    case True
    then have "t' = fold (add_pod rs) (map u [0..<rs_need rs t]) t"
      using assms(1) d by (simp add: rs_step_def Let_def)
    with True show ?thesis
      using card_owned_adds [of "rs_selector rs" rs t, OF assms(2,3) fresh_names [OF assms(4,5)]]
      by (simp add: rs_need_def d)
  next
    case False
    with assms(1) d obtain ns where "distinct ns" "set ns \<subseteq> owned (rs_selector rs) (t ''pods'')"
        "length ns = card (owned (rs_selector rs) (t ''pods'')) - nat (sint d)" "t' = fold drop_pod ns t"
      by (auto simp: rs_step_def Let_def)
    with False card_owned_drops [of ns "rs_selector rs" t] show ?thesis by simp
  qed
qed

lemma owned_adds_other:
  assumes "\<not> rs_labelsMatch sel (template_labels rs)"
  shows "owned sel (fold (add_pod rs) us t ''pods'') = owned sel (t ''pods'')"
proof (induction us arbitrary: t)
  case (Cons u us)
  have "owned sel (add_pod rs u t ''pods'') = owned sel (t ''pods'')"
    using assms owned_dom [of sel "t ''pods''"] by (auto simp: add_pod_row owned_upd simp del: nrm_simps)
  with Cons.IH show ?case by simp
qed simp

lemma rs_step_other:
  assumes "rs_step rs u t t'" and "\<not> rs_labelsMatch sel (template_labels rs)"
    and "owned sel (t ''pods'') \<inter> owned (rs_selector rs) (t ''pods'') = {}"
  shows "owned sel (t' ''pods'') = owned sel (t ''pods'')"
  using assms(1) by (cases rule: rs_step_cases) (use assms(2,3) owned_adds_other owned_drops in auto)

lemma dom_adds: "dom (fold (add_pod rs) us t ''pods'') = pod_name rs ` set us \<union> dom (t ''pods'')"
  by (induction us arbitrary: t) (auto simp: dom_add)

lemma owned_adds_self:
  "owned sel (fold (add_pod rs) us t ''pods'') \<subseteq> owned sel (t ''pods'') \<union> - dom (t ''pods'')"
proof (induction us arbitrary: t)
  case (Cons u us)
  have "owned sel (add_pod rs u t ''pods'') \<subseteq> owned sel (t ''pods'') \<union> - dom (t ''pods'')"
    by (auto simp: add_pod_row owned_upd simp del: nrm_simps)
  with Cons.IH [of "add_pod rs u t"] show ?case by (auto simp: dom_add)
qed simp

lemma rs_step_self:
  assumes "rs_step rs u t t'"
  shows "owned sel (t' ''pods'') \<subseteq> owned sel (t ''pods'') \<union> - dom (t ''pods'')"
  using assms
proof (cases rule: rs_step_cases)
  case 2
  then show ?thesis using owned_adds_self by metis
qed (auto simp: owned_drops)

lemma adds_row: "r \<noteq> ''pods'' \<Longrightarrow> fold (add_pod rs) us t r = t r"
  by (induction us arbitrary: t) (simp_all add: add_pod_row)

lemma rs_step_rows: "rs_step rs u t t' \<Longrightarrow> r \<noteq> ''pods'' \<Longrightarrow> t' r = t r"
  by (erule rs_step_cases) (simp_all add: adds_row drops_row)

lemma dom_drops: "dom (fold drop_pod ns t ''pods'') = dom (t ''pods'') - set ns"
  by (auto simp: drops_row split: if_splits)

lemma rs_step_finite: "rs_step rs u t t' \<Longrightarrow> finite (dom (t ''pods'')) \<Longrightarrow> finite (dom (t' ''pods''))"
  by (erule rs_step_cases) (simp_all add: dom_adds dom_drops)

lemma rs_step_fresh:
  assumes "rs_step rs u t t'" and "fresh_ids u N t" and "rs_need rs t \<le> N"
  shows "fresh_ids (\<lambda>i. u (rs_need rs t + i)) (N - rs_need rs t) t'"
proof -
  let ?n = "rs_need rs t"
  have "t' ''pods'' (p @ ''-'' @ take 5 (u (?n + i))) = None" if i: "i < N - ?n" for i p
  proof -
    have free: "t ''pods'' (p @ ''-'' @ take 5 (u (?n + i))) = None" and len: "5 \<le> length (u (?n + i))"
      using assms(2) i by (auto simp: fresh_ids_def)
    have "p @ ''-'' @ take 5 (u (?n + i)) \<noteq> pod_name rs (u j)" if "j < ?n" for j
    proof
      assume "p @ ''-'' @ take 5 (u (?n + i)) = pod_name rs (u j)"
      moreover have "5 \<le> length (u j)" using assms(2,3) that by (auto simp: fresh_ids_def)
      ultimately have "take 5 (u (?n + i)) = take 5 (u j)" 
        using len append_eq_append_conv [of p "om_Name (rs_ObjectMeta rs)" "''-'' @ take 5 (u (?n + i))" "''-'' @ take 5 (u j)"]
        by (simp add: pod_name_def)
      moreover have "?n + i < N" "j < N" using that i assms(3) by linarith+
      ultimately have "?n + i = j" using fresh_distinct [OF assms(2)] by blast
      with that show False by simp
    qed
    then have out: "p @ ''-'' @ take 5 (u (?n + i)) \<notin> dom (fold (add_pod rs) (map u [0..<?n]) t ''pods'')"
      using free unfolding dom_adds by (simp add: domIff image_iff)
    from assms(1) show ?thesis
    proof (cases rule: rs_step_cases)
      case 2
      with out show ?thesis by (simp add: domIff)
    qed (use free in \<open>simp_all add: drops_row\<close>)
  qed
  moreover have "distinct (map (\<lambda>i. take 5 (u (?n + i))) [0..<N - ?n])"
  proof -
    have "x = y" if "x < N - ?n" "y < N - ?n" "take 5 (u (?n + x)) = take 5 (u (?n + y))" for x y
      using fresh_distinct [OF assms(2), of "?n + x" "?n + y"] that by simp
    then show ?thesis by (auto simp: distinct_map intro!: inj_onI)
  qed
  ultimately show ?thesis using assms(2) by (auto simp: fresh_ids_def)
qed

lemma disjoint_grow: "A' \<subseteq> A \<union> - D \<Longrightarrow> B \<subseteq> D \<Longrightarrow> A \<inter> B = {} \<Longrightarrow> A' \<inter> B = {}"
  by blast

lemma rs_step_apart:
  assumes "rs_step rs u t t'" and "apart t a b" and "a = rs \<or> apart t a rs" and "b = rs \<or> apart t b rs"
  shows "apart t' a b"
proof -
  have same: "owned (rs_selector c) (t' ''pods'') = owned (rs_selector c) (t ''pods'')" if "apart t c rs" for c
    using assms(1) that by (intro rs_step_other [of rs u]) (auto simp: apart_def)
  have grow: "owned (rs_selector c) (t' ''pods'') \<subseteq> owned (rs_selector c) (t ''pods'') \<union> - dom (t ''pods'')" for c
    using assms(1) by (rule rs_step_self)
  have sym: "apart t x y \<Longrightarrow> apart t y x" for x y by (auto simp: apart_def)
  consider "apart t a rs" "apart t b rs" | "a = rs" "apart t b rs" | "b = rs" "apart t a rs"
    using assms(2-4) sym by blast
  then show ?thesis
  proof cases
    case 1
    then show ?thesis using assms(2) by (simp add: apart_def same)
  next
    case 2
    then show ?thesis
      using assms(2) same [OF 2(2)] disjoint_grow [OF grow [of a] owned_dom [of "rs_selector b"]]
      by (simp add: apart_def)
  next
    case 3
    then show ?thesis
      using assms(2) same [OF 3(2)] disjoint_grow [OF grow [of b] owned_dom [of "rs_selector a"]]
      by (simp add: apart_def Int_commute)
  qed
qed

text \<open>What a round relies on: the replica sets do not compete, names are free, counts are counts.\<close>

definition rs_round_ok :: "ReplicaSet list \<Rightarrow> Pod list \<Rightarrow> (nat \<Rightarrow> string) \<Rightarrow> nat \<Rightarrow> table \<Rightarrow> bool" where
  "rs_round_ok rss ps u N t \<longleftrightarrow> finite (dom (t ''pods'')) \<and> fresh_ids u N t \<and>
     sum_list (map (\<lambda>rs. rs_need rs t) rss) \<le> N \<and>
     distinct rss \<and> (\<forall>a \<in> set rss. \<forall>b \<in> set rss. a \<noteq> b \<longrightarrow> apart t a b) \<and>
     (\<forall>rs \<in> set rss. census (rs_selector rs) ps (t ''pods'') \<and>
        (\<forall>d. rssp_Replicas (rs_Spec rs) = Some d \<longrightarrow> 0 \<le> sint d) \<and>
        rs_labelsMatch (rs_selector rs) (template_labels rs) \<and>
        (\<forall>u. marshal_obj (OPod (pod_from_template rs u)) \<noteq> None))"

lemma rs_need_owned:
  "owned (rs_selector b) (t' ''pods'') = owned (rs_selector b) (t ''pods'') \<Longrightarrow> rs_need b t' = rs_need b t"
  by (simp add: rs_need_def split: option.split)

lemma rs_round_step:
  assumes ok: "rs_round_ok (rs # rss) ps u N t" and step: "rs_step rs u t t'"
  shows "rs_round_ok rss ps (\<lambda>i. u (rs_need rs t + i)) (N - rs_need rs t) t'"
    and "satisfied t' rs"
proof -
  have own: "owned (rs_selector b) (t' ''pods'') = owned (rs_selector b) (t ''pods'')" if "b \<in> set rss" for b
    using ok that by (intro rs_step_other [OF step]) (auto simp: rs_round_ok_def apart_def)
  have "map (\<lambda>rs. rs_need rs t') rss = map (\<lambda>rs. rs_need rs t) rss"
    using own by (auto intro: rs_need_owned)
  then have need: "(\<Sum>rs \<leftarrow> rss. rs_need rs t') = (\<Sum>rs \<leftarrow> rss. rs_need rs t)" by (rule arg_cong)
  have "apart t' a b" if "a \<in> set rss" "b \<in> set rss" "a \<noteq> b" for a b
    using ok that by (intro rs_step_apart [OF step]) (auto simp: rs_round_ok_def)
  then show "rs_round_ok rss ps (\<lambda>i. u (rs_need rs t + i)) (N - rs_need rs t) t'"
    using ok rs_step_finite [OF step] rs_step_fresh [OF step, of N] own need
    by (auto simp: rs_round_ok_def census_def)
  show "satisfied t' rs"
    using ok by (intro rs_step_satisfied [OF step, of N]) (auto simp: rs_round_ok_def)
qed

lemma draw_shift: "draw peek advance ((advance ^^ n) e) = (\<lambda>i. draw peek advance e (n + i))"
  by (rule ext) (simp add: draw_def add.commute [of n] funpow_add)

context uuids
begin

lemma reconcile_loop:
  assumes "rs_round_ok rss ps (draw peek advance e) N t" and "length ps < 2 ^ 31"
    and "\<And>p. p \<in> set ps \<Longrightarrow> plain_name (om_Name (pod_ObjectMeta p))"
  shows "triple (world_at good tab env t e) (for_each rss (\<lambda>rs. reconcileRS C newUUID rs ps))
    (\<lambda>_ w. \<exists>t' e'. ((\<forall>rs \<in> set rss. satisfied t' rs) \<and> (\<forall>r. r \<noteq> ''pods'' \<longrightarrow> t' r = t r) \<and>
       (\<forall>c. (\<forall>rs \<in> set rss. apart t c rs) \<longrightarrow>
          owned (rs_selector c) (t' ''pods'') = owned (rs_selector c) (t ''pods''))) \<and>
       world_at good tab env t' e' w)"
  using assms(1)
proof (induction rss arbitrary: t e N)
  case Nil
  then show ?case by (auto intro!: triple_gret)
next
  case (Cons rs rss)
  let ?u = "draw peek advance e" and ?n = "rs_need rs t"
  have ok: "rs_round_ok (rs # rss) ps ?u N t" by (rule Cons.prems)
  have first: "triple (world_at good tab env t e) (reconcileRS C newUUID rs ps)
      (\<lambda>_ w. \<exists>t'. rs_step rs ?u t t' \<and> world_at good tab env t' ((advance ^^ ?n) e) w)"
    using ok assms(2,3)
    by (intro reconcileRS_effect) (auto simp: rs_round_ok_def my_pods_def fresh_ids_def)
  show ?case
    unfolding for_each.simps
  proof (rule triple_gbind [OF first], rule triple_ex, rule triple_assuming)
    fix t1 assume step: "rs_step rs ?u t t1"
    have ok1: "rs_round_ok rss ps (draw peek advance ((advance ^^ ?n) e)) (N - ?n) t1"
      using rs_round_step(1) [OF ok step] by (simp add: draw_shift)
    have ap: "apart t rs b" "apart t b rs" if "b \<in> set rss" for b
      using ok that by (auto simp: rs_round_ok_def)
    have ap1: "apart t1 rs b" if "b \<in> set rss" for b
      using ap [OF that] by (intro rs_step_apart [OF step]) auto
    have other: "owned (rs_selector c) (t1 ''pods'') = owned (rs_selector c) (t ''pods'')" if "apart t c rs" for c
      using that by (intro rs_step_other [OF step]) (auto simp: apart_def)
    have keep: "apart t1 c b" if "apart t c rs" "apart t c b" "b \<in> set rss" for b c
      using that ap by (intro rs_step_apart [OF step]) auto
    show "triple (world_at good tab env t1 ((advance ^^ ?n) e)) (for_each rss (\<lambda>rs. reconcileRS C newUUID rs ps))
      (\<lambda>_ w. \<exists>t' e'. ((\<forall>rs \<in> set (rs # rss). satisfied t' rs) \<and> (\<forall>r. r \<noteq> ''pods'' \<longrightarrow> t' r = t r) \<and>
         (\<forall>c. (\<forall>rs \<in> set (rs # rss). apart t c rs) \<longrightarrow>
            owned (rs_selector c) (t' ''pods'') = owned (rs_selector c) (t ''pods''))) \<and>
         world_at good tab env t' e' w)"
    proof (rule triple_post [OF Cons.IH [OF ok1]], elim exE conjE, intro exI conjI)
      fix t2 e2 w
      assume sat: "\<forall>rs \<in> set rss. satisfied t2 rs" and rows: "\<forall>r. r \<noteq> ''pods'' \<longrightarrow> t2 r = t1 r"
        and out: "\<forall>c. (\<forall>rs \<in> set rss. apart t1 c rs) \<longrightarrow>
          owned (rs_selector c) (t2 ''pods'') = owned (rs_selector c) (t1 ''pods'')"
      have "satisfied t2 rs"
        using rs_round_step(2) [OF ok step] out ap1 by (simp add: satisfied_def)
      with sat show "\<forall>rs \<in> set (rs # rss). satisfied t2 rs" by simp
      show "\<forall>r. r \<noteq> ''pods'' \<longrightarrow> t2 r = t r" using rows rs_step_rows [OF step] by simp
      show "\<forall>c. (\<forall>rs \<in> set (rs # rss). apart t c rs) \<longrightarrow>
          owned (rs_selector c) (t2 ''pods'') = owned (rs_selector c) (t ''pods'')"
        using out other keep by auto
    qed
  qed
qed

end

text \<open>A replica set that can be marshalled has a template that makes pods that can.\<close>

lemma template_ok:
  assumes "cok ReplicaSet_codec rs"
  shows "marshal_obj (OPod (pod_from_template rs u)) \<noteq> None"
  using assms json_codec.ok_zero [OF PodStatus_law]
  by (simp add: marshal_def codec_oks pod_from_template_def Pod_zero_def)

definition need_at :: "table \<Rightarrow> string \<Rightarrow> nat" where
  "need_at t n = (case t ''replicasets'' n of Some (OReplicaSet rs) \<Rightarrow> rs_need rs t | _ \<Rightarrow> 0)"

definition rs_table_ok :: "(nat \<Rightarrow> string) \<Rightarrow> nat \<Rightarrow> table \<Rightarrow> bool" where
  "rs_table_ok u N t \<longleftrightarrow> named (t ''pods'') \<and> card (dom (t ''pods'')) < 2 ^ 31 \<and>
     (\<forall>n \<in> dom (t ''pods''). plain_name n) \<and> fresh_ids u N t \<and>
     (\<Sum>n \<in> dom (t ''replicasets''). need_at t n) \<le> N \<and>
     (\<forall>n rs. t ''replicasets'' n = Some (OReplicaSet rs) \<longrightarrow>
        (\<forall>d. rssp_Replicas (rs_Spec rs) = Some d \<longrightarrow> 0 \<le> sint d) \<and>
        rs_labelsMatch (rs_selector rs) (template_labels rs)) \<and>
     (\<forall>m n a b. m \<noteq> n \<longrightarrow> t ''replicasets'' m = Some (OReplicaSet a) \<longrightarrow>
        t ''replicasets'' n = Some (OReplicaSet b) \<longrightarrow> apart t a b)"

lemma rs_table_round:
  assumes ok: "rs_table_ok u N t" and rss: "enumerates (map OReplicaSet rss) (t ''replicasets'')"
    and ps: "enumerates (map OPod ps) (t ''pods'')"
    and fine: "\<And>rs. rs \<in> set rss \<Longrightarrow> cok ReplicaSet_codec rs"
  shows "rs_round_ok rss ps u N t" and "length ps < 2 ^ 31"
    and "\<And>p. p \<in> set ps \<Longrightarrow> plain_name (om_Name (pod_ObjectMeta p))"
proof -
  have nm: "named (t ''pods'')" using ok by (simp add: rs_table_ok_def)
  obtain ns where ns: "distinct ns" "set ns = dom (t ''replicasets'')"
      "map OReplicaSet rss = map (\<lambda>n. the (t ''replicasets'' n)) ns"
    using rss unfolding enumerates_def by blast
  have len: "length rss = length ns" using arg_cong [OF ns(3), of length] by simp
  have at: "t ''replicasets'' (ns ! i) = Some (OReplicaSet (rss ! i))" if "i < length rss" for i
  proof -
    have "OReplicaSet (rss ! i) = the (t ''replicasets'' (ns ! i))"
      using arg_cong [OF ns(3), of "\<lambda>xs. xs ! i"] that len by simp
    moreover have "ns ! i \<in> dom (t ''replicasets'')" using that len ns(2) nth_mem [of i ns] by simp
    ultimately show ?thesis by auto
  qed
  have mem: "\<exists>n. t ''replicasets'' n = Some (OReplicaSet rs)" if "rs \<in> set rss" for rs
    using that at by (auto simp: in_set_conv_nth)
  have self: "rs_labelsMatch (rs_selector rs) (template_labels rs)" if "rs \<in> set rss" for rs
    using mem [OF that] ok unfolding rs_table_ok_def by blast
  have apart_nth: "apart t (rss ! i) (rss ! j)" if "i < length rss" "j < length rss" "i \<noteq> j" for i j
  proof -
    have "ns ! i \<noteq> ns ! j" using that len ns(1) by (simp add: nth_eq_iff_index_eq)
    then show ?thesis using at that ok unfolding rs_table_ok_def by blast
  qed
  have dist: "distinct rss"
    unfolding distinct_conv_nth
  proof (intro allI impI notI)
    fix i j assume ij: "i < length rss" "j < length rss" "i \<noteq> j" and eq: "rss ! i = rss ! j"
    have "apart t (rss ! j) (rss ! j)" using apart_nth [OF ij] eq by simp
    with self [OF nth_mem [OF ij(2)]] show False by (simp add: apart_def)
  qed
  have apart: "apart t a b" if "a \<in> set rss" "b \<in> set rss" "a \<noteq> b" for a b
    using that apart_nth unfolding in_set_conv_nth by blast
  have sum: "(\<Sum>rs \<leftarrow> rss. rs_need rs t) \<le> N"
  proof -
    have "(\<Sum>rs \<leftarrow> rss. rs_need rs t) = (\<Sum>n \<leftarrow> ns. need_at t n)"
      using at len by (intro arg_cong [of _ _ sum_list] nth_equalityI) (simp_all add: need_at_def)
    also have "\<dots> = (\<Sum>n \<in> dom (t ''replicasets''). need_at t n)"
      using ns(1,2) by (simp add: sum_list_distinct_conv_sum_set)
    finally show ?thesis using ok by (simp add: rs_table_ok_def)
  qed
  have pos: "\<forall>d. rssp_Replicas (rs_Spec rs) = Some d \<longrightarrow> 0 \<le> sint d" if "rs \<in> set rss" for rs
    using mem [OF that] ok unfolding rs_table_ok_def by blast
  have each: "census (rs_selector rs) ps (t ''pods'')" "\<forall>u. marshal_obj (OPod (pod_from_template rs u)) \<noteq> None"
    if "rs \<in> set rss" for rs
    using census_listing [OF ps nm] template_ok [OF fine [OF that]] by auto
  have fresh: "fresh_ids u N t" using ok by (simp add: rs_table_ok_def)
  show "rs_round_ok rss ps u N t"
    unfolding rs_round_ok_def
    by (intro conjI ballI impI fresh sum dist apart enumerates_finite [OF ps] each pos self)
  have "length ps = card (set (map (\<lambda>p. om_Name (pod_ObjectMeta p)) ps))"
    using enumerates_names(1) [OF ps nm] by (metis distinct_card length_map)
  also have "\<dots> \<le> card (dom (t ''pods''))"
    using enumerates_names(2) [OF ps nm] enumerates_finite [OF ps] by (intro card_mono) auto
  finally show "length ps < 2 ^ 31" using ok by (simp add: rs_table_ok_def)
  show "plain_name (om_Name (pod_ObjectMeta p))" if "p \<in> set ps" for p
    using enumerates_names(2) [OF ps nm that] ok unfolding rs_table_ok_def by blast
qed

text \<open>After a round: every replica set has its pods, and only pods have changed.\<close>

definition rs_round_done :: "table \<Rightarrow> table \<Rightarrow> bool" where
  "rs_round_done t t' \<longleftrightarrow>
     (\<forall>n rs. t ''replicasets'' n = Some (OReplicaSet rs) \<longrightarrow> satisfied t' rs) \<and>
     (\<forall>r. r \<noteq> ''pods'' \<longrightarrow> t' r = t r)"

context uuids
begin

lemma reconcile_listed:
  assumes ok: "rs_table_ok (draw peek advance e) N t" and rss: "enumerates (map OReplicaSet rss) (t ''replicasets'')"
    and ps: "enumerates (map OPod ps) (t ''pods'')"
  shows "triple (world_at good tab env t e) (for_each rss (\<lambda>rs. reconcileRS C newUUID rs ps))
    (\<lambda>_ w. \<exists>t' e'. rs_round_done t t' \<and> world_at good tab env t' e' w)"
proof (rule tripleI)
  fix w assume w: "world_at good tab env t e w"
  have fine: "cok ReplicaSet_codec rs" if "rs \<in> set rss" for rs
  proof -
    have "OReplicaSet rs \<in> set (map OReplicaSet rss)" using that by simp
    then obtain n where "t ''replicasets'' n = Some (OReplicaSet rs)"
      using enumerates_range [OF rss] by blast
    then show ?thesis using at_entry [OF w] settled_ok(3) by blast
  qed
  obtain x w' where run: "for_each rss (\<lambda>rs. reconcileRS C newUUID rs ps) w = (Ret x, w')"
    and post: "\<exists>t' e'. ((\<forall>rs \<in> set rss. satisfied t' rs) \<and> (\<forall>r. r \<noteq> ''pods'' \<longrightarrow> t' r = t r) \<and>
       (\<forall>c. (\<forall>rs \<in> set rss. apart t c rs) \<longrightarrow>
          owned (rs_selector c) (t' ''pods'') = owned (rs_selector c) (t ''pods''))) \<and>
       world_at good tab env t' e' w'"
    by (rule tripleE [OF reconcile_loop [OF rs_table_round [OF ok rss ps fine]] w])
  from post obtain t' e' where sat: "\<forall>rs \<in> set rss. satisfied t' rs" and rows: "\<forall>r. r \<noteq> ''pods'' \<longrightarrow> t' r = t r"
      and at: "world_at good tab env t' e' w'"
    by (elim exE conjE)
  have "rs_round_done t t'"
    unfolding rs_round_done_def
  proof (intro conjI allI impI)
    fix n rs assume "t ''replicasets'' n = Some (OReplicaSet rs)"
    then have "rs \<in> set rss" using enumerates_mem [OF rss] by auto
    with sat show "satisfied t' rs" by (rule bspec)
  qed (use rows in blast)
  with run at show "\<exists>x w'. for_each rss (\<lambda>rs. reconcileRS C newUUID rs ps) w = (Ret x, w') \<and>
      (\<exists>t' e'. rs_round_done t t' \<and> world_at good tab env t' e' w')"
    by blast
qed

lemma reconcile_lists:
  assumes "\<And>rss ps. enumerates (map OReplicaSet rss) (t ''replicasets'') \<Longrightarrow> enumerates (map OPod ps) (t ''pods'') \<Longrightarrow>
    triple (world_at good tab env t e) (for_each rss (\<lambda>rs. reconcileRS C newUUID rs ps)) Q"
  shows "triple (world_at good tab env t e) (rs_reconcile C newUUID) Q"
  unfolding rs_reconcile_def
proof (rule triple_gbind [OF ListReplicaSets_effect], rule triple_listed)
  fix r and rss :: "ReplicaSet list"
  assume r: "r = Inr (slice_of rss)" and rss: "enumerates (map OReplicaSet rss) (t ''replicasets'')"
  show "triple (world_at good tab env t e)
     (case r of Inl err \<Rightarrow> gret ()
      | Inr rss \<Rightarrow> gbind (ListPods C []) (\<lambda>r. case r of
           Inl err \<Rightarrow> gret ()
         | Inr pods \<Rightarrow> for_each (elems rss) (\<lambda>rs. reconcileRS C newUUID rs (elems pods)))) Q"
    unfolding r sum.case elems_slice_of
  proof (rule triple_gbind [OF ListPods_effect], rule triple_listed)
    fix r and ps :: "Pod list"
    assume "r = Inr (slice_of ps)" "enumerates (map OPod ps) (t ''pods'')"
    then show "triple (world_at good tab env t e)
       (case r of Inl err \<Rightarrow> gret ()
        | Inr pods \<Rightarrow> for_each rss (\<lambda>rs. reconcileRS C newUUID rs (elems pods))) Q"
      using assms rss by simp
  qed
qed

lemma reconcile_round:
  assumes ok: "rs_table_ok (draw peek advance e) N t"
  shows "triple (world_at good tab env t e) (rs_reconcile C newUUID)
    (\<lambda>_ w. \<exists>t' e'. rs_round_done t t' \<and> world_at good tab env t' e' w)"
  using reconcile_listed [OF ok] by (rule reconcile_lists)

end

section \<open>A count below zero\<close>

lemma DeletePod_returns: "\<exists>r w'. DeletePod c n w = (Ret r, w')"
  by (cases "cl_HTTP c \<lparr>rq_method = DELETE, rq_url = cl_BaseURL c @ ''/api/v1/pods/'' @ n, rq_watch = False, rq_body = []\<rparr> w")
    (simp add: DeletePod_def HTTP_Do_def gret_run gbind_def)

lemma delete_past_end:
  assumes "i \<le> length ps" and "length ps < i + n"
  shows "\<exists>w'. for_upto n i (delete_first c ps) w = (Panic Index_out_of_range, w')"
  using assms
proof (induction n arbitrary: i w)
  case (Suc n)
  show ?case
  proof (cases "i < length ps")
    case True
    obtain r w1 where "DeletePod c (om_Name (pod_ObjectMeta (ps ! i))) w = (Ret r, w1)"
      using DeletePod_returns [of c "om_Name (pod_ObjectMeta (ps ! i))" w] by (elim exE)
    then have "delete_first c ps i w = (Ret (), w1)"
      using True by (simp add: delete_first_def gret_run)
    then show ?thesis using Suc.IH [of "Suc i" w1] Suc.prems True by simp
  next
    case False
    then show ?thesis by (simp add: delete_first_def gpanic_run)
  qed
qed simp

section \<open>A template that does not match\<close>

lemma dom_pods_adds:
  assumes "fresh_ids u N t" and "n \<le> N" and "finite (dom (t ''pods''))"
  shows "card (dom (fold (add_pod rs) (map u [0..<n]) t ''pods'')) = card (dom (t ''pods'')) + n"
proof -
  have "card (pod_name rs ` set (map u [0..<n])) = n"
    using fresh_names(1) [OF assms(1,2), of rs] by (metis distinct_card length_map list.set_map map_nth length_upt diff_zero)
  moreover have "pod_name rs ` set (map u [0..<n]) \<inter> dom (t ''pods'') = {}"
    using fresh_names(2) [OF assms(1,2), of rs] by auto
  ultimately show ?thesis
    unfolding dom_adds using assms(3) by (subst card_Un_disjoint) simp_all
qed

lemma enumerates_single: "enumerates xs [k \<mapsto> x] \<Longrightarrow> xs = [x]"
proof -
  assume "enumerates xs [k \<mapsto> x]"
  then obtain ns where ns: "distinct ns" "set ns = {k}" "xs = map (\<lambda>n. the ([k \<mapsto> x] n)) ns"
    unfolding enumerates_def by auto
  then have "ns = [k]" by (cases ns; cases "tl ns") auto
  with ns(3) show ?thesis by simp
qed

lemma enumerates_length:
  assumes "enumerates xs row"
  shows "length xs = card (dom row)"
proof -
  obtain ns where "distinct ns" "set ns = dom row" "xs = map (\<lambda>n. the (row n)) ns"
    using assms unfolding enumerates_def by blast
  then show ?thesis by (metis distinct_card length_map)
qed

lemma named_adds: "named (t ''pods'') \<Longrightarrow> named (fold (add_pod rs) us t ''pods'')"
proof (induction us arbitrary: t)
  case (Cons u us)
  have "obj_name (OPod (cnrm Pod_codec (pod_from_template rs u))) = pod_name rs u"
    using new_pod_simps(1) [of rs u] by (simp add: obj_name_def)
  then have "named (add_pod rs u t ''pods'')"
    using Cons.prems by (auto simp: named_def add_pod_row simp del: nrm_simps)
  with Cons.IH show ?case by simp
qed simp

text \<open>The pods have grown to \<open>k\<close>; those the selector matches and the other resources are as in \<open>t0\<close>.\<close>

definition growing :: "ReplicaSet \<Rightarrow> table \<Rightarrow> nat \<Rightarrow> (nat \<Rightarrow> string) \<Rightarrow> nat \<Rightarrow> table \<Rightarrow> bool" where
  "growing rs t0 k u N t \<longleftrightarrow> (\<forall>r. r \<noteq> ''pods'' \<longrightarrow> t r = t0 r) \<and> named (t ''pods'') \<and> finite (dom (t ''pods'')) \<and>
     card (dom (t ''pods'')) = k \<and> owned (rs_selector rs) (t ''pods'') = owned (rs_selector rs) (t0 ''pods'') \<and>
     fresh_ids u N t"

lemma growing_adds:
  assumes "growing rs t0 k u (n + N) t" and "\<not> rs_labelsMatch (rs_selector rs) (template_labels rs)"
    and "rs_need rs t = n" and "rs_step rs u t t'" and "t' = fold (add_pod rs) (map u [0..<n]) t"
  shows "growing rs t0 (k + n) (\<lambda>i. u (n + i)) N t'"
proof -
  have g: "named (t ''pods'')" "finite (dom (t ''pods''))" "fresh_ids u (n + N) t" using assms(1) by (simp_all add: growing_def)
  have "fresh_ids (\<lambda>i. u (n + i)) N t'" using rs_step_fresh [OF assms(4) g(3)] assms(3) by simp
  moreover have "card (dom (t' ''pods'')) = card (dom (t ''pods'')) + n"
    unfolding assms(5) by (rule dom_pods_adds [OF g(3) _ g(2)]) simp
  moreover have "owned (rs_selector rs) (t' ''pods'') = owned (rs_selector rs) (t ''pods'')"
    unfolding assms(5) using assms(2) by (rule owned_adds_other)
  ultimately show ?thesis
    using assms(1) named_adds [of t, OF g(1)] rs_step_finite [OF assms(4) g(2)] rs_step_rows [OF assms(4)]
    by (simp add: growing_def assms(5))
qed

context uuids
begin

definition growing_at :: "ReplicaSet \<Rightarrow> table \<Rightarrow> nat \<Rightarrow> nat \<Rightarrow> 'w \<Rightarrow> bool" where
  "growing_at rs t0 k N w \<longleftrightarrow> (\<exists>t e. growing rs t0 k (draw peek advance e) N t \<and> world_at good tab env t e w)"

lemma grow_round:
  assumes only: "t0 ''replicasets'' = [b \<mapsto> OReplicaSet rs]" and d: "rssp_Replicas (rs_Spec rs) = Some d"
    and no: "\<not> rs_labelsMatch (rs_selector rs) (template_labels rs)" and ok: "cok ReplicaSet_codec rs"
    and plain: "\<forall>x \<in> owned (rs_selector rs) (t0 ''pods''). plain_name x"
    and n: "card (owned (rs_selector rs) (t0 ''pods'')) + n = nat (sint d)" "0 < n" and k: "k < 2 ^ 31"
  shows "triple (growing_at rs t0 k (n + N)) (rs_reconcile C newUUID) (\<lambda>_. growing_at rs t0 (k + n) N)"
  unfolding growing_at_def
proof (rule triple_ex, rule triple_ex, rule triple_assuming)
  fix t e assume g: "growing rs t0 k (draw peek advance e) (n + N) t"
  then have nm: "named (t ''pods'')" and own: "owned (rs_selector rs) (t ''pods'') = owned (rs_selector rs) (t0 ''pods'')"
    and ids: "fresh_ids (draw peek advance e) (n + N) t" and rows: "t ''replicasets'' = [b \<mapsto> OReplicaSet rs]"
    using only by (simp_all add: growing_def)
  have need: "rs_need rs t = n" using n by (simp add: rs_need_def d own)
  show "triple (world_at good tab env t e) (rs_reconcile C newUUID)
     (\<lambda>_ w. \<exists>t e. growing rs t0 (k + n) (draw peek advance e) N t \<and> world_at good tab env t e w)"
  proof (rule reconcile_lists)
    fix rss ps assume rss: "enumerates (map OReplicaSet rss) (t ''replicasets'')" and ps: "enumerates (map OPod ps) (t ''pods'')"
    have one: "rss = [rs]" using enumerates_single [OF rss [unfolded rows]] by auto
    have census: "census (rs_selector rs) ps (t ''pods'')" using ps nm by (rule census_listing)
    have "triple (world_at good tab env t e) (reconcileRS C newUUID rs ps)
        (\<lambda>_ w. \<exists>t'. rs_step rs (draw peek advance e) t t' \<and> world_at good tab env t' ((advance ^^ rs_need rs t) e) w)"
    proof (rule reconcileRS_effect)
      show "census (rs_selector rs) ps (t ''pods'')" by (rule census)
      show "length ps < 2 ^ 31" using enumerates_length [OF ps] g k by (simp add: growing_def)
      show "0 \<le> sint d'" if "rssp_Replicas (rs_Spec rs) = Some d'" for d'
        using that d n by (cases "0 \<le> sint d") simp_all
      show "plain_name (om_Name (pod_ObjectMeta p))" if "p \<in> set (my_pods (rs_selector rs) ps)" for p
      proof -
        have "om_Name (pod_ObjectMeta p) \<in> owned (rs_selector rs) (t ''pods'')"
          using census that by (auto simp: census_def pod_names_def)
        with plain own show ?thesis by simp
      qed
      show "marshal_obj (OPod (pod_from_template rs u)) \<noteq> None" for u using ok by (rule template_ok)
      show "5 \<le> length (draw peek advance e i)" if "i < rs_need rs t" for i
        using ids that by (simp add: need fresh_ids_def)
    qed
    moreover have "growing rs t0 (k + n) (draw peek advance ((advance ^^ n) e)) N t'"
      if "rs_step rs (draw peek advance e) t t'" for t'
    proof -
      have "t' = fold (add_pod rs) (map (draw peek advance e) [0..<n]) t"
        using that n need by (simp add: rs_step_def d Let_def own)
      then show ?thesis using growing_adds [OF g no need that] by (simp add: draw_shift)
    qed
    ultimately have "triple (world_at good tab env t e) (reconcileRS C newUUID rs ps)
        (\<lambda>_ w. \<exists>t e. growing rs t0 (k + n) (draw peek advance e) N t \<and> world_at good tab env t e w)"
      unfolding need by (elim triple_post) blast
    then show "triple (world_at good tab env t e) (for_each rss (\<lambda>rs. reconcileRS C newUUID rs ps))
        (\<lambda>_ w. \<exists>t e. growing rs t0 (k + n) (draw peek advance e) N t \<and> world_at good tab env t e w)"
      unfolding one by (auto intro: triple_gbind triple_gret)
  qed
qed

lemma grow_rounds:
  assumes "t0 ''replicasets'' = [b \<mapsto> OReplicaSet rs]" and "rssp_Replicas (rs_Spec rs) = Some d"
    and "\<not> rs_labelsMatch (rs_selector rs) (template_labels rs)" and "cok ReplicaSet_codec rs"
    and "\<forall>x \<in> owned (rs_selector rs) (t0 ''pods''). plain_name x"
    and "card (owned (rs_selector rs) (t0 ''pods'')) + n = nat (sint d)" and "0 < n" and "k + m * n < 2 ^ 31"
  shows "triple (growing_at rs t0 k (m * n)) (rs_Start C newUUID (replicate m Tick))
    (\<lambda>_. growing_at rs t0 (k + m * n) 0)"
  using assms(8)
proof (induction m arbitrary: k)
  case 0
  then show ?case by (simp add: rs_Start_def triple_gret)
next
  case (Suc m)
  have "k < 2 ^ 31" using Suc.prems by simp
  note now = grow_round [OF assms(1-7) this, of "m * n"]
  have "triple (growing_at rs t0 (k + n) (m * n)) (rs_Start C newUUID (replicate m Tick))
      (\<lambda>_. growing_at rs t0 (k + n + m * n) 0)"
    using Suc.prems by (intro Suc.IH) simp
  then show ?case using triple_gbind [OF now] by (simp add: rs_Start_def add.assoc)
qed

end

section \<open>In the cluster\<close>

text \<open>A world whose environment is a supply of UUIDs and how many have been drawn\<close>

record uuid_source =
  us_uuid :: "nat \<Rightarrow> string"
  us_next :: nat

definition draw_uuid :: "(uuid_source cluster, string) go" where
  "draw_uuid w = (Ret (us_uuid (w_env w) (us_next (w_env w))),
     w\<lparr>w_env := (w_env w)\<lparr>us_next := Suc (us_next (w_env w))\<rparr>\<rparr>)"

definition uuid_peek :: "uuid_source \<Rightarrow> string" where
  "uuid_peek e = us_uuid e (us_next e)"

definition uuid_advance :: "uuid_source \<Rightarrow> uuid_source" where
  "uuid_advance e = e\<lparr>us_next := Suc (us_next e)\<rparr>"

text \<open>The UUIDs a world will hand out\<close>

definition coming_uuids :: "uuid_source cluster \<Rightarrow> nat \<Rightarrow> string" where
  "coming_uuids w i = us_uuid (w_env w) (us_next (w_env w) + i)"

interpretation rs_cluster: uuids "cluster_client base" cluster_good cluster_table w_env draw_uuid
  uuid_peek uuid_advance for base
  by unfold_locales
    (auto simp: triple_def draw_uuid_def uuid_peek_def uuid_advance_def world_at_def cluster_good_def
      cluster_table_def world_good_def world_table_def)

lemma draw_uuids: "draw uuid_peek uuid_advance (w_env w) = coming_uuids w"
proof -
  have "(uuid_advance ^^ i) e = e\<lparr>us_next := us_next e + i\<rparr>" for i e
    by (induction i) (simp_all add: uuid_advance_def)
  then show ?thesis by (simp add: draw_def uuid_peek_def coming_uuids_def fun_eq_iff)
qed

lemma cluster_pods_finite: "cluster_good (w :: 'e cluster) \<Longrightarrow> finite (dom (cluster_table w ''pods''))"
proof -
  assume "cluster_good w"
  then have "world_at cluster_good cluster_table w_env (cluster_table w) (w_env w) w" by (simp add: world_at_def)
  from tripleE [OF cluster.ListPods_effect [where nodeName = "[]"] this]
  show ?thesis by (auto simp: lists_def dest: enumerates_finite)
qed

section \<open>A small cluster\<close>

text \<open>One replica set \<open>web\<close> that selects \<open>app=web\<close>, with the given template labels\<close>

definition demo_rs :: "int32 option \<Rightarrow> strmap \<Rightarrow> ReplicaSet" where
  "demo_rs n labels = ReplicaSet_zero\<lparr>
     rs_ObjectMeta := ObjectMeta_zero\<lparr>om_Name := ''web''\<rparr>,
     rs_Spec := \<lparr>rssp_Replicas = n,
       rssp_Selector = \<lparr>ls_MatchLabels = fmupd ''app'' ''web'' fmempty\<rparr>,
       rssp_Template = \<lparr>pts_ObjectMeta = ObjectMeta_zero\<lparr>om_Labels := labels\<rparr>, pts_Spec = PodSpec_zero\<rparr>\<rparr>\<rparr>"

definition demo_uuids :: uuid_source where
  "demo_uuids = \<lparr>us_uuid = (\<lambda>i. [CHR ''a'', CHR ''a'', CHR ''a'', CHR ''a'', char_of (97 + i)]), us_next = 0\<rparr>"

lemma demo_storable: "storable [OReplicaSet (demo_rs n labels)]"
  by (simp add: storable_def marshal_def codec_oks demo_rs_def ReplicaSet_zero_def ObjectMeta_zero_def
      PodSpec_zero_def ReplicaSetStatus_zero_def)

lemma demo_table:
  "cluster_table (cluster_with [OReplicaSet (demo_rs n labels)] e) r m =
   (if r = ''replicasets'' \<and> m = ''web'' then Some (OReplicaSet (demo_rs n labels)) else None)"
  by (subst cluster_with_table [OF demo_storable])
    (auto simp: table_of_def obj_name_def demo_rs_def PodSpec_zero_def ReplicaSet_zero_def)

lemma demo_uuid_simps [simp]:
  "coming_uuids (cluster_with obs demo_uuids) i = [CHR ''a'', CHR ''a'', CHR ''a'', CHR ''a'', char_of (97 + i)]"
  by (simp add: coming_uuids_def demo_uuids_def)

lemma demo_selects [simp]:
  "rs_selector (demo_rs n labels) = fmupd ''app'' ''web'' fmempty" "template_labels (demo_rs n labels) = labels"
  "rssp_Replicas (rs_Spec (demo_rs n labels)) = n"
  by (simp_all add: rs_selector_def template_labels_def demo_rs_def ObjectMeta_zero_def)

lemma demo_ok:
  "rs_table_ok (coming_uuids (cluster_with [OReplicaSet (demo_rs (Some 2) (fmupd ''app'' ''web'' fmempty))] demo_uuids))
     2 (cluster_table (cluster_with [OReplicaSet (demo_rs (Some 2) (fmupd ''app'' ''web'' fmempty))] demo_uuids))"
proof -
  let ?t = "cluster_table (cluster_with [OReplicaSet (demo_rs (Some 2) (fmupd ''app'' ''web'' fmempty))] demo_uuids)"
  have pods: "?t ''pods'' = Map.empty" by (rule ext) (simp add: demo_table)
  have rss: "?t ''replicasets'' = [''web'' \<mapsto> OReplicaSet (demo_rs (Some 2) (fmupd ''app'' ''web'' fmempty))]"
    by (rule ext) (simp add: demo_table)
  have "fresh_ids (coming_uuids (cluster_with [OReplicaSet (demo_rs (Some 2) (fmupd ''app'' ''web'' fmempty))] demo_uuids)) 2 ?t"
    by (auto simp: fresh_ids_def pods numeral_2_eq_2)
  moreover have "rs_need (demo_rs (Some 2) (fmupd ''app'' ''web'' fmempty)) ?t = 2"
    by (simp add: rs_need_def pods owned_def)
  ultimately show ?thesis
    unfolding rs_table_ok_def rss pods
    by (simp add: named_def rs_labelsMatch_iff need_at_def rss)
qed

text \<open>A pod that \<open>demo_rs\<close> selects\<close>

definition demo_pod :: "string \<Rightarrow> Pod" where
  "demo_pod n = Pod_zero\<lparr>pod_ObjectMeta :=
     ObjectMeta_zero\<lparr>om_Name := n, om_Labels := fmupd ''app'' ''web'' fmempty\<rparr>\<rparr>"

lemma demo_pod_ok: "cok Pod_codec (demo_pod n)" and demo_pod_nrm: "cnrm Pod_codec (demo_pod n) = demo_pod n"
  using json_codec.ok_zero [OF PodStatus_law]
  by (simp_all add: codec_oks demo_pod_def Pod_zero_def ObjectMeta_zero_def PodSpec_zero_def)

lemma demo_pods_storable: "distinct ns \<Longrightarrow> storable (map (\<lambda>n. OPod (demo_pod n)) ns)"
  using demo_pod_ok
  by (auto simp: storable_def marshal_def list_all_iff distinct_map inj_on_def obj_name_def demo_pod_def)

section \<open>Properties\<close>

text \<open>C3: One round of the replica set controller brings every replica set to its replica count: in a
  quiet cluster whose replica sets select the pods of their own template and no other's, and while
  the generated names are free, after \<open>reconcile\<close> the number of pods matching each selector is the
  replica count, and nothing but pods has changed.\<close>

theorem reconcile_reaches_desired:
  assumes "cluster_good w" and "rs_table_ok (coming_uuids w) N (cluster_table w)"
  shows "\<exists>w'. rs_reconcile (cluster_client base) draw_uuid w = (Ret (), w') \<and> cluster_good w' \<and>
    (\<forall>n rs d. cluster_table w ''replicasets'' n = Some (OReplicaSet rs) \<longrightarrow> rssp_Replicas (rs_Spec rs) = Some d \<longrightarrow>
       card (owned (rs_selector rs) (cluster_table w' ''pods'')) = nat (sint d)) \<and>
    (\<forall>r. r \<noteq> ''pods'' \<longrightarrow> cluster_table w' r = cluster_table w r)"
  using tripleD [OF rs_cluster.reconcile_round [OF assms(2) [folded draw_uuids]], of w base] assms(1)
  by (fastforce simp: world_at_def rs_round_done_def satisfied_def)

theorem reconcile_reaches_desired_witness:
  "\<exists>w'. rs_reconcile (cluster_client ''http://api'') draw_uuid
      (cluster_with [OReplicaSet (demo_rs (Some 2) (fmupd ''app'' ''web'' fmempty))] demo_uuids) = (Ret (), w') \<and>
     card (owned (fmupd ''app'' ''web'' fmempty) (cluster_table w' ''pods'')) = 2"
proof -
  let ?rs = "demo_rs (Some 2) (fmupd ''app'' ''web'' fmempty)"
  let ?w = "cluster_with [OReplicaSet ?rs] demo_uuids"
  obtain w' where run: "rs_reconcile (cluster_client ''http://api'') draw_uuid ?w = (Ret (), w')"
    and all: "\<forall>n rs d. cluster_table ?w ''replicasets'' n = Some (OReplicaSet rs) \<longrightarrow>
       rssp_Replicas (rs_Spec rs) = Some d \<longrightarrow>
       card (owned (rs_selector rs) (cluster_table w' ''pods'')) = nat (sint d)"
    using reconcile_reaches_desired [OF cluster_with_good [OF demo_storable] demo_ok, of "''http://api''"]
    by (elim exE conjE)
  have "cluster_table ?w ''replicasets'' ''web'' = Some (OReplicaSet ?rs)" by (simp add: demo_table)
  with all have "card (owned (rs_selector ?rs) (cluster_table w' ''pods'')) = nat (sint (2 :: int32))"
    by (metis demo_selects(3))
  with run show ?thesis by simp
qed

text \<open>Scaling down deletes the first pods of the listing the selector matches, as many as there are
  too many, and nothing else; the comment in the code announces deletion from the end.\<close>

lemma scale_down_deletes_the_first:
  assumes "cluster_good w" and "rssp_Replicas (rs_Spec rs) = Some d" and "0 \<le> sint d"
    and "nat (sint d) \<le> length (my_pods (rs_selector rs) ps)" and "length ps < 2 ^ 31"
    and "\<forall>p \<in> set ps. plain_name (om_Name (pod_ObjectMeta p))"
  shows "\<exists>w'. reconcileRS (cluster_client base) draw_uuid rs ps w = (Ret (), w') \<and> cluster_good w' \<and>
    cluster_table w' = fold (\<lambda>n t. set_obj ''pods'' n None t)
      (map (\<lambda>p. om_Name (pod_ObjectMeta p))
        (take (length (my_pods (rs_selector rs) ps) - nat (sint d)) (my_pods (rs_selector rs) ps))) (cluster_table w)"
proof -
  let ?m = "my_pods (rs_selector rs) ps"
  have "int (length ?m) < 2 ^ 31" using my_pods_short [OF assms(5), of "rs_selector rs"] by simp
  then have small: "int (length ?m) - sint d < 2 ^ 31" using assms(3) by simp
  have body: "reconcileRS (cluster_client base) draw_uuid rs ps =
      for_upto (length ?m - nat (sint d)) 0 (delete_first (cluster_client base) ?m)"
  proof -
    have "sint d \<le> int (length ?m)" using assms(4) by (simp add: nat_le_iff)
    moreover have "nat (int (length ?m) - sint d) = length ?m - nat (sint d)" using assms(3) by linarith
    ultimately show ?thesis
      using reconcileRS_body [OF assms(2,5) small, of "cluster_client base" draw_uuid]
      by (simp add: Let_def)
  qed
  have "world_at cluster_good cluster_table w_env (cluster_table w) (w_env w) w"
    using assms(1) by (simp add: world_at_def)
  from tripleD [OF rs_cluster.scale_down this, of "length ?m - nat (sint d)" ?m base] assms(6)
  show ?thesis
    unfolding body by (auto simp: my_pods_def world_at_def pod_names_def drop_pod_def [abs_def])
qed

lemma scale_down_deletes_the_first_witness:
  "\<exists>w'. reconcileRS (cluster_client ''http://api'') draw_uuid (demo_rs (Some 1) fmempty) [demo_pod ''a'', demo_pod ''b'']
       (cluster_with [OPod (demo_pod ''a''), OPod (demo_pod ''b'')] demo_uuids) = (Ret (), w') \<and>
     cluster_table w' ''pods'' ''a'' = None \<and> cluster_table w' ''pods'' ''b'' = Some (OPod (demo_pod ''b''))"
proof -
  let ?rs = "demo_rs (Some 1) fmempty" and ?ps = "[demo_pod ''a'', demo_pod ''b'']"
  let ?w = "cluster_with [OPod (demo_pod ''a''), OPod (demo_pod ''b'')] demo_uuids"
  have st: "storable [OPod (demo_pod ''a''), OPod (demo_pod ''b'')]"
    using demo_pods_storable [of "[''a'', ''b'']"] by simp
  have mine: "my_pods (rs_selector ?rs) ?ps = ?ps"
    by (simp add: my_pods_def rs_labelsMatch_iff demo_pod_def)
  have names: "plain_name ''a''" "plain_name ''b''" by (simp_all add: plain_name_def name_char_def)
  have "\<exists>w'. reconcileRS (cluster_client ''http://api'') draw_uuid ?rs ?ps ?w = (Ret (), w') \<and> cluster_good w' \<and>
    cluster_table w' = fold (\<lambda>n t. set_obj ''pods'' n None t) (map (\<lambda>p. om_Name (pod_ObjectMeta p))
      (take (length (my_pods (rs_selector ?rs) ?ps) - nat (sint (1 :: int32))) (my_pods (rs_selector ?rs) ?ps)))
      (cluster_table ?w)"
    by (rule scale_down_deletes_the_first [OF cluster_with_good [OF st]])
      (use names mine in \<open>simp_all add: demo_pod_def\<close>)
  then show ?thesis
    unfolding mine cluster_with_table [OF st]
    by (auto simp: demo_pod_def table_of_def obj_name_def Pod_zero_def PodSpec_zero_def)
qed

text \<open>C31: A negative replica count, which nothing in the API refuses, crashes the controller: after
  deleting every pod the selector matches it indexes past the end of the list, whatever the
  cluster answers (as long as the 32-bit difference does not wrap).\<close>

theorem negative_replicas_panic:
  assumes "rssp_Replicas (rs_Spec rs) = Some d" and "sint d < 0" and "length ps < 2 ^ 31"
    and "int (length (my_pods (rs_selector rs) ps)) - sint d < 2 ^ 31"
  shows "\<exists>w'. reconcileRS c newUUID rs ps w = (Panic Index_out_of_range, w')"
  using delete_past_end [of 0 "my_pods (rs_selector rs) ps" "nat (int (length (my_pods (rs_selector rs) ps)) - sint d)" c w]
    reconcileRS_body [OF assms(1,3,4), of c newUUID] assms(2)
  by (simp add: Let_def)

theorem negative_replicas_panic_witness:
  "\<exists>w'. reconcileRS (cluster_client ''http://api'') draw_uuid (demo_rs (Some (- 1)) fmempty) []
     (cluster_with [] demo_uuids) = (Panic Index_out_of_range, w')"
  by (rule negative_replicas_panic [where d = "- 1"]) (simp_all add: my_pods_def)

text \<open>C32: A replica set whose selector does not match its own template (an empty selector matches
  nothing) never gets its pods, and the controller never stops creating them: alone in its cluster
  and \<open>n\<close> pods short, after any number \<open>m\<close> of rounds of the controller's loop there are \<open>m n\<close> pods more,
  the pods it matches are still the same, and nothing else has changed (while the generated names
  are free and the 32-bit count of pods does not wrap).\<close>

theorem unmatched_template_grows:
  assumes "cluster_good w" and "named (cluster_table w ''pods'')"
    and "cluster_table w ''replicasets'' = [b \<mapsto> OReplicaSet rs]" and "rssp_Replicas (rs_Spec rs) = Some d"
    and "\<not> rs_labelsMatch (rs_selector rs) (template_labels rs)"
    and "\<forall>x \<in> owned (rs_selector rs) (cluster_table w ''pods''). plain_name x"
    and "card (owned (rs_selector rs) (cluster_table w ''pods'')) + n = nat (sint d)" and "0 < n"
    and "card (dom (cluster_table w ''pods'')) + m * n < 2 ^ 31"
    and "fresh_ids (coming_uuids w) (m * n) (cluster_table w)"
  shows "\<exists>w'. rs_Start (cluster_client base) draw_uuid (replicate m Tick) w = (Ret (), w') \<and> cluster_good w' \<and>
    card (dom (cluster_table w' ''pods'')) = card (dom (cluster_table w ''pods'')) + m * n \<and>
    owned (rs_selector rs) (cluster_table w' ''pods'') = owned (rs_selector rs) (cluster_table w ''pods'') \<and>
    (\<forall>r. r \<noteq> ''pods'' \<longrightarrow> cluster_table w' r = cluster_table w r)"
proof -
  let ?t = "cluster_table w" and ?k = "card (dom (cluster_table w ''pods''))"
  have "settled_obj (OReplicaSet rs)" using cluster.entry [OF assms(1), of "''replicasets''" b] by (simp add: assms(3))
  then have ok: "cok ReplicaSet_codec rs" using settled_ok(3) by blast
  have start: "rs_cluster.growing_at rs ?t ?k (m * n) w"
    unfolding rs_cluster.growing_at_def growing_def
    using assms(1,2,10) cluster_pods_finite [OF assms(1)]
    by (intro exI [of _ ?t] exI [of _ "w_env w"]) (simp add: draw_uuids world_at_def)
  have "triple (rs_cluster.growing_at rs ?t ?k (m * n)) (rs_Start (cluster_client base) draw_uuid (replicate m Tick))
      (\<lambda>_. rs_cluster.growing_at rs ?t (?k + m * n) 0)"
    using assms(3-5) ok assms(6-9) by (rule rs_cluster.grow_rounds)
  then obtain x w' where "rs_Start (cluster_client base) draw_uuid (replicate m Tick) w = (Ret x, w')"
      "rs_cluster.growing_at rs ?t (?k + m * n) 0 w'"
    using start by (rule tripleE)
  then show ?thesis by (auto simp: rs_cluster.growing_at_def growing_def world_at_def)
qed

theorem unmatched_template_grows_witness:
  "\<exists>w'. rs_Start (cluster_client ''http://api'') draw_uuid [Tick, Tick, Tick]
       (cluster_with [OReplicaSet (demo_rs (Some 2) fmempty)] demo_uuids) = (Ret (), w') \<and>
     card (dom (cluster_table w' ''pods'')) = 6 \<and> owned (fmupd ''app'' ''web'' fmempty) (cluster_table w' ''pods'') = {}"
proof -
  let ?rs = "demo_rs (Some 2) fmempty" and ?w = "cluster_with [OReplicaSet (demo_rs (Some 2) fmempty)] demo_uuids"
  have pods: "cluster_table ?w ''pods'' = Map.empty" by (rule ext) (simp add: demo_table)
  have rss: "cluster_table ?w ''replicasets'' = [''web'' \<mapsto> OReplicaSet ?rs]" by (rule ext) (simp add: demo_table)
  have fresh: "fresh_ids (coming_uuids ?w) (3 * 2) (cluster_table ?w)"
    by (simp add: fresh_ids_def pods upt_rec)
  have no: "\<not> rs_labelsMatch (rs_selector ?rs) (template_labels ?rs)"
    unfolding rs_labelsMatch_iff by (auto intro: exI [of _ "''app''"])
  have empty: "owned sel Map.empty = {}" for sel by (simp add: owned_def)
  then have none: "owned sel (cluster_table ?w ''pods'') = {}" for sel by (simp add: pods)
  have two: "nat (sint (2 :: int32)) = 2" by simp
  have "\<exists>w'. rs_Start (cluster_client ''http://api'') draw_uuid (replicate 3 Tick) ?w = (Ret (), w') \<and> cluster_good w' \<and>
    card (dom (cluster_table w' ''pods'')) = card (dom (cluster_table ?w ''pods'')) + 3 * 2 \<and>
    owned (rs_selector ?rs) (cluster_table w' ''pods'') = owned (rs_selector ?rs) (cluster_table ?w ''pods'') \<and>
    (\<forall>r. r \<noteq> ''pods'' \<longrightarrow> cluster_table w' r = cluster_table ?w r)"
    by (rule unmatched_template_grows [where d = 2, OF cluster_with_good [OF demo_storable] _ rss _ no _ _ _ _ fresh])
      (simp_all add: none empty pods named_def two)
  then show ?thesis by (auto simp: none empty pods numeral_3_eq_3)
qed

end
