(* ===== verification/Sha256.thy ===== *)
theory Sha256
  imports Codec
begin

unbundle bit_operations_syntax

text \<open>
  crypto/sha256 and encoding/hex, as far as the deployment controller uses them: the digest of a
  text (FIPS 180-4, on 32-bit words) written in hexadecimal. Strings are byte strings.
\<close>

type_synonym w32 = "32 word"

text \<open>The constants are fractional digits of roots of the first primes; the root is found bit by bit.\<close>

definition primes_to :: "nat \<Rightarrow> nat list" where
  "primes_to n = filter (\<lambda>p. list_all (\<lambda>d. p mod d \<noteq> 0) [2..<p]) [2..<Suc n]"

definition nat_root :: "nat \<Rightarrow> nat \<Rightarrow> nat" where
  "nat_root k n = foldr (\<lambda>i r. if (r + 2 ^ i) ^ k \<le> n then r + 2 ^ i else r) [0..<40] 0"

definition root_fraction :: "nat \<Rightarrow> nat \<Rightarrow> w32" where
  "root_fraction k p = word_of_nat (nat_root k (p * 2 ^ (32 * k)))"

definition sha_K :: "w32 list" where
  "sha_K = map (root_fraction 3) (primes_to 311)"

definition rotr :: "nat \<Rightarrow> w32 \<Rightarrow> w32" where
  "rotr n x = drop_bit n x OR push_bit (32 - n) x"

datatype sha_state = Sha w32 w32 w32 w32 w32 w32 w32 w32

definition sha_init :: sha_state where
  "sha_init = (let r = root_fraction 2 in Sha (r 2) (r 3) (r 5) (r 7) (r 11) (r 13) (r 17) (r 19))"

fun sha_round :: "w32 \<times> w32 \<Rightarrow> sha_state \<Rightarrow> sha_state" where
  "sha_round (k, w) (Sha a b c d e f g h) =
     (let s1 = rotr 6 e XOR rotr 11 e XOR rotr 25 e;
          ch = (e AND f) XOR (NOT e AND g);
          t1 = h + s1 + ch + k + w;
          s0 = rotr 2 a XOR rotr 13 a XOR rotr 22 a;
          maj = (a AND b) XOR (a AND c) XOR (b AND c)
      in Sha (t1 + (s0 + maj)) a b c (d + t1) e f g)"

text \<open>The message schedule, newest word first\<close>

fun sha_extend :: "nat \<Rightarrow> w32 list \<Rightarrow> w32 list" where
  "sha_extend 0 ws = ws"
| "sha_extend (Suc n) ws =
     (let x = ws ! 14; y = ws ! 1;
          s0 = rotr 7 x XOR rotr 18 x XOR drop_bit 3 x;
          s1 = rotr 17 y XOR rotr 19 y XOR drop_bit 10 y
      in sha_extend n ((ws ! 15 + s0 + ws ! 6 + s1) # ws))"

fun sha_add :: "sha_state \<Rightarrow> sha_state \<Rightarrow> sha_state" where
  "sha_add (Sha a b c d e f g h) (Sha a' b' c' d' e' f' g' h') =
     Sha (a + a') (b + b') (c + c') (d + d') (e + e') (f + f') (g + g') (h + h')"

definition sha_block :: "w32 list \<Rightarrow> sha_state \<Rightarrow> sha_state" where
  "sha_block ws st = sha_add st (fold sha_round (zip sha_K (rev (sha_extend 48 (rev ws)))) st)"

definition byte_of :: "char \<Rightarrow> w32" where
  "byte_of c = word_of_nat (of_char c)"

fun words_of :: "string \<Rightarrow> w32 list" where
  "words_of (a # b # c # d # s) =
     (push_bit 24 (byte_of a) OR push_bit 16 (byte_of b) OR push_bit 8 (byte_of c) OR byte_of d) # words_of s"
| "words_of _ = []"

definition bytes_of :: "nat \<Rightarrow> nat \<Rightarrow> string" where
  "bytes_of n x = rev (map (\<lambda>i. char_of (x div 256 ^ i mod 256)) [0..<n])"

definition sha_pad :: "string \<Rightarrow> string" where
  "sha_pad m = m @ [CHR 0x80] @ replicate ((119 - length m mod 64) mod 64) (CHR 0x00) @ bytes_of 8 (8 * length m)"

fun sha_blocks :: "nat \<Rightarrow> w32 list \<Rightarrow> sha_state \<Rightarrow> sha_state" where
  "sha_blocks 0 ws st = st"
| "sha_blocks (Suc n) ws st = sha_blocks n (drop 16 ws) (sha_block (take 16 ws) st)"

fun sha_bytes :: "sha_state \<Rightarrow> string" where
  "sha_bytes (Sha a b c d e f g h) = concat (map (\<lambda>x. bytes_of 4 (unat x)) [a, b, c, d, e, f, g, h])"

text \<open>\<open>sha256.Sum256\<close>; the number of blocks is that of the padded message.\<close>

definition Sum256 :: "string \<Rightarrow> string" where
  "Sum256 m = (let p = sha_pad m in sha_bytes (sha_blocks (length p div 64) (words_of p) sha_init))"

text \<open>\<open>hex.EncodeToString\<close>\<close>

definition hex_encode :: "string \<Rightarrow> string" where
  "hex_encode s = concat (map (\<lambda>c. [hex_char (of_char c div 16), hex_char (of_char c mod 16)]) s)"

lemma length_Sum256 [simp]: "length (Sum256 m) = 32"
proof -
  have "length (sha_bytes st) = 32" for st
    by (cases st) (simp add: bytes_of_def)
  then show ?thesis by (simp add: Sum256_def Let_def)
qed

lemma length_hex_encode [simp]: "length (hex_encode s) = 2 * length s"
  by (induction s) (simp_all add: hex_encode_def)

text \<open>The padded message is a whole number of blocks.\<close>

lemma sha_pad_blocks: "length (sha_pad m) mod 64 = 0"
proof -
  let ?r = "length m mod 64" and ?q = "length m div 64"
  have r: "?r < 64" by simp
  have "length (sha_pad m) mod 64 = (length m + 9 + (119 - ?r) mod 64) mod 64"
    by (simp add: sha_pad_def bytes_of_def add.assoc)
  also have "\<dots> = (length m + 9 + (119 - ?r)) mod 64" by (rule mod_add_right_eq)
  also have "length m + 9 + (119 - ?r) = 128 + 64 * ?q"
    using r mult_div_mod_eq [of 64 "length m"] by linarith
  finally show ?thesis by simp
qed

end
