(* ===== verification/DeploymentController.thy ===== *)
theory DeploymentController
  imports Tables Sha256
begin

text \<open>
  internal/controller/deployment/controller.go: for every deployment the replica set of its
  current pod template, found by the hash in an annotation or created, is set to the desired
  count, and every other replica set the selector matches is scaled to zero.
\<close>

section \<open>The controller\<close>

definition dep_labelsMatch :: "strmap \<Rightarrow> strmap \<Rightarrow> bool" where
  "dep_labelsMatch selector labels = list_all (\<lambda>k. label labels k = label selector k) (map_keys selector)"

text \<open>A template that cannot be marshalled hashes as the empty text; the error is dropped.\<close>

definition computeHash :: "PodTemplateSpec \<Rightarrow> string" where
  "computeHash template =
     hex_encode (Sum256 (case marshal PodTemplateSpec_codec template of None \<Rightarrow> [] | Some data \<Rightarrow> data))"

definition revision_key :: string where
  "revision_key = ''deployment.kubernetes.io/revision''"

definition new_rs :: "Deployment \<Rightarrow> string \<Rightarrow> ReplicaSet" where
  "new_rs d hash =
     ReplicaSet_zero\<lparr>
       rs_TypeMeta := \<lparr>tm_Kind = ''ReplicaSet'', tm_APIVersion = ''apps/v1''\<rparr>,
       rs_ObjectMeta := ObjectMeta_zero\<lparr>
         om_Name := om_Name (dep_ObjectMeta d) @ ''-'' @ take 10 hash,
         om_Namespace := om_Namespace (dep_ObjectMeta d),
         om_Labels := om_Labels (pts_ObjectMeta (dsp_Template (dep_Spec d))),
         om_Annotations := fmupd revision_key hash fmempty\<rparr>,
       rs_Spec := \<lparr>
         rssp_Replicas = Some (case dsp_Replicas (dep_Spec d) of None \<Rightarrow> 0 | Some n \<Rightarrow> n),
         rssp_Selector = dsp_Selector (dep_Spec d),
         rssp_Template = dsp_Template (dep_Spec d)\<rparr>\<rparr>"

definition createNewReplicaSet :: "'w Client \<Rightarrow> Deployment \<Rightarrow> string \<Rightarrow> ('w, ReplicaSet result) go" where
  "createNewReplicaSet c d hash =
     (if length hash < 10 then gpanic Index_out_of_range
      else gbind (CreateReplicaSet c (new_rs d hash)) (\<lambda>r. gret (case r of
             Some err \<Rightarrow> Inl err
           | None \<Rightarrow> Inr (new_rs d hash))))"

definition scale :: "int32 \<Rightarrow> ReplicaSet \<Rightarrow> ReplicaSet" where
  "scale n rs = rs\<lparr>rs_Spec := (rs_Spec rs)\<lparr>rssp_Replicas := Some n\<rparr>\<rparr>"

definition rs_name :: "ReplicaSet \<Rightarrow> string" where
  "rs_name rs = om_Name (rs_ObjectMeta rs)"

definition positive :: "ReplicaSet \<Rightarrow> bool" where
  "positive rs \<longleftrightarrow> (case rssp_Replicas (rs_Spec rs) of None \<Rightarrow> False | Some n \<Rightarrow> 0 < sint n)"

definition desired_replicas :: "Deployment \<Rightarrow> int32" where
  "desired_replicas d = (case dsp_Replicas (dep_Spec d) of None \<Rightarrow> 1 | Some n \<Rightarrow> n)"

text \<open>The last part of \<open>syncDeployment\<close>: set the new replica set, then the old ones.\<close>

definition dep_scale :: "'w Client \<Rightarrow> Deployment \<Rightarrow> ReplicaSet \<Rightarrow> ReplicaSet list \<Rightarrow> ('w, gerror option) go" where
  "dep_scale c d newRS ownedRS =
     (let desired = desired_replicas d;
          oldRS = filter (\<lambda>rs. rs_name rs \<noteq> rs_name newRS) ownedRS in
      gbind (if rssp_Replicas (rs_Spec newRS) \<noteq> Some desired
             then gbind (UpdateReplicaSet c (scale desired newRS)) (\<lambda>err. gret ())
             else gret ()) (\<lambda>_.
      gbind (for_each oldRS (\<lambda>old.
               if positive old then gbind (UpdateReplicaSet c (scale 0 old)) (\<lambda>err. gret ())
               else gret ())) (\<lambda>_.
      gret None)))"

definition revision :: "ReplicaSet \<Rightarrow> string" where
  "revision rs = label (om_Annotations (rs_ObjectMeta rs)) revision_key"

text \<open>\<open>syncDeployment\<close> from its step 2 on, with the replica sets it has listed\<close>

definition sync_listed :: "'w Client \<Rightarrow> Deployment \<Rightarrow> ReplicaSet list \<Rightarrow> ('w, gerror option) go" where
  "sync_listed c d allRS =
     (let ownedRS = filter (\<lambda>rs. dep_labelsMatch (ls_MatchLabels (dsp_Selector (dep_Spec d)))
                                   (om_Labels (rs_ObjectMeta rs))) allRS;
          podTemplateHash = computeHash (dsp_Template (dep_Spec d)) in
      case find (\<lambda>rs. revision rs = podTemplateHash) ownedRS of
        Some newRS \<Rightarrow> dep_scale c d newRS ownedRS
      | None \<Rightarrow>
          gbind (createNewReplicaSet c d podTemplateHash) (\<lambda>r. case r of
            Inl err \<Rightarrow> gret (Some (Errorf ''failed to create new RS''))
          | Inr newRS \<Rightarrow> dep_scale c d newRS (ownedRS @ [newRS])))"

definition syncDeployment :: "'w Client \<Rightarrow> Deployment \<Rightarrow> ('w, gerror option) go" where
  "syncDeployment c d =
     gbind (ListReplicaSets c) (\<lambda>r. case r of
       Inl err \<Rightarrow> gret (Some err)
     | Inr allRS \<Rightarrow> sync_listed c d (elems allRS))"

definition dep_reconcile :: "'w Client \<Rightarrow> ('w, gerror option) go" where
  "dep_reconcile c =
     gbind (ListDeployments c) (\<lambda>r. case r of
       Inl err \<Rightarrow> gret (Some err)
     | Inr deployments \<Rightarrow>
         gbind (for_each (elems deployments) (\<lambda>d. gbind (syncDeployment c d) (\<lambda>err. gret ())))
           (\<lambda>_. gret None))"

definition dep_Start :: "'w Client \<Rightarrow> wake list \<Rightarrow> ('w, unit) go" where
  "dep_Start c = run_loop (gbind (dep_reconcile c) (\<lambda>err. gret ()))"

section \<open>The specification\<close>

definition dep_selects :: "Deployment \<Rightarrow> ReplicaSet \<Rightarrow> bool" where
  "dep_selects d rs = dep_labelsMatch (ls_MatchLabels (dsp_Selector (dep_Spec d))) (om_Labels (rs_ObjectMeta rs))"

definition dep_hash :: "Deployment \<Rightarrow> string" where
  "dep_hash d = computeHash (dsp_Template (dep_Spec d))"

text \<open>The row of replica sets once the one named \<open>n0\<close> has been set to the desired count\<close>

definition dep_row :: "Deployment \<Rightarrow> string \<Rightarrow> (string \<Rightarrow> obj option) \<Rightarrow> string \<Rightarrow> obj option" where
  "dep_row d n0 row n =
     (case row n of
        Some (OReplicaSet rs) \<Rightarrow>
          Some (OReplicaSet
            (if n = n0 then scale (desired_replicas d) rs
             else if dep_selects d rs \<and> positive rs then scale 0 rs else rs))
      | x \<Rightarrow> x)"

text \<open>A replica set the deployment already has for its current template\<close>

definition current_rs :: "Deployment \<Rightarrow> (string \<Rightarrow> obj option) \<Rightarrow> string \<Rightarrow> bool" where
  "current_rs d row n \<longleftrightarrow> (\<exists>rs. row n = Some (OReplicaSet rs) \<and> dep_selects d rs \<and> revision rs = dep_hash d)"

definition new_rs_name :: "Deployment \<Rightarrow> string" where
  "new_rs_name d = om_Name (dep_ObjectMeta d) @ ''-'' @ take 10 (dep_hash d)"

definition dep_spec :: "Deployment \<Rightarrow> (string \<Rightarrow> obj option) \<Rightarrow> gerror option \<Rightarrow> (string \<Rightarrow> obj option) \<Rightarrow> bool" where
  "dep_spec d row err row' \<longleftrightarrow>
     (if \<exists>n. current_rs d row n then err = None \<and> (\<exists>n. current_rs d row n \<and> row' = dep_row d n row)
      else if row (new_rs_name d) = None then
        err = None \<and> row' = dep_row d (new_rs_name d) (row(new_rs_name d \<mapsto> OReplicaSet (new_rs d (dep_hash d))))
      else err \<noteq> None \<and> row' = row)"

section \<open>Scaling one replica set\<close>

lemma scale_simps [simp]:
  "rs_ObjectMeta (scale n rs) = rs_ObjectMeta rs" "rs_name (scale n rs) = rs_name rs"
  "revision (scale n rs) = revision rs" "dep_selects d (scale n rs) = dep_selects d rs"
  "rssp_Replicas (rs_Spec (scale n rs)) = Some n" "scale m (scale n rs) = scale m rs"
  "obj_name (OReplicaSet rs) = rs_name rs"
  by (simp_all add: scale_def rs_name_def revision_def dep_selects_def obj_name_def)

lemma scale_same: "rssp_Replicas (rs_Spec rs) = Some n \<Longrightarrow> scale n rs = rs"
  by (simp add: scale_def)

lemma settled_template:
  "settled_obj (OReplicaSet rs) \<Longrightarrow>
     cnrm PodTemplateSpec_codec (rssp_Template (rs_Spec rs)) = rssp_Template (rs_Spec rs)"
  "settled_obj (ODeployment d) \<Longrightarrow>
     cnrm PodTemplateSpec_codec (dsp_Template (dep_Spec d)) = dsp_Template (dep_Spec d)"
proof -
  assume "settled_obj (OReplicaSet rs)"
  then have "rssp_Template (rs_Spec (cnrm ReplicaSet_codec rs)) = rssp_Template (rs_Spec rs)"
    using settled_ok(3) by metis
  then show "cnrm PodTemplateSpec_codec (rssp_Template (rs_Spec rs)) = rssp_Template (rs_Spec rs)"
    by (simp del: PodTemplateSpec_nrm)
next
  assume "settled_obj (ODeployment d)"
  then have "dsp_Template (dep_Spec (cnrm Deployment_codec d)) = dsp_Template (dep_Spec d)"
    using settled_ok(4) by metis
  then show "cnrm PodTemplateSpec_codec (dsp_Template (dep_Spec d)) = dsp_Template (dep_Spec d)"
    by (simp del: PodTemplateSpec_nrm)
qed

lemma settled_ReplicaSetI:
  assumes "cok ReplicaSet_codec rs"
    and "cnrm PodTemplateSpec_codec (rssp_Template (rs_Spec rs)) = rssp_Template (rs_Spec rs)"
  shows "settled_obj (OReplicaSet rs)"
  using assms by (simp add: settled_iff marshal_def del: PodTemplateSpec_nrm)

lemma scale_settled: "settled_obj (OReplicaSet rs) \<Longrightarrow> settled_obj (OReplicaSet (scale n rs))"
  using settled_ok(3) [of rs] settled_template(1) [of rs]
  by (intro settled_ReplicaSetI) (simp_all add: scale_def codec_oks del: PodTemplateSpec_nrm)

lemma dep_replicas_settled:
  assumes "settled_obj (ODeployment d)"
  shows "settled_obj (ODeployment (d\<lparr>dep_Spec := (dep_Spec d)\<lparr>dsp_Replicas := n\<rparr>\<rparr>))"
proof -
  have "dep_Spec (cnrm Deployment_codec d) = dep_Spec d" using settled_ok(4) [OF assms] by simp
  then have "dsp_Strategy (cnrm DeploymentSpec_codec (dep_Spec d)) = dsp_Strategy (dep_Spec d)"
    by (simp del: DeploymentSpec_nrm)
  then show ?thesis
    using settled_template(2) [OF assms] settled_ok(4) [OF assms]
    by (simp add: settled_iff marshal_def codec_oks del: PodTemplateSpec_nrm DeploymentStrategy_nrm)
qed

lemma new_rs_settled: "settled_obj (ODeployment d) \<Longrightarrow> settled_obj (OReplicaSet (new_rs d hash))"
  using settled_ok(4) [of d] settled_template(2) [of d]
  by (intro settled_ReplicaSetI)
    (simp_all add: new_rs_def codec_oks ReplicaSet_zero_def ObjectMeta_zero_def del: PodTemplateSpec_nrm)


section \<open>The loop over the old replica sets\<close>

definition put_zero :: "ReplicaSet \<Rightarrow> (string \<Rightarrow> obj option) \<Rightarrow> string \<Rightarrow> obj option" where
  "put_zero rs row = (if positive rs then row(rs_name rs \<mapsto> OReplicaSet (scale 0 rs)) else row)"

lemma put_zeros_other: "n \<notin> rs_name ` set xs \<Longrightarrow> fold put_zero xs row n = row n"
  by (induction xs arbitrary: row) (auto simp: put_zero_def)

lemma put_zeros_mem:
  assumes "distinct (map rs_name xs)" and "rs \<in> set xs"
  shows "fold put_zero xs row (rs_name rs) =
    (if positive rs then Some (OReplicaSet (scale 0 rs)) else row (rs_name rs))"
  using assms
proof (induction xs arbitrary: row)
  case (Cons x xs)
  show ?case
  proof (cases "rs = x")
    case True
    with Cons.prems(1) show ?thesis by (simp add: put_zeros_other) (simp add: put_zero_def)
  next
    case False
    with Cons.prems have "rs \<in> set xs" "rs_name rs \<noteq> rs_name x" by (auto dest: sym)
    with Cons.IH [of "put_zero x row"] Cons.prems(1) show ?thesis by (simp add: put_zero_def)
  qed
qed simp

text \<open>A listing of the row of replica sets\<close>

definition listing :: "ReplicaSet list \<Rightarrow> (string \<Rightarrow> obj option) \<Rightarrow> bool" where
  "listing rss row \<longleftrightarrow> enumerates (map OReplicaSet rss) row \<and> named row"

lemma listing_row: "listing rss row \<Longrightarrow> rs \<in> set rss \<Longrightarrow> row (rs_name rs) = Some (OReplicaSet rs)"
  using enumerates_named(2) [of "map OReplicaSet rss" row "OReplicaSet rs"] by (simp add: listing_def)

lemma listing_mem:
  assumes "listing rss row" and "row n = Some x"
  obtains rs where "x = OReplicaSet rs" and "rs \<in> set rss" and "rs_name rs = n"
proof -
  from assms obtain rs where "x = OReplicaSet rs" "rs \<in> set rss"
    using enumerates_mem [of "map OReplicaSet rss" row n x] by (auto simp: listing_def)
  moreover have "obj_name x = n" using assms by (simp add: listing_def named_def)
  ultimately show ?thesis using that by simp
qed

lemma listing_distinct: "listing rss row \<Longrightarrow> distinct (map rs_name rss)"
  using enumerates_named(1) [of "map OReplicaSet rss" row] by (simp add: listing_def comp_def)

text \<open>What the loop makes of the row in which the new replica set has been set\<close>

lemma old_loop_row:
  assumes "listing rss row" and "\<And>n. n \<noteq> n0 \<Longrightarrow> row1 n = row n"
    and "row1 n0 = Some (OReplicaSet r0)" and "row' n0 = Some (OReplicaSet (scale (desired_replicas d) r0))"
    and "\<And>n. n \<noteq> n0 \<Longrightarrow> row' n = row n"
  shows "fold put_zero (filter (\<lambda>rs. rs_name rs \<noteq> n0) (filter (dep_selects d) rss)) row' = dep_row d n0 row1"
proof (rule ext)
  fix n
  let ?xs = "filter (\<lambda>rs. rs_name rs \<noteq> n0) (filter (dep_selects d) rss)"
  have dist: "distinct (map rs_name ?xs)"
    using listing_distinct [OF assms(1)] by (intro distinct_map_filter)
  show "fold put_zero ?xs row' n = dep_row d n0 row1 n"
  proof (cases "n = n0")
    case True
    then have "n \<notin> rs_name ` set ?xs" by auto
    then show ?thesis using True assms(3,4) by (simp add: put_zeros_other dep_row_def)
  next
    case False
    show ?thesis
    proof (cases "row n")
      case None
      then have "n \<notin> rs_name ` set ?xs" using listing_row [OF assms(1)] by fastforce
      then show ?thesis using False None assms(2,5) by (simp add: put_zeros_other dep_row_def)
    next
      case (Some x)
      obtain rs where x: "x = OReplicaSet rs" "rs \<in> set rss" "rs_name rs = n"
        using listing_mem [OF assms(1) Some] .
      show ?thesis
      proof (cases "dep_selects d rs")
        case True
        then have "rs \<in> set ?xs" using False x by simp
        from put_zeros_mem [OF dist this] True show ?thesis
          using False Some x assms(2,5) by (simp add: dep_row_def)
      next
        case no: False
        have "n \<notin> rs_name ` set ?xs"
        proof
          assume "n \<in> rs_name ` set ?xs"
          then obtain rs' where "rs' \<in> set rss" "dep_selects d rs'" "rs_name rs' = n" by auto
          with listing_row [OF assms(1), of rs'] Some x no show False by simp
        qed
        then show ?thesis using False Some x no assms(2,5) by (simp add: put_zeros_other dep_row_def)
      qed
    qed
  qed
qed

context rest
begin

text \<open>The table with another row of replica sets\<close>

abbreviation (input) rs_at :: "table \<Rightarrow> (string \<Rightarrow> obj option) \<Rightarrow> 'e \<Rightarrow> 'w \<Rightarrow> bool" where
  "rs_at t row e \<equiv> world_at good tab env (t(''replicasets'' := row)) e"

lemma UpdateReplicaSet_named:
  assumes "row (rs_name rs) \<noteq> None" and "settled_obj (OReplicaSet rs)" and "plain_name (rs_name rs)"
  shows "triple (rs_at t row e) (UpdateReplicaSet C rs)
    (\<lambda>err. rs_at t (row(rs_name rs \<mapsto> OReplicaSet rs)) e)"
proof -
  have "put_effect ''replicasets'' (rs_name rs) (OReplicaSet rs) (t(''replicasets'' := row)) =
      (200, t(''replicasets'' := row(rs_name rs \<mapsto> OReplicaSet rs)))"
    using assms(1,2) by (simp add: put_effect_def set_obj_def settled_iff del: obj_nrm.simps)
  with UpdateReplicaSet_effect [of rs "t(''replicasets'' := row)" e] assms(2,3) show ?thesis
    by (auto simp: settled_iff rs_name_def elim!: triple_post)
qed

lemma old_loop:
  assumes "\<And>rs. rs \<in> set xs \<Longrightarrow> row (rs_name rs) \<noteq> None \<and> settled_obj (OReplicaSet rs) \<and> plain_name (rs_name rs)"
  shows "triple (rs_at t row e)
    (for_each xs (\<lambda>old. if positive old then gbind (UpdateReplicaSet C (scale 0 old)) (\<lambda>err. gret ()) else gret ()))
    (\<lambda>_. rs_at t (fold put_zero xs row) e)"
proof -
  let ?I = "\<lambda>ys. rs_at t (fold put_zero ys row) e"
  have dom: "fold put_zero ys row n \<noteq> None" if "row n \<noteq> None" for ys n
    using that by (induction ys arbitrary: row) (auto simp: put_zero_def)
  have "triple (?I []) (for_each xs (\<lambda>old. if positive old
      then gbind (UpdateReplicaSet C (scale 0 old)) (\<lambda>err. gret ()) else gret ())) (\<lambda>_. ?I xs)"
  proof (rule triple_for_each_suffix)
    fix ys x zs assume "xs = ys @ x # zs"
    then have x: "row (rs_name x) \<noteq> None" "settled_obj (OReplicaSet x)" "plain_name (rs_name x)"
      using assms [of x] by simp_all
    have "triple (?I ys) (UpdateReplicaSet C (scale 0 x))
        (\<lambda>_. rs_at t ((fold put_zero ys row)(rs_name x \<mapsto> OReplicaSet (scale 0 x))) e)"
      using UpdateReplicaSet_named [of "fold put_zero ys row" "scale 0 x"] dom [OF x(1)] x(2,3)
      by (simp add: scale_settled)
    then show "triple (?I ys) (if positive x then gbind (UpdateReplicaSet C (scale 0 x)) (\<lambda>err. gret ())
        else gret ()) (\<lambda>_. ?I (ys @ [x]))"
      by (auto simp: put_zero_def intro!: triple_gret triple_gbind)
  qed
  then show ?thesis by simp
qed


lemma dep_scale_effect:
  assumes "listing rss row" and "\<And>n. n \<noteq> rs_name new \<Longrightarrow> row1 n = row n"
    and "row1 (rs_name new) = Some (OReplicaSet new)" and "settled_obj (OReplicaSet new)" and "plain_name (rs_name new)"
    and "\<And>rs. rs \<in> set rss \<Longrightarrow> settled_obj (OReplicaSet rs) \<and> plain_name (rs_name rs)"
    and "filter (\<lambda>rs. rs_name rs \<noteq> rs_name new) ownedRS =
      filter (\<lambda>rs. rs_name rs \<noteq> rs_name new) (filter (dep_selects d) rss)"
  shows "triple (rs_at t row1 e) (dep_scale C d new ownedRS)
    (\<lambda>err w. err = None \<and> rs_at t (dep_row d (rs_name new) row1) e w)"
proof -
  let ?n = "desired_replicas d"
  let ?row = "row1(rs_name new \<mapsto> OReplicaSet (scale ?n new))"
  let ?old = "filter (\<lambda>rs. rs_name rs \<noteq> rs_name new) (filter (dep_selects d) rss)"
  have one: "triple (rs_at t row1 e)
      (if rssp_Replicas (rs_Spec new) \<noteq> Some ?n
       then gbind (UpdateReplicaSet C (scale ?n new)) (\<lambda>err. gret ()) else gret ()) (\<lambda>_. rs_at t ?row e)"
  proof (cases "rssp_Replicas (rs_Spec new) = Some ?n")
    case True
    then show ?thesis using assms(3) by (auto simp: scale_same fun_upd_idem intro!: triple_gret)
  next
    case False
    have "triple (rs_at t row1 e) (UpdateReplicaSet C (scale ?n new)) (\<lambda>_. rs_at t ?row e)"
      using UpdateReplicaSet_named [of row1 "scale ?n new"] assms(3-5) by (simp add: scale_settled)
    with False show ?thesis by (auto intro!: triple_gret triple_gbind)
  qed
  have two: "triple (rs_at t ?row e)
      (for_each ?old (\<lambda>old. if positive old then gbind (UpdateReplicaSet C (scale 0 old)) (\<lambda>err. gret ()) else gret ()))
      (\<lambda>_. rs_at t (dep_row d (rs_name new) row1) e)"
  proof -
    have "?row (rs_name rs) \<noteq> None" if "rs \<in> set ?old" for rs
      using that assms(2) listing_row [OF assms(1)] by simp
    with old_loop [of ?old ?row t e] assms(6) show ?thesis
      using old_loop_row [OF assms(1,2,3), of ?row d] assms(2) by simp
  qed
  show ?thesis
    unfolding dep_scale_def Let_def assms(7)
    by (rule triple_gbind [OF one], rule triple_gbind [OF two], rule triple_gret) simp
qed

lemma sync_current:
  assumes "listing rss row" and "\<And>rs. rs \<in> set rss \<Longrightarrow> settled_obj (OReplicaSet rs) \<and> plain_name (rs_name rs)"
    and "find (\<lambda>rs. revision rs = dep_hash d) (filter (dep_selects d) rss) = Some new"
  shows "triple (rs_at t row e) (dep_scale C d new (filter (dep_selects d) rss))
    (\<lambda>err w. \<exists>row'. dep_spec d row err row' \<and> rs_at t row' e w)"
proof -
  from assms(3) have new: "new \<in> set rss" "dep_selects d new" "revision new = dep_hash d"
    using find_mem [OF assms(3)] by simp_all
  have row: "row (rs_name new) = Some (OReplicaSet new)" using assms(1) new(1) by (rule listing_row)
  then have cur: "current_rs d row (rs_name new)" using new by (simp add: current_rs_def)
  have "triple (rs_at t row e) (dep_scale C d new (filter (dep_selects d) rss))
    (\<lambda>err w. err = None \<and> rs_at t (dep_row d (rs_name new) row) e w)"
    using assms(2) new(1) by (intro dep_scale_effect [OF assms(1), where ?row1.0 = row]) (auto simp: row)
  then show ?thesis using cur by (auto simp: dep_spec_def elim!: triple_post)
qed

lemma sync_create:
  assumes "listing rss row" and "\<And>rs. rs \<in> set rss \<Longrightarrow> settled_obj (OReplicaSet rs) \<and> plain_name (rs_name rs)"
    and "\<nexists>n. current_rs d row n" and "settled_obj (ODeployment d)" and "plain_name (new_rs_name d)"
  shows "triple (rs_at t row e)
    (gbind (createNewReplicaSet C d (dep_hash d)) (\<lambda>r. case r of
                Inl err \<Rightarrow> gret (Some (Errorf ''failed to create new RS''))
              | Inr newRS \<Rightarrow> dep_scale C d newRS (filter (dep_selects d) rss @ [newRS])))
    (\<lambda>err w. \<exists>row'. dep_spec d row err row' \<and> rs_at t row' e w)"
proof -
  let ?new = "new_rs d (dep_hash d)" and ?n = "new_rs_name d"
  have name: "rs_name ?new = ?n" by (simp add: rs_name_def new_rs_def new_rs_name_def)
  have len: "\<not> length (dep_hash d) < 10" by (simp add: dep_hash_def computeHash_def)
  have set: "settled_obj (OReplicaSet ?new)" using assms(4) by (rule new_rs_settled)
  have nonempty: "?n \<noteq> []" using assms(5) by (simp add: plain_name_def)
  let ?t = "t(''replicasets'' := row)"
  have eff: "post_effect ''replicasets'' (OReplicaSet ?new) ?t =
      (if row ?n = None then (201, t(''replicasets'' := row(?n \<mapsto> OReplicaSet ?new))) else (409, ?t))"
    using set nonempty name by (simp add: post_effect_def set_obj_def settled_iff del: obj_nrm.simps)
  have post: "triple (rs_at t row e) (CreateReplicaSet C ?new)
     (\<lambda>err w. if row ?n = None then err = None \<and> rs_at t (row(?n \<mapsto> OReplicaSet ?new)) e w
        else err \<noteq> None \<and> rs_at t row e w)"
    using CreateReplicaSet_effect [of ?new ?t e] set unfolding eff
    by (auto simp: settled_iff send_result_def elim!: triple_post split: if_splits)
  show ?thesis
    unfolding createNewReplicaSet_def if_not_P [OF len] gbind_assoc gbind_gret
  proof (rule triple_gbind [OF post])
    fix r :: "gerror option"
    show "triple (\<lambda>w. if row ?n = None then r = None \<and> rs_at t (row(?n \<mapsto> OReplicaSet ?new)) e w
        else r \<noteq> None \<and> rs_at t row e w)
      (case case r of None \<Rightarrow> Inr ?new | Some err \<Rightarrow> Inl err of
         Inl err \<Rightarrow> gret (Some (Errorf ''failed to create new RS''))
       | Inr newRS \<Rightarrow> dep_scale C d newRS (filter (dep_selects d) rss @ [newRS]))
      (\<lambda>err w. \<exists>row'. dep_spec d row err row' \<and> rs_at t row' e w)"
    proof (cases "row ?n")
      case None
      show ?thesis
      proof (cases r)
        case r: None
        have "triple (rs_at t (row(?n \<mapsto> OReplicaSet ?new)) e)
            (dep_scale C d ?new (filter (dep_selects d) rss @ [?new]))
            (\<lambda>err w. err = None \<and> rs_at t (dep_row d (rs_name ?new) (row(?n \<mapsto> OReplicaSet ?new))) e w)"
          using assms(2,5) set by (intro dep_scale_effect [OF assms(1)]) (auto simp: name)
        then show ?thesis
          using None assms(3) r by (auto simp: dep_spec_def name elim!: triple_weaken)
      qed (use None in \<open>simp add: triple_def\<close>)
    next
      case (Some x)
      then show ?thesis
        using assms(3) by (cases r) (auto simp: triple_def gret_run dep_spec_def)
    qed
  qed
qed

lemma sync_listed_effect:
  assumes "listing rss row" and "\<And>rs. rs \<in> set rss \<Longrightarrow> settled_obj (OReplicaSet rs) \<and> plain_name (rs_name rs)"
    and "settled_obj (ODeployment d)" and "plain_name (new_rs_name d)"
  shows "triple (rs_at t row e) (sync_listed C d rss)
    (\<lambda>err w. \<exists>row'. dep_spec d row err row' \<and> rs_at t row' e w)"
proof -
  let ?own = "filter (dep_selects d) rss"
  have body: "sync_listed C d rss = (case find (\<lambda>rs. revision rs = dep_hash d) ?own of
        Some newRS \<Rightarrow> dep_scale C d newRS ?own
      | None \<Rightarrow>
          gbind (createNewReplicaSet C d (dep_hash d)) (\<lambda>r. case r of
            Inl err \<Rightarrow> gret (Some (Errorf ''failed to create new RS''))
          | Inr newRS \<Rightarrow> dep_scale C d newRS (?own @ [newRS])))"
    unfolding sync_listed_def Let_def dep_hash_def dep_selects_def [abs_def] ..
  show ?thesis
  proof (cases "find (\<lambda>rs. revision rs = dep_hash d) ?own")
    case None
    have "\<nexists>n. current_rs d row n"
      using None listing_mem [OF assms(1)] by (fastforce simp: current_rs_def find_None_iff)
    with None sync_create [OF assms(1,2) _ assms(3,4)] show ?thesis unfolding body by simp
  next
    case (Some new)
    with sync_current [OF assms(1,2) Some] show ?thesis unfolding body by simp
  qed
qed

lemma syncDeployment_effect:
  assumes "named (t ''replicasets'')" and "settled_obj (ODeployment d)" and "plain_name (new_rs_name d)"
    and "\<And>n. t ''replicasets'' n \<noteq> None \<Longrightarrow> plain_name n"
  shows "triple (at_table t e) (syncDeployment C d)
    (\<lambda>err w. \<exists>row'. dep_spec d (t ''replicasets'') err row' \<and> rs_at t row' e w)"
  unfolding syncDeployment_def
proof (rule triple_gbind [OF ListReplicaSets_effect], rule triple_listed, rule tripleI)
  fix r :: "ReplicaSet slice result" and rss and w
  assume r: "r = Inr (slice_of rss)" and en: "enumerates (map OReplicaSet rss) (t ''replicasets'')"
    and w: "at_table t e w"
  have l: "listing rss (t ''replicasets'')" using en assms(1) by (simp add: listing_def)
  have ok: "settled_obj (OReplicaSet rs) \<and> plain_name (rs_name rs)" if "rs \<in> set rss" for rs
    using at_entry [OF w listing_row [OF l that]] assms(4) listing_row [OF l that] by auto
  show "\<exists>x w'. (case r of Inl err \<Rightarrow> gret (Some err) | Inr allRS \<Rightarrow> sync_listed C d (elems allRS)) w = (Ret x, w') \<and>
      (\<exists>row'. dep_spec d (t ''replicasets'') x row' \<and> rs_at t row' e w')"
    using tripleD [OF sync_listed_effect [OF l ok assms(2,3)], of t e w] w by (simp add: r)
qed

end

section \<open>What a synchronization does to a row\<close>

text \<open>No replica set disappears and none changes in anything but its count.\<close>

definition only_scaled :: "(string \<Rightarrow> obj option) \<Rightarrow> (string \<Rightarrow> obj option) \<Rightarrow> bool" where
  "only_scaled row row' \<longleftrightarrow> (\<forall>n rs. row n = Some (OReplicaSet rs) \<longrightarrow>
     row' n = Some (OReplicaSet rs) \<or> (\<exists>k. row' n = Some (OReplicaSet (scale k rs))))"

lemma only_scaled_refl: "only_scaled row row"
  by (simp add: only_scaled_def)

lemma only_scaled_trans: "only_scaled a b \<Longrightarrow> only_scaled b c \<Longrightarrow> only_scaled a c"
  unfolding only_scaled_def by (metis scale_simps(6))

lemma hex_plain: "list_all name_char (hex_encode s)"
proof -
  have digit: "name_char (hex_char k)" if "k < 16" for k
    using that by (auto simp: hex_char_def name_char_def Let_def)
  have "(of_char c :: nat) div 16 < 16" for c :: char
  proof -
    have "(of_char c :: nat) < 256" by (cases c) (simp add: of_char_def)
    then show ?thesis by linarith
  qed
  with digit show ?thesis by (induction s) (simp_all add: hex_encode_def)
qed

lemma new_rs_name_plain: "plain_name (om_Name (dep_ObjectMeta d)) \<Longrightarrow> plain_name (new_rs_name d)"
  using hex_plain [of "Sum256 t" for t]
  by (auto simp: plain_name_def new_rs_name_def dep_hash_def computeHash_def list_all_iff name_char_def
      dest: in_set_takeD)

lemma new_rs_simps [simp]:
  "rs_name (new_rs d h) = om_Name (dep_ObjectMeta d) @ ''-'' @ take 10 h"
  "revision (new_rs d h) = h"
  "dep_selects d (new_rs d' h) = dep_labelsMatch (ls_MatchLabels (dsp_Selector (dep_Spec d)))
     (om_Labels (pts_ObjectMeta (dsp_Template (dep_Spec d'))))"
  by (simp_all add: rs_name_def revision_def dep_selects_def new_rs_def label_def)

lemma dep_row_named: "named row \<Longrightarrow> named (dep_row d n0 row)"
  unfolding named_def dep_row_def by (fastforce split: option.splits obj.splits if_splits)

lemma dep_row_dom: "dep_row d n0 row n = None \<longleftrightarrow> row n = None"
  by (auto simp: dep_row_def split: option.splits obj.splits)

lemma dep_row_scaled: "only_scaled row (dep_row d n0 row)"
  by (auto simp: only_scaled_def dep_row_def)

lemma dep_spec_keeps:
  assumes "dep_spec d row err row'" and "tidy row" and "plain_name (new_rs_name d)"
  shows "tidy row'" and "only_scaled row row'"
proof -
  let ?new = "row(new_rs_name d \<mapsto> OReplicaSet (new_rs d (dep_hash d)))"
  have "named ?new" using assms(2) by (simp add: tidy_def named_def new_rs_name_def)
  then have "tidy (dep_row d n row)" "tidy (dep_row d n ?new)" for n
    using assms(2,3) by (auto simp: tidy_def dep_row_named dep_row_dom)
  with assms show "tidy row'" by (auto simp: dep_spec_def split: if_splits)
  have "only_scaled row ?new" if "row (new_rs_name d) = None"
    using that by (auto simp: only_scaled_def)
  with assms(1) show "only_scaled row row'"
    by (auto simp: dep_spec_def only_scaled_refl intro: dep_row_scaled only_scaled_trans split: if_splits)
qed

text \<open>Scaling keeps labels and revision, so it keeps which replica sets are current.\<close>

lemma current_dep_row: "current_rs d (dep_row d' n0 row) n \<longleftrightarrow> current_rs d row n"
  by (auto simp: current_rs_def dep_row_def split: option.splits obj.splits)

lemma dep_row_idem: "dep_row d n0 (dep_row d n0 row) = dep_row d n0 row"
  by (rule ext) (auto simp: dep_row_def positive_def split: option.splits obj.splits)


section \<open>Rounds of the loop\<close>

context rest
begin

lemma sync_keeps:
  assumes "tidy (t ''replicasets'')" and "settled_obj (ODeployment d)" and "plain_name (om_Name (dep_ObjectMeta d))"
  shows "triple (at_table t e) (syncDeployment C d)
    (\<lambda>_ w. \<exists>row'. tidy row' \<and> only_scaled (t ''replicasets'') row' \<and> rs_at t row' e w)"
proof -
  have n: "plain_name (new_rs_name d)" using assms(3) by (rule new_rs_name_plain)
  have "triple (at_table t e) (syncDeployment C d)
      (\<lambda>err w. \<exists>row'. dep_spec d (t ''replicasets'') err row' \<and> rs_at t row' e w)"
    using assms n by (intro syncDeployment_effect) (simp_all add: tidy_def)
  then show ?thesis
    by (rule triple_post) (use dep_spec_keeps [OF _ assms(1) n] in blast)
qed

text \<open>The table with a row of replica sets grown from the one at the start\<close>

definition scaled_at :: "table \<Rightarrow> 'e \<Rightarrow> 'w \<Rightarrow> bool" where
  "scaled_at t e w \<longleftrightarrow> (\<exists>row. tidy row \<and> only_scaled (t ''replicasets'') row \<and> rs_at t row e w)"

lemma sync_scaled:
  assumes "settled_obj (ODeployment d)" and "plain_name (om_Name (dep_ObjectMeta d))"
  shows "triple (scaled_at t e) (syncDeployment C d) (\<lambda>_. scaled_at t e)"
  unfolding scaled_at_def
proof (rule triple_ex, rule tripleI)
  fix row w assume w: "tidy row \<and> only_scaled (t ''replicasets'') row \<and> rs_at t row e w"
  then show "\<exists>x w'. syncDeployment C d w = (Ret x, w') \<and>
      (\<exists>row. tidy row \<and> only_scaled (t ''replicasets'') row \<and> rs_at t row e w')"
    using tripleD [OF sync_keeps [of "t(''replicasets'' := row)", OF _ assms], of e w]
    by (fastforce intro: only_scaled_trans)
qed

lemma dep_reconcile_scaled:
  assumes "tidy (t ''deployments'')"
  shows "triple (scaled_at t e) (dep_reconcile C) (\<lambda>err w. err = None \<and> scaled_at t e w)"
  unfolding dep_reconcile_def
proof (rule triple_gbind [where R = "\<lambda>r w. scaled_at t e w \<and> lists ODeployment (t ''deployments'') r"])
  have "triple (rs_at t row e) (ListDeployments C) (\<lambda>r w. rs_at t row e w \<and> lists ODeployment (t ''deployments'') r)" for row
    using ListDeployments_effect [of "t(''replicasets'' := row)" e] by simp
  then show "triple (scaled_at t e) (ListDeployments C) (\<lambda>r w. scaled_at t e w \<and> lists ODeployment (t ''deployments'') r)"
    unfolding scaled_at_def triple_def by blast
  fix r :: "Deployment slice result"
  show "triple (\<lambda>w. scaled_at t e w \<and> lists ODeployment (t ''deployments'') r)
    (case r of Inl err \<Rightarrow> gret (Some err)
     | Inr deployments \<Rightarrow>
         gbind (for_each (elems deployments) (\<lambda>d. gbind (syncDeployment C d) (\<lambda>err. gret ()))) (\<lambda>_. gret None))
    (\<lambda>err w. err = None \<and> scaled_at t e w)"
  proof (rule triple_listed, rule tripleI)
    fix ds w assume r: "r = Inr (slice_of ds)" and en: "enumerates (map ODeployment ds) (t ''deployments'')"
      and w: "scaled_at t e w"
    have row: "t ''deployments'' (om_Name (dep_ObjectMeta d)) = Some (ODeployment d)" if "d \<in> set ds" for d
      using enumerates_named(2) [OF en, of "ODeployment d"] assms that by (simp add: tidy_def obj_name_def)
    have ok: "settled_obj (ODeployment d) \<and> plain_name (om_Name (dep_ObjectMeta d))" if "d \<in> set ds" for d
    proof -
      from w obtain row' where "rs_at t row' e w" by (auto simp: scaled_at_def)
      from at_entry [OF this, of "''deployments''"] row [OF that] assms show ?thesis by (auto simp: tidy_def)
    qed
    have "triple (scaled_at t e) (for_each ds (\<lambda>d. gbind (syncDeployment C d) (\<lambda>err. gret ()))) (\<lambda>_. scaled_at t e)"
      using ok by (intro triple_for_each triple_gbind [OF sync_scaled] triple_gret) auto
    then have "triple (scaled_at t e) (gbind (for_each ds (\<lambda>d. gbind (syncDeployment C d) (\<lambda>err. gret ()))) (\<lambda>_. gret None))
        (\<lambda>err w. err = None \<and> scaled_at t e w)"
      by (rule triple_gbind) (simp add: triple_gret)
    from tripleD [OF this w] r
    show "\<exists>x w'. (case r of Inl err \<Rightarrow> gret (Some err)
       | Inr deployments \<Rightarrow>
           gbind (for_each (elems deployments) (\<lambda>d. gbind (syncDeployment C d) (\<lambda>err. gret ()))) (\<lambda>_. gret None)) w =
         (Ret x, w') \<and> x = None \<and> scaled_at t e w'" by simp
  qed
qed

lemma dep_Start_scaled:
  assumes "tidy (t ''deployments'')" and "tidy (t ''replicasets'')"
  shows "triple (at_table t e) (dep_Start C ws) (\<lambda>_. scaled_at t e)"
  unfolding dep_Start_def
proof (rule triple_pre [OF triple_run_loop])
  show "triple (scaled_at t e) (gbind (dep_reconcile C) (\<lambda>err. gret ())) (\<lambda>_. scaled_at t e)"
    by (rule triple_gbind [OF dep_reconcile_scaled [of t, OF assms(1)]]) (auto intro: triple_gret)
  show "scaled_at t e w" if "at_table t e w" for w
    using that assms(2) only_scaled_refl unfolding scaled_at_def by (metis fun_upd_triv)
qed

end

section \<open>A small cluster\<close>

text \<open>One deployment \<open>web\<close>, selecting \<open>app=web\<close>, with the given template labels and count\<close>

definition demo_dep :: "int32 option \<Rightarrow> strmap \<Rightarrow> Deployment" where
  "demo_dep n labels = Deployment_zero\<lparr>
     dep_ObjectMeta := ObjectMeta_zero\<lparr>om_Name := ''web''\<rparr>,
     dep_Spec := (dep_Spec Deployment_zero)\<lparr>dsp_Replicas := n,
       dsp_Selector := \<lparr>ls_MatchLabels = fmupd ''app'' ''web'' fmempty\<rparr>,
       dsp_Template := \<lparr>pts_ObjectMeta = ObjectMeta_zero\<lparr>om_Labels := labels\<rparr>, pts_Spec = PodSpec_zero\<rparr>\<rparr>\<rparr>"

lemma demo_dep_settled: "settled_obj (ODeployment (demo_dep n labels))"
  by (simp add: settled_iff marshal_def codec_oks demo_dep_def Deployment_zero_def DeploymentSpec_zero_def
      DeploymentStrategy_zero_def ObjectMeta_zero_def PodSpec_zero_def PodTemplateSpec_zero_def)

lemma demo_dep_simps [simp]:
  "om_Name (dep_ObjectMeta (demo_dep n labels)) = ''web''"
  "ls_MatchLabels (dsp_Selector (dep_Spec (demo_dep n labels))) = fmupd ''app'' ''web'' fmempty"
  "dsp_Template (dep_Spec (demo_dep n labels)) = \<lparr>pts_ObjectMeta = ObjectMeta_zero\<lparr>om_Labels := labels\<rparr>, pts_Spec = PodSpec_zero\<rparr>"
  "dsp_Replicas (dep_Spec (demo_dep n labels)) = n"
  by (simp_all add: demo_dep_def)

lemmas demo_dep_good = demo_good [of "[ODeployment (demo_dep n labels)]" for n labels,
  unfolded demo_objects_single, OF demo_dep_settled]

lemma demo_dep_table:
  "cluster_table (cluster_with [ODeployment (demo_dep n labels)] e) r =
   (if r = ''deployments'' then [''web'' \<mapsto> ODeployment (demo_dep n labels)] else Map.empty)"
  by (simp add: demo_single [OF demo_dep_settled] obj_name_def)

lemma demo_dep_tidy:
  "tidy (cluster_table (cluster_with [ODeployment (demo_dep n labels)] e) r)"
  by (auto simp: demo_dep_table tidy_def named_def obj_name_def plain_name_def name_char_def)


text \<open>A deployment with nothing but a name\<close>

definition demo_any :: Deployment where
  "demo_any = Deployment_zero\<lparr>dep_ObjectMeta := ObjectMeta_zero\<lparr>om_Name := ''any''\<rparr>\<rparr>"

lemma demo_any_settled: "settled_obj (ODeployment demo_any)"
  by (simp add: demo_any_def settled_iff marshal_def codec_oks Deployment_zero_def DeploymentSpec_zero_def
      DeploymentStrategy_zero_def ObjectMeta_zero_def PodSpec_zero_def PodTemplateSpec_zero_def)

lemmas demo_any_good = demo_good [of "[ODeployment demo_any]", unfolded demo_objects_single, OF demo_any_settled]

lemma demo_any_table:
  "cluster_table (cluster_with [ODeployment demo_any] e) r =
   (if r = ''deployments'' then [''any'' \<mapsto> ODeployment demo_any] else Map.empty)"
  by (simp add: demo_single [OF demo_any_settled] obj_name_def) (simp add: demo_any_def)

section \<open>Properties\<close>

lemma cluster_sync:
  assumes "cluster_good w" and "tidy (cluster_table w ''replicasets'')"
    and "settled_obj (ODeployment d)" and "plain_name (om_Name (dep_ObjectMeta d))"
  shows "\<exists>err w'. syncDeployment (cluster_client base) d w = (Ret err, w') \<and> cluster_good w' \<and>
    dep_spec d (cluster_table w ''replicasets'') err (cluster_table w' ''replicasets'') \<and>
    cluster_table w' = (cluster_table w)(''replicasets'' := cluster_table w' ''replicasets'') \<and> w_env w' = w_env w"
proof -
  have at: "world_at cluster_good cluster_table w_env (cluster_table w) (w_env w) w"
    using assms(1) by (simp add: world_at_def)
  show ?thesis
    using tripleD [OF cluster.syncDeployment_effect [of "cluster_table w" d], OF _ assms(3) _ _ at, of base]
      assms(2) new_rs_name_plain [OF assms(4)]
    by (fastforce simp: world_at_def tidy_def)
qed

text \<open>C7: Synchronizing a deployment meets its specification: a replica set it selects whose revision is
  the hash of the current template is set to the desired count and every other one it selects
  that has replicas is set to zero; without one, it is created under the deployment's name and
  the first ten digits of the hash; if that name is taken the call fails and changes nothing.
  Nothing but replica sets changes.\<close>

theorem sync_meets_spec:
  assumes "cluster_good w" and "tidy (cluster_table w ''replicasets'')"
    and "cluster_table w ''deployments'' k = Some (ODeployment d)" and "plain_name (om_Name (dep_ObjectMeta d))"
  shows "\<exists>err w'. syncDeployment (cluster_client base) d w = (Ret err, w') \<and> cluster_good w' \<and>
    dep_spec d (cluster_table w ''replicasets'') err (cluster_table w' ''replicasets'') \<and>
    (\<forall>r. r \<noteq> ''replicasets'' \<longrightarrow> cluster_table w' r = cluster_table w r)"
proof -
  have "settled_obj (ODeployment d)" using cluster.entry [OF assms(1,3)] by simp
  from cluster_sync [OF assms(1,2) this assms(4), of base] obtain err w'
    where "syncDeployment (cluster_client base) d w = (Ret err, w')" "cluster_good w'"
      "dep_spec d (cluster_table w ''replicasets'') err (cluster_table w' ''replicasets'')"
    and t: "cluster_table w' = (cluster_table w)(''replicasets'' := cluster_table w' ''replicasets'')"
    by (elim exE conjE)
  moreover have "cluster_table w' r = cluster_table w r" if "r \<noteq> ''replicasets''" for r
    using that by (subst t) simp
  ultimately show ?thesis by blast
qed

theorem sync_meets_spec_witness:
  "\<exists>err w'. syncDeployment (cluster_client ''http://api'') (demo_dep (Some 3) (fmupd ''app'' ''web'' fmempty))
      (cluster_with [ODeployment (demo_dep (Some 3) (fmupd ''app'' ''web'' fmempty))] ()) = (Ret err, w') \<and>
     dep_spec (demo_dep (Some 3) (fmupd ''app'' ''web'' fmempty)) Map.empty err (cluster_table w' ''replicasets'')"
  using sync_meets_spec [OF demo_dep_good demo_dep_tidy,
      of "Some 3" "fmupd ''app'' ''web'' fmempty" "()" "''web''" _ "''http://api''"]
  by (fastforce simp: demo_dep_table plain_name_def name_char_def)

text \<open>C27: A deployment whose selector matches its own template settles in one step: unless two replica
  sets carry the current revision or the new name is taken, the first synchronization succeeds,
  leaves exactly one replica set with the current revision, at the desired count, every other
  selected one without replicas, and the second synchronization changes nothing.\<close>

theorem sync_settles:
  assumes "cluster_good w" and "tidy (cluster_table w ''replicasets'')"
    and "cluster_table w ''deployments'' k = Some (ODeployment d)" and "plain_name (om_Name (dep_ObjectMeta d))"
    and "dep_labelsMatch (ls_MatchLabels (dsp_Selector (dep_Spec d)))
          (om_Labels (pts_ObjectMeta (dsp_Template (dep_Spec d))))"
    and "\<forall>m n. current_rs d (cluster_table w ''replicasets'') m \<longrightarrow> current_rs d (cluster_table w ''replicasets'') n \<longrightarrow> m = n"
    and "(\<exists>n. current_rs d (cluster_table w ''replicasets'') n) \<or> cluster_table w ''replicasets'' (new_rs_name d) = None"
  shows "\<exists>w1 w2 n0. syncDeployment (cluster_client base) d w = (Ret None, w1) \<and>
    syncDeployment (cluster_client base) d w1 = (Ret None, w2) \<and> cluster_table w2 = cluster_table w1 \<and>
    (\<forall>n rs. cluster_table w1 ''replicasets'' n = Some (OReplicaSet rs) \<longrightarrow> dep_selects d rs \<longrightarrow>
       (if n = n0 then revision rs = dep_hash d \<and> rssp_Replicas (rs_Spec rs) = Some (desired_replicas d)
        else revision rs \<noteq> dep_hash d \<and> \<not> positive rs)) \<and> current_rs d (cluster_table w1 ''replicasets'') n0"
proof -
  let ?row = "cluster_table w ''replicasets''"
  have d: "settled_obj (ODeployment d)" using cluster.entry [OF assms(1,3)] by simp
  obtain err w1 where run1: "syncDeployment (cluster_client base) d w = (Ret err, w1)" "cluster_good w1"
    and spec1: "dep_spec d ?row err (cluster_table w1 ''replicasets'')"
    using cluster_sync [OF assms(1,2) d assms(4), of base] by (elim exE conjE)
  have "\<exists>n0 row. err = None \<and> cluster_table w1 ''replicasets'' = dep_row d n0 row \<and>
      (\<forall>n. current_rs d row n \<longleftrightarrow> n = n0)"
  proof (cases "\<exists>n. current_rs d ?row n")
    case True
    with spec1 assms(6) show ?thesis unfolding dep_spec_def by metis
  next
    case False
    with assms(7) have none: "?row (new_rs_name d) = None" by simp
    let ?new = "?row(new_rs_name d \<mapsto> OReplicaSet (new_rs d (dep_hash d)))"
    have "current_rs d ?new n \<longleftrightarrow> n = new_rs_name d" for n
      using False assms(5) by (auto simp: current_rs_def)
    with spec1 False none show ?thesis unfolding dep_spec_def by (metis (no_types, lifting))
  qed
  then obtain n0 row where one: "err = None" "cluster_table w1 ''replicasets'' = dep_row d n0 row"
    "\<And>n. current_rs d row n \<longleftrightarrow> n = n0" by blast
  have cur: "current_rs d (cluster_table w1 ''replicasets'') n \<longleftrightarrow> n = n0" for n
    using one(2,3) by (simp add: current_dep_row)
  have tidy1: "tidy (cluster_table w1 ''replicasets'')"
    using dep_spec_keeps(1) [OF spec1 assms(2) new_rs_name_plain [OF assms(4)]] .
  obtain err2 w2 where run2: "syncDeployment (cluster_client base) d w1 = (Ret err2, w2)"
    and spec2: "dep_spec d (cluster_table w1 ''replicasets'') err2 (cluster_table w2 ''replicasets'')"
    and t2: "cluster_table w2 = (cluster_table w1)(''replicasets'' := cluster_table w2 ''replicasets'')"
    using cluster_sync [OF run1(2) tidy1 d assms(4), of base] by (elim exE conjE)
  have "err2 = None" "cluster_table w2 ''replicasets'' = cluster_table w1 ''replicasets''"
    using spec2 cur one(2) dep_row_idem by (auto simp: dep_spec_def)
  with t2 have same: "err2 = None" "cluster_table w2 = cluster_table w1" by (metis fun_upd_triv)+
  have counts: "if n = n0 then revision rs = dep_hash d \<and> rssp_Replicas (rs_Spec rs) = Some (desired_replicas d)
        else revision rs \<noteq> dep_hash d \<and> \<not> positive rs"
    if "cluster_table w1 ''replicasets'' n = Some (OReplicaSet rs)" "dep_selects d rs" for n rs
  proof -
    have "revision rs = dep_hash d \<longleftrightarrow> n = n0" using cur [of n] that by (simp add: current_rs_def)
    moreover have "if n = n0 then rssp_Replicas (rs_Spec rs) = Some (desired_replicas d) else \<not> positive rs"
      using that unfolding one(2) dep_row_def
      by (auto simp: positive_def split: option.splits obj.splits if_splits)
    ultimately show ?thesis by simp
  qed
  show ?thesis
    by (rule exI [of _ w1], rule exI [of _ w2], rule exI [of _ n0]) (use run1(1) run2 one(1) same cur counts in simp)
qed


theorem sync_settles_witness:
  "\<exists>w1 n0. syncDeployment (cluster_client ''http://api'') (demo_dep (Some 3) (fmupd ''app'' ''web'' fmempty))
      (cluster_with [ODeployment (demo_dep (Some 3) (fmupd ''app'' ''web'' fmempty))] ()) = (Ret None, w1) \<and>
     current_rs (demo_dep (Some 3) (fmupd ''app'' ''web'' fmempty)) (cluster_table w1 ''replicasets'') n0"
proof -
  let ?d = "demo_dep (Some 3) (fmupd ''app'' ''web'' fmempty)"
  have match: "dep_labelsMatch (fmupd ''app'' ''web'' fmempty) (fmupd ''app'' ''web'' fmempty)"
    by (simp add: dep_labelsMatch_def list_all_iff)
  have empty: "cluster_table (cluster_with [ODeployment ?d] ()) ''replicasets'' = Map.empty"
    by (simp add: demo_dep_table)
  have none: "\<not> current_rs ?d Map.empty n" for n by (simp add: current_rs_def)
  show ?thesis
    using sync_settles [OF demo_dep_good demo_dep_tidy,
        of "Some 3" "fmupd ''app'' ''web'' fmempty" "()" "''web''" ?d "''http://api''"] match none
    by (fastforce simp: demo_dep_table plain_name_def name_char_def ObjectMeta_zero_def)
qed

text \<open>Later synchronizations of a deployment, each with a count of its own, and what each one returns\<close>

definition recounted :: "int32 option \<Rightarrow> Deployment \<Rightarrow> Deployment" where
  "recounted n d = d\<lparr>dep_Spec := (dep_Spec d)\<lparr>dsp_Replicas := n\<rparr>\<rparr>"

fun sync_counts :: "'w Client \<Rightarrow> Deployment \<Rightarrow> int32 option list \<Rightarrow> ('w, gerror option list) go" where
  "sync_counts c d [] = gret []"
| "sync_counts c d (n # ns) =
     gbind (syncDeployment c (recounted n d)) (\<lambda>err. gbind (sync_counts c d ns) (\<lambda>errs. gret (err # errs)))"

lemma recounted_simps [simp]:
  "dep_hash (recounted n d) = dep_hash d" "new_rs_name (recounted n d) = new_rs_name d"
  "dep_selects (recounted n d) = dep_selects d" "dep_ObjectMeta (recounted n d) = dep_ObjectMeta d"
  by (simp_all add: recounted_def dep_hash_def new_rs_name_def dep_selects_def [abs_def])

text \<open>Without a current replica set and with the name taken, no count helps.\<close>

lemma stuck_counts:
  assumes "cluster_good w" and "tidy (cluster_table w ''replicasets'')"
    and "settled_obj (ODeployment d)" and "plain_name (om_Name (dep_ObjectMeta d))"
    and "\<forall>n. \<not> current_rs d (cluster_table w ''replicasets'') n" and "cluster_table w ''replicasets'' (new_rs_name d) \<noteq> None"
  shows "\<exists>errs w'. sync_counts (cluster_client base) d ns w = (Ret errs, w') \<and> cluster_good w' \<and>
    cluster_table w' = cluster_table w \<and> length errs = length ns \<and> None \<notin> set errs"
  using assms(1,2,5,6)
proof (induction ns arbitrary: w)
  case Nil
  then show ?case by (simp add: gret_def)
next
  case (Cons n ns)
  let ?d = "recounted n d"
  have d': "settled_obj (ODeployment ?d)" unfolding recounted_def using assms(3) by (rule dep_replicas_settled)
  have name': "plain_name (om_Name (dep_ObjectMeta ?d))" using assms(4) by simp
  obtain err w1 where run: "syncDeployment (cluster_client base) ?d w = (Ret err, w1)" and good: "cluster_good w1"
    and spec: "dep_spec ?d (cluster_table w ''replicasets'') err (cluster_table w1 ''replicasets'')"
    and t1: "cluster_table w1 = (cluster_table w)(''replicasets'' := cluster_table w1 ''replicasets'')"
    using cluster_sync [OF Cons.prems(1,2) d' name', of base] by (elim exE conjE)
  have "err \<noteq> None" and row: "cluster_table w1 ''replicasets'' = cluster_table w ''replicasets''"
    using spec Cons.prems(3,4) by (auto simp: dep_spec_def current_rs_def)
  have same: "cluster_table w1 = cluster_table w" using t1 unfolding row by (metis fun_upd_triv)
  obtain errs w2 where "sync_counts (cluster_client base) d ns w1 = (Ret errs, w2)" "cluster_good w2"
      "cluster_table w2 = cluster_table w1" "length errs = length ns" "None \<notin> set errs"
    using Cons.IH [OF good] Cons.prems(2-4) unfolding same by blast
  with run same \<open>err \<noteq> None\<close> show ?case by (auto simp: gbind_def gret_def)
qed

text \<open>C34: A deployment whose selector does not match its own template creates its replica set once and is
  stuck from then on: the new replica set is not among those it selects, so every later
  synchronization, however many there are and with whatever counts, tries to create it again, fails
  on the conflict and changes nothing. The replica set keeps the count of the first one.\<close>

theorem mismatched_selector_sticks:
  assumes "cluster_good w" and "tidy (cluster_table w ''replicasets'')"
    and "cluster_table w ''deployments'' k = Some (ODeployment d)" and "plain_name (om_Name (dep_ObjectMeta d))"
    and "\<not> dep_labelsMatch (ls_MatchLabels (dsp_Selector (dep_Spec d)))
          (om_Labels (pts_ObjectMeta (dsp_Template (dep_Spec d))))"
    and "\<forall>n. \<not> current_rs d (cluster_table w ''replicasets'') n"
    and "cluster_table w ''replicasets'' (new_rs_name d) = None"
  shows "\<exists>w1 errs w2. syncDeployment (cluster_client base) d w = (Ret None, w1) \<and>
    cluster_table w1 ''replicasets'' (new_rs_name d) =
      Some (OReplicaSet (scale (desired_replicas d) (new_rs d (dep_hash d)))) \<and>
    sync_counts (cluster_client base) d ns w1 = (Ret errs, w2) \<and> length errs = length ns \<and> None \<notin> set errs \<and>
    cluster_table w2 = cluster_table w1 \<and> cluster_good w2"
proof -
  let ?row = "cluster_table w ''replicasets''"
  have d: "settled_obj (ODeployment d)" using cluster.entry [OF assms(1,3)] by simp
  obtain err w1 where run1: "syncDeployment (cluster_client base) d w = (Ret err, w1)" "cluster_good w1"
    and spec1: "dep_spec d ?row err (cluster_table w1 ''replicasets'')"
    using cluster_sync [OF assms(1,2) d assms(4), of base] by (elim exE conjE)
  let ?new = "?row(new_rs_name d \<mapsto> OReplicaSet (new_rs d (dep_hash d)))"
  from spec1 assms(6,7) have one: "err = None" "cluster_table w1 ''replicasets'' = dep_row d (new_rs_name d) ?new"
    by (simp_all add: dep_spec_def)
  have tidy1: "tidy (cluster_table w1 ''replicasets'')"
    using dep_spec_keeps(1) [OF spec1 assms(2) new_rs_name_plain [OF assms(4)]] .
  have none: "\<forall>n. \<not> current_rs d (cluster_table w1 ''replicasets'') n"
    using assms(5,6) unfolding one(2) current_dep_row by (auto simp: current_rs_def)
  have made: "cluster_table w1 ''replicasets'' (new_rs_name d) =
      Some (OReplicaSet (scale (desired_replicas d) (new_rs d (dep_hash d))))"
    unfolding one(2) by (simp add: dep_row_def)
  obtain errs w2 where "sync_counts (cluster_client base) d ns w1 = (Ret errs, w2)" "cluster_good w2"
      "cluster_table w2 = cluster_table w1" "length errs = length ns" "None \<notin> set errs"
    using stuck_counts [OF run1(2) tidy1 d assms(4) none, of base ns] made by auto
  with run1(1) one(1) made show ?thesis by (intro exI [of _ w1] exI [of _ errs] exI [of _ w2]) simp
qed

theorem mismatched_selector_sticks_witness:
  "\<exists>w1 e1 e2 w2. syncDeployment (cluster_client ''http://api'') (demo_dep (Some 3) fmempty)
      (cluster_with [ODeployment (demo_dep (Some 3) fmempty)] ()) = (Ret None, w1) \<and>
     sync_counts (cluster_client ''http://api'') (demo_dep (Some 3) fmempty) [Some 3, Some 5] w1 = (Ret [Some e1, Some e2], w2) \<and>
     cluster_table w2 = cluster_table w1"
proof -
  let ?d = "demo_dep (Some 3) fmempty" and ?w = "cluster_with [ODeployment (demo_dep (Some 3) fmempty)] ()"
  have no: "\<not> dep_labelsMatch (fmupd ''app'' ''web'' fmempty) fmempty"
    by (simp add: dep_labelsMatch_def list_all_iff label_def)
  have none: "\<forall>n. \<not> current_rs ?d (cluster_table ?w ''replicasets'') n"
    by (simp add: demo_dep_table current_rs_def)
  have at: "cluster_table ?w ''deployments'' ''web'' = Some (ODeployment ?d)"
    "cluster_table ?w ''replicasets'' (new_rs_name ?d) = None"
    by (simp_all add: demo_dep_table)
  have name: "plain_name (om_Name (dep_ObjectMeta ?d))" by (simp add: plain_name_def name_char_def)
  have "\<not> dep_labelsMatch (ls_MatchLabels (dsp_Selector (dep_Spec ?d))) (om_Labels (pts_ObjectMeta (dsp_Template (dep_Spec ?d))))"
    using no by (simp add: ObjectMeta_zero_def)
  from mismatched_selector_sticks [OF demo_dep_good demo_dep_tidy at(1) name this none at(2),
      of "''http://api''" "[Some 3, Some 5]"]
  obtain w1 errs w2 where run: "syncDeployment (cluster_client ''http://api'') ?d ?w = (Ret None, w1)"
      "sync_counts (cluster_client ''http://api'') ?d [Some 3, Some 5] w1 = (Ret errs, w2)"
      "cluster_table w2 = cluster_table w1"
    and errs: "length errs = 2" "None \<notin> set errs"
    by auto
  have "\<exists>e1 e2. errs = [Some e1, Some e2]"
    using errs by (auto simp: numeral_2_eq_2 length_Suc_conv) (metis not_None_eq)+
  with run show ?thesis by blast
qed

text \<open>C28: The deployment controller, over any number of rounds, returns when its context ends, touches
  nothing but replica sets, and of those it deletes none and changes none but in its count.\<close>

theorem controller_only_scales:
  assumes "cluster_good w" and "tidy (cluster_table w ''replicasets'')" and "tidy (cluster_table w ''deployments'')"
  shows "\<exists>w'. dep_Start (cluster_client base) ws w = (Ret (), w') \<and> cluster_good w' \<and>
    only_scaled (cluster_table w ''replicasets'') (cluster_table w' ''replicasets'') \<and>
    tidy (cluster_table w' ''replicasets'') \<and>
    (\<forall>r. r \<noteq> ''replicasets'' \<longrightarrow> cluster_table w' r = cluster_table w r)"
proof -
  have "world_at cluster_good cluster_table w_env (cluster_table w) (w_env w) w"
    using assms(1) by (simp add: world_at_def)
  from tripleD [OF cluster.dep_Start_scaled [of "cluster_table w", OF assms(3,2)] this, of base ws]
  show ?thesis by (fastforce simp: cluster.scaled_at_def world_at_def)
qed

theorem controller_only_scales_witness:
  "\<exists>w'. dep_Start (cluster_client ''http://api'') [Tick, Tick, CtxDone]
      (cluster_with [ODeployment (demo_dep (Some 3) (fmupd ''app'' ''web'' fmempty))] ()) = (Ret (), w') \<and>
     tidy (cluster_table w' ''replicasets'')"
  using controller_only_scales [where base = "''http://api''" and ws = "[Tick, Tick, CtxDone]",
      OF demo_dep_good demo_dep_tidy demo_dep_tidy,
      of "Some 3" "fmupd ''app'' ''web'' fmempty" "()"]
  by (elim exE conjE) (rule exI, rule conjI)

text \<open>C35: A deployment with an empty selector claims every replica set of the cluster, whatever namespace
  or deployment it belongs to: a successful synchronization sets its own replica set, the one with
  the current revision or a new one, to the desired count and every other replica set with a
  positive count to zero; one whose count is zero or not given stays as it is, none is deleted, and
  no other resource changes.\<close>

theorem empty_selector_drains_all:
  assumes "cluster_good w" and "tidy (cluster_table w ''replicasets'')"
    and "cluster_table w ''deployments'' k = Some (ODeployment d)" and "plain_name (om_Name (dep_ObjectMeta d))"
    and "ls_MatchLabels (dsp_Selector (dep_Spec d)) = fmempty"
    and "(\<exists>n. current_rs d (cluster_table w ''replicasets'') n) \<or> cluster_table w ''replicasets'' (new_rs_name d) = None"
  shows "\<exists>w' n0 r0. syncDeployment (cluster_client base) d w = (Ret None, w') \<and> cluster_good w' \<and>
    (current_rs d (cluster_table w ''replicasets'') n0 \<and> cluster_table w ''replicasets'' n0 = Some (OReplicaSet r0) \<or>
     (\<forall>n. \<not> current_rs d (cluster_table w ''replicasets'') n) \<and> n0 = new_rs_name d \<and> r0 = new_rs d (dep_hash d)) \<and>
    cluster_table w' ''replicasets'' n0 = Some (OReplicaSet (scale (desired_replicas d) r0)) \<and>
    dom (cluster_table w' ''replicasets'') = insert n0 (dom (cluster_table w ''replicasets'')) \<and>
    (\<forall>n rs. n \<noteq> n0 \<longrightarrow> cluster_table w ''replicasets'' n = Some (OReplicaSet rs) \<longrightarrow>
       cluster_table w' ''replicasets'' n = Some (OReplicaSet (if positive rs then scale 0 rs else rs))) \<and>
    (\<forall>r. r \<noteq> ''replicasets'' \<longrightarrow> cluster_table w' r = cluster_table w r)"
proof -
  let ?row = "cluster_table w ''replicasets''"
  have d: "settled_obj (ODeployment d)" using cluster.entry [OF assms(1,3)] by simp
  obtain err w' where run: "syncDeployment (cluster_client base) d w = (Ret err, w')" and good: "cluster_good w'"
    and spec: "dep_spec d ?row err (cluster_table w' ''replicasets'')"
    and t: "cluster_table w' = (cluster_table w)(''replicasets'' := cluster_table w' ''replicasets'')"
    using cluster_sync [OF assms(1,2) d assms(4), of base] by (elim exE conjE)
  have frame: "cluster_table w' r = cluster_table w r" if "r \<noteq> ''replicasets''" for r
    using that by (subst t) simp
  have all: "dep_selects d rs" for rs
    by (simp add: dep_selects_def assms(5) dep_labelsMatch_def list_all_iff)
  obtain n0 r0 where err: "err = None" and row': "cluster_table w' ''replicasets'' = dep_row d n0 (?row(n0 \<mapsto> OReplicaSet r0))"
    and which: "current_rs d ?row n0 \<and> ?row n0 = Some (OReplicaSet r0) \<or>
      (\<forall>n. \<not> current_rs d ?row n) \<and> n0 = new_rs_name d \<and> r0 = new_rs d (dep_hash d)"
  proof (cases "\<exists>n. current_rs d ?row n")
    case True
    with spec obtain n0 where "err = None" "current_rs d ?row n0" "cluster_table w' ''replicasets'' = dep_row d n0 ?row"
      by (auto simp: dep_spec_def)
    moreover from this(2) obtain r0 where "?row n0 = Some (OReplicaSet r0)" by (auto simp: current_rs_def)
    ultimately show ?thesis using that [of n0 r0] by (metis fun_upd_triv)
  next
    case False
    with spec assms(6) that [of "new_rs_name d" "new_rs d (dep_hash d)"] show ?thesis by (simp add: dep_spec_def)
  qed
  have "cluster_table w' ''replicasets'' n0 = Some (OReplicaSet (scale (desired_replicas d) r0))"
    by (simp add: row' dep_row_def)
  moreover have "dom (cluster_table w' ''replicasets'') = insert n0 (dom ?row)"
    unfolding row' by (auto simp: dom_def dep_row_dom)
  moreover have "cluster_table w' ''replicasets'' n = Some (OReplicaSet (if positive rs then scale 0 rs else rs))"
    if "n \<noteq> n0" "?row n = Some (OReplicaSet rs)" for n rs
    using that all by (simp add: row' dep_row_def)
  ultimately show ?thesis
    using run good which frame unfolding err
    by (intro exI [of _ w'] exI [of _ n0] exI [of _ r0]) simp
qed

text \<open>A replica set of the deployment \<open>web\<close>, with two replicas, in a cluster with \<open>any\<close>\<close>

definition demo_victim :: ReplicaSet where
  "demo_victim = new_rs (demo_dep (Some 2) (fmupd ''app'' ''web'' fmempty)) ''0123456789''"

definition demo_drained :: "obj list" where
  "demo_drained = [ODeployment demo_any, OReplicaSet demo_victim]"

lemma demo_victim_simps [simp]:
  "rs_name demo_victim = ''web-0123456789''" "revision demo_victim = ''0123456789''" "positive demo_victim"
  by (simp_all add: demo_victim_def new_rs_def rs_name_def revision_def label_def positive_def)

lemma demo_drained_ok: "demo_objects demo_drained"
proof -
  have "obj_name (ODeployment demo_any) = ''any''" by (simp add: demo_any_def obj_name_def)
  moreover have "settled_obj (OReplicaSet demo_victim)" unfolding demo_victim_def by (rule new_rs_settled [OF demo_dep_settled])
  ultimately show ?thesis using demo_any_settled by (simp add: demo_objects_def demo_drained_def)
qed

lemma demo_drained_table:
  "cluster_table (cluster_with demo_drained e) ''deployments'' = [''any'' \<mapsto> ODeployment demo_any]"
  "cluster_table (cluster_with demo_drained e) ''replicasets'' = [''web-0123456789'' \<mapsto> OReplicaSet demo_victim]"
proof -
  have any: "obj_name (ODeployment demo_any) = ''any''" by (simp add: demo_any_def obj_name_def)
  show "cluster_table (cluster_with demo_drained e) ''deployments'' = [''any'' \<mapsto> ODeployment demo_any]"
    "cluster_table (cluster_with demo_drained e) ''replicasets'' = [''web-0123456789'' \<mapsto> OReplicaSet demo_victim]"
    by (rule ext, simp add: demo_table_objs [OF demo_drained_ok], simp add: demo_drained_def any)+
qed

theorem empty_selector_drains_all_witness:
  "\<exists>w'. syncDeployment (cluster_client ''http://api'') demo_any (cluster_with demo_drained ()) = (Ret None, w') \<and>
     cluster_table w' ''replicasets'' ''web-0123456789'' = Some (OReplicaSet (scale 0 demo_victim)) \<and>
     cluster_table w' ''replicasets'' (new_rs_name demo_any) =
       Some (OReplicaSet (scale 1 (new_rs demo_any (dep_hash demo_any))))"
proof -
  let ?w = "cluster_with demo_drained ()"
  have sel: "ls_MatchLabels (dsp_Selector (dep_Spec demo_any)) = fmempty"
    by (simp add: demo_any_def Deployment_zero_def DeploymentSpec_zero_def LabelSelector_zero_def)
  have any: "om_Name (dep_ObjectMeta demo_any) = ''any''" by (simp add: demo_any_def)
  have name: "plain_name (om_Name (dep_ObjectMeta demo_any))" by (simp add: any plain_name_def name_char_def)
  have tidy: "tidy (cluster_table ?w ''replicasets'')"
    unfolding demo_drained_table by (simp add: tidy_def named_def plain_name_def name_char_def)
  have at: "cluster_table ?w ''deployments'' ''any'' = Some (ODeployment demo_any)" by (simp add: demo_drained_table)
  have victim: "cluster_table ?w ''replicasets'' ''web-0123456789'' = Some (OReplicaSet demo_victim)" by (simp add: demo_drained_table)
  have other: "new_rs_name demo_any \<noteq> ''web-0123456789''" by (simp add: new_rs_name_def any)
  have free: "cluster_table ?w ''replicasets'' (new_rs_name demo_any) = None" using other by (simp add: demo_drained_table)
  have one: "desired_replicas demo_any = 1"
    by (simp add: desired_replicas_def demo_any_def Deployment_zero_def DeploymentSpec_zero_def)
  have hash: "dep_hash demo_any \<noteq> ''0123456789''"
  proof
    assume "dep_hash demo_any = ''0123456789''"
    moreover have "length (dep_hash demo_any) = 64" by (simp add: dep_hash_def computeHash_def)
    ultimately show False by simp
  qed
  have none: "\<not> current_rs demo_any (cluster_table ?w ''replicasets'') n" for n
    using hash by (auto simp: current_rs_def demo_drained_table)
  obtain w' n0 r0 where run: "syncDeployment (cluster_client ''http://api'') demo_any ?w = (Ret None, w')"
    and cases: "current_rs demo_any (cluster_table ?w ''replicasets'') n0 \<and> cluster_table ?w ''replicasets'' n0 = Some (OReplicaSet r0) \<or>
      (\<forall>n. \<not> current_rs demo_any (cluster_table ?w ''replicasets'') n) \<and> n0 = new_rs_name demo_any \<and> r0 = new_rs demo_any (dep_hash demo_any)"
    and made: "cluster_table w' ''replicasets'' n0 = Some (OReplicaSet (scale (desired_replicas demo_any) r0))"
    and rest: "\<forall>n rs. n \<noteq> n0 \<longrightarrow> cluster_table ?w ''replicasets'' n = Some (OReplicaSet rs) \<longrightarrow>
       cluster_table w' ''replicasets'' n = Some (OReplicaSet (if positive rs then scale 0 rs else rs))"
    using empty_selector_drains_all [OF demo_good [OF demo_drained_ok] tidy at name sel disjI2 [OF free], of "''http://api''"]
    by (elim exE conjE)
  from cases none have which: "n0 = new_rs_name demo_any" "r0 = new_rs demo_any (dep_hash demo_any)" by simp_all
  have "cluster_table w' ''replicasets'' ''web-0123456789'' = Some (OReplicaSet (scale 0 demo_victim))"
    using rest [THEN spec, THEN spec, THEN mp, THEN mp, OF _ victim] other which(1) by simp
  with run made show ?thesis unfolding which one by blast
qed

end
