(* ===== verification/ServiceController.thy ===== *)
theory ServiceController
  imports Tables "HOL-Library.Multiset"
begin

text \<open>
  internal/controller/service/service_controller.go: the endpoints object of a service lists, in
  the order of their addresses, the running pods of the service's namespace its selector matches.
  \<open>sort.Slice\<close> promises a sorted permutation and no order of equal keys: the sorting function is a
  parameter, with \<open>sorts_addresses\<close> as that promise.
\<close>

section \<open>The controller\<close>

definition isMatch :: "strmap \<Rightarrow> strmap \<Rightarrow> bool" where
  "isMatch labels selector = list_all (\<lambda>k. label labels k = label selector k) (map_keys selector)"

text \<open>The condition of the loop that collects \<open>matchingPods\<close>\<close>

definition serves :: "Service \<Rightarrow> Pod \<Rightarrow> bool" where
  "serves svc pod \<longleftrightarrow> om_Namespace (pod_ObjectMeta pod) = om_Namespace (svc_ObjectMeta svc) \<and>
     isMatch (om_Labels (pod_ObjectMeta pod)) (ssp_Selector (svc_Spec svc)) \<and>
     pst_Phase (pod_Status pod) = ''Running'' \<and> pst_PodIP (pod_Status pod) \<noteq> []"

definition endpoint_address :: "Pod \<Rightarrow> EndpointAddress" where
  "endpoint_address pod = \<lparr>ea_IP = pst_PodIP (pod_Status pod), ea_NodeName = psp_NodeName (pod_Spec pod)\<rparr>"

definition endpoint_port :: "ServicePort \<Rightarrow> EndpointPort" where
  "endpoint_port sp =
     \<lparr>epp_Name = sp_Name sp,
      epp_Port = (if ios_Type (sp_TargetPort sp) = 1 then ios_IntVal (sp_TargetPort sp)
                  else if ios_IntVal (sp_TargetPort sp) = 0 then sp_Port sp
                  else ios_IntVal (sp_TargetPort sp)),
      epp_Protocol = (if sp_Protocol sp = [] then ''TCP'' else sp_Protocol sp)\<rparr>"

definition desired_subset :: "(EndpointAddress list \<Rightarrow> EndpointAddress list) \<Rightarrow> Service \<Rightarrow> Pod list \<Rightarrow> EndpointSubset" where
  "desired_subset sortSlice svc pods =
     \<lparr>es_Addresses = map_option sortSlice (slice_of (map endpoint_address (filter (serves svc) pods))),
      es_Ports = slice_of (map endpoint_port (ssp_Ports (svc_Spec svc)))\<rparr>"

definition desired_endpoints :: "(EndpointAddress list \<Rightarrow> EndpointAddress list) \<Rightarrow> Service \<Rightarrow> Pod list \<Rightarrow> Endpoints" where
  "desired_endpoints sortSlice svc pods =
     (let subset = desired_subset sortSlice svc pods in
      Endpoints_zero\<lparr>
        ep_ObjectMeta := ObjectMeta_zero\<lparr>
          om_Name := om_Name (svc_ObjectMeta svc),
          om_Namespace := om_Namespace (svc_ObjectMeta svc),
          om_Labels := om_Labels (svc_ObjectMeta svc)\<rparr>,
        ep_Subsets := Some (if elems (es_Addresses subset) \<noteq> [] then [subset] else [])\<rparr>)"

text \<open>
  Parts 3 and 4 of \<open>reconcileService\<close>, then the whole. \<open>reflect.DeepEqual\<close> tells a nil slice from an empty one, as equality of slices does here.\<close>

definition publish :: "'w Client \<Rightarrow> Service \<Rightarrow> Endpoints \<Rightarrow> ('w, gerror option) go" where
  "publish c svc desiredEp =
     gbind (GetEndpoints c (om_Name (svc_ObjectMeta svc))) (\<lambda>r. case r of
       Inl err \<Rightarrow> gret (Some err)
     | Inr None \<Rightarrow> CreateEndpoints c desiredEp
     | Inr (Some existingEp) \<Rightarrow>
         if ep_Subsets existingEp \<noteq> ep_Subsets desiredEp
         then UpdateEndpoints c (existingEp\<lparr>ep_Subsets := ep_Subsets desiredEp\<rparr>)
         else gret None)"

definition reconcileService ::
  "'w Client \<Rightarrow> (EndpointAddress list \<Rightarrow> EndpointAddress list) \<Rightarrow> Service \<Rightarrow> ('w, gerror option) go" where
  "reconcileService c sortSlice svc =
     (if map_keys (ssp_Selector (svc_Spec svc)) = [] then gret None
      else gbind (ListPods c []) (\<lambda>r. case r of
        Inl err \<Rightarrow> gret (Some err)
      | Inr pods \<Rightarrow> publish c svc (desired_endpoints sortSlice svc (elems pods))))"

definition syncServices ::
  "'w Client \<Rightarrow> (EndpointAddress list \<Rightarrow> EndpointAddress list) \<Rightarrow> ('w, gerror option) go" where
  "syncServices c sortSlice =
     gbind (ListServices c) (\<lambda>r. case r of
       Inl err \<Rightarrow> gret (Some err)
     | Inr services \<Rightarrow>
         gbind (for_each (elems services) (\<lambda>svc. gbind (reconcileService c sortSlice svc) (\<lambda>err. gret ())))
           (\<lambda>_. gret None))"

definition svc_Run :: "'w Client \<Rightarrow> (EndpointAddress list \<Rightarrow> EndpointAddress list) \<Rightarrow> wake list \<Rightarrow> ('w, unit) go" where
  "svc_Run c sortSlice = run_loop (gbind (syncServices c sortSlice) (\<lambda>err. gret ()))"

section \<open>The specification\<close>

definition sorts_addresses :: "(EndpointAddress list \<Rightarrow> EndpointAddress list) \<Rightarrow> bool" where
  "sorts_addresses f \<longleftrightarrow> (\<forall>xs. mset (f xs) = mset xs \<and> sorted (map ea_IP (f xs)))"

text \<open>The pods of a row that serve, and endpoints that list exactly them\<close>

definition serving :: "Service \<Rightarrow> (string \<Rightarrow> obj option) \<Rightarrow> Pod set" where
  "serving svc row = {p. (\<exists>n. row n = Some (OPod p)) \<and> serves svc p}"

definition lists_serving :: "Service \<Rightarrow> (string \<Rightarrow> obj option) \<Rightarrow> Endpoints \<Rightarrow> bool" where
  "lists_serving svc row ep \<longleftrightarrow>
     (if serving svc row = {} then ep_Subsets ep = None
      else \<exists>addrs. ep_Subsets ep = Some [\<lparr>es_Addresses = Some addrs,
              es_Ports = slice_of (map endpoint_port (ssp_Ports (svc_Spec svc)))\<rparr>] \<and>
            sorted (map ea_IP addrs) \<and> mset addrs = image_mset endpoint_address (mset_set (serving svc row)))"

text \<open>The step of one service on the row of endpoints\<close>

definition svc_step :: "Service \<Rightarrow> (string \<Rightarrow> obj option) \<Rightarrow> (string \<Rightarrow> obj option) \<Rightarrow> (string \<Rightarrow> obj option) \<Rightarrow> bool" where
  "svc_step svc pods row row' \<longleftrightarrow>
     (if ssp_Selector (svc_Spec svc) = fmempty then row' = row
      else \<exists>ep. row' = row(om_Name (svc_ObjectMeta svc) \<mapsto> OEndpoints ep) \<and> lists_serving svc pods ep \<and>
             om_Name (ep_ObjectMeta ep) = om_Name (svc_ObjectMeta svc))"

section \<open>Desired endpoints\<close>

lemma map_keys_Nil [simp]: "map_keys m = [] \<longleftrightarrow> m = fmempty"
  using set_map_keys [of m] by (metis fmdom'_empty fmrestrict_set_dom fmrestrict_set_null set_empty)

lemma serving_listing:
  assumes "enumerates (map OPod ps) row" and "named row"
  shows "mset_set (serving svc row) = mset (filter (serves svc) ps)"
    and "serving svc row = set (filter (serves svc) ps)"
proof -
  have "distinct (map obj_name (map OPod ps))" using enumerates_named(1) [OF assms] .
  then have dist: "distinct (filter (serves svc) ps)" by (simp add: comp_def distinct_map)
  have mem: "p \<in> set ps \<longleftrightarrow> (\<exists>n. row n = Some (OPod p))" for p
    using enumerates_mem [OF assms(1)] enumerates_named(2) [OF assms, of "OPod p"] by fastforce
  then show set: "serving svc row = set (filter (serves svc) ps)"
    by (auto simp: serving_def)
  show "mset_set (serving svc row) = mset (filter (serves svc) ps)"
    unfolding set using dist by (simp only: mset_set_set)
qed

lemma desired_lists_serving:
  assumes "enumerates (map OPod ps) pods" and "named pods" and "sorts_addresses srt"
  shows "lists_serving svc pods (cnrm Endpoints_codec (ep\<lparr>ep_Subsets := ep_Subsets (desired_endpoints srt svc ps)\<rparr>))"
proof -
  let ?m = "filter (serves svc) ps" and ?ports = "slice_of (map endpoint_port (ssp_Ports (svc_Spec svc)))"
  have set: "serving svc pods = set ?m" and ms: "mset_set (serving svc pods) = mset ?m"
    using serving_listing [OF assms(1,2)] by simp_all
  show ?thesis
  proof (cases "?m = []")
    case True
    then show ?thesis
      by (simp add: lists_serving_def set desired_endpoints_def desired_subset_def slice_of_def Let_def del: set_filter)
  next
    case False
    let ?addrs = "srt (map endpoint_address ?m)"
    have s: "mset ?addrs = image_mset endpoint_address (mset_set (serving svc pods))" "sorted (map ea_IP ?addrs)"
      using assms(3) by (simp_all add: sorts_addresses_def ms)
    have "length ?addrs = length ?m" using s(1) ms by (metis length_map mset_eq_length mset_map)
    then have ne: "?addrs \<noteq> []" using False by auto
    then have "ep_Subsets (desired_endpoints srt svc ps) = Some [\<lparr>es_Addresses = Some ?addrs, es_Ports = ?ports\<rparr>]"
      using False by (simp add: desired_endpoints_def desired_subset_def slice_of_def Let_def)
    then show ?thesis using s ne False by (simp add: lists_serving_def set slice_of_def del: set_filter)
  qed
qed

text \<open>Endpoints already as desired are in normal form, so they list what is served.\<close>

lemma settled_lists_serving:
  assumes "enumerates (map OPod ps) pods" and "named pods" and "sorts_addresses srt"
    and "settled_obj (OEndpoints ep)" and "ep_Subsets ep = ep_Subsets (desired_endpoints srt svc ps)"
  shows "lists_serving svc pods ep"
proof -
  have "ep\<lparr>ep_Subsets := ep_Subsets (desired_endpoints srt svc ps)\<rparr> = ep" using assms(5) by simp
  with desired_lists_serving [OF assms(1-3), of svc ep] settled_ok(6) [OF assms(4)] show ?thesis by simp
qed

lemma desired_endpoints_simps [simp]:
  "om_Name (ep_ObjectMeta (desired_endpoints srt svc ps)) = om_Name (svc_ObjectMeta svc)"
  by (simp add: desired_endpoints_def Let_def)

lemma Endpoints_marshal: "marshal_obj (OEndpoints ep) \<noteq> None \<longleftrightarrow> cok ObjectMeta_codec (ep_ObjectMeta ep)"
  by (simp add: marshal_def codec_oks list_all_iff)

lemma desired_marshal: "marshal_obj (OEndpoints (desired_endpoints srt svc ps)) \<noteq> None"
  unfolding Endpoints_marshal by (simp add: desired_endpoints_def Let_def codec_oks ObjectMeta_zero_def)

section \<open>The effect on the cluster\<close>

context rest
begin

abbreviation (input) ep_at :: "table \<Rightarrow> (string \<Rightarrow> obj option) \<Rightarrow> 'e \<Rightarrow> 'w \<Rightarrow> bool" where
  "ep_at t row e \<equiv> world_at good tab env (t(''endpoints'' := row)) e"

lemma create_endpoints:
  assumes "enumerates (map OPod ps) (t ''pods'')" and "named (t ''pods'')" and "sorts_addresses srt"
    and "om_Name (svc_ObjectMeta svc) \<noteq> []" and "t ''endpoints'' (om_Name (svc_ObjectMeta svc)) = None"
    and "ssp_Selector (svc_Spec svc) \<noteq> fmempty"
  shows "triple (at_table t e) (CreateEndpoints C (desired_endpoints srt svc ps))
    (\<lambda>err w. err = None \<and> (\<exists>row'. svc_step svc (t ''pods'') (t ''endpoints'') row' \<and> ep_at t row' e w))"
proof -
  let ?d = "desired_endpoints srt svc ps" and ?n = "om_Name (svc_ObjectMeta svc)"
  have name: "obj_name (OEndpoints ?d) = ?n" by (simp add: obj_name_def)
  have "lists_serving svc (t ''pods'') (cnrm Endpoints_codec ?d)"
    using desired_lists_serving [OF assms(1-3), of svc ?d] by simp
  then have "svc_step svc (t ''pods'') (t ''endpoints'') ((t ''endpoints'')(?n \<mapsto> OEndpoints (cnrm Endpoints_codec ?d)))"
    using assms(6) by (auto simp: svc_step_def)
  moreover have "post_effect ''endpoints'' (OEndpoints ?d) t =
      (201, t(''endpoints'' := (t ''endpoints'')(?n \<mapsto> OEndpoints (cnrm Endpoints_codec ?d))))"
    using assms(4,5) by (simp add: post_effect_def name set_obj_def del: Endpoints_nrm)
  ultimately show ?thesis
    by (intro triple_post [OF CreateEndpoints_effect [OF desired_marshal]]) (auto simp: send_result_def)
qed

lemma update_endpoints:
  assumes "enumerates (map OPod ps) (t ''pods'')" and "named (t ''pods'')" and "sorts_addresses srt"
    and "plain_name (om_Name (svc_ObjectMeta svc))"
    and "t ''endpoints'' (om_Name (svc_ObjectMeta svc)) = Some (OEndpoints ep)"
    and "om_Name (ep_ObjectMeta ep) = om_Name (svc_ObjectMeta svc)" and "settled_obj (OEndpoints ep)"
    and "ssp_Selector (svc_Spec svc) \<noteq> fmempty"
  shows "triple (at_table t e)
    (UpdateEndpoints C (ep\<lparr>ep_Subsets := ep_Subsets (desired_endpoints srt svc ps)\<rparr>))
    (\<lambda>err w. err = None \<and> (\<exists>row'. svc_step svc (t ''pods'') (t ''endpoints'') row' \<and> ep_at t row' e w))"
proof -
  let ?d = "ep\<lparr>ep_Subsets := ep_Subsets (desired_endpoints srt svc ps)\<rparr>" and ?n = "om_Name (svc_ObjectMeta svc)"
  have m: "marshal_obj (OEndpoints ?d) \<noteq> None"
    using settled_ok(6) [OF assms(7)] unfolding Endpoints_marshal by (simp add: codec_oks)
  have "svc_step svc (t ''pods'') (t ''endpoints'') ((t ''endpoints'')(?n \<mapsto> OEndpoints (cnrm Endpoints_codec ?d)))"
    using assms(6,8) desired_lists_serving [OF assms(1-3), of svc ep] by (auto simp: svc_step_def)
  moreover have "put_effect ''endpoints'' ?n (OEndpoints ?d) t =
      (200, t(''endpoints'' := (t ''endpoints'')(?n \<mapsto> OEndpoints (cnrm Endpoints_codec ?d))))"
    using assms(5) by (simp add: put_effect_def set_obj_def del: Endpoints_nrm)
  moreover have "plain_name (om_Name (ep_ObjectMeta ?d))" using assms(4,6) by simp
  ultimately show ?thesis
    using assms(6) by (intro triple_post [OF UpdateEndpoints_effect [OF m]]) (auto simp: send_result_def)
qed

lemma publish_effect:
  assumes "enumerates (map OPod ps) (t ''pods'')" and "named (t ''pods'')" and "named (t ''endpoints'')"
    and "sorts_addresses srt" and "plain_name (om_Name (svc_ObjectMeta svc))" and "ssp_Selector (svc_Spec svc) \<noteq> fmempty"
  shows "triple (at_table t e) (publish C svc (desired_endpoints srt svc ps))
    (\<lambda>err w. err = None \<and> (\<exists>row'. svc_step svc (t ''pods'') (t ''endpoints'') row' \<and> ep_at t row' e w))"
  unfolding publish_def
proof (rule triple_gbind [OF GetEndpoints_effect [OF assms(5)]], rule tripleI)
  let ?n = "om_Name (svc_ObjectMeta svc)" and ?d = "desired_endpoints srt svc ps"
  let ?Q = "\<lambda>err w. err = None \<and> (\<exists>row'. svc_step svc (t ''pods'') (t ''endpoints'') row' \<and> ep_at t row' e w)"
  fix r :: "Endpoints option result" and w
  assume "at_table t e w \<and> (\<exists>x. r = Inr x \<and> map_option OEndpoints x = t ''endpoints'' ?n)"
  then obtain x where at: "at_table t e w" and r: "r = Inr x" and x: "map_option OEndpoints x = t ''endpoints'' ?n"
    by blast
  show "\<exists>x w'. (case r of Inl err \<Rightarrow> gret (Some err) | Inr None \<Rightarrow> CreateEndpoints C ?d
     | Inr (Some ep) \<Rightarrow>
         if ep_Subsets ep \<noteq> ep_Subsets ?d then UpdateEndpoints C (ep\<lparr>ep_Subsets := ep_Subsets ?d\<rparr>)
         else gret None) w = (Ret x, w') \<and> ?Q x w'"
  proof (cases x)
    case None
    then show ?thesis
      using tripleD [OF create_endpoints [of ps t, OF assms(1,2,4) _ _ assms(6)] at] assms(5) x
      by (simp add: r plain_name_def)
  next
    case (Some ep)
    then have row: "t ''endpoints'' ?n = Some (OEndpoints ep)" using x by simp
    have name: "om_Name (ep_ObjectMeta ep) = ?n" using assms(3) row by (force simp: named_def obj_name_def)
    have set: "settled_obj (OEndpoints ep)" using at_entry [OF at row] by simp
    show ?thesis
    proof (cases "ep_Subsets ep = ep_Subsets ?d")
      case True
      then have "lists_serving svc (t ''pods'') ep" using settled_lists_serving [OF assms(1,2,4) set] by simp
      with name row assms(6) have "svc_step svc (t ''pods'') (t ''endpoints'') (t ''endpoints'')"
        by (auto simp: svc_step_def fun_upd_idem intro!: exI [of _ ep])
      with True Some r at show ?thesis by (auto simp: gret_run)
    next
      case False
      then show ?thesis
        using tripleD [OF update_endpoints [of ps t, OF assms(1,2,4,5) row name set assms(6)] at] Some
        by (simp add: r)
    qed
  qed
qed

lemma reconcileService_effect:
  assumes "named (t ''pods'')" and "named (t ''endpoints'')" and "sorts_addresses srt"
    and "plain_name (om_Name (svc_ObjectMeta svc))"
  shows "triple (at_table t e) (reconcileService C srt svc)
    (\<lambda>err w. err = None \<and> (\<exists>row'. svc_step svc (t ''pods'') (t ''endpoints'') row' \<and> ep_at t row' e w))"
proof (cases "ssp_Selector (svc_Spec svc) = fmempty")
  case True
  then show ?thesis by (auto simp: reconcileService_def svc_step_def triple_gret)
next
  case False
  show ?thesis
    unfolding reconcileService_def map_keys_Nil if_not_P [OF False]
  proof (rule triple_gbind [OF ListPods_effect], rule triple_listed)
    fix r :: "Pod slice result" and ps
    assume "r = Inr (slice_of ps)" and "enumerates (map OPod ps) (t ''pods'')"
    with publish_effect [of ps t, OF _ assms False]
    show "triple (at_table t e) (case r of Inl err \<Rightarrow> gret (Some err)
        | Inr pods \<Rightarrow> publish C svc (desired_endpoints srt svc (elems pods)))
      (\<lambda>err w. err = None \<and> (\<exists>row'. svc_step svc (t ''pods'') (t ''endpoints'') row' \<and> ep_at t row' e w))"
      by simp
  qed
qed


end

text \<open>A whole round: every service with a selector has its endpoints, nothing else has changed.\<close>

definition svc_round :: "Service list \<Rightarrow> table \<Rightarrow> (string \<Rightarrow> obj option) \<Rightarrow> bool" where
  "svc_round svcs t row \<longleftrightarrow> named row \<and>
     (\<forall>svc \<in> set svcs. ssp_Selector (svc_Spec svc) \<noteq> fmempty \<longrightarrow>
        (\<exists>ep. row (om_Name (svc_ObjectMeta svc)) = Some (OEndpoints ep) \<and> lists_serving svc (t ''pods'') ep)) \<and>
     (\<forall>n. n \<notin> (\<lambda>svc. om_Name (svc_ObjectMeta svc)) ` {svc \<in> set svcs. ssp_Selector (svc_Spec svc) \<noteq> fmempty} \<longrightarrow>
        row n = t ''endpoints'' n)"

lemma svc_round_step:
  assumes "svc_round svcs t row" and "svc_step svc (t ''pods'') row row'"
    and "om_Name (svc_ObjectMeta svc) \<notin> (\<lambda>svc. om_Name (svc_ObjectMeta svc)) ` set svcs"
  shows "svc_round (svcs @ [svc]) t row'"
proof (cases "ssp_Selector (svc_Spec svc) = fmempty")
  case True
  with assms(1,2) show ?thesis by (auto simp: svc_step_def svc_round_def)
next
  case False
  let ?n = "om_Name (svc_ObjectMeta svc)"
  from False assms(2) obtain ep where ep: "row' = row(?n \<mapsto> OEndpoints ep)" "lists_serving svc (t ''pods'') ep"
      "om_Name (ep_ObjectMeta ep) = ?n" by (auto simp: svc_step_def)
  have old: "row' (om_Name (svc_ObjectMeta s)) = row (om_Name (svc_ObjectMeta s))" if "s \<in> set svcs" for s
  proof -
    have "om_Name (svc_ObjectMeta s) \<noteq> ?n" using that assms(3) by (metis (no_types, lifting) imageI)
    then show ?thesis by (simp add: ep(1))
  qed
  show ?thesis
    unfolding svc_round_def
  proof (intro conjI ballI allI impI)
    show "named row'" using assms(1) ep by (auto simp: svc_round_def named_def obj_name_def)
  next
    fix s assume s: "s \<in> set (svcs @ [svc])" "ssp_Selector (svc_Spec s) \<noteq> fmempty"
    then show "\<exists>ep. row' (om_Name (svc_ObjectMeta s)) = Some (OEndpoints ep) \<and> lists_serving s (t ''pods'') ep"
      using assms(1) ep(1,2) old [of s] by (cases "s \<in> set svcs") (auto simp: svc_round_def)
  next
    fix n
    assume n: "n \<notin> (\<lambda>svc. om_Name (svc_ObjectMeta svc)) ` {s \<in> set (svcs @ [svc]). ssp_Selector (svc_Spec s) \<noteq> fmempty}"
    then have "n \<noteq> ?n" using False by auto
    moreover have "row n = t ''endpoints'' n" using n assms(1) unfolding svc_round_def by auto
    ultimately show "row' n = t ''endpoints'' n" by (simp add: ep(1))
  qed
qed

context rest
begin

lemma syncServices_effect:
  assumes "tidy (t ''services'')" and "named (t ''pods'')" and "named (t ''endpoints'')" and "sorts_addresses srt"
  shows "triple (at_table t e) (syncServices C srt)
    (\<lambda>err w. err = None \<and> (\<exists>svcs row. enumerates (map OService svcs) (t ''services'') \<and> svc_round svcs t row \<and> ep_at t row e w))"
  unfolding syncServices_def
proof (rule triple_gbind [OF ListServices_effect], rule triple_listed)
  fix r :: "Service slice result" and svcs
  assume r: "r = Inr (slice_of svcs)" and en: "enumerates (map OService svcs) (t ''services'')"
  let ?name = "\<lambda>svc. om_Name (svc_ObjectMeta svc)"
  have "obj_name \<circ> OService = ?name" by (simp add: fun_eq_iff obj_name_def)
  then have dist: "distinct (map ?name svcs)"
    using enumerates_named(1) [OF en] assms(1) by (simp add: tidy_def)
  have plain: "plain_name (?name svc)" if "svc \<in> set svcs" for svc
    using enumerates_named(2) [OF en, of "OService svc"] assms(1) that by (simp add: tidy_def obj_name_def)
  let ?I = "\<lambda>ys w. \<exists>row. svc_round ys t row \<and> ep_at t row e w"
  have "triple (?I []) (for_each svcs (\<lambda>svc. gbind (reconcileService C srt svc) (\<lambda>err. gret ()))) (\<lambda>_. ?I svcs)"
  proof (rule triple_for_each_suffix)
    fix ys svc zs assume split: "svcs = ys @ svc # zs"
    then have new: "?name svc \<notin> ?name ` set ys" and p: "plain_name (?name svc)"
      using dist plain by auto
    have "triple (?I ys) (reconcileService C srt svc) (\<lambda>_. ?I (ys @ [svc]))"
    proof (rule triple_ex, rule triple_assuming)
      fix row assume round: "svc_round ys t row"
      then have "named row" by (simp add: svc_round_def)
      then have "triple (ep_at t row e) (reconcileService C srt svc)
          (\<lambda>err w. err = None \<and> (\<exists>row'. svc_step svc (t ''pods'') row row' \<and> ep_at t row' e w))"
        using reconcileService_effect [of "t(''endpoints'' := row)" srt svc e] assms(2,4) p by simp
      then show "triple (ep_at t row e) (reconcileService C srt svc) (\<lambda>_. ?I (ys @ [svc]))"
        by (rule triple_post) (use svc_round_step [OF round _ new] in blast)
    qed
    then show "triple (?I ys) (gbind (reconcileService C srt svc) (\<lambda>err. gret ())) (\<lambda>_. ?I (ys @ [svc]))"
      by (rule triple_gbind) (auto intro: triple_gret)
  qed
  then have loop: "triple (at_table t e) (for_each svcs (\<lambda>svc. gbind (reconcileService C srt svc) (\<lambda>err. gret ()))) (\<lambda>_. ?I svcs)"
  proof (rule triple_pre)
    fix w assume "at_table t e w"
    then have "svc_round [] t (t ''endpoints'') \<and> ep_at t (t ''endpoints'') e w"
      using assms(3) by (simp add: svc_round_def)
    then show "?I [] w" by blast
  qed
  show "triple (at_table t e) (case r of Inl err \<Rightarrow> gret (Some err)
     | Inr services \<Rightarrow>
         gbind (for_each (elems services) (\<lambda>svc. gbind (reconcileService C srt svc) (\<lambda>err. gret ()))) (\<lambda>_. gret None))
    (\<lambda>err w. err = None \<and> (\<exists>svcs row. enumerates (map OService svcs) (t ''services'') \<and> svc_round svcs t row \<and> ep_at t row e w))"
    unfolding r sum.case elems_slice_of
    by (rule triple_gbind [OF loop], rule triple_gret) (use en in blast)
qed

end

section \<open>A small cluster\<close>

definition demo_svc :: Service where
  "demo_svc = Service_zero\<lparr>svc_ObjectMeta := ObjectMeta_zero\<lparr>om_Name := ''front''\<rparr>,
     svc_Spec := ServiceSpec_zero\<lparr>ssp_Selector := fmupd ''app'' ''web'' fmempty\<rparr>\<rparr>"

definition demo_running :: "string \<Rightarrow> string \<Rightarrow> Pod" where
  "demo_running n ip = Pod_zero\<lparr>pod_ObjectMeta :=
     ObjectMeta_zero\<lparr>om_Name := n, om_Labels := fmupd ''app'' ''web'' fmempty\<rparr>,
     pod_Status := PodStatus_zero\<lparr>pst_Phase := ''Running'', pst_PodIP := ip\<rparr>\<rparr>"

lemma demo_running_settled: "settled_obj (OPod (demo_running n ip))"
  by (simp add: settled_iff marshal_def codec_oks demo_running_def Pod_zero_def ObjectMeta_zero_def
      PodSpec_zero_def PodStatus_zero_def)

lemma demo_svc_settled: "settled_obj (OService demo_svc)"
  by (simp add: settled_iff marshal_def codec_oks demo_svc_def Service_zero_def ObjectMeta_zero_def
      ServiceSpec_zero_def ServiceStatus_zero_def LoadBalancerStatus_zero_def)

lemma demo_serves: "ip \<noteq> [] \<Longrightarrow> serves demo_svc (demo_running n ip)"
  by (simp add: serves_def isMatch_def demo_svc_def demo_running_def ObjectMeta_zero_def PodStatus_zero_def
      list_all_iff ServiceSpec_zero_def)


lemma demo_svc_simps [simp]:
  "om_Name (svc_ObjectMeta demo_svc) = ''front''" "ssp_Selector (svc_Spec demo_svc) = fmupd ''app'' ''web'' fmempty"
  "om_Name (pod_ObjectMeta (demo_running n ip)) = n" "ssp_Ports (svc_Spec demo_svc) = []"
  "endpoint_address (demo_running n ip) = \<lparr>ea_IP = ip, ea_NodeName = []\<rparr>"
  by (simp_all add: demo_svc_def demo_running_def endpoint_address_def ServiceSpec_zero_def PodStatus_zero_def
      Pod_zero_def PodSpec_zero_def)

text \<open>The service and two running pods whose names are not in the order of their addresses\<close>

definition demo_objs :: "obj list" where
  "demo_objs = [OService demo_svc, OPod (demo_running ''a'' ''10.0.0.2''), OPod (demo_running ''b'' ''10.0.0.1'')]"

lemma demo_objs_ok: "demo_objects demo_objs"
  using demo_svc_settled demo_running_settled by (simp add: demo_objects_def demo_objs_def obj_name_def)

lemma demo_objs_table:
  "cluster_table (cluster_with demo_objs e) r =
    (if r = ''services'' then [''front'' \<mapsto> OService demo_svc]
     else if r = ''pods'' then [''a'' \<mapsto> OPod (demo_running ''a'' ''10.0.0.2''), ''b'' \<mapsto> OPod (demo_running ''b'' ''10.0.0.1'')]
     else Map.empty)"
  by (rule ext) (simp add: demo_table_objs [OF demo_objs_ok], simp add: demo_objs_def obj_name_def)

lemma sort_addresses: "sorts_addresses (sort_key ea_IP)"
  by (simp add: sorts_addresses_def)

definition demo_named_port :: ServicePort where
  "demo_named_port = ServicePort_zero\<lparr>sp_TargetPort := \<lparr>ios_Type = 1, ios_IntVal = 0, ios_StrVal = ''http''\<rparr>\<rparr>"

definition demo_empty_endpoints :: Endpoints where
  "demo_empty_endpoints = Endpoints_zero\<lparr>ep_ObjectMeta := ObjectMeta_zero\<lparr>om_Name := ''front''\<rparr>\<rparr>"

lemma svc_round_follows:
  assumes en: "enumerates (map OService svcs) (t ''services'')" and "tidy (t ''services'')" and round: "svc_round svcs t row"
  shows "t ''services'' k = Some (OService svc) \<Longrightarrow> ssp_Selector (svc_Spec svc) \<noteq> fmempty \<Longrightarrow>
      \<exists>ep. row k = Some (OEndpoints ep) \<and> lists_serving svc (t ''pods'') ep"
    and "t ''services'' k = None \<Longrightarrow> row k = t ''endpoints'' k"
proof -
  have mem: "svc \<in> set svcs \<and> om_Name (svc_ObjectMeta svc) = k" if "t ''services'' k = Some (OService svc)" for k svc
  proof -
    have "obj_name (OService svc) = k" using assms(2) that by (simp add: tidy_def named_def)
    with enumerates_mem [OF en that] show ?thesis by (auto simp: obj_name_def)
  qed
  have there: "t ''services'' (om_Name (svc_ObjectMeta svc)) \<noteq> None" if "svc \<in> set svcs" for svc
    using enumerates_named(2) [OF en, of "OService svc"] assms(2) that by (simp add: tidy_def obj_name_def)
  show "row k = t ''endpoints'' k" if "t ''services'' k = None" for k
  proof -
    have "k \<noteq> om_Name (svc_ObjectMeta svc)" if "svc \<in> set svcs" for svc
      using there [OF that] \<open>t ''services'' k = None\<close> by metis
    then have "k \<notin> (\<lambda>svc. om_Name (svc_ObjectMeta svc)) ` {svc \<in> set svcs. ssp_Selector (svc_Spec svc) \<noteq> fmempty}"
      by blast
    with round show ?thesis by (simp add: svc_round_def)
  qed
  show "\<exists>ep. row k = Some (OEndpoints ep) \<and> lists_serving svc (t ''pods'') ep"
    if "t ''services'' k = Some (OService svc)" "ssp_Selector (svc_Spec svc) \<noteq> fmempty" for k svc
    using mem [OF that(1)] that(2) round unfolding svc_round_def by auto
qed

section \<open>Properties\<close>

text \<open>C12: One round of the service controller gives every service with a selector the endpoints it should
  have: the addresses of exactly the running pods with an address, in its namespace, that its
  selector matches, sorted by address, with the service's target ports (no subset at all when no
  pod serves). It creates no endpoints of any other name and changes nothing else.\<close>

theorem endpoints_follow_pods:
  assumes "cluster_good w" and "tidy (cluster_table w ''services'')" and "named (cluster_table w ''pods'')"
    and "named (cluster_table w ''endpoints'')" and "sorts_addresses srt"
  shows "\<exists>w'. syncServices (cluster_client base) srt w = (Ret None, w') \<and> cluster_good w' \<and>
    (\<forall>k svc. cluster_table w ''services'' k = Some (OService svc) \<longrightarrow> ssp_Selector (svc_Spec svc) \<noteq> fmempty \<longrightarrow>
       (\<exists>ep. cluster_table w' ''endpoints'' k = Some (OEndpoints ep) \<and> lists_serving svc (cluster_table w ''pods'') ep)) \<and>
    (\<forall>k. cluster_table w ''services'' k = None \<longrightarrow> cluster_table w' ''endpoints'' k = cluster_table w ''endpoints'' k) \<and>
    (\<forall>r. r \<noteq> ''endpoints'' \<longrightarrow> cluster_table w' r = cluster_table w r)"
proof -
  let ?t = "cluster_table w"
  have "world_at cluster_good cluster_table w_env ?t (w_env w) w" using assms(1) by (simp add: world_at_def)
  from tripleD [OF cluster.syncServices_effect [of ?t, OF assms(2-5)] this, of base]
  obtain w' svcs row where run: "syncServices (cluster_client base) srt w = (Ret None, w')"
    and en: "enumerates (map OService svcs) (?t ''services'')" and round: "svc_round svcs ?t row"
    and w': "cluster_good w'" "cluster_table w' = ?t(''endpoints'' := row)"
    by (auto simp: world_at_def)
  with run w' svc_round_follows [OF en assms(2) round] show ?thesis by (intro exI [of _ w']) simp
qed

theorem endpoints_follow_pods_witness:
  "\<exists>w' ep. syncServices (cluster_client ''http://api'') (sort_key ea_IP) (cluster_with demo_objs ()) = (Ret None, w') \<and>
     cluster_table w' ''endpoints'' ''front'' = Some (OEndpoints ep) \<and>
     serving demo_svc (cluster_table (cluster_with demo_objs ()) ''pods'') \<noteq> {} \<and> ep_Subsets ep \<noteq> None"
proof -
  let ?t = "cluster_table (cluster_with demo_objs ())"
  have tidy: "tidy (?t ''services'')" "named (?t ''pods'')" "named (?t ''endpoints'')"
    by (auto simp: demo_objs_table tidy_def named_def obj_name_def plain_name_def name_char_def)
  obtain w' where run: "syncServices (cluster_client ''http://api'') (sort_key ea_IP) (cluster_with demo_objs ()) = (Ret None, w')"
    and all: "\<forall>k svc. ?t ''services'' k = Some (OService svc) \<longrightarrow> ssp_Selector (svc_Spec svc) \<noteq> fmempty \<longrightarrow>
       (\<exists>ep. cluster_table w' ''endpoints'' k = Some (OEndpoints ep) \<and> lists_serving svc (?t ''pods'') ep)"
    using endpoints_follow_pods [OF demo_good [OF demo_objs_ok] tidy sort_addresses, of "''http://api''"]
    by (elim exE conjE)
  have "?t ''services'' ''front'' = Some (OService demo_svc)" by (simp add: demo_objs_table)
  moreover have "ssp_Selector (svc_Spec demo_svc) \<noteq> fmempty"
    by simp
  ultimately obtain ep where ep: "cluster_table w' ''endpoints'' ''front'' = Some (OEndpoints ep)"
      "lists_serving demo_svc (?t ''pods'') ep"
    using all by blast
  have "demo_running ''a'' ''10.0.0.2'' \<in> serving demo_svc (?t ''pods'')"
    using demo_serves [of "''10.0.0.2''" "''a''"] by (auto simp: serving_def demo_objs_table)
  then have "serving demo_svc (?t ''pods'') \<noteq> {}" by blast
  with ep run show ?thesis by (intro exI [of _ w'] exI [of _ ep]) (auto simp: lists_serving_def)
qed

text \<open>Endpoints without a ready pod never settle: stored without subsets they are read back as a nil
  slice, the desired value is an empty one, \<open>DeepEqual\<close> tells them apart, and every
  reconciliation of the service sends another update.\<close>

lemma empty_endpoints_rewritten:
  assumes "cluster_good w" and "named (cluster_table w ''pods'')" and "plain_name (om_Name (svc_ObjectMeta svc))"
    and "ssp_Selector (svc_Spec svc) \<noteq> fmempty" and "serving svc (cluster_table w ''pods'') = {}"
    and "cluster_table w ''endpoints'' (om_Name (svc_ObjectMeta svc)) = Some (OEndpoints ep)"
  shows "\<exists>w1. cluster_good w1 \<and> cluster_table w1 = cluster_table w \<and>
    reconcileService (cluster_client base) srt svc w =
      UpdateEndpoints (cluster_client base) (ep\<lparr>ep_Subsets := Some []\<rparr>) w1"
proof -
  let ?t = "cluster_table w" and ?C = "cluster_client base"
  have at: "world_at cluster_good cluster_table w_env ?t (w_env w) w" using assms(1) by (simp add: world_at_def)
  from tripleD [OF cluster.ListPods_effect at, of base "[]"] obtain ps wa
    where list: "ListPods ?C [] w = (Ret (Inr (slice_of ps)), wa)" and en: "enumerates (map OPod ps) (?t ''pods'')"
      and wa: "world_at cluster_good cluster_table w_env ?t (w_env w) wa"
    by (auto simp: lists_def)
  have "filter (serves svc) ps = []"
    using serving_listing(2) [OF en assms(2), of svc] assms(5) by (metis set_empty)
  then have des: "ep_Subsets (desired_endpoints srt svc ps) = Some []"
    by (simp add: desired_endpoints_def desired_subset_def slice_of_def Let_def)
  from tripleD [OF cluster.GetEndpoints_effect [OF assms(3)] wa, of base] assms(6) obtain w1
    where got: "GetEndpoints ?C (om_Name (svc_ObjectMeta svc)) wa = (Ret (Inr (Some ep)), w1)"
      and w1: "world_at cluster_good cluster_table w_env ?t (w_env w) w1"
    by auto
  have "settled_obj (OEndpoints ep)" using cluster.entry [OF assms(1,6)] by simp
  then have "ep_Subsets (cnrm Endpoints_codec ep) = ep_Subsets ep" using settled_ok(6) by metis
  then have "ep_Subsets ep \<noteq> Some []" by (auto simp: slice_of_def split: if_splits)
  then have "reconcileService ?C srt svc w = UpdateEndpoints ?C (ep\<lparr>ep_Subsets := Some []\<rparr>) w1"
    using assms(4) by (simp add: reconcileService_def publish_def gbind_def list got des)
  with w1 show ?thesis by (auto simp: world_at_def)
qed

lemma empty_endpoints_rewritten_witness:
  "\<exists>w1. reconcileService (cluster_client ''http://api'') (sort_key ea_IP) demo_svc
       (cluster_with [OEndpoints demo_empty_endpoints] ()) =
     UpdateEndpoints (cluster_client ''http://api'') (demo_empty_endpoints\<lparr>ep_Subsets := Some []\<rparr>) w1"
proof -
  have set: "settled_obj (OEndpoints demo_empty_endpoints)"
    by (simp add: settled_iff marshal_def codec_oks demo_empty_endpoints_def Endpoints_zero_def
        ObjectMeta_zero_def slice_of_def)
  have name: "obj_name (OEndpoints demo_empty_endpoints) = ''front''"
    by (simp add: obj_name_def demo_empty_endpoints_def)
  have "\<exists>w1. cluster_good w1 \<and> cluster_table w1 = cluster_table (cluster_with [OEndpoints demo_empty_endpoints] ()) \<and>
    reconcileService (cluster_client ''http://api'') (sort_key ea_IP) demo_svc
       (cluster_with [OEndpoints demo_empty_endpoints] ()) =
      UpdateEndpoints (cluster_client ''http://api'') (demo_empty_endpoints\<lparr>ep_Subsets := Some []\<rparr>) w1"
    using set name
    by (intro empty_endpoints_rewritten [OF demo_good])
      (simp_all add: demo_single named_def plain_name_def name_char_def serving_def)
  then show ?thesis by blast
qed

text \<open>A service port that names its target port publishes port 0: the name is never looked up, and a
  stored target port with a name has no number.\<close>

lemma named_target_port_is_zero:
  assumes "cluster_good w" and "cluster_table w ''services'' k = Some (OService svc)"
    and "sp \<in> set (ssp_Ports (svc_Spec svc))" and "ios_Type (sp_TargetPort sp) = 1"
  shows "epp_Port (endpoint_port sp) = 0"
proof -
  have "settled_obj (OService svc)" using cluster.entry [OF assms(1,2)] by simp
  then have "ssp_Ports (svc_Spec (cnrm Service_codec svc)) = ssp_Ports (svc_Spec svc)" using settled_ok(5) by metis
  then have "cnrm ServicePort_codec sp = sp"
    using assms(3) by (simp del: ServicePort_nrm) (metis map_eq_conv map_ident)
  then have "cnrm IntOrString_codec (sp_TargetPort sp) = sp_TargetPort sp"
    by (metis ServicePort.select_convs(4) ServicePort.update_convs(4) ServicePort.surjective ServicePort_nrm)
  then have "ios_IntVal (cnrm IntOrString_codec (sp_TargetPort sp)) = ios_IntVal (sp_TargetPort sp)" by simp
  then show ?thesis using assms(4) by (simp add: endpoint_port_def IntOrString_codec_def)
qed

lemma named_target_port_is_zero_witness:
  "epp_Port (endpoint_port demo_named_port) = 0"
proof -
  let ?svc = "demo_svc\<lparr>svc_Spec := (svc_Spec demo_svc)\<lparr>ssp_Ports := [demo_named_port]\<rparr>\<rparr>"
  have set: "settled_obj (OService ?svc)"
    using settled_ok(5) [OF demo_svc_settled]
    by (simp add: settled_iff marshal_def codec_oks demo_named_port_def IntOrString_codec_def)
  then have "cluster_table (cluster_with [OService ?svc] ()) ''services'' ''front'' = Some (OService ?svc)"
    by (simp add: demo_single obj_name_def)
  moreover have "cluster_good (cluster_with [OService ?svc] ())" using set by (simp add: demo_good)
  ultimately show ?thesis
    using named_target_port_is_zero [of "cluster_with [OService ?svc] ()" "''front''" ?svc demo_named_port]
    by (simp add: demo_named_port_def)
qed

end
