(* ===== verification/GoText.thy ===== *)
theory GoText
  imports Json
begin

text \<open>
  The functions of Go's strings and strconv packages the components use on short texts: suffixes,
  splitting, trimming, and \<open>strconv.ParseInt\<close> in base 10.
\<close>

section \<open>strings\<close>

definition has_suffix :: "string \<Rightarrow> string \<Rightarrow> bool" where
  "has_suffix s t = has_prefix (rev s) (rev t)"

definition trim_suffix :: "string \<Rightarrow> string \<Rightarrow> string" where
  "trim_suffix s t = (if has_suffix s t then take (length s - length t) s else s)"

lemma has_suffix_append [simp]: "has_suffix (s @ t) t"
  by (simp add: has_suffix_def)

lemma trim_suffix_append [simp]: "trim_suffix (s @ t) t = s"
  by (simp add: trim_suffix_def)

text \<open>\<open>strings.Split\<close> by one character: always at least one piece\<close>

fun split_on :: "char \<Rightarrow> string \<Rightarrow> string list" where
  "split_on c [] = [[]]"
| "split_on c (x # s) =
     (if x = c then [] # split_on c s
      else case split_on c s of [] \<Rightarrow> [[x]] | p # ps \<Rightarrow> (x # p) # ps)"

lemma split_on_not_Nil [simp]: "split_on c s \<noteq> []"
  by (induction s) (auto split: list.splits)

lemma split_on_plain: "c \<notin> set s \<Longrightarrow> split_on c s = [s]"
  by (induction s) auto

lemma split_on_sep: "c \<notin> set s \<Longrightarrow> split_on c (s @ c # t) = s # split_on c t"
  by (induction s) auto

text \<open>\<open>strings.TrimSpace\<close> on ASCII text\<close>

definition is_space :: "char \<Rightarrow> bool" where
  "is_space c \<longleftrightarrow> (of_char c :: nat) \<in> {9, 10, 11, 12, 13, 32}"

definition trim_space :: "string \<Rightarrow> string" where
  "trim_space s = rev (dropWhile is_space (rev (dropWhile is_space s)))"

lemma trim_space_plain: "list_all (\<lambda>c. \<not> is_space c) s \<Longrightarrow> trim_space s = s"
proof -
  assume "list_all (\<lambda>c. \<not> is_space c) s"
  then have "dropWhile is_space s = s" "dropWhile is_space (rev s) = rev s"
    by (simp_all add: list_all_iff dropWhile_eq_self_iff)
      (metis hd_rev in_set_conv_decomp_last last_in_set rev.simps(1) rev_rev_ident)+
  then show ?thesis by (simp add: trim_space_def)
qed

section \<open>strconv.ParseInt(s, 10, 64)\<close>

text \<open>\<open>ParseUint\<close> stops at the first character that is not a digit or at the first overflow.\<close>

datatype num_error = ErrSyntax | ErrRange

fun uint_digits :: "nat \<Rightarrow> string \<Rightarrow> num_error + nat" where
  "uint_digits n [] = Inr n"
| "uint_digits n (c # s) =
     (if \<not> is_digit c then Inl ErrSyntax
      else if 2 ^ 64 \<le> 10 * n + digit_val c then Inl ErrRange
      else uint_digits (10 * n + digit_val c) s)"

definition ParseUint :: "string \<Rightarrow> num_error + nat" where
  "ParseUint s = (if s = [] then Inl ErrSyntax else uint_digits 0 s)"

text \<open>The value \<open>ParseInt\<close> returns, whose error the callers drop: 0 or the nearest end of the range\<close>

definition ParseInt :: "string \<Rightarrow> int" where
  "ParseInt s =
     (let neg = has_prefix s ''-'';
          ds = (if has_prefix s ''-'' \<or> has_prefix s ''+'' then tl s else s);
          clamp = (\<lambda>un. if \<not> neg \<and> 2 ^ 63 \<le> un then 2 ^ 63 - 1
                         else if neg \<and> 2 ^ 63 < un then - (2 ^ 63)
                         else if neg then - un else un) in
      case ParseUint ds of
        Inl ErrSyntax \<Rightarrow> 0
      | Inl ErrRange \<Rightarrow> clamp (2 ^ 64 - 1)
      | Inr un \<Rightarrow> clamp (int un))"

lemma read_nat_mono: "read_nat ds \<le> read_nat (ds @ es)"
  by (induction es rule: rev_induct) (simp_all add: read_nat_snoc flip: append_assoc)

lemma uint_digits_read:
  assumes "\<forall>c \<in> set es. is_digit c" and "read_nat ds < 2 ^ 64"
  shows "uint_digits (read_nat ds) es =
    (if read_nat (ds @ es) < 2 ^ 64 then Inr (read_nat (ds @ es)) else Inl ErrRange)"
  using assms
proof (induction es arbitrary: ds)
  case (Cons c es)
  have snoc: "read_nat (ds @ [c]) = 10 * read_nat ds + digit_val c" by (rule read_nat_snoc)
  show ?case
  proof (cases "read_nat (ds @ [c]) < 2 ^ 64")
    case True
    with Cons.IH [of "ds @ [c]"] Cons.prems(1) snoc show ?thesis by simp
  next
    case False
    with read_nat_mono [of "ds @ [c]" es] have "\<not> read_nat (ds @ c # es) < 2 ^ 64" by simp
    with False Cons.prems(1) snoc show ?thesis by simp
  qed
qed simp

lemma ParseUint_print: "ParseUint (print_nat n) = (if n < 2 ^ 64 then Inr n else Inl ErrRange)"
  using uint_digits_read [of "print_nat n" "[]"] print_nat_facts [of n] by (simp add: ParseUint_def read_nat_def)

lemma sign_not_digit: "\<not> is_digit (CHR ''-'')" "\<not> is_digit (CHR ''+'')"
  by (simp_all add: is_digit_def)

text \<open>Reading a printed integer: itself, or the nearest end of the range of 64 bits\<close>

definition clamp64 :: "int \<Rightarrow> int" where
  "clamp64 i = max (- (2 ^ 63)) (min (2 ^ 63 - 1) i)"

lemma ParseInt_print: "ParseInt (print_int i) = clamp64 i"
proof (cases "i < 0")
  case True
  then have p: "print_int i = CHR ''-'' # print_nat (nat (- i))" by (simp add: print_int_def)
  show ?thesis unfolding p using True by (simp add: ParseInt_def ParseUint_print Let_def clamp64_def)
next
  case False
  let ?ds = "print_nat (nat i)"
  obtain c s where ds: "?ds = c # s" using print_nat_facts [of "nat i"] by (cases ?ds) auto
  have "is_digit c" using print_nat_facts [of "nat i"] unfolding ds by simp
  then have "\<not> has_prefix ?ds ''-''" "\<not> has_prefix ?ds ''+''" using sign_not_digit by (auto simp: ds)
  moreover have "print_int i = ?ds" using False by (simp add: print_int_def)
  ultimately show ?thesis using False by (simp add: ParseInt_def ParseUint_print Let_def clamp64_def)
qed

end
