(* ===== verification/Scheduler.thy ===== *)
theory Scheduler
  imports Tables GoText
begin

text \<open>
  internal/scheduler/scheduler.go: every pod without a node is bound to a node that is ready and
  whose capacity passes the check, chosen by \<open>rand.Intn\<close>. Two parameters: the random choice (the
  locale \<open>dice\<close> states its contract), and \<open>cores\<close>, the value of \<open>int64(f * 1000)\<close> for what
  \<open>strconv.ParseFloat\<close> reads (floating point is not modelled).
\<close>

section \<open>The scheduler\<close>

definition getRequest :: "Pod \<Rightarrow> string \<Rightarrow> string" where
  "getRequest pod resourceName = (if elems (psp_Containers (pod_Spec pod)) \<noteq> [] then ''0'' else ''0'')"

definition parseCPU :: "(string \<Rightarrow> int64) \<Rightarrow> string \<Rightarrow> int64" where
  "parseCPU cores val =
     (if val = [] then 0
      else if has_suffix val ''m'' then word_of_int (ParseInt (trim_suffix val ''m''))
      else cores val)"

definition is_ready :: "Node \<Rightarrow> bool" where
  "is_ready node = list_ex (\<lambda>cond. nc_Type cond = ''Ready'' \<and> nc_Status cond = ''True'') (nst_Conditions (node_Status node))"

definition podFitsResources :: "(string \<Rightarrow> int64) \<Rightarrow> Pod \<Rightarrow> Node \<Rightarrow> bool" where
  "podFitsResources cores pod node =
     (if \<not> is_ready node then False
      else let podCPU = parseCPU cores (getRequest pod ''cpu'');
               nodeCPU = parseCPU cores (label (nst_Capacity (node_Status node)) ''cpu'') in
           \<not> sint nodeCPU < sint podCPU)"

text \<open>\<open>selectNode\<close> never returns an error: the name of a node, or the empty string.\<close>

definition selectNode :: "(nat \<Rightarrow> ('w, nat) go) \<Rightarrow> (string \<Rightarrow> int64) \<Rightarrow> Pod \<Rightarrow> Node list \<Rightarrow> ('w, string result) go" where
  "selectNode Intn cores pod nodes =
     (let feasible = filter (podFitsResources cores pod) nodes in
      if feasible = [] then gret (Inr [])
      else gbind (Intn (length feasible)) (\<lambda>k.
        if k < length feasible then gret (Inr (om_Name (node_ObjectMeta (feasible ! k))))
        else gpanic Index_out_of_range))"

definition on_node :: "string \<Rightarrow> Pod \<Rightarrow> Pod" where
  "on_node nodeName pod = pod\<lparr>pod_Spec := (pod_Spec pod)\<lparr>psp_NodeName := nodeName\<rparr>\<rparr>"

definition bind_pod :: "'w Client \<Rightarrow> Pod \<Rightarrow> string \<Rightarrow> ('w, gerror option) go" where
  "bind_pod c pod nodeName = UpdatePod c (on_node nodeName pod)"

definition schedule_pod ::
  "'w Client \<Rightarrow> (nat \<Rightarrow> ('w, nat) go) \<Rightarrow> (string \<Rightarrow> int64) \<Rightarrow> Node list \<Rightarrow> Pod \<Rightarrow> ('w, unit) go" where
  "schedule_pod c Intn cores nodes pod =
     gbind (selectNode Intn cores pod nodes) (\<lambda>r. case r of
       Inl err \<Rightarrow> gret ()
     | Inr node \<Rightarrow> if node \<noteq> [] then gbind (bind_pod c pod node) (\<lambda>err. gret ()) else gret ())"

definition scheduleOneRound ::
  "'w Client \<Rightarrow> (nat \<Rightarrow> ('w, nat) go) \<Rightarrow> (string \<Rightarrow> int64) \<Rightarrow> ('w, unit) go" where
  "scheduleOneRound c Intn cores =
     gbind (ListPods c []) (\<lambda>r. case r of
       Inl err \<Rightarrow> gret ()
     | Inr pods \<Rightarrow>
         (let unscheduled = filter (\<lambda>pod. psp_NodeName (pod_Spec pod) = []) (elems pods) in
          if unscheduled = [] then gret ()
          else gbind (ListNodes c) (\<lambda>r. case r of
            Inl err \<Rightarrow> gret ()
          | Inr nodes \<Rightarrow>
              if elems nodes = [] then gret ()
              else for_each unscheduled (schedule_pod c Intn cores (elems nodes)))))"

definition sched_Start ::
  "'w Client \<Rightarrow> (nat \<Rightarrow> ('w, nat) go) \<Rightarrow> (string \<Rightarrow> int64) \<Rightarrow> wake list \<Rightarrow> ('w, unit) go" where
  "sched_Start c Intn cores = run_loop (scheduleOneRound c Intn cores)"

section \<open>The specification\<close>

text \<open>The names of the nodes of a row that a pod fits\<close>

definition fitting :: "(string \<Rightarrow> int64) \<Rightarrow> Pod \<Rightarrow> (string \<Rightarrow> obj option) \<Rightarrow> string set" where
  "fitting cores pod row = {n. \<exists>node. row n = Some (ONode node) \<and> podFitsResources cores pod node}"

text \<open>Rows of pods before and after: a pod that has a node or fits nowhere stays, every other is bound.\<close>

definition pod_placed :: "(string \<Rightarrow> int64) \<Rightarrow> (string \<Rightarrow> obj option) \<Rightarrow> Pod \<Rightarrow> obj option \<Rightarrow> bool" where
  "pod_placed cores nodes p x \<longleftrightarrow>
     (if psp_NodeName (pod_Spec p) \<noteq> [] \<or> fitting cores p nodes = {} then x = Some (OPod p)
      else \<exists>n \<in> fitting cores p nodes. x = Some (OPod (on_node n p)))"

definition pods_placed ::
  "(string \<Rightarrow> int64) \<Rightarrow> (string \<Rightarrow> obj option) \<Rightarrow> (string \<Rightarrow> obj option) \<Rightarrow> (string \<Rightarrow> obj option) \<Rightarrow> bool" where
  "pods_placed cores nodes row row' \<longleftrightarrow>
     (\<forall>n. case row n of Some (OPod p) \<Rightarrow> pod_placed cores nodes p (row' n) | x \<Rightarrow> row' n = x)"

section \<open>Binding\<close>

lemma on_node_simps [simp]:
  "pod_ObjectMeta (on_node n p) = pod_ObjectMeta p" "psp_NodeName (pod_Spec (on_node n p)) = n"
  "psp_Containers (pod_Spec (on_node n p)) = psp_Containers (pod_Spec p)"
  "obj_name (OPod (on_node n p)) = obj_name (OPod p)"
  by (simp_all add: on_node_def obj_name_def)

lemma on_node_settled: "settled_obj (OPod p) \<Longrightarrow> settled_obj (OPod (on_node n p))"
proof -
  assume "settled_obj (OPod p)"
  then have p: "cok Pod_codec p" "cnrm Pod_codec p = p" using settled_ok(1) by auto
  then have "psp_Containers (pod_Spec (cnrm Pod_codec p)) = psp_Containers (pod_Spec p)" by simp
  then have "map_option (map (cnrm Container_codec)) (psp_Containers (pod_Spec p)) = psp_Containers (pod_Spec p)"
    by (simp del: Container_nrm)
  with p(1) show ?thesis
    by (simp add: settled_iff marshal_def codec_oks on_node_def del: Container_nrm)
qed

lemma fits_on_node [simp]: "podFitsResources cores (on_node n p) = podFitsResources cores p"
  by (simp add: podFitsResources_def getRequest_def fun_eq_iff)

locale dice = rest C good tab env
  for C :: "'w Client" and good tab and env :: "'w \<Rightarrow> 'e" +
  fixes Intn :: "nat \<Rightarrow> ('w, nat) go"
  assumes roll: "0 < n \<Longrightarrow> triple (world_at good tab env t e) (Intn n)
    (\<lambda>k w. k < n \<and> (\<exists>e'. world_at good tab env t e' w))"

context dice
begin

abbreviation (input) pods_at :: "table \<Rightarrow> (string \<Rightarrow> obj option) \<Rightarrow> 'w \<Rightarrow> bool" where
  "pods_at t row w \<equiv> (\<exists>e. world_at good tab env (t(''pods'' := row)) e w)"

lemma selectNode_effect:
  "triple (pods_at t row) (selectNode Intn cores p nodes)
    (\<lambda>r w. pods_at t row w \<and>
      (if filter (podFitsResources cores p) nodes = [] then r = Inr []
       else \<exists>node \<in> set (filter (podFitsResources cores p) nodes). r = Inr (om_Name (node_ObjectMeta node))))"
proof (cases "filter (podFitsResources cores p) nodes = []")
  case True
  then show ?thesis by (simp add: selectNode_def Let_def triple_gret)
next
  case False
  let ?f = "filter (podFitsResources cores p) nodes"
  have roll': "triple (pods_at t row) (Intn (length ?f)) (\<lambda>k w. k < length ?f \<and> pods_at t row w)"
    using False by (intro triple_ex roll) simp
  show ?thesis
    unfolding selectNode_def Let_def if_not_P [OF False]
  proof (rule triple_gbind [OF roll'], rule triple_assuming)
    fix k assume k: "k < length ?f"
    then have "?f ! k \<in> set ?f" by (rule nth_mem)
    with k show "triple (pods_at t row)
        (if k < length ?f then gret (Inr (om_Name (node_ObjectMeta (?f ! k)))) else gpanic Index_out_of_range)
        (\<lambda>r w. pods_at t row w \<and> (\<exists>node \<in> set ?f. r = Inr (om_Name (node_ObjectMeta node))))"
      by (auto intro!: triple_gret)
  qed
qed

lemma bind_effect:
  assumes "row (om_Name (pod_ObjectMeta p)) \<noteq> None" and "settled_obj (OPod p)"
    and "plain_name (om_Name (pod_ObjectMeta p))"
  shows "triple (pods_at t row) (bind_pod C p n)
    (\<lambda>err. pods_at t (row(om_Name (pod_ObjectMeta p) \<mapsto> OPod (on_node n p))))"
proof (rule triple_ex)
  fix e
  let ?n = "om_Name (pod_ObjectMeta p)" and ?t = "t(''pods'' := row)"
  have set: "settled_obj (OPod (on_node n p))" using assms(2) by (rule on_node_settled)
  then have "put_effect ''pods'' ?n (OPod (on_node n p)) ?t = (200, t(''pods'' := row(?n \<mapsto> OPod (on_node n p))))"
    using assms(1) by (simp add: put_effect_def set_obj_def settled_iff del: obj_nrm.simps)
  with UpdatePod_effect [of "on_node n p" ?t e] set assms(3)
  show "triple (world_at good tab env ?t e) (bind_pod C p n) (\<lambda>err. pods_at t (row(?n \<mapsto> OPod (on_node n p))))"
    by (auto simp: bind_pod_def settled_iff elim!: triple_post)
qed


lemma schedule_pod_effect:
  assumes "enumerates (map ONode nodes) (t ''nodes'')" and "tidy (t ''nodes'')"
    and "row (om_Name (pod_ObjectMeta p)) = Some (OPod p)" and "settled_obj (OPod p)"
    and "plain_name (om_Name (pod_ObjectMeta p))" and "psp_NodeName (pod_Spec p) = []"
  shows "triple (pods_at t row) (schedule_pod C Intn cores nodes p)
    (\<lambda>_ w. \<exists>x. pod_placed cores (t ''nodes'') p x \<and> pods_at t (row(om_Name (pod_ObjectMeta p) := x)) w)"
proof -
  let ?f = "filter (podFitsResources cores p) nodes" and ?n = "om_Name (pod_ObjectMeta p)"
  have row: "t ''nodes'' (om_Name (node_ObjectMeta node)) = Some (ONode node)" if "node \<in> set nodes" for node
    using enumerates_named(2) [OF assms(1), of "ONode node"] assms(2) that by (simp add: tidy_def obj_name_def)
  have fit: "om_Name (node_ObjectMeta node) \<in> fitting cores p (t ''nodes'') \<and> om_Name (node_ObjectMeta node) \<noteq> []"
    if "node \<in> set ?f" for node
    using that row [of node] assms(2) by (auto simp: fitting_def tidy_def plain_name_def)
  show ?thesis
    unfolding schedule_pod_def
  proof (rule triple_gbind [OF selectNode_effect])
    fix r :: "string result"
    let ?post = "\<lambda>_ w. \<exists>x. pod_placed cores (t ''nodes'') p x \<and> pods_at t (row(?n := x)) w"
    let ?rest = "case r of Inl err \<Rightarrow> gret ()
     | Inr node \<Rightarrow> if node \<noteq> [] then gbind (bind_pod C p node) (\<lambda>err. gret ()) else gret ()"
    show "triple (\<lambda>w. pods_at t row w \<and> (if ?f = [] then r = Inr []
        else \<exists>node \<in> set ?f. r = Inr (om_Name (node_ObjectMeta node)))) ?rest ?post"
    proof (cases "?f = []")
      case True
      have "fitting cores p (t ''nodes'') = {}"
        using True enumerates_mem [OF assms(1)] by (fastforce simp: fitting_def filter_empty_conv)
      then have "pod_placed cores (t ''nodes'') p (Some (OPod p))" by (simp add: pod_placed_def)
      with True assms(3) show ?thesis
        by (auto simp: triple_def gret_run fun_upd_idem intro!: exI [of _ "Some (OPod p)"])
    next
      case False
      have "triple (pods_at t row) ?rest ?post" if "node \<in> set ?f" "r = Inr (om_Name (node_ObjectMeta node))" for node
      proof -
        let ?m = "om_Name (node_ObjectMeta node)"
        have "pod_placed cores (t ''nodes'') p (Some (OPod (on_node ?m p)))"
          using fit [OF that(1)] assms(6) by (auto simp: pod_placed_def)
        moreover have "triple (pods_at t row) (bind_pod C p ?m) (\<lambda>err. pods_at t (row(?n \<mapsto> OPod (on_node ?m p))))"
          using assms(3-5) by (intro bind_effect) simp_all
        ultimately have "triple (pods_at t row) (bind_pod C p ?m) (\<lambda>err. ?post ())"
          by (auto elim!: triple_post)
        then have "triple (pods_at t row) (gbind (bind_pod C p ?m) (\<lambda>err. gret ())) ?post"
          by (rule triple_gbind) (auto intro: triple_gret)
        with fit [OF that(1)] that(2) show ?thesis by simp
      qed
      then have some: "triple (pods_at t row) ?rest ?post"
        if "\<exists>node \<in> set ?f. r = Inr (om_Name (node_ObjectMeta node))" using that by blast
      have "triple (\<lambda>w. (\<exists>node \<in> set ?f. r = Inr (om_Name (node_ObjectMeta node))) \<and> pods_at t row w) ?rest ?post"
        by (rule triple_assuming) (rule some)
      then show ?thesis by (rule triple_pre) (use False in auto)
    qed
  qed
qed

text \<open>The loop over the unscheduled pods of a listing\<close>

definition placed_upto :: "(string \<Rightarrow> int64) \<Rightarrow> table \<Rightarrow> Pod list \<Rightarrow> (string \<Rightarrow> obj option) \<Rightarrow> bool" where
  "placed_upto cores t ps row \<longleftrightarrow>
     (\<forall>p \<in> set ps. pod_placed cores (t ''nodes'') p (row (om_Name (pod_ObjectMeta p)))) \<and>
     (\<forall>n. n \<notin> (\<lambda>p. om_Name (pod_ObjectMeta p)) ` set ps \<longrightarrow> row n = t ''pods'' n)"

lemma schedule_loop:
  assumes "enumerates (map ONode nodes) (t ''nodes'')" and "tidy (t ''nodes'')"
    and "distinct (map (\<lambda>p. om_Name (pod_ObjectMeta p)) ps)"
    and "\<And>p. p \<in> set ps \<Longrightarrow> t ''pods'' (om_Name (pod_ObjectMeta p)) = Some (OPod p) \<and> settled_obj (OPod p) \<and>
       plain_name (om_Name (pod_ObjectMeta p)) \<and> psp_NodeName (pod_Spec p) = []"
  shows "triple (pods_at t (t ''pods'')) (for_each ps (schedule_pod C Intn cores nodes))
    (\<lambda>_ w. \<exists>row. placed_upto cores t ps row \<and> pods_at t row w)"
proof -
  let ?name = "\<lambda>p. om_Name (pod_ObjectMeta p)"
  let ?I = "\<lambda>ys w. \<exists>row. placed_upto cores t ys row \<and> pods_at t row w"
  have "triple (?I []) (for_each ps (schedule_pod C Intn cores nodes)) (\<lambda>_. ?I ps)"
  proof (rule triple_for_each_suffix)
    fix ys p zs assume split: "ps = ys @ p # zs"
    then have p: "t ''pods'' (?name p) = Some (OPod p)" "settled_obj (OPod p)" "plain_name (?name p)" "psp_NodeName (pod_Spec p) = []"
      using assms(4) [of p] by simp_all
    have new: "?name q \<noteq> ?name p" if "q \<in> set ys" for q
      using assms(3) that split by (auto dest: sym)
    show "triple (?I ys) (schedule_pod C Intn cores nodes p) (\<lambda>_. ?I (ys @ [p]))"
    proof (rule triple_ex, rule triple_assuming)
      fix row assume row: "placed_upto cores t ys row"
      have "?name p \<notin> ?name ` set ys" using new by force
      then have "row (?name p) = Some (OPod p)" using row p(1) by (simp add: placed_upto_def)
      from schedule_pod_effect [of nodes t row, OF assms(1,2) this p(2-4), of cores]
      show "triple (pods_at t row) (schedule_pod C Intn cores nodes p) (\<lambda>_. ?I (ys @ [p]))"
      proof (rule triple_post, elim exE conjE)
        fix x w e assume x: "pod_placed cores (t ''nodes'') p x"
          and w: "world_at good tab env (t(''pods'' := row(?name p := x))) e w"
        have "placed_upto cores t (ys @ [p]) (row(?name p := x))"
          using row x new by (auto simp: placed_upto_def)
        with w show "?I (ys @ [p]) w" by blast
      qed
    qed
  qed
  then show ?thesis
    by (rule triple_pre) (auto simp: placed_upto_def intro!: exI [of _ "t ''pods''"])
qed

lemma placed_round:
  assumes "enumerates (map OPod ps) (t ''pods'')" and "named (t ''pods'')"
    and "placed_upto cores t (filter (\<lambda>p. psp_NodeName (pod_Spec p) = []) ps) row"
  shows "pods_placed cores (t ''nodes'') (t ''pods'') row"
  unfolding pods_placed_def
proof (intro allI)
  fix n
  let ?u = "filter (\<lambda>p. psp_NodeName (pod_Spec p) = []) ps" and ?name = "\<lambda>p. om_Name (pod_ObjectMeta p)"
  have other: "row n = t ''pods'' n" if "n \<notin> ?name ` set ?u"
    using that assms(3) by (simp add: placed_upto_def)
  have at: "t ''pods'' (?name p) = Some (OPod p)" if "p \<in> set ps" for p
    using enumerates_named(2) [OF assms(1,2), of "OPod p"] that by (simp add: obj_name_def)
  show "case t ''pods'' n of Some (OPod p) \<Rightarrow> pod_placed cores (t ''nodes'') p (row n) | x \<Rightarrow> row n = x"
  proof (cases "n \<in> ?name ` set ?u")
    case True
    then obtain p where "p \<in> set ?u" "n = ?name p" by blast
    then show ?thesis using at [of p] assms(3) by (auto simp: placed_upto_def)
  next
    case False
    have "psp_NodeName (pod_Spec p) \<noteq> []" if p: "t ''pods'' n = Some (OPod p)" for p
    proof -
      have "p \<in> set ps" using enumerates_mem [OF assms(1) p] by auto
      moreover have "?name p = n" using assms(2) p by (force simp: named_def obj_name_def)
      ultimately show ?thesis using False by auto
    qed
    then show ?thesis
      using other [OF False] by (auto simp: pod_placed_def split: option.split obj.split)
  qed
qed


lemma scheduleOneRound_effect:
  assumes "tidy (t ''pods'')" and "tidy (t ''nodes'')"
  shows "triple (\<lambda>w. \<exists>e. at_table t e w) (scheduleOneRound C Intn cores)
    (\<lambda>_ w. \<exists>row. pods_placed cores (t ''nodes'') (t ''pods'') row \<and> pods_at t row w)"
  unfolding scheduleOneRound_def
proof (rule triple_ex, rule triple_gbind [OF ListPods_effect], rule triple_listed, rule tripleI)
  fix e and r :: "Pod slice result" and ps :: "Pod list" and w
  let ?u = "filter (\<lambda>p. psp_NodeName (pod_Spec p) = []) ps"
  let ?Q = "\<lambda>w. \<exists>row. pods_placed cores (t ''nodes'') (t ''pods'') row \<and> pods_at t row w"
  assume r: "r = Inr (slice_of ps)" and en: "enumerates (map OPod ps) (t ''pods'')" and w: "at_table t e w"
  have named: "named (t ''pods'')" using assms(1) by (simp add: tidy_def)
  have at: "t ''pods'' (om_Name (pod_ObjectMeta p)) = Some (OPod p)" if "p \<in> set ps" for p
    using enumerates_named(2) [OF en named, of "OPod p"] that by (simp add: obj_name_def)
  have ok: "t ''pods'' (om_Name (pod_ObjectMeta p)) = Some (OPod p) \<and> settled_obj (OPod p) \<and>
      plain_name (om_Name (pod_ObjectMeta p)) \<and> psp_NodeName (pod_Spec p) = []" if "p \<in> set ?u" for p
    using that at [of p] at_entry [OF w, of "''pods''"] assms(1) by (auto simp: tidy_def)
  have "obj_name \<circ> OPod = (\<lambda>p. om_Name (pod_ObjectMeta p))" by (simp add: fun_eq_iff obj_name_def)
  then have dist: "distinct (map (\<lambda>p. om_Name (pod_ObjectMeta p)) ?u)"
    using enumerates_named(1) [OF en named] by (simp add: distinct_map_filter)
  have stay: "?Q w" if none: "\<And>p. p \<in> set ?u \<Longrightarrow> fitting cores p (t ''nodes'') = {}" and w: "at_table t e w" for w
  proof -
    have "pod_placed cores (t ''nodes'') p (t ''pods'' (om_Name (pod_ObjectMeta p)))" if p: "p \<in> set ?u" for p
      using none [OF p] ok [OF p] by (simp add: pod_placed_def)
    then have "placed_upto cores t ?u (t ''pods'')" unfolding placed_upto_def by blast
    then have "pods_placed cores (t ''nodes'') (t ''pods'') (t ''pods'')" by (rule placed_round [of ps t, OF en named])
    moreover have "pods_at t (t ''pods'') w" using w by auto
    ultimately show ?thesis by blast
  qed
  have nodes: "triple (at_table t e) (gbind (ListNodes C) (\<lambda>r. case r of Inl err \<Rightarrow> gret ()
      | Inr nodes \<Rightarrow> if elems nodes = [] then gret () else for_each ?u (schedule_pod C Intn cores (elems nodes)))) (\<lambda>_. ?Q)"
  proof (rule triple_gbind [OF ListNodes_effect], rule triple_listed)
    fix r :: "Node slice result" and ns assume r: "r = Inr (slice_of ns)" and ns: "enumerates (map ONode ns) (t ''nodes'')"
    show "triple (at_table t e) (case r of Inl err \<Rightarrow> gret ()
      | Inr nodes \<Rightarrow> if elems nodes = [] then gret () else for_each ?u (schedule_pod C Intn cores (elems nodes))) (\<lambda>_. ?Q)"
    proof (cases "ns = []")
      case True
      have "fitting cores p (t ''nodes'') = {}" for p
        using enumerates_mem [OF ns] True by (auto simp: fitting_def)
      with stay r True show ?thesis by (auto intro!: triple_gret)
    next
      case False
      from schedule_loop [OF ns assms(2) dist ok, of cores]
      have "triple (at_table t e) (for_each ?u (schedule_pod C Intn cores ns)) (\<lambda>_. ?Q)"
        by (rule triple_weaken) (use placed_round [of ps t, OF en named] in fastforce)+
      with r False show ?thesis by simp
    qed
  qed
  show "\<exists>x w'. (case r of Inl err \<Rightarrow> gret ()
     | Inr pods \<Rightarrow>
         (let unscheduled = filter (\<lambda>pod. psp_NodeName (pod_Spec pod) = []) (elems pods) in
          if unscheduled = [] then gret ()
          else gbind (ListNodes C) (\<lambda>r. case r of
            Inl err \<Rightarrow> gret ()
          | Inr nodes \<Rightarrow>
              if elems nodes = [] then gret ()
              else for_each unscheduled (schedule_pod C Intn cores (elems nodes))))) w = (Ret x, w') \<and> ?Q w'"
    using tripleD [OF nodes w] stay [OF _ w] by (cases "?u = []") (simp_all add: r Let_def gret_run)
qed

end

section \<open>Rounds of the loop\<close>

text \<open>A pod that has a node stays exactly as it is.\<close>

definition keeps_bound :: "(string \<Rightarrow> obj option) \<Rightarrow> (string \<Rightarrow> obj option) \<Rightarrow> bool" where
  "keeps_bound row row' \<longleftrightarrow> (\<forall>n p. row n = Some (OPod p) \<longrightarrow> psp_NodeName (pod_Spec p) \<noteq> [] \<longrightarrow> row' n = Some (OPod p))"

lemma placed_keeps: "pods_placed cores nodes row row' \<Longrightarrow> keeps_bound row row'"
  unfolding pods_placed_def keeps_bound_def
proof (intro allI impI)
  fix n p assume "\<forall>n. case row n of Some (OPod p) \<Rightarrow> pod_placed cores nodes p (row' n) | x \<Rightarrow> row' n = x"
    and "row n = Some (OPod p)" "psp_NodeName (pod_Spec p) \<noteq> []"
  from this(1) [rule_format, of n] this(2,3) show "row' n = Some (OPod p)" by (simp add: pod_placed_def)
qed

lemma placed_named:
  assumes "pods_placed cores nodes row row'" and "row' n = Some x" and "named row"
  shows "row n \<noteq> None" and "obj_name x = n"
proof -
  have a: "case row n of Some (OPod p) \<Rightarrow> pod_placed cores nodes p (row' n) | x \<Rightarrow> row' n = x"
    using assms(1) unfolding pods_placed_def by (rule spec)
  then show "row n \<noteq> None" using assms(2) by (cases "row n") auto
  with assms(3) obtain y where y: "row n = Some y" "obj_name y = n" by (auto simp: named_def)
  show "obj_name x = n"
  proof (cases "\<exists>p. y = OPod p")
    case True
    then obtain p where p: "y = OPod p" by blast
    with a y assms(2) show ?thesis by (auto simp: pod_placed_def split: if_splits)
  next
    case False
    with a y assms(2) show ?thesis by (cases y) auto
  qed
qed

lemma placed_tidy: "pods_placed cores nodes row row' \<Longrightarrow> tidy row \<Longrightarrow> tidy row'"
  unfolding tidy_def named_def using placed_named [of cores nodes row row'] by (fastforce simp: named_def)

lemma keeps_bound_trans: "keeps_bound a b \<Longrightarrow> keeps_bound b c \<Longrightarrow> keeps_bound a c"
  by (simp add: keeps_bound_def)

context dice
begin

definition bound_at :: "table \<Rightarrow> 'w \<Rightarrow> bool" where
  "bound_at t w \<longleftrightarrow> (\<exists>row. tidy row \<and> keeps_bound (t ''pods'') row \<and> pods_at t row w)"

lemma sched_Start_keeps:
  assumes "tidy (t ''nodes'')"
  shows "triple (bound_at t) (sched_Start C Intn cores ws) (\<lambda>_. bound_at t)"
  unfolding sched_Start_def
proof (rule triple_run_loop, unfold bound_at_def, rule triple_ex, rule triple_assuming, rule triple_assuming)
  fix row assume row: "tidy row" "keeps_bound (t ''pods'') row"
  let ?t = "t(''pods'' := row)"
  have "triple (\<lambda>w. \<exists>e. at_table ?t e w) (scheduleOneRound C Intn cores)
    (\<lambda>_ w. \<exists>row'. pods_placed cores (t ''nodes'') row row' \<and> pods_at t row' w)"
    using scheduleOneRound_effect [of ?t cores] row(1) assms by simp
  then show "triple (pods_at t row) (scheduleOneRound C Intn cores)
      (\<lambda>_ w. \<exists>row'. tidy row' \<and> keeps_bound (t ''pods'') row' \<and> pods_at t row' w)"
  proof (rule triple_post, elim exE conjE)
    fix w row' e assume placed: "pods_placed cores (t ''nodes'') row row'" and w: "world_at good tab env (t(''pods'' := row')) e w"
    then show "\<exists>row'. tidy row' \<and> keeps_bound (t ''pods'') row' \<and> pods_at t row' w"
      using placed_tidy [OF placed row(1)] keeps_bound_trans [OF row(2) placed_keeps [OF placed]] by blast
  qed
qed

end


section \<open>In the cluster\<close>

text \<open>A world whose environment is a stream of random numbers and how many have been drawn\<close>

record dice_source =
  ds_roll :: "nat \<Rightarrow> nat"
  ds_next :: nat

definition roll_dice :: "nat \<Rightarrow> (dice_source cluster, nat) go" where
  "roll_dice n w = (Ret (ds_roll (w_env w) (ds_next (w_env w)) mod n),
     w\<lparr>w_env := (w_env w)\<lparr>ds_next := Suc (ds_next (w_env w))\<rparr>\<rparr>)"

interpretation sched_cluster: dice "cluster_client base" cluster_good cluster_table w_env roll_dice for base
proof unfold_locales
  fix n :: nat and t and e :: dice_source assume "0 < n"
  then show "triple (world_at cluster_good cluster_table w_env t e) (roll_dice n)
    (\<lambda>k w. k < n \<and> (\<exists>e'. world_at cluster_good cluster_table w_env t e' w))"
    by (auto simp: triple_def roll_dice_def world_at_def cluster_good_def cluster_table_def world_good_def world_table_def)
qed

section \<open>A small cluster\<close>

definition demo_node :: "string \<Rightarrow> string \<Rightarrow> Node" where
  "demo_node n ready = Node_zero\<lparr>node_ObjectMeta := ObjectMeta_zero\<lparr>om_Name := n\<rparr>,
     node_Status := NodeStatus_zero\<lparr>nst_Conditions := [\<lparr>nc_Type = ''Ready'', nc_Status = ready, nc_LastHeartbeatTime = 0\<rparr>]\<rparr>\<rparr>"

definition demo_unbound :: "string \<Rightarrow> Pod" where
  "demo_unbound n = Pod_zero\<lparr>pod_ObjectMeta := ObjectMeta_zero\<lparr>om_Name := n\<rparr>\<rparr>"

lemma demo_node_settled: "settled_obj (ONode (demo_node n r))"
  by (simp add: settled_iff marshal_def codec_oks demo_node_def Node_zero_def ObjectMeta_zero_def
      NodeStatus_zero_def NodeSystemInfo_zero_def)

lemma demo_unbound_settled: "settled_obj (OPod (demo_unbound n))"
  by (simp add: settled_iff marshal_def codec_oks demo_unbound_def Pod_zero_def ObjectMeta_zero_def
      PodSpec_zero_def PodStatus_zero_def)

lemma demo_sched_simps [simp]:
  "om_Name (node_ObjectMeta (demo_node n r)) = n" "om_Name (pod_ObjectMeta (demo_unbound n)) = n"
  "psp_NodeName (pod_Spec (demo_unbound n)) = []" "is_ready (demo_node n r) \<longleftrightarrow> r = ''True''"
  "nst_Capacity (node_Status (demo_node n r)) = fmempty"
  by (simp_all add: demo_node_def demo_unbound_def is_ready_def Pod_zero_def PodSpec_zero_def NodeStatus_zero_def)

definition demo_sched :: "obj list" where
  "demo_sched = [OPod (demo_unbound ''p''), ONode (demo_node ''up'' ''True''), ONode (demo_node ''down'' ''False'')]"

lemma demo_sched_ok: "demo_objects demo_sched"
  using demo_node_settled demo_unbound_settled by (simp add: demo_objects_def demo_sched_def obj_name_def)

lemma demo_sched_table:
  "cluster_table (cluster_with demo_sched e) r =
    (if r = ''pods'' then [''p'' \<mapsto> OPod (demo_unbound ''p'')]
     else if r = ''nodes'' then [''up'' \<mapsto> ONode (demo_node ''up'' ''True''), ''down'' \<mapsto> ONode (demo_node ''down'' ''False'')]
     else Map.empty)"
  by (rule ext) (simp add: demo_table_objs [OF demo_sched_ok], simp add: demo_sched_def obj_name_def)

lemma demo_sched_tidy: "tidy (cluster_table (cluster_with demo_sched e) r)"
  by (auto simp: demo_sched_table tidy_def named_def obj_name_def plain_name_def name_char_def)

definition demo_dice :: dice_source where
  "demo_dice = \<lparr>ds_roll = (\<lambda>i. i), ds_next = 0\<rparr>"

section \<open>Properties\<close>

text \<open>C13: One round of the scheduler binds every pod without a node to a node it fits, whenever there is
  one; pods that have a node, and everything else in the cluster, stay as they are.\<close>

theorem round_binds_all:
  assumes "cluster_good w" and "tidy (cluster_table w ''pods'')" and "tidy (cluster_table w ''nodes'')"
  shows "\<exists>w'. scheduleOneRound (cluster_client base) roll_dice cores w = (Ret (), w') \<and> cluster_good w' \<and>
    pods_placed cores (cluster_table w ''nodes'') (cluster_table w ''pods'') (cluster_table w' ''pods'') \<and>
    (\<forall>r. r \<noteq> ''pods'' \<longrightarrow> cluster_table w' r = cluster_table w r)"
proof -
  have "\<exists>e. world_at cluster_good cluster_table w_env (cluster_table w) e w"
    using assms(1) by (simp add: world_at_def)
  from tripleD [OF sched_cluster.scheduleOneRound_effect [of "cluster_table w", OF assms(2,3)] this, of base cores]
  show ?thesis by (fastforce simp: world_at_def)
qed

theorem round_binds_all_witness:
  "\<exists>w'. scheduleOneRound (cluster_client ''http://api'') roll_dice (\<lambda>_. 0) (cluster_with demo_sched demo_dice) = (Ret (), w') \<and>
     cluster_table w' ''pods'' ''p'' = Some (OPod (on_node ''up'' (demo_unbound ''p'')))"
proof -
  let ?w = "cluster_with demo_sched demo_dice"
  obtain w' where run: "scheduleOneRound (cluster_client ''http://api'') roll_dice (\<lambda>_. 0) ?w = (Ret (), w')"
    and placed: "pods_placed (\<lambda>_. 0) (cluster_table ?w ''nodes'') (cluster_table ?w ''pods'') (cluster_table w' ''pods'')"
    using round_binds_all [where base = "''http://api''" and cores = "\<lambda>_. 0",
        OF demo_good [OF demo_sched_ok] demo_sched_tidy demo_sched_tidy, of demo_dice]
    by (elim exE conjE)
  have fit: "fitting (\<lambda>_. 0) (demo_unbound ''p'') (cluster_table ?w ''nodes'') = {''up''}"
    by (auto simp: fitting_def demo_sched_table podFitsResources_def parseCPU_def getRequest_def label_def has_suffix_def
        split: if_splits)
  from placed [unfolded pods_placed_def, rule_format, of "''p''"]
  have "pod_placed (\<lambda>_. 0) (cluster_table ?w ''nodes'') (demo_unbound ''p'') (cluster_table w' ''pods'' ''p'')"
    by (simp add: demo_sched_table)
  with run show ?thesis by (intro exI [of _ w']) (simp add: pod_placed_def fit)
qed

text \<open>C36: Over any number of rounds the scheduler never moves a pod: one that has a node keeps it, with
  everything else of the pod.\<close>

theorem scheduler_never_moves:
  assumes "cluster_good w" and "tidy (cluster_table w ''pods'')" and "tidy (cluster_table w ''nodes'')"
  shows "\<exists>w'. sched_Start (cluster_client base) roll_dice cores ws w = (Ret (), w') \<and> cluster_good w' \<and>
    keeps_bound (cluster_table w ''pods'') (cluster_table w' ''pods'') \<and>
    (\<forall>r. r \<noteq> ''pods'' \<longrightarrow> cluster_table w' r = cluster_table w r)"
proof -
  have "world_at cluster_good cluster_table w_env ((cluster_table w)(''pods'' := cluster_table w ''pods'')) (w_env w) w"
    using assms(1) by (simp add: world_at_def)
  then have "sched_cluster.bound_at (cluster_table w) w"
    using assms(2) unfolding sched_cluster.bound_at_def keeps_bound_def by blast
  from tripleD [OF sched_cluster.sched_Start_keeps [of "cluster_table w", OF assms(3)] this, of base cores ws]
  show ?thesis by (fastforce simp: sched_cluster.bound_at_def world_at_def)
qed

text \<open>A pod that someone has put on the node that is not ready stays there.\<close>

definition demo_kept :: "obj list" where
  "demo_kept = OPod (on_node ''down'' (demo_unbound ''r'')) # demo_sched"

lemma demo_kept_ok: "demo_objects demo_kept"
proof -
  have "settled_obj (OPod (on_node ''down'' (demo_unbound ''r'')))"
    by (simp add: settled_iff marshal_def codec_oks on_node_def demo_unbound_def Pod_zero_def ObjectMeta_zero_def
        PodSpec_zero_def PodStatus_zero_def)
  then show ?thesis
    using demo_sched_ok by (simp add: demo_objects_def demo_kept_def demo_sched_def obj_name_def on_node_def)
qed

lemma demo_kept_table:
  "cluster_table (cluster_with demo_kept e) r =
    (if r = ''pods'' then [''r'' \<mapsto> OPod (on_node ''down'' (demo_unbound ''r'')), ''p'' \<mapsto> OPod (demo_unbound ''p'')]
     else if r = ''nodes'' then [''up'' \<mapsto> ONode (demo_node ''up'' ''True''), ''down'' \<mapsto> ONode (demo_node ''down'' ''False'')]
     else Map.empty)"
  by (rule ext) (simp add: demo_table_objs [OF demo_kept_ok], simp add: demo_kept_def demo_sched_def obj_name_def on_node_def)

theorem scheduler_never_moves_witness:
  "\<exists>w'. sched_Start (cluster_client ''http://api'') roll_dice (\<lambda>_. 0) [Tick, Tick] (cluster_with demo_kept demo_dice) = (Ret (), w') \<and>
     cluster_table w' ''pods'' ''r'' = Some (OPod (on_node ''down'' (demo_unbound ''r'')))"
proof -
  let ?w = "cluster_with demo_kept demo_dice"
  have "tidy (cluster_table ?w r)" for r
    by (auto simp: demo_kept_table tidy_def named_def obj_name_def plain_name_def name_char_def on_node_def)
  then obtain w' where run: "sched_Start (cluster_client ''http://api'') roll_dice (\<lambda>_. 0) [Tick, Tick] ?w = (Ret (), w')"
    and kept: "keeps_bound (cluster_table ?w ''pods'') (cluster_table w' ''pods'')"
    using scheduler_never_moves [where base = "''http://api''" and cores = "\<lambda>_. 0" and ws = "[Tick, Tick]",
        OF demo_good [OF demo_kept_ok], of demo_dice]
    by blast
  have "cluster_table ?w ''pods'' ''r'' = Some (OPod (on_node ''down'' (demo_unbound ''r'')))" by (simp add: demo_kept_table)
  moreover have "psp_NodeName (pod_Spec (on_node ''down'' (demo_unbound ''r''))) \<noteq> []" by (simp add: on_node_def)
  ultimately show ?thesis using run kept unfolding keeps_bound_def by blast
qed

text \<open>The resource check ignores what a pod asks for: the request is the constant 0, so a pod fits a
  node exactly when the node is ready and its CPU capacity does not read as a negative number.\<close>

lemma requests_never_matter:
  assumes "cores ''0'' = 0"
  shows "podFitsResources cores pod node \<longleftrightarrow>
    is_ready node \<and> 0 \<le> sint (parseCPU cores (label (nst_Capacity (node_Status node)) ''cpu''))"
proof -
  have "parseCPU cores (getRequest pod ''cpu'') = 0"
    using assms by (simp add: getRequest_def parseCPU_def has_suffix_def)
  then show ?thesis by (simp add: podFitsResources_def not_less)
qed

lemma requests_never_matter_witness: "podFitsResources (\<lambda>_. 0) (demo_unbound ''p'') (demo_node ''up'' ''True'')"
  using requests_never_matter [of "\<lambda>_. 0" "demo_unbound ''p''" "demo_node ''up'' ''True''"]
  by (simp add: label_def parseCPU_def)

text \<open>C37: A quantity in millicores is read back as the number it was printed from, and one outside 64 bits
  as the nearest end of the range.\<close>

theorem parseCPU_millicores: "parseCPU cores (print_int i @ ''m'') = word_of_int (max (- (2 ^ 63)) (min (2 ^ 63 - 1) i))"
  by (simp add: parseCPU_def ParseInt_print clamp64_def)

end
