(* ===== verification/LeaderElection.thy ===== *)
theory LeaderElection
  imports Tables
begin

text \<open>
  internal/leaderelection/election.go: candidates share a lease object; one attempt reads it and
  creates, renews or takes it over. \<open>time.Now\<close> is a computation of the environment (the locale
  \<open>clock\<close> states its contract). One elector with the goroutines it starts is the step relation
  \<open>elector_step\<close>, the election among several candidates the step relation \<open>elected\<close>.
\<close>

section \<open>The elector\<close>

record Config =
  le_LockName :: string
  le_Identity :: string
  le_LeaseDuration :: int \<comment> \<open>nanoseconds, as the next two\<close>
  le_RenewDeadline :: int
  le_RetryPeriod :: int

text \<open>
  \<open>int32(LeaseDuration.Seconds())\<close>: whole seconds, truncated toward zero. (\<open>Seconds\<close> is a float; its
  rounding could matter beyond \<open>2 ^ 22\<close> seconds only.)
\<close>

definition lease_seconds :: "Config \<Rightarrow> int32" where
  "lease_seconds cfg = word_of_int (sgn (le_LeaseDuration cfg) * (\<bar>le_LeaseDuration cfg\<bar> div second_ns))"

definition new_lease :: "Config \<Rightarrow> gotime \<Rightarrow> Lease" where
  "new_lease cfg now = Lease_zero\<lparr>
     lease_ObjectMeta := ObjectMeta_zero\<lparr>om_Name := le_LockName cfg\<rparr>,
     lease_Spec := LeaseSpec_zero\<lparr>
       lsp_HolderIdentity := Some (le_Identity cfg), lsp_AcquireTime := Some now, lsp_RenewTime := Some now,
       lsp_LeaseDurationSeconds := Some (lease_seconds cfg)\<rparr>\<rparr>"

definition renewed :: "gotime \<Rightarrow> Lease \<Rightarrow> Lease" where
  "renewed now lease = lease\<lparr>lease_Spec := (lease_Spec lease)\<lparr>lsp_RenewTime := Some now\<rparr>\<rparr>"

definition taken :: "Config \<Rightarrow> gotime \<Rightarrow> Lease \<Rightarrow> Lease" where
  "taken cfg now lease = lease\<lparr>lease_Spec := (lease_Spec lease)\<lparr>
     lsp_HolderIdentity := Some (le_Identity cfg), lsp_AcquireTime := Some now, lsp_RenewTime := Some now,
     lsp_LeaseDurationSeconds := Some (lease_seconds cfg)\<rparr>\<rparr>"

text \<open>\<open>RenewTime.Add(LeaseDurationSeconds * time.Second)\<close>\<close>

definition expiry :: "gotime \<Rightarrow> int32 \<Rightarrow> gotime" where
  "expiry t d = t + sint d * second_ns"

text \<open>
  \<open>tryAcquireOrRenew\<close> in its two halves: what it reads, and what it does with it. Between the two
  other candidates may act.
\<close>

definition le_look :: "'w Client \<Rightarrow> ('w, gotime) go \<Rightarrow> Config \<Rightarrow> ('w, gotime \<times> Lease option result) go" where
  "le_look c Now cfg =
     gbind Now (\<lambda>now. gbind (GetLease c (le_LockName cfg)) (\<lambda>r. gret (now, r)))"

definition le_settle :: "'w Client \<Rightarrow> Config \<Rightarrow> gotime \<times> Lease option result \<Rightarrow> ('w, gerror option) go" where
  "le_settle c cfg seen =
     (let now = fst seen in
      case snd seen of
        Inl err \<Rightarrow> gret (Some err)
      | Inr None \<Rightarrow> CreateLease c (new_lease cfg now)
      | Inr (Some lease) \<Rightarrow>
          (case lsp_HolderIdentity (lease_Spec lease) of
             None \<Rightarrow> UpdateLease c (taken cfg now lease)
           | Some holder \<Rightarrow>
               if holder = le_Identity cfg then UpdateLease c (renewed now lease)
               else (case lsp_RenewTime (lease_Spec lease) of
                 None \<Rightarrow> UpdateLease c (taken cfg now lease)
               | Some renew \<Rightarrow>
                   (case lsp_LeaseDurationSeconds (lease_Spec lease) of
                      None \<Rightarrow> gpanic Nil_dereference
                    | Some d \<Rightarrow>
                        if now < expiry renew d then gret (Some (Errorf (''lease currently held by '' @ holder)))
                        else UpdateLease c (taken cfg now lease)))))"

definition tryAcquireOrRenew :: "'w Client \<Rightarrow> ('w, gotime) go \<Rightarrow> Config \<Rightarrow> ('w, gerror option) go" where
  "tryAcquireOrRenew c Now cfg = gbind (le_look c Now cfg) (le_settle c cfg)"

text \<open>
  \<open>Run\<close> and its \<open>renewLoop\<close>, with the goroutines \<open>go OnStartedLeading(ctx)\<close> starts. A term is one such
  goroutine (and what it starts in turn): whether the context it was given has been cancelled, and
  whether it is over. The elector is at one of its spots: in an attempt, of the outer loop
  (\<open>Acquiring\<close>) or the renewal loop (\<open>Extending\<close>), before it looks or between its two halves;
  waiting for the ticker of the renewal loop; out of that loop, before \<open>cancel()\<close>; in
  \<open>OnStoppedLeading\<close>; in the last \<open>select\<close>. A panic or \<open>log.Fatal\<close> anywhere ends the process.
\<close>

record term_of_office =
  te_cancelled :: bool
  te_over :: bool

datatype bid = Acquiring | Extending

datatype spot = Attempting bid | Deciding bid "gotime \<times> Lease option result" | Renewing | Leaving | Telling
  | Pausing | Returned | Died halt

record 'w elector =
  er_at :: spot
  er_done :: bool \<comment> \<open>the context of \<open>Run\<close>\<close>
  er_terms :: "term_of_office list" \<comment> \<open>newest first\<close>
  er_stops :: nat \<comment> \<open>calls of \<open>OnStoppedLeading\<close> that have returned\<close>
  er_world :: 'w

definition er_alive :: "'w elector \<Rightarrow> bool" where
  "er_alive s = (case er_at s of Died h \<Rightarrow> False | _ \<Rightarrow> True)"

text \<open>After an attempt: \<open>Run\<close> derives a context and starts the callback, or pauses; \<open>renewLoop\<close> goes on or returns.\<close>

definition bid_won :: "bid \<Rightarrow> 'w elector \<Rightarrow> 'w elector" where
  "bid_won g s = s\<lparr>er_at := Renewing, er_terms :=
     (case g of Acquiring \<Rightarrow> \<lparr>te_cancelled = False, te_over = False\<rparr> # er_terms s | Extending \<Rightarrow> er_terms s)\<rparr>"

definition bid_lost :: "bid \<Rightarrow> 'w elector \<Rightarrow> 'w elector" where
  "bid_lost g s = s\<lparr>er_at := (case g of Acquiring \<Rightarrow> Pausing | Extending \<Rightarrow> Leaving)\<rparr>"

definition cancel_newest :: "term_of_office list \<Rightarrow> term_of_office list" where
  "cancel_newest ts = (case ts of [] \<Rightarrow> [] | t # ts \<Rightarrow> t\<lparr>te_cancelled := True\<rparr> # ts)"

text \<open>
  \<open>work k\<close> is a turn of the started goroutines, \<open>stopped\<close> is \<open>OnStoppedLeading\<close>, \<open>others\<close> what the rest of
  the world may do in between. Once the context is done a request may fail, reaching the server or
  not (\<open>Look_cut\<close>, \<open>Decide_cut\<close>), and where a \<open>select\<close> has both cases ready either is taken. A started
  goroutine may take turns until it is over, and be over only when its context is done.
\<close>

inductive elector_step :: "'w Client \<Rightarrow> ('w, gotime) go \<Rightarrow> Config \<Rightarrow> ('k \<Rightarrow> ('w, unit) go) \<Rightarrow> ('w, unit) go \<Rightarrow>
    ('w \<Rightarrow> 'w \<Rightarrow> bool) \<Rightarrow> 'w elector \<Rightarrow> 'w elector \<Rightarrow> bool" for c Now config work stopped others where
  Look: "er_at s = Attempting g \<Longrightarrow> le_look c Now config (er_world s) = (Ret seen, w) \<Longrightarrow>
    elector_step c Now config work stopped others s (s\<lparr>er_at := Deciding g seen, er_world := w\<rparr>)"
| Look_panics: "er_at s = Attempting g \<Longrightarrow> le_look c Now config (er_world s) = (Panic h, w) \<Longrightarrow>
    elector_step c Now config work stopped others s (s\<lparr>er_at := Died h, er_world := w\<rparr>)"
| Look_cut: "er_at s = Attempting g \<Longrightarrow> er_done s \<Longrightarrow>
    elector_step c Now config work stopped others s (bid_lost g s)"
| Decide: "er_at s = Deciding g seen \<Longrightarrow> le_settle c config seen (er_world s) = (Ret err, w) \<Longrightarrow>
    elector_step c Now config work stopped others s ((if err = None then bid_won g else bid_lost g) (s\<lparr>er_world := w\<rparr>))"
| Decide_panics: "er_at s = Deciding g seen \<Longrightarrow> le_settle c config seen (er_world s) = (Panic h, w) \<Longrightarrow>
    elector_step c Now config work stopped others s (s\<lparr>er_at := Died h, er_world := w\<rparr>)"
| Decide_cut: "er_at s = Deciding g seen \<Longrightarrow> er_done s \<Longrightarrow> w \<in> {er_world s, snd (le_settle c config seen (er_world s))} \<Longrightarrow>
    elector_step c Now config work stopped others s (bid_lost g (s\<lparr>er_world := w\<rparr>))"
| Renew_tick: "er_at s = Renewing \<Longrightarrow>
    elector_step c Now config work stopped others s (s\<lparr>er_at := Attempting Extending\<rparr>)"
| Renew_done: "er_at s = Renewing \<Longrightarrow> er_done s \<Longrightarrow>
    elector_step c Now config work stopped others s (s\<lparr>er_at := Leaving\<rparr>)"
| Cancel: "er_at s = Leaving \<Longrightarrow>
    elector_step c Now config work stopped others s (s\<lparr>er_at := Telling, er_terms := cancel_newest (er_terms s)\<rparr>)"
| Tell: "er_at s = Telling \<Longrightarrow> stopped (er_world s) = (Ret (), w) \<Longrightarrow>
    elector_step c Now config work stopped others s (s\<lparr>er_at := Pausing, er_stops := Suc (er_stops s), er_world := w\<rparr>)"
| Tell_panics: "er_at s = Telling \<Longrightarrow> stopped (er_world s) = (Panic h, w) \<Longrightarrow>
    elector_step c Now config work stopped others s (s\<lparr>er_at := Died h, er_world := w\<rparr>)"
| Retry: "er_at s = Pausing \<Longrightarrow>
    elector_step c Now config work stopped others s (s\<lparr>er_at := Attempting Acquiring\<rparr>)"
| Return: "er_at s = Pausing \<Longrightarrow> er_done s \<Longrightarrow>
    elector_step c Now config work stopped others s (s\<lparr>er_at := Returned\<rparr>)"
| Signal: "er_alive s \<Longrightarrow>
    elector_step c Now config work stopped others s (s\<lparr>er_done := True\<rparr>)"
| Work: "er_alive s \<Longrightarrow> i < length (er_terms s) \<Longrightarrow> \<not> te_over (er_terms s ! i) \<Longrightarrow> work k (er_world s) = (Ret (), w) \<Longrightarrow>
    elector_step c Now config work stopped others s (s\<lparr>er_world := w\<rparr>)"
| Work_panics: "er_alive s \<Longrightarrow> i < length (er_terms s) \<Longrightarrow> \<not> te_over (er_terms s ! i) \<Longrightarrow> work k (er_world s) = (Panic h, w) \<Longrightarrow>
    elector_step c Now config work stopped others s (s\<lparr>er_at := Died h, er_world := w\<rparr>)"
| Term_over: "er_alive s \<Longrightarrow> i < length (er_terms s) \<Longrightarrow> er_done s \<or> te_cancelled (er_terms s ! i) \<Longrightarrow>
    elector_step c Now config work stopped others s (s\<lparr>er_terms := (er_terms s)[i := (er_terms s ! i)\<lparr>te_over := True\<rparr>]\<rparr>)"
| Others: "er_alive s \<Longrightarrow> others (er_world s) w \<Longrightarrow>
    elector_step c Now config work stopped others s (s\<lparr>er_world := w\<rparr>)"

text \<open>\<open>RunOrDie\<close>: the first attempt is made at once.\<close>

definition RunOrDie :: "bool \<Rightarrow> 'w \<Rightarrow> 'w elector" where
  "RunOrDie cancelled w = \<lparr>er_at = Attempting Acquiring, er_done = cancelled, er_terms = [], er_stops = 0, er_world = w\<rparr>"

text \<open>Two candidates that both look before either acts\<close>

definition race :: "'w Client \<Rightarrow> ('w, gotime) go \<Rightarrow> Config \<Rightarrow> Config \<Rightarrow> ('w, gerror option \<times> gerror option) go" where
  "race c Now a b =
     gbind (le_look c Now a) (\<lambda>sa. gbind (le_look c Now b) (\<lambda>sb.
       gbind (le_settle c a sa) (\<lambda>ea. gbind (le_settle c b sb) (\<lambda>eb. gret (ea, eb)))))"

section \<open>One attempt\<close>

text \<open>
  The lease after an attempt, and whether it succeeded; \<open>None\<close> where it panics.
\<close>

definition attempt_spec :: "Config \<Rightarrow> gotime \<Rightarrow> Lease option \<Rightarrow> (bool \<times> Lease option) option" where
  "attempt_spec cfg now x =
     (case x of
        None \<Rightarrow> Some (True, Some (new_lease cfg now))
      | Some l \<Rightarrow>
          if lsp_HolderIdentity (lease_Spec l) = Some (le_Identity cfg) then Some (True, Some (renewed now l))
          else if lsp_HolderIdentity (lease_Spec l) = None \<or> lsp_RenewTime (lease_Spec l) = None
          then Some (True, Some (taken cfg now l))
          else (case lsp_LeaseDurationSeconds (lease_Spec l) of
             None \<Rightarrow> None
           | Some d \<Rightarrow>
               if now < expiry (the (lsp_RenewTime (lease_Spec l))) d then Some (False, Some l)
               else Some (True, Some (taken cfg now l))))"

definition lease_row :: "string \<Rightarrow> Lease option \<Rightarrow> (string \<Rightarrow> obj option) \<Rightarrow> string \<Rightarrow> obj option" where
  "lease_row n x row = row(n := map_option OLease x)"

lemma lease_simps [simp]:
  "om_Name (lease_ObjectMeta (new_lease cfg now)) = le_LockName cfg"
  "lease_ObjectMeta (renewed now l) = lease_ObjectMeta l" "lease_ObjectMeta (taken cfg now l) = lease_ObjectMeta l"
  "lsp_HolderIdentity (lease_Spec (new_lease cfg now)) = Some (le_Identity cfg)"
  "lsp_HolderIdentity (lease_Spec (renewed now l)) = lsp_HolderIdentity (lease_Spec l)"
  "lsp_HolderIdentity (lease_Spec (taken cfg now l)) = Some (le_Identity cfg)"
  "lsp_RenewTime (lease_Spec (new_lease cfg now)) = Some now"
  "lsp_RenewTime (lease_Spec (renewed now l)) = Some now" "lsp_RenewTime (lease_Spec (taken cfg now l)) = Some now"
  "lsp_LeaseDurationSeconds (lease_Spec (new_lease cfg now)) = Some (lease_seconds cfg)"
  "lsp_LeaseDurationSeconds (lease_Spec (renewed now l)) = lsp_LeaseDurationSeconds (lease_Spec l)"
  "lsp_LeaseDurationSeconds (lease_Spec (taken cfg now l)) = Some (lease_seconds cfg)"
  by (simp_all add: new_lease_def renewed_def taken_def)

lemma le_settle_cases:
  assumes "attempt_spec cfg now (Some l) = Some (ok, x')"
  shows "(\<exists>m. (m = renewed now l \<or> m = taken cfg now l) \<and> le_settle c cfg (now, Inr (Some l)) = UpdateLease c m \<and>
      ok \<and> x' = Some m) \<or> (\<exists>err. le_settle c cfg (now, Inr (Some l)) = gret (Some err) \<and> \<not> ok)"
proof -
  note defs = le_settle_def attempt_spec_def Let_def
  consider "lsp_HolderIdentity (lease_Spec l) = None" | "lsp_HolderIdentity (lease_Spec l) = Some (le_Identity cfg)"
    | h where "lsp_HolderIdentity (lease_Spec l) = Some h" "h \<noteq> le_Identity cfg" "lsp_RenewTime (lease_Spec l) = None"
    | h r where "lsp_HolderIdentity (lease_Spec l) = Some h" "h \<noteq> le_Identity cfg" "lsp_RenewTime (lease_Spec l) = Some r"
    by (cases "lsp_HolderIdentity (lease_Spec l)"; cases "lsp_RenewTime (lease_Spec l)") auto
  then show ?thesis
  proof cases
    case 4
    then show ?thesis
      using assms by (cases "lsp_LeaseDurationSeconds (lease_Spec l)") (auto simp: defs split: if_splits)
  qed (use assms in \<open>auto simp: defs\<close>)
qed

lemma Lease_settled: "settled_obj (OLease l) \<longleftrightarrow> cok Lease_codec l"
  by (simp add: settled_iff marshal_def)

lemma lease_settled:
  "time_ok now \<Longrightarrow> settled_obj (OLease (new_lease cfg now))"
  "time_ok now \<Longrightarrow> settled_obj (OLease l) \<Longrightarrow> settled_obj (OLease (renewed now l))"
  "time_ok now \<Longrightarrow> settled_obj (OLease l) \<Longrightarrow> settled_obj (OLease (taken cfg now l))"
  by (simp_all add: Lease_settled codec_oks new_lease_def renewed_def taken_def Lease_zero_def LeaseSpec_zero_def ObjectMeta_zero_def)

locale clock = rest C good tab env
  for C :: "'w Client" and good tab and env :: "'w \<Rightarrow> 'e" +
  fixes Now :: "('w, gotime) go" and reads :: "'e \<Rightarrow> gotime" and tick :: "'e \<Rightarrow> 'e"
  assumes now: "triple (world_at good tab env t e) Now (\<lambda>x w. x = reads e \<and> world_at good tab env t (tick e) w)"

context rest
begin

abbreviation (input) lease_at :: "table \<Rightarrow> string \<Rightarrow> Lease option \<Rightarrow> 'e \<Rightarrow> 'w \<Rightarrow> bool" where
  "lease_at t n x e \<equiv> world_at good tab env (t(''leases'' := lease_row n x (t ''leases''))) e"

lemma create_lease:
  assumes "plain_name (le_LockName cfg)" and "time_ok now"
  shows "triple (lease_at t (le_LockName cfg) x e) (CreateLease C (new_lease cfg now))
    (\<lambda>err. if x = None then (\<lambda>w. err = None \<and> lease_at t (le_LockName cfg) (Some (new_lease cfg now)) e w)
       else (\<lambda>w. err \<noteq> None \<and> lease_at t (le_LockName cfg) x e w))"
proof -
  let ?n = "le_LockName cfg" and ?t = "t(''leases'' := lease_row (le_LockName cfg) x (t ''leases''))"
  have set: "settled_obj (OLease (new_lease cfg now))" using assms(2) by (rule lease_settled)
  have name: "obj_name (OLease (new_lease cfg now)) = ?n" by (simp add: obj_name_def)
  have "post_effect ''leases'' (OLease (new_lease cfg now)) ?t =
      (if x = None then (201, t(''leases'' := lease_row ?n (Some (new_lease cfg now)) (t ''leases''))) else (409, ?t))"
    using assms(1) set by (simp add: post_effect_def name set_obj_def lease_row_def settled_iff plain_name_def del: obj_nrm.simps)
  with CreateLease_effect [of "new_lease cfg now" ?t e] set show ?thesis
    by (auto simp: settled_iff send_result_def elim!: triple_post split: if_splits)
qed

lemma update_lease:
  assumes "plain_name (om_Name (lease_ObjectMeta l))" and "settled_obj (OLease l)" and "x \<noteq> None"
  shows "triple (lease_at t (om_Name (lease_ObjectMeta l)) x e) (UpdateLease C l)
    (\<lambda>err w. err = None \<and> lease_at t (om_Name (lease_ObjectMeta l)) (Some l) e w)"
proof -
  let ?n = "om_Name (lease_ObjectMeta l)" and ?t = "t(''leases'' := lease_row (om_Name (lease_ObjectMeta l)) x (t ''leases''))"
  have "put_effect ''leases'' ?n (OLease l) ?t = (200, t(''leases'' := lease_row ?n (Some l) (t ''leases'')))"
    using assms(2,3) by (simp add: put_effect_def set_obj_def lease_row_def settled_iff del: obj_nrm.simps)
  with UpdateLease_effect [of l ?t e] assms(1,2) show ?thesis
    by (auto simp: settled_iff send_result_def elim!: triple_post)
qed

text \<open>The second half on any lease \<open>y\<close> in the store, when \<open>x\<close> was the one seen\<close>

lemma le_settle_effect:
  assumes "plain_name (le_LockName cfg)" and "time_ok now"
    and "\<And>l. x = Some l \<Longrightarrow> om_Name (lease_ObjectMeta l) = le_LockName cfg \<and> settled_obj (OLease l)"
    and "attempt_spec cfg now x = Some (ok, x')" and "x = None \<Longrightarrow> y = None" and "x \<noteq> None \<Longrightarrow> y \<noteq> None"
  shows "triple (lease_at t (le_LockName cfg) y e) (le_settle C cfg (now, Inr x))
    (\<lambda>err w. (err = None \<longleftrightarrow> ok) \<and> lease_at t (le_LockName cfg) (if ok then x' else y) e w)"
proof (cases x)
  case None
  then show ?thesis
    using create_lease [OF assms(1,2), of t y e] assms(4,5)
    by (auto simp: le_settle_def attempt_spec_def elim!: triple_post)
next
  case (Some l)
  have l: "om_Name (lease_ObjectMeta l) = le_LockName cfg" "settled_obj (OLease l)" using assms(3) [OF Some] by auto
  have y: "y \<noteq> None" using assms(6) Some by simp
  have upd: "triple (lease_at t (le_LockName cfg) y e) (UpdateLease C m)
      (\<lambda>err w. err = None \<and> lease_at t (le_LockName cfg) (Some m) e w)"
    if "m = renewed now l \<or> m = taken cfg now l" for m
  proof -
    have "om_Name (lease_ObjectMeta m) = le_LockName cfg" "settled_obj (OLease m)"
      using that l lease_settled(2,3) [OF assms(2) l(2)] by auto
    with update_lease [of m y t e] assms(1) y show ?thesis by simp
  qed
  consider m where "m = renewed now l \<or> m = taken cfg now l" "le_settle C cfg (now, Inr x) = UpdateLease C m" "ok" "x' = Some m"
    | err where "le_settle C cfg (now, Inr x) = gret (Some err)" "\<not> ok"
    using le_settle_cases [of cfg now l ok x' C] assms(4) unfolding Some by blast
  then show ?thesis
  proof cases
    case 1
    then show ?thesis unfolding 1(2) by (intro triple_post [OF upd [OF 1(1)]]) simp
  next
    case 2
    then show ?thesis unfolding 2(1) by (intro triple_gret) simp
  qed
qed

end

context clock
begin

lemma le_look_effect:
  assumes "plain_name (le_LockName cfg)"
  shows "triple (world_at good tab env t e) (le_look C Now cfg)
    (\<lambda>seen w. fst seen = reads e \<and> (\<exists>x. snd seen = Inr x \<and> map_option OLease x = t ''leases'' (le_LockName cfg)) \<and>
       world_at good tab env t (tick e) w)"
  unfolding le_look_def
  by (rule triple_gbind [OF now], rule triple_assuming, rule triple_gbind [OF GetLease_effect [OF assms]], rule triple_gret) simp



lemma lease_in_inj: "map_option OLease x = map_option OLease y \<Longrightarrow> x = y"
  by (cases x; cases y) simp_all

lemma seen_eq:
  assumes "fst s = u \<and> (\<exists>y. snd s = Inr y \<and> map_option OLease y = z)" and "map_option OLease x = z"
  shows "s = (u, Inr x)"
proof -
  from assms(1) obtain y where y: "fst s = u" "snd s = Inr y" "map_option OLease y = z" by blast
  have "y = x" using y(3) assms(2) by (intro lease_in_inj) simp
  with y show ?thesis by (intro prod_eqI) simp_all
qed

lemma seen_ok:
  assumes "world_at good tab env t e w" and "named (t ''leases'')" and "map_option OLease x = t ''leases'' n" and "x = Some l"
  shows "om_Name (lease_ObjectMeta l) = n \<and> settled_obj (OLease l)"
proof -
  have row: "t ''leases'' n = Some (OLease l)" using assms(3,4) by simp
  then have "obj_name (OLease l) = n" using assms(2) unfolding named_def by blast
  with at_entry [OF assms(1) row] show ?thesis by (simp add: obj_name_def)
qed

lemma attempt_effect:
  assumes "named (t ''leases'')" and "plain_name (le_LockName cfg)" and "time_ok (reads e)"
    and "map_option OLease x = t ''leases'' (le_LockName cfg)" and "attempt_spec cfg (reads e) x = Some (ok, x')"
  shows "triple (world_at good tab env t e) (tryAcquireOrRenew C Now cfg)
    (\<lambda>err w. (err = None \<longleftrightarrow> ok) \<and> lease_at t (le_LockName cfg) x' (tick e) w)"
  unfolding tryAcquireOrRenew_def
proof (rule triple_gbind [OF le_look_effect [OF assms(2)]], rule tripleI)
  fix seen :: "gotime \<times> Lease option result" and w
  assume "fst seen = reads e \<and> (\<exists>x. snd seen = Inr x \<and> map_option OLease x = t ''leases'' (le_LockName cfg)) \<and>
       world_at good tab env t (tick e) w"
  then have w: "world_at good tab env t (tick e) w"
    and "fst seen = reads e \<and> (\<exists>x. snd seen = Inr x \<and> map_option OLease x = t ''leases'' (le_LockName cfg))" by auto
  from this(2) assms(4) have seen: "seen = (reads e, Inr x)" by (rule seen_eq)
  have same: "lease_row (le_LockName cfg) x (t ''leases'') = t ''leases''"
    using assms(4) by (simp add: lease_row_def fun_upd_idem)
  have ok: "om_Name (lease_ObjectMeta l) = le_LockName cfg \<and> settled_obj (OLease l)" if "x = Some l" for l
    using seen_ok [OF w assms(1,4) that] .
  have x': "\<not> ok \<Longrightarrow> x' = x" using assms(5) by (auto simp: attempt_spec_def split: option.splits if_splits)
  from tripleD [OF le_settle_effect [OF assms(2,3) ok assms(5), of x t "tick e"], of w] w
  show "\<exists>err w'. le_settle C cfg seen w = (Ret err, w') \<and> (err = None \<longleftrightarrow> ok) \<and> lease_at t (le_LockName cfg) x' (tick e) w'"
    unfolding seen same using x' by (cases ok) (auto simp: same)
qed

lemma attempt_panics:
  assumes "plain_name (le_LockName cfg)" and "map_option OLease x = t ''leases'' (le_LockName cfg)"
    and "attempt_spec cfg (reads e) x = None" and "world_at good tab env t e w"
  shows "\<exists>w'. tryAcquireOrRenew C Now cfg w = (Panic Nil_dereference, w')"
proof -
  from tripleD [OF le_look_effect [OF assms(1)], OF assms(4)] obtain seen w1
    where run: "le_look C Now cfg w = (Ret seen, w1)"
      and "fst seen = reads e \<and> (\<exists>y. snd seen = Inr y \<and> map_option OLease y = t ''leases'' (le_LockName cfg))" by blast
  from this(2) assms(2) have seen: "seen = (reads e, Inr x)" by (rule seen_eq)
  have "le_settle C cfg seen = gpanic Nil_dereference"
    using assms(3) unfolding seen by (auto simp: le_settle_def attempt_spec_def split: option.splits if_splits)
  with run show ?thesis by (simp add: tryAcquireOrRenew_def gpanic_run)
qed

lemma race_effect:
  assumes "named (t ''leases'')" and "le_LockName a = le_LockName b" and "plain_name (le_LockName b)"
    and "time_ok (reads e)" and "time_ok (reads (tick e))"
    and "map_option OLease x = t ''leases'' (le_LockName b)"
    and "attempt_spec a (reads e) x = Some (True, xa)" and "attempt_spec b (reads (tick e)) x = Some (True, xb)"
  shows "triple (world_at good tab env t e)
    (race C Now a b)
    (\<lambda>r w. fst r = None \<and> (if x = None then snd r \<noteq> None \<and> lease_at t (le_LockName b) xa (tick (tick e)) w
       else snd r = None \<and> lease_at t (le_LockName b) xb (tick (tick e)) w))"
  (is "triple _ _ ?Q")
  unfolding race_def
proof (rule triple_gbind [OF le_look_effect], goal_cases)
  case 1
  then show ?case using assms(2,3) by simp
next
  case (2 sa)
  show ?case
  proof (rule triple_gbind [where R = "\<lambda>sb w. sa = (reads e, Inr x) \<and> sb = (reads (tick e), Inr x) \<and>
        world_at good tab env t (tick (tick e)) w"])
    show "triple (\<lambda>w. fst sa = reads e \<and> (\<exists>x. snd sa = Inr x \<and> map_option OLease x = t ''leases'' (le_LockName a)) \<and>
        world_at good tab env t (tick e) w) (le_look C Now b)
      (\<lambda>sb w. sa = (reads e, Inr x) \<and> sb = (reads (tick e), Inr x) \<and> world_at good tab env t (tick (tick e)) w)"
    proof (rule tripleI)
      fix w assume "fst sa = reads e \<and> (\<exists>x. snd sa = Inr x \<and> map_option OLease x = t ''leases'' (le_LockName a)) \<and>
        world_at good tab env t (tick e) w"
      then have w: "world_at good tab env t (tick e) w"
        and sa: "fst sa = reads e \<and> (\<exists>x. snd sa = Inr x \<and> map_option OLease x = t ''leases'' (le_LockName b))"
        unfolding assms(2) by auto
      have "sa = (reads e, Inr x)" using sa assms(6) by (rule seen_eq)
      moreover from tripleD [OF le_look_effect [OF assms(3)], OF w] obtain sb w'
        where "le_look C Now b w = (Ret sb, w')" "world_at good tab env t (tick (tick e)) w'"
          and sb: "fst sb = reads (tick e) \<and> (\<exists>x. snd sb = Inr x \<and> map_option OLease x = t ''leases'' (le_LockName b))" by blast
      moreover have "sb = (reads (tick e), Inr x)" using sb assms(6) by (rule seen_eq)
      ultimately show "\<exists>sb w'. le_look C Now b w = (Ret sb, w') \<and> sa = (reads e, Inr x) \<and> sb = (reads (tick e), Inr x) \<and>
          world_at good tab env t (tick (tick e)) w'" by blast
    qed
    fix sb
    show "triple (\<lambda>w. sa = (reads e, Inr x) \<and> sb = (reads (tick e), Inr x) \<and> world_at good tab env t (tick (tick e)) w)
      (gbind (le_settle C a sa) (\<lambda>ea. gbind (le_settle C b sb) (\<lambda>eb. gret (ea, eb)))) ?Q"
    proof (rule triple_assuming, rule triple_assuming, rule tripleI)
      fix w assume s: "sa = (reads e, Inr x)" "sb = (reads (tick e), Inr x)" and w: "world_at good tab env t (tick (tick e)) w"
      let ?n = "le_LockName b" and ?e = "tick (tick e)"
      have same: "lease_row ?n x (t ''leases'') = t ''leases''" using assms(6) by (simp add: lease_row_def fun_upd_idem)
      have ok: "om_Name (lease_ObjectMeta l) = ?n \<and> settled_obj (OLease l)" if "x = Some l" for l
        using seen_ok [OF w assms(1,6) that] .
      have w': "lease_at t ?n x ?e w" using w by (simp add: same)
      have "triple (lease_at t (le_LockName a) x ?e) (le_settle C a (reads e, Inr x))
          (\<lambda>err w. (err = None \<longleftrightarrow> True) \<and> lease_at t (le_LockName a) (if True then xa else x) ?e w)"
        by (rule le_settle_effect [OF _ assms(4) _ assms(7)]) (simp_all add: assms(2,3) ok)
      from tripleD [OF this, unfolded assms(2), OF w'] obtain w1
        where one: "le_settle C a sa w = (Ret None, w1)" "lease_at t ?n xa ?e w1" unfolding s(1) by auto
      show "\<exists>r w'. gbind (le_settle C a sa) (\<lambda>ea. gbind (le_settle C b sb) (\<lambda>eb. gret (ea, eb))) w = (Ret r, w') \<and> ?Q r w'"
      proof (cases x)
        case None
        then have xa: "xa \<noteq> None" using assms(7) by (auto simp: attempt_spec_def)
        have "le_settle C b sb = CreateLease C (new_lease b (reads (tick e)))"
          by (simp add: s None le_settle_def)
        moreover have "triple (lease_at t ?n xa ?e) (CreateLease C (new_lease b (reads (tick e))))
            (\<lambda>err w. err \<noteq> None \<and> lease_at t ?n xa ?e w)"
          using create_lease [OF assms(3,5), of t xa ?e] unfolding if_not_P [OF xa] .
        from tripleD [OF this, OF one(2)] obtain eb w2
          where "CreateLease C (new_lease b (reads (tick e))) w1 = (Ret eb, w2)" "eb \<noteq> None" "lease_at t ?n xa ?e w2"
          by blast
        ultimately show ?thesis using one(1) None by (simp add: gbind_def gret_run)
      next
        case (Some l)
        then have "xa \<noteq> None" using assms(7) by (auto simp: attempt_spec_def split: option.splits if_splits)
        then have "triple (lease_at t ?n xa ?e) (le_settle C b (reads (tick e), Inr x))
            (\<lambda>err w. (err = None \<longleftrightarrow> True) \<and> lease_at t ?n (if True then xb else xa) ?e w)"
          by (intro le_settle_effect [OF assms(3,5) _ assms(8)]) (simp_all add: ok Some)
        from tripleD [OF this, OF one(2)] obtain w2
          where "le_settle C b sb w1 = (Ret None, w2)" "lease_at t ?n xb ?e w2" unfolding s(2) by auto
        with one(1) Some show ?thesis by (simp add: gbind_def gret_run)
      qed
    qed
  qed
qed

end


section \<open>The election\<close>

text \<open>
  What all candidates do to the lease, one attempt at a time: who takes itself for the leader, and
  when each last succeeded. The guard of a step is that every leader has been heard within the
  lease duration: a leader attempts to renew before its lease runs out.
\<close>

record Election =
  el_lease :: "Lease option"
  el_leading :: "string set"
  el_heard :: "string \<Rightarrow> gotime"
  el_time :: gotime

inductive elected :: "Config set \<Rightarrow> int32 \<Rightarrow> Election \<Rightarrow> bool" for K d where
  start: "(\<And>l. x = Some l \<Longrightarrow> lsp_LeaseDurationSeconds (lease_Spec l) = Some d) \<Longrightarrow>
    elected K d \<lparr>el_lease = x, el_leading = {}, el_heard = h, el_time = t\<rparr>"
| attempt: "elected K d s \<Longrightarrow> cfg \<in> K \<Longrightarrow> el_time s \<le> now \<Longrightarrow>
    (\<And>i. i \<in> el_leading s \<Longrightarrow> now < expiry (el_heard s i) d) \<Longrightarrow>
    attempt_spec cfg now (el_lease s) = Some (ok, x) \<Longrightarrow>
    elected K d \<lparr>el_lease = x,
      el_leading = (if ok then insert (le_Identity cfg) (el_leading s) else el_leading s - {le_Identity cfg}),
      el_heard = (if ok then (el_heard s)(le_Identity cfg := now) else el_heard s), el_time = now\<rparr>"

text \<open>A leader holds the lease, renewed when it was last heard; every lease has the common duration.\<close>

definition el_inv :: "int32 \<Rightarrow> Election \<Rightarrow> bool" where
  "el_inv d s \<longleftrightarrow>
     (\<forall>l. el_lease s = Some l \<longrightarrow> lsp_LeaseDurationSeconds (lease_Spec l) = Some d) \<and>
     (\<forall>i \<in> el_leading s. \<exists>l. el_lease s = Some l \<and> lsp_HolderIdentity (lease_Spec l) = Some i \<and>
        lsp_RenewTime (lease_Spec l) = Some (el_heard s i))"

lemma attempt_spec_duration:
  assumes "attempt_spec cfg now x = Some (ok, Some l)" and "lease_seconds cfg = d"
    and "\<And>l. x = Some l \<Longrightarrow> lsp_LeaseDurationSeconds (lease_Spec l) = Some d"
  shows "lsp_LeaseDurationSeconds (lease_Spec l) = Some d"
  using assms by (auto simp: attempt_spec_def split: option.splits if_splits)

lemma attempt_spec_winner:
  assumes "attempt_spec cfg now x = Some (True, x')"
  shows "\<exists>l. x' = Some l \<and> lsp_HolderIdentity (lease_Spec l) = Some (le_Identity cfg) \<and> lsp_RenewTime (lease_Spec l) = Some now"
  using assms by (auto simp: attempt_spec_def split: option.splits if_splits)

lemma attempt_spec_refused: "attempt_spec cfg now x = Some (False, x') \<Longrightarrow> x' = x"
  by (auto simp: attempt_spec_def split: option.splits if_splits)

lemma attempt_spec_held:
  assumes "lsp_HolderIdentity (lease_Spec l) = Some i" and "lsp_RenewTime (lease_Spec l) = Some r"
    and "lsp_LeaseDurationSeconds (lease_Spec l) = Some d" and "now < expiry r d" and "le_Identity cfg \<noteq> i"
  shows "attempt_spec cfg now (Some l) = Some (False, Some l)"
  using assms by (simp add: attempt_spec_def)

lemma elected_inv:
  assumes "elected K d s" and "\<And>cfg. cfg \<in> K \<Longrightarrow> lease_seconds cfg = d"
  shows "el_inv d s"
  using assms(1)
proof (induction rule: elected.induct)
  case (start x h t)
  then show ?case by (simp add: el_inv_def)
next
  case (attempt s cfg now ok x)
  from \<open>el_inv d s\<close> have dur: "\<And>l. el_lease s = Some l \<Longrightarrow> lsp_LeaseDurationSeconds (lease_Spec l) = Some d"
    and lead: "\<And>i. i \<in> el_leading s \<Longrightarrow> \<exists>l. el_lease s = Some l \<and> lsp_HolderIdentity (lease_Spec l) = Some i \<and>
        lsp_RenewTime (lease_Spec l) = Some (el_heard s i)" by (auto simp: el_inv_def)
  have dur': "lsp_LeaseDurationSeconds (lease_Spec l) = Some d" if "x = Some l" for l
    using attempt_spec_duration [of cfg now "el_lease s" ok l d] attempt.hyps(5) assms(2) [OF attempt.hyps(2)] dur that by blast
  have alone: "i = le_Identity cfg" if i: "i \<in> el_leading s" and ok for i
  proof (rule ccontr)
    assume "i \<noteq> le_Identity cfg"
    obtain l where l: "el_lease s = Some l" "lsp_HolderIdentity (lease_Spec l) = Some i"
        "lsp_RenewTime (lease_Spec l) = Some (el_heard s i)" using lead [OF i] by blast
    have "attempt_spec cfg now (Some l) = Some (False, Some l)"
      using attempt_spec_held [OF l(2,3) dur [OF l(1)] attempt.hyps(4) [OF i], of cfg] \<open>i \<noteq> le_Identity cfg\<close> by metis
    with attempt.hyps(5) l(1) \<open>ok\<close> show False by simp
  qed
  show ?case
  proof (cases ok)
    case True
    with attempt_spec_winner [of cfg now "el_lease s" x] attempt.hyps(5) obtain l where
      "x = Some l" "lsp_HolderIdentity (lease_Spec l) = Some (le_Identity cfg)" "lsp_RenewTime (lease_Spec l) = Some now" by auto
    with True alone dur' show ?thesis by (auto simp: el_inv_def)
  next
    case False
    with attempt_spec_refused [of cfg now "el_lease s" x] attempt.hyps(5) have "x = el_lease s" by simp
    with False lead dur show ?thesis by (auto simp: el_inv_def)
  qed
qed

section \<open>Terms of office\<close>

text \<open>Where the elector takes itself for the leader, and where the context of its term is not yet cancelled\<close>

fun in_office :: "spot \<Rightarrow> bool" where
  "in_office (Attempting g) = (g = Extending)"
| "in_office (Deciding g seen) = (g = Extending)"
| "in_office Renewing = True"
| "in_office Leaving = True"
| "in_office Telling = True"
| "in_office _ = False"

definition uncancelled :: "spot \<Rightarrow> bool" where
  "uncancelled p \<longleftrightarrow> in_office p \<and> p \<noteq> Telling"

definition er_inv :: "'w elector \<Rightarrow> bool" where
  "er_inv s \<longleftrightarrow> (\<forall>t \<in> set (tl (er_terms s)). te_cancelled t) \<and> (\<forall>t \<in> set (er_terms s). te_over t \<longrightarrow> te_cancelled t \<or> er_done s) \<and>
     (er_alive s \<longrightarrow> length (er_terms s) = er_stops s + (if in_office (er_at s) then 1 else 0) \<and>
        (er_terms s \<noteq> [] \<longrightarrow> te_cancelled (hd (er_terms s)) = (\<not> uncancelled (er_at s))))"

lemma er_simps [simp]:
  "er_alive (bid_won g s)" "er_alive (bid_lost g s)" "er_at (bid_won g s) = Renewing"
  "er_at (bid_lost g s) = (case g of Acquiring \<Rightarrow> Pausing | Extending \<Rightarrow> Leaving)"
  "er_done (bid_won g s) = er_done s" "er_done (bid_lost g s) = er_done s"
  "er_stops (bid_won g s) = er_stops s" "er_stops (bid_lost g s) = er_stops s"
  "er_terms (bid_lost g s) = er_terms s"
  by (simp_all add: bid_won_def bid_lost_def er_alive_def split: bid.splits)

lemma er_aliveI: "er_at s = p \<Longrightarrow> (\<And>h. p \<noteq> Died h) \<Longrightarrow> er_alive s"
  by (auto simp: er_alive_def split: spot.splits)

lemma er_inv_world: "er_inv (s\<lparr>er_world := w\<rparr>) = er_inv s"
  by (simp add: er_inv_def er_alive_def)

lemma er_inv_dies: "er_inv s \<Longrightarrow> er_inv (s\<lparr>er_at := Died h\<rparr>)"
  by (simp add: er_inv_def er_alive_def)

text \<open>A step from one spot to another that is in office, or cancelled, just as it was\<close>

lemma er_inv_moves:
  assumes "er_inv s" and "er_alive s" and "in_office p = in_office (er_at s)" and "uncancelled p = uncancelled (er_at s)"
  shows "er_inv (s\<lparr>er_at := p\<rparr>)"
  using assms by (auto simp: er_inv_def er_alive_def)

lemma er_inv_won:
  assumes "er_inv s" and "er_at s = Deciding g seen"
  shows "er_inv (bid_won g s)"
  using assms er_aliveI [OF assms(2)]
  by (cases g; cases "er_terms s") (auto simp: er_inv_def bid_won_def uncancelled_def er_alive_def)

lemma er_inv_lost:
  assumes "er_inv s" and "er_at s = Attempting g \<or> er_at s = Deciding g seen"
  shows "er_inv (bid_lost g s)"
proof -
  have "er_alive s" using assms(2) by (auto simp: er_alive_def)
  then show ?thesis
    using assms unfolding bid_lost_def by (intro er_inv_moves) (auto simp: uncancelled_def split: bid.splits)
qed

lemma er_inv_cancel:
  assumes "er_inv s" and "er_at s = Leaving"
  shows "er_inv (s\<lparr>er_at := Telling, er_terms := cancel_newest (er_terms s)\<rparr>)"
  using assms er_aliveI [OF assms(2)]
  by (cases "er_terms s") (auto simp: er_inv_def cancel_newest_def uncancelled_def er_alive_def)

lemma er_inv_over:
  assumes "er_inv s" and "er_alive s" and "i < length (er_terms s)" and "er_done s \<or> te_cancelled (er_terms s ! i)"
  shows "er_inv (s\<lparr>er_terms := (er_terms s)[i := (er_terms s ! i)\<lparr>te_over := True\<rparr>]\<rparr>)"
proof -
  obtain t ts where ts: "er_terms s = t # ts" using assms(3) by (cases "er_terms s") auto
  have flags: "\<forall>u \<in> set ts. te_cancelled u" "\<forall>u \<in> set (t # ts). te_over u \<longrightarrow> te_cancelled u \<or> er_done s"
    using assms(1) by (simp_all add: er_inv_def ts)
  show ?thesis
  proof (cases i)
    case 0
    with assms flags ts show ?thesis by (auto simp: er_inv_def er_alive_def)
  next
    case (Suc j)
    then have "ts ! j \<in> set ts" using assms(3) ts by simp
    with flags have new: "\<forall>u \<in> set (ts[j := (ts ! j)\<lparr>te_over := True\<rparr>]). te_cancelled u"
      using set_update_subset_insert [of ts j "(ts ! j)\<lparr>te_over := True\<rparr>"] by auto
    with assms flags ts Suc show ?thesis by (auto simp: er_inv_def er_alive_def)
  qed
qed

lemma elector_step_inv:
  assumes "elector_step c Now config work stopped others s s'" and "er_inv s"
  shows "er_inv s'"
  using assms
proof (induction rule: elector_step.induct)
  case (Look s g seen w)
  then have "er_inv (s\<lparr>er_at := Deciding g seen\<rparr>)"
    by (intro er_inv_moves) (auto simp: uncancelled_def er_alive_def)
  then show ?case by (simp add: er_inv_world)
next
  case (Decide s g seen err w)
  then show ?case using er_inv_won [of "s\<lparr>er_world := w\<rparr>"] er_inv_lost [of "s\<lparr>er_world := w\<rparr>"] by (simp add: er_inv_world)
next
  case (Decide_cut s g seen w)
  then show ?case using er_inv_lost [of "s\<lparr>er_world := w\<rparr>"] by (simp add: er_inv_world)
next
  case (Tell s w)
  then show ?case by (auto simp: er_inv_def er_alive_def uncancelled_def)
next
  case (Signal s)
  then show ?case by (auto simp: er_inv_def er_alive_def)
qed (auto intro: er_inv_dies er_inv_lost er_inv_cancel er_inv_over er_inv_moves simp: er_inv_world uncancelled_def er_alive_def)

lemma elector_inv:
  assumes "rtranclp (elector_step c Now config work stopped others) (RunOrDie cancelled w) s"
  shows "er_inv s"
  using assms
proof (induction rule: rtranclp_induct)
  case base
  show ?case by (simp add: RunOrDie_def er_inv_def uncancelled_def)
next
  case (step s1 s2)
  from step(2,3) show ?case by (rule elector_step_inv)
qed

text \<open>When \<open>OnStoppedLeading\<close> never returns, an elector that has led leads to its end.\<close>

lemma elector_stops_fatal:
  assumes "rtranclp (elector_step c Now config work stopped others) s s'" and "\<And>w. \<exists>h w'. stopped w = (Panic h, w')"
  shows "er_stops s' = er_stops s"
  using assms(1)
proof (induction rule: rtranclp_induct)
  case (step s1 s2)
  from step(2,3) assms(2) show ?case by (cases rule: elector_step.cases) (auto split: if_splits, metis Pair_inject outcome.distinct(1))
qed simp

lemma uncancelled_terms:
  assumes "er_inv s" and "er_alive s"
  shows "length (filter (\<lambda>t. \<not> te_cancelled t) (er_terms s)) = (if uncancelled (er_at s) then 1 else 0)"
proof (cases "er_terms s")
  case Nil
  with assms show ?thesis by (auto simp: er_inv_def uncancelled_def split: if_splits)
next
  case (Cons t ts)
  with assms have "filter (\<lambda>t. \<not> te_cancelled t) ts = []" by (simp add: er_inv_def filter_empty_conv)
  with assms Cons show ?thesis by (simp add: er_inv_def)
qed

text \<open>Once its context is done, an elector that lives can reach its end from wherever it is.\<close>

lemma elector_can_end:
  assumes "er_alive s" and "er_done s"
  shows "\<exists>s'. rtranclp (elector_step c Now config work stopped others) s s' \<and> (er_at s' = Returned \<or> \<not> er_alive s')"
proof -
  let ?step = "elector_step c Now config work stopped others"
  let ?ends = "\<lambda>s. \<exists>s'. rtranclp ?step s s' \<and> (er_at s' = Returned \<or> \<not> er_alive s')"
  have later: "?ends s" if "?step s s'" "?ends s'" for s s' using that by (meson converse_rtranclp_into_rtranclp)
  have pausing: "?ends s" if "er_at s = Pausing" "er_done s" for s
    using elector_step.Return [OF that] by (rule later) (auto intro: exI [of _ "s\<lparr>er_at := Returned\<rparr>"])
  have telling: "?ends s" if t: "er_at s = Telling" "er_done s" for s
  proof (cases "stopped (er_world s)")
    case (Pair r w)
    show ?thesis
    proof (cases r)
      case (Ret x)
      with Pair have "stopped (er_world s) = (Ret (), w)" by simp
      from elector_step.Tell [where s = s and stopped = stopped and w = w, OF t(1) this] show ?thesis by (rule later) (use t(2) pausing in simp)
    next
      case (Panic h)
      with Pair have "stopped (er_world s) = (Panic h, w)" by simp
      from elector_step.Tell_panics [where s = s and stopped = stopped and w = w, OF t(1) this] show ?thesis
        by (rule later) (auto simp: er_alive_def intro: exI [of _ "s\<lparr>er_at := Died h, er_world := w\<rparr>"])
    qed
  qed
  have leaving: "?ends s" if "er_at s = Leaving" "er_done s" for s
    using elector_step.Cancel [OF that(1)] by (rule later) (use that(2) telling in simp)
  have renewing: "?ends s" if "er_at s = Renewing" "er_done s" for s
    using elector_step.Renew_done [OF that] by (rule later) (use that(2) leaving in simp)
  have lost: "?ends (bid_lost g s)" if "er_done s" for g s
    using pausing [of "bid_lost g s"] leaving [of "bid_lost g s"] that by (cases g) simp_all
  show ?thesis
  proof (cases "er_at s")
    case (Attempting g)
    from elector_step.Look_cut [OF this assms(2)] show ?thesis by (rule later) (rule lost [OF assms(2)])
  next
    case (Deciding g seen)
    have "er_world s \<in> {er_world s, snd (le_settle c config seen (er_world s))}" by simp
    from elector_step.Decide_cut [OF Deciding assms(2) this] show ?thesis by (rule later) (rule lost, use assms(2) in simp)
  next
    case (Died h)
    with assms(1) show ?thesis by (simp add: er_alive_def)
  qed (use assms(2) pausing telling leaving renewing in auto)
qed

text \<open>An attempt that succeeds, as steps\<close>

lemma attempt_steps:
  assumes "tryAcquireOrRenew c Now config w = (Ret None, w')"
    and "s = \<lparr>er_at = Attempting g, er_done = dn, er_terms = ts, er_stops = n, er_world = w\<rparr>"
  shows "rtranclp (elector_step c Now config work stopped others) s (bid_won g (s\<lparr>er_world := w'\<rparr>))"
proof -
  obtain seen w1 where look: "le_look c Now config w = (Ret seen, w1)" and dec: "le_settle c config seen w1 = (Ret None, w')"
    using assms(1) by (auto simp: tryAcquireOrRenew_def gbind_def split: prod.splits outcome.splits)
  let ?s1 = "s\<lparr>er_at := Deciding g seen, er_world := w1\<rparr>"
  have "elector_step c Now config work stopped others s ?s1"
    by (rule elector_step.Look) (use assms(2) look in simp_all)
  moreover have "elector_step c Now config work stopped others ?s1 ((if None = (None :: gerror option) then bid_won g else bid_lost g) (?s1\<lparr>er_world := w'\<rparr>))"
    by (rule elector_step.Decide) (use dec in simp_all)
  ultimately have "rtranclp (elector_step c Now config work stopped others) s (bid_won g (?s1\<lparr>er_world := w'\<rparr>))" by simp
  moreover have "bid_won g (?s1\<lparr>er_world := w'\<rparr>) = bid_won g (s\<lparr>er_world := w'\<rparr>)"
    unfolding assms(2) by (cases g) (simp_all add: bid_won_def)
  ultimately show ?thesis by simp
qed

section \<open>In the cluster\<close>

text \<open>A world whose environment is the readings the clock will give and how many it has given\<close>

record clock_source =
  ck_time :: "nat \<Rightarrow> gotime"
  ck_next :: nat

definition clock_now :: "(clock_source cluster, gotime) go" where
  "clock_now w = (Ret (ck_time (w_env w) (ck_next (w_env w))),
     w\<lparr>w_env := (w_env w)\<lparr>ck_next := Suc (ck_next (w_env w))\<rparr>\<rparr>)"

definition clock_reads :: "clock_source \<Rightarrow> gotime" where
  "clock_reads e = ck_time e (ck_next e)"

definition clock_tick :: "clock_source \<Rightarrow> clock_source" where
  "clock_tick e = e\<lparr>ck_next := Suc (ck_next e)\<rparr>"

interpretation le_cluster: clock "cluster_client base" cluster_good cluster_table w_env clock_now clock_reads clock_tick for base
  by unfold_locales
    (auto simp: triple_def clock_now_def clock_reads_def clock_tick_def world_at_def cluster_good_def
      cluster_table_def world_good_def world_table_def)

text \<open>The next readings of a world's clock\<close>

definition next_reading :: "clock_source cluster \<Rightarrow> nat \<Rightarrow> gotime" where
  "next_reading w i = ck_time (w_env w) (ck_next (w_env w) + i)"

lemma readings:
  "clock_reads (w_env w) = next_reading w 0" "clock_reads (clock_tick (w_env w)) = next_reading w (Suc 0)"
  by (simp_all add: clock_reads_def next_reading_def clock_tick_def)

section \<open>A small cluster\<close>

definition demo_cfg :: "string \<Rightarrow> Config" where
  "demo_cfg i = \<lparr>le_LockName = ''lock'', le_Identity = i, le_LeaseDuration = 15 * second_ns,
     le_RenewDeadline = 10 * second_ns, le_RetryPeriod = 2 * second_ns\<rparr>"

definition demo_clock :: clock_source where
  "demo_clock = \<lparr>ck_time = (\<lambda>i. 100 * second_ns), ck_next = 0\<rparr>"

lemma demo_cfg_simps [simp]:
  "le_LockName (demo_cfg i) = ''lock''" "le_Identity (demo_cfg i) = i" "lease_seconds (demo_cfg i) = 15"
  by (simp_all add: demo_cfg_def lease_seconds_def second_ns_def)

lemma demo_readings [simp]: "next_reading (cluster_with obs demo_clock) i = 100 * second_ns"
  by (simp add: next_reading_def demo_clock_def)


lemma demo_time_ok: "time_ok (100 * second_ns)"
  by (simp add: time_ok_def second_ns_def year_of_def secs_of_def year_loop.simps year_len_def leap_def)

text \<open>The lease of a candidate that is gone: its last renewal is 99 seconds old\<close>

definition demo_lease :: Lease where
  "demo_lease = Lease_zero\<lparr>lease_ObjectMeta := ObjectMeta_zero\<lparr>om_Name := ''lock''\<rparr>,
     lease_Spec := LeaseSpec_zero\<lparr>lsp_HolderIdentity := Some ''old'', lsp_RenewTime := Some 0,
       lsp_LeaseDurationSeconds := Some 15\<rparr>\<rparr>"

lemma demo_lease_spec [simp]:
  "lsp_HolderIdentity (lease_Spec demo_lease) = Some ''old''" "lsp_RenewTime (lease_Spec demo_lease) = Some 0"
  by (simp_all add: demo_lease_def)

lemma demo_lease_settled: "settled_obj (OLease demo_lease)"
  by (simp add: Lease_settled codec_oks demo_lease_def Lease_zero_def LeaseSpec_zero_def ObjectMeta_zero_def)

lemma demo_lease_table:
  "cluster_table (cluster_with [OLease demo_lease] e) r = (if r = ''leases'' then [''lock'' \<mapsto> OLease demo_lease] else Map.empty)"
  by (simp add: demo_single [OF demo_lease_settled] obj_name_def) (simp add: demo_lease_def)

lemma demo_lease_named: "named (cluster_table (cluster_with [OLease demo_lease] e) ''leases'')"
  by (simp add: demo_lease_table named_def obj_name_def) (simp add: demo_lease_def)

lemma demo_lease_expired:
  "i \<noteq> ''old'' \<Longrightarrow> attempt_spec (demo_cfg i) (100 * second_ns) (Some demo_lease) =
     Some (True, Some (taken (demo_cfg i) (100 * second_ns) demo_lease))"
  by (simp add: attempt_spec_def demo_lease_def expiry_def second_ns_def)

lemma lock_plain: "plain_name ''lock''"
  by (simp add: plain_name_def name_char_def)

section \<open>Properties\<close>

text \<open>C15: An attempt to acquire or renew does what its specification says on every branch: it creates a
  missing lease, renews its own, takes over one that is free or has expired, and otherwise fails and
  leaves the lease alone; no other object changes.\<close>

theorem attempt_meets_spec:
  assumes "cluster_good w" and "named (cluster_table w ''leases'')" and "plain_name (le_LockName cfg)"
    and "time_ok (next_reading w 0)" and "map_option OLease x = cluster_table w ''leases'' (le_LockName cfg)"
    and "attempt_spec cfg (next_reading w 0) x = Some (ok, x')"
  shows "\<exists>err w'. tryAcquireOrRenew (cluster_client base) clock_now cfg w = (Ret err, w') \<and> cluster_good w' \<and>
    (err = None \<longleftrightarrow> ok) \<and>
    cluster_table w' = (cluster_table w)(''leases'' := (cluster_table w ''leases'')(le_LockName cfg := map_option OLease x'))"
proof -
  have at: "world_at cluster_good cluster_table w_env (cluster_table w) (w_env w) w"
    using assms(1) by (simp add: world_at_def)
  have "triple (world_at cluster_good cluster_table w_env (cluster_table w) (w_env w))
      (tryAcquireOrRenew (cluster_client base) clock_now cfg)
      (\<lambda>err w'. (err = None \<longleftrightarrow> ok) \<and> world_at cluster_good cluster_table w_env
         ((cluster_table w)(''leases'' := lease_row (le_LockName cfg) x' (cluster_table w ''leases''))) (clock_tick (w_env w)) w')"
    using assms by (intro le_cluster.attempt_effect) (simp_all add: readings)
  from tripleD [OF this, OF at] show ?thesis by (auto simp: world_at_def lease_row_def)
qed

theorem attempt_meets_spec_witness:
  "\<exists>w'. tryAcquireOrRenew (cluster_client ''http://api'') clock_now (demo_cfg ''new'')
      (cluster_with [OLease demo_lease] demo_clock) = (Ret None, w') \<and>
     cluster_table w' ''leases'' ''lock'' = Some (OLease (taken (demo_cfg ''new'') (100 * second_ns) demo_lease))"
proof -
  let ?w = "cluster_with [OLease demo_lease] demo_clock"
  have "\<exists>err w'. tryAcquireOrRenew (cluster_client ''http://api'') clock_now (demo_cfg ''new'') ?w = (Ret err, w') \<and> cluster_good w' \<and>
    (err = None \<longleftrightarrow> True) \<and>
    cluster_table w' = (cluster_table ?w)(''leases'' := (cluster_table ?w ''leases'')(le_LockName (demo_cfg ''new'') :=
      map_option OLease (Some (taken (demo_cfg ''new'') (100 * second_ns) demo_lease))))"
    using demo_lease_settled demo_lease_named demo_time_ok lock_plain
    by (intro attempt_meets_spec [where x = "Some demo_lease"] demo_good)
      (simp_all add: demo_lease_expired demo_lease_table)
  then show ?thesis by auto
qed

lemma demo_takeover:
  "\<exists>w'. tryAcquireOrRenew (cluster_client ''http://api'') clock_now (demo_cfg ''new'')
      (cluster_with [OLease demo_lease] demo_clock) = (Ret None, w') \<and>
     cluster_table w' ''leases'' ''lock'' = Some (OLease (taken (demo_cfg ''new'') (100 * second_ns) demo_lease))"
proof -
  let ?w = "cluster_with [OLease demo_lease] demo_clock" and ?new = "taken (demo_cfg ''new'') (100 * second_ns) demo_lease"
  have at: "world_at cluster_good cluster_table w_env (cluster_table ?w) (w_env ?w) ?w"
    using demo_good [of "[OLease demo_lease]"] demo_lease_settled by (simp add: world_at_def)
  have "triple (world_at cluster_good cluster_table w_env (cluster_table ?w) (w_env ?w))
      (tryAcquireOrRenew (cluster_client ''http://api'') clock_now (demo_cfg ''new''))
      (\<lambda>err w'. (err = None \<longleftrightarrow> True) \<and> world_at cluster_good cluster_table w_env
         ((cluster_table ?w)(''leases'' := lease_row (le_LockName (demo_cfg ''new'')) (Some ?new) (cluster_table ?w ''leases'')))
         (clock_tick (w_env ?w)) w')"
    using demo_lease_named demo_time_ok lock_plain
    by (intro le_cluster.attempt_effect [where x = "Some demo_lease"]) (simp_all add: clock_reads_def demo_clock_def demo_lease_expired demo_lease_table)
  from tripleD [OF this at] show ?thesis by (auto simp: world_at_def lease_row_def)
qed

text \<open>A lease that another candidate holds, with a renewal time but without a duration, crashes every
  candidate: the missing duration is dereferenced.\<close>

lemma missing_duration_panics:
  assumes "cluster_good w" and "plain_name (le_LockName cfg)"
    and "cluster_table w ''leases'' (le_LockName cfg) = Some (OLease l)"
    and "lsp_HolderIdentity (lease_Spec l) = Some h" and "h \<noteq> le_Identity cfg"
    and "lsp_RenewTime (lease_Spec l) \<noteq> None" and "lsp_LeaseDurationSeconds (lease_Spec l) = None"
  shows "\<exists>w'. tryAcquireOrRenew (cluster_client base) clock_now cfg w = (Panic Nil_dereference, w')"
proof (rule le_cluster.attempt_panics [where x = "Some l" and t = "cluster_table w" and e = "w_env w"])
  show "attempt_spec cfg (clock_reads (w_env w)) (Some l) = None" using assms(4-7) by (simp add: attempt_spec_def)
qed (use assms in \<open>simp_all add: world_at_def\<close>)

lemma missing_duration_panics_witness:
  "\<exists>w'. tryAcquireOrRenew (cluster_client ''http://api'') clock_now (demo_cfg ''new'')
      (cluster_with [OLease (demo_lease\<lparr>lease_Spec := (lease_Spec demo_lease)\<lparr>lsp_LeaseDurationSeconds := None\<rparr>\<rparr>)] demo_clock)
    = (Panic Nil_dereference, w')"
proof -
  let ?l = "demo_lease\<lparr>lease_Spec := (lease_Spec demo_lease)\<lparr>lsp_LeaseDurationSeconds := None\<rparr>\<rparr>"
  have set: "settled_obj (OLease ?l)" using demo_lease_settled by (simp add: Lease_settled codec_oks)
  have "cluster_table (cluster_with [OLease ?l] demo_clock) ''leases'' ''lock'' = Some (OLease ?l)"
    using set by (simp add: demo_single obj_name_def) (simp add: demo_lease_def)
  then show ?thesis
    by (intro missing_duration_panics [where h = "''old''" and l = ?l] demo_good)
      (simp_all add: set lock_plain)
qed

text \<open>Two candidates that find no lease cannot both win: when both have looked before either acts, the
  first creates the lease, the second fails, and the lease stays the first one's.\<close>

lemma create_race_has_one_winner:
  assumes "cluster_good w" and "named (cluster_table w ''leases'')" and "plain_name (le_LockName b)" and "le_LockName a = le_LockName b"
    and "time_ok (next_reading w 0)" and "time_ok (next_reading w (Suc 0))"
    and "cluster_table w ''leases'' (le_LockName b) = None"
  shows "\<exists>err w'. race (cluster_client base) clock_now a b w
      = (Ret (None, Some err), w') \<and>
    cluster_table w' ''leases'' (le_LockName b) = Some (OLease (new_lease a (next_reading w 0)))"
proof -
  have at: "world_at cluster_good cluster_table w_env (cluster_table w) (w_env w) w"
    using assms(1) by (simp add: world_at_def)
  let ?C = "cluster_client base"
  have "triple (world_at cluster_good cluster_table w_env (cluster_table w) (w_env w))
    (race ?C clock_now a b)
    (\<lambda>r w'. fst r = None \<and> (if None = (None :: Lease option) then snd r \<noteq> None \<and> world_at cluster_good cluster_table w_env
        ((cluster_table w)(''leases'' := lease_row (le_LockName b) (Some (new_lease a (next_reading w 0))) (cluster_table w ''leases'')))
        (clock_tick (clock_tick (w_env w))) w'
      else snd r = None \<and> world_at cluster_good cluster_table w_env
        ((cluster_table w)(''leases'' := lease_row (le_LockName b) (Some (new_lease b (next_reading w (Suc 0)))) (cluster_table w ''leases'')))
        (clock_tick (clock_tick (w_env w))) w'))"
    using assms by (intro le_cluster.race_effect) (simp_all add: readings attempt_spec_def)
  from tripleD [OF this, OF at] show ?thesis by (auto simp: world_at_def lease_row_def)
qed

lemma create_race_has_one_winner_witness:
  "\<exists>err w'. race (cluster_client ''http://api'') clock_now (demo_cfg ''a'') (demo_cfg ''b'') (cluster_with [] demo_clock) =
     (Ret (None, Some err), w') \<and>
     cluster_table w' ''leases'' ''lock'' = Some (OLease (new_lease (demo_cfg ''a'') (100 * second_ns)))"
proof -
  let ?w = "cluster_with [] demo_clock"
  have ok: "demo_objects []" by (simp add: demo_objects_def)
  have t: "cluster_table ?w r = Map.empty" for r by (rule ext) (simp add: demo_table_objs [OF ok])
  have "\<exists>err w'. race (cluster_client ''http://api'') clock_now (demo_cfg ''a'') (demo_cfg ''b'') ?w = (Ret (None, Some err), w') \<and>
    cluster_table w' ''leases'' (le_LockName (demo_cfg ''b'')) = Some (OLease (new_lease (demo_cfg ''a'') (next_reading ?w 0)))"
    using ok lock_plain demo_time_ok by (intro create_race_has_one_winner demo_good) (simp_all add: t named_def)
  then show ?thesis by simp
qed

text \<open>C38: Two candidates that find an expired lease both win when both have looked before either acts: an
  update is not conditional on what was read, so both attempts succeed, both lead, and only the
  second is the holder.\<close>

theorem takeover_race_has_two_winners:
  assumes "cluster_good w" and "named (cluster_table w ''leases'')" and "plain_name (le_LockName b)" and "le_LockName a = le_LockName b"
    and "time_ok (next_reading w 0)" and "time_ok (next_reading w (Suc 0))"
    and "cluster_table w ''leases'' (le_LockName b) = Some (OLease l)"
    and "attempt_spec a (next_reading w 0) (Some l) = Some (True, xa)"
    and "attempt_spec b (next_reading w (Suc 0)) (Some l) = Some (True, xb)"
  shows "\<exists>w'. race (cluster_client base) clock_now a b w
      = (Ret (None, None), w') \<and>
    cluster_table w' ''leases'' (le_LockName b) = map_option OLease xb"
proof -
  have at: "world_at cluster_good cluster_table w_env (cluster_table w) (w_env w) w"
    using assms(1) by (simp add: world_at_def)
  let ?C = "cluster_client base"
  have "triple (world_at cluster_good cluster_table w_env (cluster_table w) (w_env w))
    (race ?C clock_now a b)
    (\<lambda>r w'. fst r = None \<and> (if Some l = None then snd r \<noteq> None \<and> world_at cluster_good cluster_table w_env
        ((cluster_table w)(''leases'' := lease_row (le_LockName b) xa (cluster_table w ''leases'')))
        (clock_tick (clock_tick (w_env w))) w'
      else snd r = None \<and> world_at cluster_good cluster_table w_env
        ((cluster_table w)(''leases'' := lease_row (le_LockName b) xb (cluster_table w ''leases'')))
        (clock_tick (clock_tick (w_env w))) w'))"
    using assms by (intro le_cluster.race_effect) (simp_all add: readings)
  from tripleD [OF this, OF at] show ?thesis by (auto simp: world_at_def lease_row_def)
qed

theorem takeover_race_has_two_winners_witness:
  "\<exists>w'. race (cluster_client ''http://api'') clock_now (demo_cfg ''a'') (demo_cfg ''b'')
      (cluster_with [OLease demo_lease] demo_clock) = (Ret (None, None), w')"
proof -
  have "\<exists>w'. race (cluster_client ''http://api'') clock_now (demo_cfg ''a'') (demo_cfg ''b'')
      (cluster_with [OLease demo_lease] demo_clock) = (Ret (None, None), w') \<and>
    cluster_table w' ''leases'' (le_LockName (demo_cfg ''b'')) = map_option OLease (Some (taken (demo_cfg ''b'') (100 * second_ns) demo_lease))"
    by (rule takeover_race_has_two_winners [where l = demo_lease and xa = "Some (taken (demo_cfg ''a'') (100 * second_ns) demo_lease)"])
      (use demo_lease_settled demo_lease_named lock_plain demo_time_ok in
        \<open>simp_all add: demo_lease_table demo_lease_expired demo_good\<close>)
  then show ?thesis by blast
qed

text \<open>C16: When attempts do not overlap and every leader attempts to renew before its lease runs out, there
  is never more than one leader, whatever the order in which the candidates make their attempts.\<close>

theorem at_most_one_leader:
  assumes "elected K d s" and "\<forall>cfg \<in> K. lease_seconds cfg = d" and "i \<in> el_leading s" and "j \<in> el_leading s"
  shows "i = j"
proof -
  have "el_inv d s" using assms(1,2) by (blast intro: elected_inv)
  then have holds: "\<exists>l. el_lease s = Some l \<and> lsp_HolderIdentity (lease_Spec l) = Some k" if "k \<in> el_leading s" for k
    using that by (auto simp: el_inv_def)
  from holds [OF assms(3)] holds [OF assms(4)] show ?thesis by auto
qed

theorem at_most_one_leader_witness:
  "elected {demo_cfg ''a'', demo_cfg ''b''} 15
     \<lparr>el_lease = Some (new_lease (demo_cfg ''a'') 5), el_leading = {''a''}, el_heard = (\<lambda>_. 0)(''a'' := 5), el_time = 7\<rparr> \<and> ''a'' = ''a''"
proof -
  let ?K = "{demo_cfg ''a'', demo_cfg ''b''}"
  have "elected ?K 15 \<lparr>el_lease = None, el_leading = {}, el_heard = (\<lambda>_. 0), el_time = 0\<rparr>" by (rule elected.start) simp
  from elected.attempt [OF this, of "demo_cfg ''a''" 5 True "Some (new_lease (demo_cfg ''a'') 5)"]
  have a: "elected ?K 15 \<lparr>el_lease = Some (new_lease (demo_cfg ''a'') 5), el_leading = {''a''}, el_heard = (\<lambda>_. 0)(''a'' := 5), el_time = 5\<rparr>"
    by (simp add: attempt_spec_def)
  have "attempt_spec (demo_cfg ''b'') 7 (Some (new_lease (demo_cfg ''a'') 5)) = Some (False, Some (new_lease (demo_cfg ''a'') 5))"
    by (simp add: attempt_spec_def expiry_def second_ns_def)
  with elected.attempt [OF a, of "demo_cfg ''b''" 7 False "Some (new_lease (demo_cfg ''a'') 5)"]
  have "elected ?K 15 \<lparr>el_lease = Some (new_lease (demo_cfg ''a'') 5), el_leading = {''a''}, el_heard = (\<lambda>_. 0)(''a'' := 5), el_time = 7\<rparr>"
    by (simp add: expiry_def second_ns_def)
  then show ?thesis using at_most_one_leader [of ?K 15 _ "''a''" "''a''"] by simp
qed

text \<open>C39: However attempts succeed, fail or panic, whatever the started goroutines and the rest of the world
  do and whenever the context ends: while the process lives, \<open>OnStartedLeading\<close> has been started once
  more than \<open>OnStoppedLeading\<close> has returned exactly while the elector takes itself for the leader,
  and as often otherwise; the context of one term at most is not cancelled, the newest one's, and
  that only until the call of \<open>OnStoppedLeading\<close>; a term is over only when its context is done. With
  a fatal \<open>OnStoppedLeading\<close> there is one term at most, and an elector that has had it never returns.\<close>

theorem leadership_terms:
  assumes "rtranclp (elector_step c Now config work stopped others) (RunOrDie cancelled w) s"
  shows "(er_alive s \<longrightarrow> length (er_terms s) = er_stops s + (if in_office (er_at s) then 1 else 0) \<and>
      length (filter (\<lambda>t. \<not> te_cancelled t) (er_terms s)) = (if in_office (er_at s) \<and> er_at s \<noteq> Telling then 1 else 0)) \<and>
    (\<forall>t \<in> set (tl (er_terms s)). te_cancelled t) \<and>
    (\<forall>t \<in> set (er_terms s). te_over t \<longrightarrow> te_cancelled t \<or> er_done s) \<and>
    ((\<forall>w. \<exists>h w'. stopped w = (Panic h, w')) \<and> er_alive s \<longrightarrow>
       er_stops s = 0 \<and> length (er_terms s) \<le> 1 \<and> (er_at s = Returned \<longrightarrow> er_terms s = []))"
proof -
  have inv: "er_inv s" using assms by (rule elector_inv)
  have stops: "er_stops s = 0" if "\<forall>w. \<exists>h w'. stopped w = (Panic h, w')"
    using elector_stops_fatal [OF assms] that by (simp add: RunOrDie_def)
  show ?thesis
    using inv uncancelled_terms [OF inv] stops by (auto simp: er_inv_def uncancelled_def)
qed

text \<open>A candidate takes over an expired lease, loses its context, tells, and returns.\<close>

theorem leadership_terms_witness:
  "\<exists>s. rtranclp (elector_step (cluster_client ''http://api'') clock_now (demo_cfg ''new'') (\<lambda>(k :: nat). gret ()) (gret ()) (\<lambda>_ _. False))
       (RunOrDie False (cluster_with [OLease demo_lease] demo_clock)) s \<and>
     er_at s = Returned \<and> er_stops s = 1 \<and> length (er_terms s) = 1 \<and> filter (\<lambda>t. \<not> te_cancelled t) (er_terms s) = [] \<and>
     cluster_table (er_world s) ''leases'' ''lock'' = Some (OLease (taken (demo_cfg ''new'') (100 * second_ns) demo_lease))"
proof -
  let ?step = "elector_step (cluster_client ''http://api'') clock_now (demo_cfg ''new'') (\<lambda>(k :: nat). gret ()) (gret ()) (\<lambda>_ _. False)"
  let ?w = "cluster_with [OLease demo_lease] demo_clock"
  obtain w' where run: "tryAcquireOrRenew (cluster_client ''http://api'') clock_now (demo_cfg ''new'') ?w = (Ret None, w')"
    and lease: "cluster_table w' ''leases'' ''lock'' = Some (OLease (taken (demo_cfg ''new'') (100 * second_ns) demo_lease))"
    using demo_takeover by blast
  let ?at = "\<lambda>p dn t n. \<lparr>er_at = p, er_done = dn, er_terms = [\<lparr>te_cancelled = t, te_over = False\<rparr>], er_stops = n, er_world = w'\<rparr>"
  have won: "rtranclp ?step (RunOrDie False ?w) (?at Renewing False False 0)"
    using attempt_steps [OF run refl, where g = Acquiring and dn = False and ts = "[]" and n = 0]
    by (simp add: bid_won_def RunOrDie_def)
  have "?step (?at Renewing False False 0) (?at Renewing True False 0)"
    using elector_step.Signal [of "?at Renewing False False 0"] by (simp add: er_alive_def)
  moreover have "?step (?at Renewing True False 0) (?at Leaving True False 0)"
    using elector_step.Renew_done [of "?at Renewing True False 0"] by simp
  moreover have "?step (?at Leaving True False 0) (?at Telling True True 0)"
    using elector_step.Cancel [of "?at Leaving True False 0"] by (simp add: cancel_newest_def)
  moreover have "?step (?at Telling True True 0) (?at Pausing True True 1)"
    using elector_step.Tell [where s = "?at Telling True True 0" and stopped = "gret ()" and w = w'] by (simp add: gret_run)
  moreover have "?step (?at Pausing True True 1) (?at Returned True True 1)"
    using elector_step.Return [of "?at Pausing True True 1"] by simp
  ultimately have reach: "rtranclp ?step (RunOrDie False ?w) (?at Returned True True 1)"
    using won by (meson rtranclp.rtrancl_into_rtrancl)
  from leadership_terms [OF reach] have "filter (\<lambda>t. \<not> te_cancelled t) (er_terms (?at Returned True True 1)) = []"
    by (simp add: er_alive_def)
  with reach lease show ?thesis by (intro exI [of _ "?at Returned True True 1"]) simp
qed

end
