(* ===== verification/Runtime.thy ===== *)
theory Runtime
  imports Tables GoText
begin

text \<open>
  internal/kubelet/runtime.go and prober.go: the container runtime the node agent uses, implemented
  on the docker command line, and the liveness probes. Running docker, an HTTP GET and a TCP dial are
  parameters; \<open>docker_ok\<close> states the documented behaviour of the docker commands used, on a list of
  containers that is part of the environment.
\<close>

section \<open>The interface\<close>

record ContainerInfo =
  ci_ID :: string
  ci_Name :: string
  ci_Image :: string
  ci_State :: string
  ci_PodName :: string
  ci_PodNamespace :: string

record 'w Runtime =
  rt_RunContainer :: "Pod \<Rightarrow> Container \<Rightarrow> ('w, string result) go"
  rt_StopContainer :: "string \<Rightarrow> int \<Rightarrow> ('w, gerror option) go"
  rt_ListContainers :: "('w, ContainerInfo slice result) go"
  rt_GetContainerIP :: "string \<Rightarrow> ('w, string result) go"

definition container_name :: "Pod \<Rightarrow> Container \<Rightarrow> string" where
  "container_name pod container =
     ''k8s-lite-'' @ om_Name (pod_ObjectMeta pod) @ ''-'' @ ctr_Name container"

section \<open>The docker command line\<close>

text \<open>\<open>CombinedOutput\<close> of a docker command: its output, and an error unless it exits with 0\<close>

type_synonym 'w docker = "string list \<Rightarrow> ('w, string \<times> gerror option) go"

definition run_args :: "Pod \<Rightarrow> Container \<Rightarrow> string list" where
  "run_args pod container =
     [''run'', ''-d'', ''--name'', container_name pod container,
      ''--label'', ''k8s.pod.name='' @ om_Name (pod_ObjectMeta pod),
      ''--label'', ''k8s.pod.namespace='' @ om_Namespace (pod_ObjectMeta pod),
      ctr_Image container] @ ctr_Command container"

definition RunContainer :: "'w docker \<Rightarrow> Pod \<Rightarrow> Container \<Rightarrow> ('w, string result) go" where
  "RunContainer docker pod container =
     gbind (docker (run_args pod container)) (\<lambda>(out, err). gret (case err of
       Some e \<Rightarrow> Inl (Errorf ''docker run failed'')
     | None \<Rightarrow> Inr (trim_space out)))"

definition stop_args :: "string \<Rightarrow> int \<Rightarrow> string list" where
  "stop_args containerID timeoutSeconds =
     [''stop''] @ (if 0 < timeoutSeconds then [''-t'', print_int timeoutSeconds] else []) @ [containerID]"

definition StopContainer :: "'w docker \<Rightarrow> string \<Rightarrow> int \<Rightarrow> ('w, gerror option) go" where
  "StopContainer docker containerID timeoutSeconds =
     gbind (docker (stop_args containerID timeoutSeconds)) (\<lambda>(out, err). case err of
       Some e \<Rightarrow> gret (Some (Errorf ''docker stop failed''))
     | None \<Rightarrow> gbind (docker [''rm'', containerID]) (\<lambda>_. gret None))"

text \<open>One line of \<open>docker ps\<close>: six fields, of which the fifth has to be there\<close>

definition parse_line :: "string \<Rightarrow> ContainerInfo option" where
  "parse_line line =
     (let parts = split_on (CHR ''|'') line in
      if trim_space line = [] \<or> length parts < 6 \<or> parts ! 4 = [] then None
      else Some \<lparr>ci_ID = parts ! 0, ci_Name = parts ! 1, ci_Image = parts ! 2, ci_State = parts ! 3,
                 ci_PodName = parts ! 4, ci_PodNamespace = parts ! 5\<rparr>)"

definition parse_ps :: "string \<Rightarrow> ContainerInfo slice" where
  "parse_ps out = slice_of (List.map_filter parse_line (split_on (CHR 0x0A) out))"

definition ps_args :: "string list" where
  "ps_args = [''ps'', ''-a'', ''--format'',
     ''{{.ID}}|{{.Names}}|{{.Image}}|{{.State}}|{{.Label '' @ [CHR 0x22] @ ''k8s.pod.name'' @ [CHR 0x22] @
     ''}}|{{.Label '' @ [CHR 0x22] @ ''k8s.pod.namespace'' @ [CHR 0x22] @ ''}}'']"

definition ListContainers :: "'w docker \<Rightarrow> ('w, ContainerInfo slice result) go" where
  "ListContainers docker =
     gbind (docker ps_args) (\<lambda>(out, err). gret (case err of
       Some e \<Rightarrow> Inl e
     | None \<Rightarrow> Inr (parse_ps out)))"

definition inspect_args :: "string \<Rightarrow> string list" where
  "inspect_args containerID =
     [''inspect'', ''-f'', ''{{range .NetworkSettings.Networks}}{{.IPAddress}}{{end}}'', containerID]"

definition GetContainerIP :: "'w docker \<Rightarrow> string \<Rightarrow> ('w, string result) go" where
  "GetContainerIP docker containerID =
     gbind (docker (inspect_args containerID)) (\<lambda>(out, err). gret (case err of
       Some e \<Rightarrow> Inl (Errorf ''docker inspect ip failed'')
     | None \<Rightarrow> Inr (trim_space out)))"

definition DockerRuntime :: "'w docker \<Rightarrow> 'w Runtime" where
  "DockerRuntime docker =
     \<lparr>rt_RunContainer = RunContainer docker, rt_StopContainer = StopContainer docker,
      rt_ListContainers = ListContainers docker, rt_GetContainerIP = GetContainerIP docker\<rparr>"

lemma DockerRuntime_simps [simp]:
  "rt_RunContainer (DockerRuntime docker) = RunContainer docker"
  "rt_StopContainer (DockerRuntime docker) = StopContainer docker"
  "rt_ListContainers (DockerRuntime docker) = ListContainers docker"
  "rt_GetContainerIP (DockerRuntime docker) = GetContainerIP docker"
  by (simp_all add: DockerRuntime_def)

section \<open>Probes\<close>

text \<open>An HTTP GET answers with a status code; a dial just succeeds or fails.\<close>

record 'w DefaultProber =
  dp_HTTP :: "string \<Rightarrow> ('w, nat result) go"
  dp_Dial :: "string \<Rightarrow> ('w, gerror option) go"

definition probe_host :: "Pod \<Rightarrow> string" where
  "probe_host pod = (if pst_PodIP (pod_Status pod) = [] then ''localhost'' else pst_PodIP (pod_Status pod))"

definition probeHTTP :: "'w DefaultProber \<Rightarrow> Pod \<Rightarrow> HTTPGetAction \<Rightarrow> ('w, bool result) go" where
  "probeHTTP p pod w =
     gbind (dp_HTTP p (''http://'' @ probe_host pod @ '':'' @ IntOrString_String (hg_Port w) @ hg_Path w)) (\<lambda>r.
       gret (Inr (case r of Inl err \<Rightarrow> False | Inr status \<Rightarrow> 200 \<le> status \<and> status < 400)))"

text \<open>\<open>net.JoinHostPort\<close>\<close>

definition JoinHostPort :: "string \<Rightarrow> string \<Rightarrow> string" where
  "JoinHostPort host port =
     (if CHR '':'' \<in> set host then ''['' @ host @ '']:'' @ port else host @ '':'' @ port)"

definition probeTCP :: "'w DefaultProber \<Rightarrow> Pod \<Rightarrow> TCPSocketAction \<Rightarrow> ('w, bool result) go" where
  "probeTCP p pod t =
     gbind (dp_Dial p (JoinHostPort (probe_host pod) (IntOrString_String (ts_Port t)))) (\<lambda>err.
       gret (Inr (err = None)))"

definition Probe_run :: "'w DefaultProber \<Rightarrow> Pod \<Rightarrow> Probe \<Rightarrow> ('w, bool result) go" where
  "Probe_run p pod probe =
     (case pr_HTTPGet probe of
        Some w \<Rightarrow> probeHTTP p pod w
      | None \<Rightarrow>
          (case pr_TCPSocket probe of
             Some t \<Rightarrow> probeTCP p pod t
           | None \<Rightarrow> gret (Inr True)))"

section \<open>Reading back a listing\<close>

text \<open>What \<open>docker ps\<close> prints for these containers with the format asked for\<close>

definition ps_line :: "ContainerInfo \<Rightarrow> string" where
  "ps_line c = ci_ID c @ ''|'' @ ci_Name c @ ''|'' @ ci_Image c @ ''|'' @ ci_State c @ ''|'' @
     ci_PodName c @ ''|'' @ ci_PodNamespace c"

definition print_ps :: "ContainerInfo list \<Rightarrow> string" where
  "print_ps cs = concat (map (\<lambda>c. ps_line c @ [CHR 0x0A]) cs)"

definition clean :: "string \<Rightarrow> bool" where
  "clean s \<longleftrightarrow> list_all (\<lambda>c. c \<noteq> CHR ''|'' \<and> \<not> is_space c) s"

definition clean_info :: "ContainerInfo \<Rightarrow> bool" where
  "clean_info c \<longleftrightarrow> clean (ci_ID c) \<and> clean (ci_Name c) \<and> clean (ci_Image c) \<and> clean (ci_State c) \<and>
     clean (ci_PodName c) \<and> clean (ci_PodNamespace c)"

lemma clean_chars: "clean s \<Longrightarrow> CHR ''|'' \<notin> set s" "clean s \<Longrightarrow> CHR 0x0A \<notin> set s" "clean s \<Longrightarrow> trim_space s = s"
proof -
  assume s: "clean s"
  then show "CHR ''|'' \<notin> set s" by (auto simp: clean_def list_all_iff)
  have "is_space (CHR 0x0A)" by (simp add: is_space_def)
  then show "CHR 0x0A \<notin> set s" using s unfolding clean_def list_all_iff by blast
  show "trim_space s = s" using s by (intro trim_space_plain) (auto simp: clean_def list_all_iff)
qed

lemma split_ps_line:
  assumes "clean_info c"
  shows "split_on (CHR ''|'') (ps_line c) = [ci_ID c, ci_Name c, ci_Image c, ci_State c, ci_PodName c, ci_PodNamespace c]"
proof -
  have "CHR ''|'' \<notin> set (ci_ID c)" "CHR ''|'' \<notin> set (ci_Name c)" "CHR ''|'' \<notin> set (ci_Image c)"
    "CHR ''|'' \<notin> set (ci_State c)" "CHR ''|'' \<notin> set (ci_PodName c)" "CHR ''|'' \<notin> set (ci_PodNamespace c)"
    using assms clean_chars(1) unfolding clean_info_def by blast+
  then show ?thesis unfolding ps_line_def by (simp add: split_on_sep split_on_plain del: split_on.simps)
qed

lemma trim_space_not_Nil: "c \<in> set s \<Longrightarrow> \<not> is_space c \<Longrightarrow> trim_space s \<noteq> []"
proof -
  assume "c \<in> set s" "\<not> is_space c"
  then have "c \<in> set (dropWhile is_space s)"
    by (metis Un_iff set_append set_takeWhileD takeWhile_dropWhile_id)
  then have "c \<in> set (rev (dropWhile is_space s))" by simp
  then have "c \<in> set (dropWhile is_space (rev (dropWhile is_space s)))"
    using \<open>\<not> is_space c\<close> by (metis Un_iff set_append set_takeWhileD takeWhile_dropWhile_id)
  then show ?thesis unfolding trim_space_def by (metis empty_iff list.set(1) rev_is_Nil_conv)
qed

lemma parse_ps_line: "clean_info c \<Longrightarrow> parse_line (ps_line c) = (if ci_PodName c = [] then None else Some c)"
proof -
  assume c: "clean_info c"
  have "trim_space (ps_line c) \<noteq> []"
    by (rule trim_space_not_Nil [of "CHR ''|''"]) (simp_all add: ps_line_def is_space_def)
  then show ?thesis by (simp add: parse_line_def split_ps_line [OF c] Let_def)
qed

lemma parse_print_ps:
  assumes "list_all clean_info cs"
  shows "parse_ps (print_ps cs) = slice_of (filter (\<lambda>c. ci_PodName c \<noteq> []) cs)"
proof -
  have "List.map_filter parse_line (split_on (CHR 0x0A) (print_ps cs)) = filter (\<lambda>c. ci_PodName c \<noteq> []) cs"
    using assms
  proof (induction cs)
    case Nil
    then show ?case by (simp add: print_ps_def List.map_filter_def parse_line_def trim_space_def)
  next
    case (Cons c cs)
    have "CHR 0x0A \<notin> set (ps_line c)"
      using Cons.prems clean_chars(2) by (auto simp: ps_line_def clean_info_def)
    then have "split_on (CHR 0x0A) (print_ps (c # cs)) = ps_line c # split_on (CHR 0x0A) (print_ps cs)"
      by (simp add: print_ps_def split_on_sep)
    with Cons parse_ps_line [of c] show ?case by (simp add: List.map_filter_def)
  qed
  then show ?thesis by (simp add: parse_ps_def)
qed


section \<open>The docker daemon\<close>

text \<open>Containers as the daemon keeps them: readable fields, no two with the same name or identifier.\<close>

definition infos_ok :: "ContainerInfo list \<Rightarrow> bool" where
  "infos_ok cs \<longleftrightarrow> list_all clean_info cs \<and> distinct (map ci_Name cs) \<and> distinct (map ci_ID cs)"

definition new_info :: "string \<Rightarrow> Pod \<Rightarrow> Container \<Rightarrow> ContainerInfo" where
  "new_info i pod container =
     \<lparr>ci_ID = i, ci_Name = container_name pod container, ci_Image = ctr_Image container, ci_State = ''running'',
      ci_PodName = om_Name (pod_ObjectMeta pod), ci_PodNamespace = om_Namespace (pod_ObjectMeta pod)\<rparr>"

definition clean_pod :: "Pod \<Rightarrow> Container \<Rightarrow> bool" where
  "clean_pod pod container \<longleftrightarrow> clean (om_Name (pod_ObjectMeta pod)) \<and> clean (om_Namespace (pod_ObjectMeta pod)) \<and>
     clean (ctr_Image container) \<and> clean (ctr_Name container)"

definition set_exited :: "string \<Rightarrow> ContainerInfo list \<Rightarrow> ContainerInfo list" where
  "set_exited i cs = map (\<lambda>c. if ci_ID c = i then c\<lparr>ci_State := ''exited''\<rparr> else c) cs"

text \<open>
  What the docker commands do to the containers \<open>dk e\<close> of an environment: \<open>ps -a\<close> prints them all,
  \<open>run\<close> adds one unless the name is taken, \<open>stop\<close> and then \<open>rm\<close> end one, \<open>inspect\<close> changes nothing.
\<close>

definition docker_ok :: "('w \<Rightarrow> bool) \<Rightarrow> ('w \<Rightarrow> table) \<Rightarrow> ('w \<Rightarrow> 'e) \<Rightarrow> 'w docker \<Rightarrow> ('e \<Rightarrow> ContainerInfo list) \<Rightarrow> bool" where
  "docker_ok good tab env docker dk \<longleftrightarrow> (\<forall>t e. infos_ok (dk e) \<longrightarrow>
     triple (world_at good tab env t e) (docker ps_args)
       (\<lambda>r w. r = (print_ps (dk e), None) \<and> world_at good tab env t e w) \<and>
     (\<forall>pod container. clean_pod pod container \<longrightarrow>
        triple (world_at good tab env t e) (docker (run_args pod container)) (\<lambda>r w.
          if container_name pod container \<in> ci_Name ` set (dk e) then snd r \<noteq> None \<and> world_at good tab env t e w
          else \<exists>i e'. snd r = None \<and> clean i \<and> i \<notin> ci_ID ` set (dk e) \<and>
                 dk e' = dk e @ [new_info i pod container] \<and> world_at good tab env t e' w)) \<and>
     (\<forall>i k. i \<in> ci_ID ` set (dk e) \<longrightarrow>
        triple (world_at good tab env t e) (docker (stop_args i k)) (\<lambda>r w. snd r = None \<and>
          (\<exists>e'. dk e' = set_exited i (dk e) \<and> world_at good tab env t e' w))) \<and>
     (\<forall>i. (\<forall>c \<in> set (dk e). ci_ID c = i \<longrightarrow> ci_State c = ''exited'') \<longrightarrow>
        triple (world_at good tab env t e) (docker [''rm'', i])
          (\<lambda>r w. \<exists>e'. dk e' = filter (\<lambda>c. ci_ID c \<noteq> i) (dk e) \<and> world_at good tab env t e' w)) \<and>
     (\<forall>i. triple (world_at good tab env t e) (docker (inspect_args i)) (\<lambda>r w. world_at good tab env t e w)))"

section \<open>What the node agent relies on\<close>

locale node = rest C good tab env
  for C :: "'w Client" and good tab and env :: "'w \<Rightarrow> 'e" +
  fixes rt :: "'w Runtime" and probe :: "Pod \<Rightarrow> Container \<Rightarrow> Probe \<Rightarrow> ('w, bool result) go"
    and cs :: "'e \<Rightarrow> ContainerInfo list"
  assumes list_containers: "infos_ok (cs e) \<Longrightarrow> triple (world_at good tab env t e) (rt_ListContainers rt)
      (\<lambda>r w. r = Inr (slice_of (filter (\<lambda>c. ci_PodName c \<noteq> []) (cs e))) \<and> world_at good tab env t e w)"
    and run: "infos_ok (cs e) \<Longrightarrow> clean_pod pod container \<Longrightarrow> container_name pod container \<notin> ci_Name ` set (cs e) \<Longrightarrow>
      triple (world_at good tab env t e) (rt_RunContainer rt pod container)
        (\<lambda>r w. \<exists>i e'. clean i \<and> i \<notin> ci_ID ` set (cs e) \<and> cs e' = cs e @ [new_info i pod container] \<and>
           world_at good tab env t e' w)"
    and stop: "infos_ok (cs e) \<Longrightarrow> i \<in> ci_ID ` set (cs e) \<Longrightarrow>
      triple (world_at good tab env t e) (rt_StopContainer rt i k)
        (\<lambda>r w. \<exists>e'. cs e' = filter (\<lambda>c. ci_ID c \<noteq> i) (cs e) \<and> world_at good tab env t e' w)"
    and get_ip: "infos_ok (cs e) \<Longrightarrow> triple (world_at good tab env t e) (rt_GetContainerIP rt i) (\<lambda>r. world_at good tab env t e)"
    and probing: "triple (world_at good tab env t e) (probe pod container p) (\<lambda>r. world_at good tab env t e)"

lemma set_exited_ids [simp]: "map ci_ID (set_exited i cs) = map ci_ID cs" "map ci_Name (set_exited i cs) = map ci_Name cs"
  by (induction cs) (simp_all add: set_exited_def)

lemma set_exited_ok: "infos_ok cs \<Longrightarrow> infos_ok (set_exited i cs)"
proof -
  assume ok: "infos_ok cs"
  have "clean ''exited''" by (simp add: clean_def is_space_def)
  then have "clean_info c \<Longrightarrow> clean_info (if ci_ID c = i then c\<lparr>ci_State := ''exited''\<rparr> else c)" for c
    by (auto simp: clean_info_def)
  then have "list_all clean_info (set_exited i cs)"
    using ok unfolding infos_ok_def set_exited_def list_all_iff set_map by blast
  with ok show ?thesis by (simp add: infos_ok_def)
qed

lemma set_exited_removed: "filter (\<lambda>c. ci_ID c \<noteq> i) (set_exited i cs) = filter (\<lambda>c. ci_ID c \<noteq> i) cs"
  by (induction cs) (auto simp: set_exited_def)

lemma set_exited_state: "\<forall>c \<in> set (set_exited i cs). ci_ID c = i \<longrightarrow> ci_State c = ''exited''"
proof
  fix c assume "c \<in> set (set_exited i cs)"
  then have "c \<in> (\<lambda>c. if ci_ID c = i then c\<lparr>ci_State := ''exited''\<rparr> else c) ` set cs"
    by (simp only: set_exited_def set_map)
  then obtain d where d: "c = (if ci_ID d = i then d\<lparr>ci_State := ''exited''\<rparr> else d)" by (rule imageE)
  show "ci_ID c = i \<longrightarrow> ci_State c = ''exited''" by (cases "ci_ID d = i") (simp_all add: d)
qed

text \<open>The probes only talk to the network.\<close>

definition probes_ok :: "('w \<Rightarrow> bool) \<Rightarrow> ('w \<Rightarrow> table) \<Rightarrow> ('w \<Rightarrow> 'e) \<Rightarrow> 'w DefaultProber \<Rightarrow> bool" where
  "probes_ok good tab env p \<longleftrightarrow> (\<forall>t e.
     (\<forall>url. triple (world_at good tab env t e) (dp_HTTP p url) (\<lambda>r. world_at good tab env t e)) \<and>
     (\<forall>addr. triple (world_at good tab env t e) (dp_Dial p addr) (\<lambda>r. world_at good tab env t e)))"

lemma Probe_frame:
  assumes "probes_ok good tab env p"
  shows "triple (world_at good tab env t e) (Probe_run p pod x) (\<lambda>r. world_at good tab env t e)"
proof -
  have "triple (world_at good tab env t e) (probeHTTP p pod h) (\<lambda>r. world_at good tab env t e)"
    "triple (world_at good tab env t e) (probeTCP p pod s) (\<lambda>r. world_at good tab env t e)" for h s
    unfolding probeHTTP_def probeTCP_def
    by (rule triple_gbind [where R = "\<lambda>_. world_at good tab env t e"],
      use assms in \<open>simp add: probes_ok_def\<close>, rule triple_gret, assumption)+
  then show ?thesis by (auto simp: Probe_run_def intro: triple_gret split: option.split)
qed

text \<open>The laws of docker one by one\<close>

lemma docker_laws:
  assumes "docker_ok good tab env docker dk" and "infos_ok (dk e)"
  shows "triple (world_at good tab env t e) (docker ps_args) (\<lambda>r w. r = (print_ps (dk e), None) \<and> world_at good tab env t e w)"
    and "clean_pod pod container \<Longrightarrow> container_name pod container \<notin> ci_Name ` set (dk e) \<Longrightarrow>
      triple (world_at good tab env t e) (docker (run_args pod container)) (\<lambda>r w. \<exists>i e'. snd r = None \<and>
        clean i \<and> i \<notin> ci_ID ` set (dk e) \<and> dk e' = dk e @ [new_info i pod container] \<and> world_at good tab env t e' w)"
    and "i \<in> ci_ID ` set (dk e) \<Longrightarrow> triple (world_at good tab env t e) (docker (stop_args i k)) (\<lambda>r w. snd r = None \<and>
        (\<exists>e'. dk e' = set_exited i (dk e) \<and> world_at good tab env t e' w))"
    and "(\<forall>c \<in> set (dk e). ci_ID c = i \<longrightarrow> ci_State c = ''exited'') \<Longrightarrow>
      triple (world_at good tab env t e) (docker [''rm'', i])
        (\<lambda>r w. \<exists>e'. dk e' = filter (\<lambda>c. ci_ID c \<noteq> i) (dk e) \<and> world_at good tab env t e' w)"
    and "triple (world_at good tab env t e) (docker (inspect_args i)) (\<lambda>r w. world_at good tab env t e w)"
proof -
  note laws = assms(1) [unfolded docker_ok_def, THEN spec, THEN spec, THEN mp, OF assms(2), of t]
  show "triple (world_at good tab env t e) (docker ps_args) (\<lambda>r w. r = (print_ps (dk e), None) \<and> world_at good tab env t e w)"
    using laws by (elim conjE)
  show "triple (world_at good tab env t e) (docker (run_args pod container)) (\<lambda>r w. \<exists>i e'. snd r = None \<and>
        clean i \<and> i \<notin> ci_ID ` set (dk e) \<and> dk e' = dk e @ [new_info i pod container] \<and> world_at good tab env t e' w)"
    if "clean_pod pod container" "container_name pod container \<notin> ci_Name ` set (dk e)"
    using laws [THEN conjunct2, THEN conjunct1, THEN spec, THEN spec, THEN mp, OF that(1)] unfolding if_not_P [OF that(2)] .
  show "triple (world_at good tab env t e) (docker (stop_args i k)) (\<lambda>r w. snd r = None \<and>
        (\<exists>e'. dk e' = set_exited i (dk e) \<and> world_at good tab env t e' w))" if "i \<in> ci_ID ` set (dk e)"
    using laws that by blast
  show "triple (world_at good tab env t e) (docker [''rm'', i])
        (\<lambda>r w. \<exists>e'. dk e' = filter (\<lambda>c. ci_ID c \<noteq> i) (dk e) \<and> world_at good tab env t e' w)"
    if "\<forall>c \<in> set (dk e). ci_ID c = i \<longrightarrow> ci_State c = ''exited''"
    using laws that by blast
  show "triple (world_at good tab env t e) (docker (inspect_args i)) (\<lambda>r w. world_at good tab env t e w)"
    using laws by blast
qed

text \<open>What clean texts are made of\<close>

lemma clean_simps [simp]: "clean (s @ t) \<longleftrightarrow> clean s \<and> clean t" "clean []"
  by (simp_all add: clean_def)

lemma clean_words: "clean ''k8s-lite-''" "clean ''-''" "clean ''running''" "clean ''exited''"
  by (simp_all add: clean_def is_space_def)

lemma new_info_clean: "clean i \<Longrightarrow> clean_pod pod container \<Longrightarrow> clean_info (new_info i pod container)"
  using clean_words clean_simps(1) unfolding clean_info_def new_info_def clean_pod_def container_name_def
  by (simp del: append_Cons append_Nil)

text \<open>The docker runtime with the default prober is what the agent relies on.\<close>

lemma docker_node:
  assumes "rest C good tab env" and docker: "docker_ok good tab env docker dk" and "probes_ok good tab env p"
  shows "node C good tab env (DockerRuntime docker) (\<lambda>pod container. Probe_run p pod) dk"
proof (rule node.intro [OF assms(1)], rule node_axioms.intro)
  fix e t assume ok: "infos_ok (dk e)"
  have "parse_ps (print_ps (dk e)) = slice_of (filter (\<lambda>c. ci_PodName c \<noteq> []) (dk e))"
    using ok by (intro parse_print_ps) (simp add: infos_ok_def)
  then show "triple (world_at good tab env t e) (rt_ListContainers (DockerRuntime docker))
      (\<lambda>r w. r = Inr (slice_of (filter (\<lambda>c. ci_PodName c \<noteq> []) (dk e))) \<and> world_at good tab env t e w)"
    unfolding DockerRuntime_simps ListContainers_def
    by (intro triple_gbind [OF docker_laws(1) [OF docker ok]]) (auto simp: triple_def gret_run)
next
  fix e pod container t
  assume ok: "infos_ok (dk e)" and "clean_pod pod container" "container_name pod container \<notin> ci_Name ` set (dk e)"
  note run = docker_laws(2) [OF docker ok this(2,3), of t]
  show "triple (world_at good tab env t e) (rt_RunContainer (DockerRuntime docker) pod container)
      (\<lambda>r w. \<exists>i e'. clean i \<and> i \<notin> ci_ID ` set (dk e) \<and> dk e' = dk e @ [new_info i pod container] \<and> world_at good tab env t e' w)"
    unfolding DockerRuntime_simps RunContainer_def
    by (rule triple_gbind [OF run]) (auto simp: triple_def gret_run, blast)
next
  fix e i t k assume ok: "infos_ok (dk e)" and i: "i \<in> ci_ID ` set (dk e)"
  show "triple (world_at good tab env t e) (rt_StopContainer (DockerRuntime docker) i k)
      (\<lambda>r w. \<exists>e'. dk e' = filter (\<lambda>c. ci_ID c \<noteq> i) (dk e) \<and> world_at good tab env t e' w)"
    unfolding DockerRuntime_simps StopContainer_def
  proof (rule triple_gbind [OF docker_laws(3) [OF docker ok i]], rule triple_assuming, rule triple_ex, rule triple_assuming)
    fix r :: "string \<times> gerror option" and e' assume r: "snd r = None" and e': "dk e' = set_exited i (dk e)"
    have "triple (world_at good tab env t e') (docker [''rm'', i])
        (\<lambda>r w. \<exists>e''. dk e'' = filter (\<lambda>c. ci_ID c \<noteq> i) (dk e') \<and> world_at good tab env t e'' w)"
      by (rule docker_laws(4) [OF docker]) (use e' set_exited_ok [OF ok] set_exited_state in simp_all)
    then show "triple (world_at good tab env t e')
        (case r of (out, err) \<Rightarrow> case err of Some e \<Rightarrow> gret (Some (Errorf ''docker stop failed''))
          | None \<Rightarrow> gbind (docker [''rm'', i]) (\<lambda>_. gret None))
        (\<lambda>r w. \<exists>e'. dk e' = filter (\<lambda>c. ci_ID c \<noteq> i) (dk e) \<and> world_at good tab env t e' w)"
      using r by (cases r) (auto simp: e' set_exited_removed intro!: triple_gbind triple_gret)
  qed
next
  fix e t i assume ok: "infos_ok (dk e)"
  show "triple (world_at good tab env t e) (rt_GetContainerIP (DockerRuntime docker) i) (\<lambda>r. world_at good tab env t e)"
    unfolding DockerRuntime_simps GetContainerIP_def
    by (rule triple_gbind [OF docker_laws(5) [OF docker ok]]) (auto simp: triple_def gret_run)
next
  show "triple (world_at good tab env t e) (Probe_run p pod x) (\<lambda>r. world_at good tab env t e)" for t e pod x
    using Probe_frame [OF assms(3)] .
qed

end
