(* ===== verification/Kubelet.thy ===== *)
theory Kubelet
  imports Runtime
begin

text \<open>
  internal/kubelet/agent.go: the node agent compares the pods bound to its node with the containers
  of its runtime, starts what is missing, restarts what fails its probe, removes what belongs to no
  pod of the node, and writes the pods' status. The order in which Go ranges over a map is a
  parameter \<open>iter\<close>, of which only \<open>set (iter ks) = set ks\<close> and \<open>distinct (iter ks)\<close> are used.
\<close>

section \<open>The agent\<close>

definition agent_node :: "string \<Rightarrow> gotime \<Rightarrow> Node" where
  "agent_node nodeName now = Node_zero\<lparr>
     node_ObjectMeta := ObjectMeta_zero\<lparr>om_Name := nodeName,
       om_Labels := fmupd ''kubernetes.io/hostname'' nodeName fmempty\<rparr>,
     node_Status := NodeStatus_zero\<lparr>
       nst_Conditions := [\<lparr>nc_Type = ''Ready'', nc_Status = ''True'', nc_LastHeartbeatTime = now\<rparr>]\<rparr>\<rparr>"

definition registerNode :: "'w Client \<Rightarrow> ('w, gotime) go \<Rightarrow> string \<Rightarrow> ('w, gerror option) go" where
  "registerNode c Now nodeName = gbind Now (\<lambda>now. RegisterNode c (agent_node nodeName now))"

text \<open>\<open>runningPods\<close>: the containers of each pod, in the order they are listed\<close>

definition pod_containers :: "(string, ContainerInfo list) fmap \<Rightarrow> string \<Rightarrow> ContainerInfo list" where
  "pod_containers m n = (case fmlookup m n of None \<Rightarrow> [] | Some cs \<Rightarrow> cs)"

definition running_pods :: "ContainerInfo list \<Rightarrow> (string, ContainerInfo list) fmap" where
  "running_pods cs = fold (\<lambda>c m. fmupd (ci_PodName c) (pod_containers m (ci_PodName c) @ [c]) m) cs fmempty"

definition with_ip :: "string \<Rightarrow> Pod \<Rightarrow> Pod" where
  "with_ip ip pod = pod\<lparr>pod_Status := (pod_Status pod)\<lparr>pst_PodIP := ip\<rparr>\<rparr>"

definition with_phase :: "string \<Rightarrow> Pod \<Rightarrow> Pod" where
  "with_phase ph pod = pod\<lparr>pod_Status := (pod_Status pod)\<lparr>pst_Phase := ph\<rparr>\<rparr>"

text \<open>One round of the loop over \<open>pod.Spec.Containers\<close>; the pod it works on carries the address found last.\<close>

definition restart :: "'w Runtime \<Rightarrow> string \<Rightarrow> int \<Rightarrow> Pod \<Rightarrow> Container \<Rightarrow> ('w, Pod) go" where
  "restart rt i timeout pod container =
     gbind (rt_StopContainer rt i timeout) (\<lambda>_. gbind (rt_RunContainer rt pod container) (\<lambda>_. gret pod))"

definition check_probe ::
  "'w Runtime \<Rightarrow> (Pod \<Rightarrow> Container \<Rightarrow> Probe \<Rightarrow> ('w, bool result) go) \<Rightarrow> string \<Rightarrow> Container \<Rightarrow> Pod \<Rightarrow> ('w, Pod) go" where
  "check_probe rt probe i container pod =
     (case ctr_LivenessProbe container of
        None \<Rightarrow> gret pod
      | Some p \<Rightarrow> gbind (probe pod container p) (\<lambda>r. case r of
            Inl err \<Rightarrow> gret pod
          | Inr ok \<Rightarrow> if ok then gret pod else restart rt i 1 pod container))"

definition sync_container ::
  "'w Runtime \<Rightarrow> (Pod \<Rightarrow> Container \<Rightarrow> Probe \<Rightarrow> ('w, bool result) go) \<Rightarrow> ContainerInfo list \<Rightarrow> Container \<Rightarrow> Pod \<Rightarrow> ('w, Pod) go" where
  "sync_container rt probe runningContainers container pod =
     (case find (\<lambda>rc. ci_Name rc = container_name pod container) runningContainers of
        None \<Rightarrow> gbind (rt_RunContainer rt pod container) (\<lambda>_. gret pod)
      | Some rc \<Rightarrow>
          if has_prefix (ci_State rc) ''Exit'' then restart rt (ci_ID rc) 0 pod container
          else gbind (rt_GetContainerIP rt (ci_ID rc)) (\<lambda>r. check_probe rt probe (ci_ID rc) container
                 (case r of Inl err \<Rightarrow> pod | Inr ip \<Rightarrow> if ip \<noteq> [] then with_ip ip pod else pod)))"

fun sync_containers ::
  "'w Runtime \<Rightarrow> (Pod \<Rightarrow> Container \<Rightarrow> Probe \<Rightarrow> ('w, bool result) go) \<Rightarrow> ContainerInfo list \<Rightarrow> Container list \<Rightarrow> Pod \<Rightarrow> ('w, Pod) go" where
  "sync_containers rt probe rcs [] pod = gret pod"
| "sync_containers rt probe rcs (container # containers) pod =
     gbind (sync_container rt probe rcs container pod) (sync_containers rt probe rcs containers)"

definition new_phase :: "ContainerInfo list \<Rightarrow> string" where
  "new_phase rcs = (if rcs \<noteq> [] then ''Running'' else ''Pending'')"

definition write_status :: "'w Client \<Rightarrow> ContainerInfo list \<Rightarrow> Pod \<Rightarrow> ('w, unit) go" where
  "write_status c rcs pod =
     (if pst_Phase (pod_Status pod) \<noteq> new_phase rcs \<or> pst_PodIP (pod_Status pod) \<noteq> []
      then gbind (UpdatePodStatus c (with_phase (new_phase rcs) pod)) (\<lambda>err. gret ())
      else gret ())"

definition reconcilePod ::
  "'w Client \<Rightarrow> 'w Runtime \<Rightarrow> (Pod \<Rightarrow> Container \<Rightarrow> Probe \<Rightarrow> ('w, bool result) go) \<Rightarrow> Pod \<Rightarrow> ContainerInfo list \<Rightarrow> ('w, unit) go" where
  "reconcilePod c rt probe pod rcs =
     gbind (sync_containers rt probe rcs (elems (psp_Containers (pod_Spec pod))) pod) (write_status c rcs)"

text \<open>Parts A and B of \<open>runSync\<close>\<close>

fun sync_pods ::
  "'w Client \<Rightarrow> 'w Runtime \<Rightarrow> (Pod \<Rightarrow> Container \<Rightarrow> Probe \<Rightarrow> ('w, bool result) go) \<Rightarrow> Pod list \<Rightarrow>
     (string, ContainerInfo list) fmap \<Rightarrow> ('w, (string, ContainerInfo list) fmap) go" where
  "sync_pods c rt probe [] m = gret m"
| "sync_pods c rt probe (pod # pods) m =
     gbind (reconcilePod c rt probe pod (pod_containers m (om_Name (pod_ObjectMeta pod)))) (\<lambda>_.
       sync_pods c rt probe pods (fmdrop (om_Name (pod_ObjectMeta pod)) m))"

definition clean_up :: "'w Runtime \<Rightarrow> (string list \<Rightarrow> string list) \<Rightarrow> (string, ContainerInfo list) fmap \<Rightarrow> ('w, unit) go" where
  "clean_up rt iter m =
     for_each (iter (map_keys m)) (\<lambda>podName.
       if podName \<noteq> [] then
         for_each (pod_containers m podName) (\<lambda>c. gbind (rt_StopContainer rt (ci_ID c) 0) (\<lambda>err. gret ()))
       else gret ())"

definition runSync ::
  "'w Client \<Rightarrow> 'w Runtime \<Rightarrow> (Pod \<Rightarrow> Container \<Rightarrow> Probe \<Rightarrow> ('w, bool result) go) \<Rightarrow> (string list \<Rightarrow> string list) \<Rightarrow> string \<Rightarrow> ('w, unit) go" where
  "runSync c rt probe iter nodeName =
     gbind (ListPods c nodeName) (\<lambda>r. case r of
       Inl err \<Rightarrow> gret ()
     | Inr pods \<Rightarrow>
         (let myPods = filter (\<lambda>p. psp_NodeName (pod_Spec p) = nodeName) (elems pods) in
          gbind (rt_ListContainers rt) (\<lambda>r. case r of
            Inl err \<Rightarrow> gret ()
          | Inr containers \<Rightarrow>
              gbind (sync_pods c rt probe myPods (running_pods (elems containers))) (clean_up rt iter))))"

definition syncLoop ::
  "'w Client \<Rightarrow> 'w Runtime \<Rightarrow> (Pod \<Rightarrow> Container \<Rightarrow> Probe \<Rightarrow> ('w, bool result) go) \<Rightarrow> (string list \<Rightarrow> string list) \<Rightarrow>
     string \<Rightarrow> wake list \<Rightarrow> ('w, unit) go" where
  "syncLoop c rt probe iter nodeName = run_loop (runSync c rt probe iter nodeName)"

definition agent_Start ::
  "'w Client \<Rightarrow> ('w, gotime) go \<Rightarrow> 'w Runtime \<Rightarrow> (Pod \<Rightarrow> Container \<Rightarrow> Probe \<Rightarrow> ('w, bool result) go) \<Rightarrow> (string list \<Rightarrow> string list) \<Rightarrow>
     string \<Rightarrow> wake list \<Rightarrow> ('w, gerror option) go" where
  "agent_Start c Now rt probe iter nodeName ws =
     gbind (registerNode c Now nodeName) (\<lambda>err. case err of
       Some e \<Rightarrow> gret (Some e)
     | None \<Rightarrow> gbind (syncLoop c rt probe iter nodeName ws) (\<lambda>_. gret None))"

section \<open>The map of running pods\<close>

lemma pod_containers_upd [simp]: "pod_containers (fmupd k v m) n = (if n = k then v else pod_containers m n)"
  "pod_containers fmempty n = []" "pod_containers (fmdrop k m) n = (if n = k then [] else pod_containers m n)"
  by (simp_all add: pod_containers_def)

lemma running_pods_snoc:
  "running_pods (cs @ [c]) = fmupd (ci_PodName c) (pod_containers (running_pods cs) (ci_PodName c) @ [c]) (running_pods cs)"
  by (simp add: running_pods_def)

lemma running_pods_lookup: "pod_containers (running_pods cs) n = filter (\<lambda>c. ci_PodName c = n) cs"
proof (induction cs rule: rev_induct)
  case Nil
  then show ?case by (simp add: running_pods_def)
next
  case (snoc c cs)
  then show ?case by (auto simp: running_pods_snoc)
qed

lemma running_pods_keys: "set (map_keys (running_pods cs)) = ci_PodName ` set cs"
proof (induction cs rule: rev_induct)
  case Nil
  then show ?case by (simp add: running_pods_def)
next
  case (snoc c cs)
  then show ?case by (simp add: running_pods_snoc)
qed

section \<open>Containers by name\<close>

text \<open>The containers of an environment with one name; at most one\<close>

definition called :: "string \<Rightarrow> ContainerInfo list \<Rightarrow> ContainerInfo list" where
  "called n cs = filter (\<lambda>c. ci_Name c = n) cs"

lemma called_append [simp]: "called n (cs @ ds) = called n cs @ called n ds"
  by (simp add: called_def)

lemma called_Nil_iff: "called n cs = [] \<longleftrightarrow> n \<notin> ci_Name ` set cs"
  by (auto simp: called_def filter_empty_conv)

lemma infos_ok_append:
  assumes "infos_ok cs" and "clean_info c" and "ci_Name c \<notin> ci_Name ` set cs" and "ci_ID c \<notin> ci_ID ` set cs"
  shows "infos_ok (cs @ [c])"
  using assms by (simp add: infos_ok_def)

lemma infos_ok_filter: "infos_ok cs \<Longrightarrow> infos_ok (filter P cs)"
  by (auto simp: infos_ok_def list_all_iff distinct_map_filter)

lemma distinct_by:
  assumes "distinct (map f xs)" and "x \<in> set xs" and "y \<in> set xs" and "f x = f y"
  shows "x = y"
  using assms by (simp add: distinct_map inj_on_def)

lemma removed_called:
  assumes "infos_ok cs" and "rc \<in> set cs"
  shows "called n (filter (\<lambda>c. ci_ID c \<noteq> ci_ID rc) cs) = (if n = ci_Name rc then [] else called n cs)"
proof -
  have rc: "ci_ID c = ci_ID rc \<longleftrightarrow> c = rc" "ci_Name c = ci_Name rc \<longleftrightarrow> c = rc" if "c \<in> set cs" for c
    using assms that distinct_by [of ci_ID cs c rc] distinct_by [of ci_Name cs c rc] by (auto simp: infos_ok_def)
  show ?thesis
  proof (cases "n = ci_Name rc")
    case True
    then show ?thesis using rc by (auto simp: called_def filter_empty_conv)
  next
    case False
    have "filter (\<lambda>c. ci_ID c \<noteq> ci_ID rc \<and> ci_Name c = n) cs = filter (\<lambda>c. ci_Name c = n) cs"
      by (rule filter_cong) (use rc(1) False in auto)
    with False show ?thesis by (simp add: called_def)
  qed
qed

section \<open>One container\<close>

text \<open>
  After its round a container exists, labelled with its pod, and the others are as before.
\<close>

definition present :: "Pod \<Rightarrow> Container \<Rightarrow> ContainerInfo list \<Rightarrow> bool" where
  "present pod container cs \<longleftrightarrow> container_name pod container \<in> ci_Name ` set cs \<and>
     (\<forall>c \<in> set cs. ci_Name c = container_name pod container \<longrightarrow> ci_PodName c = om_Name (pod_ObjectMeta pod))"

definition placed :: "Pod \<Rightarrow> Container \<Rightarrow> ContainerInfo list \<Rightarrow> ContainerInfo list \<Rightarrow> bool" where
  "placed pod container cs cs' \<longleftrightarrow> infos_ok cs' \<and> present pod container cs' \<and>
     (\<forall>n. n \<noteq> container_name pod container \<longrightarrow> called n cs' = called n cs)"

text \<open>A container that is there and has no probe is left as it is, unless its state reads \<open>Exit\<close>.\<close>

definition undisturbed :: "Pod \<Rightarrow> Container \<Rightarrow> ContainerInfo list \<Rightarrow> ContainerInfo list \<Rightarrow> bool" where
  "undisturbed pod container cs cs' \<longleftrightarrow>
     (\<forall>c \<in> set cs. ci_Name c = container_name pod container \<longrightarrow> \<not> has_prefix (ci_State c) ''Exit'' \<longrightarrow>
        ctr_LivenessProbe container = None \<longrightarrow> called (ci_Name c) cs' = called (ci_Name c) cs)"

definition synced :: "Pod \<Rightarrow> Container \<Rightarrow> ContainerInfo list \<Rightarrow> ContainerInfo list \<Rightarrow> bool" where
  "synced pod container cs cs' \<longleftrightarrow> placed pod container cs cs' \<and> undisturbed pod container cs cs'"

text \<open>The pod a round works on: the one it started with, perhaps with an address that was found\<close>

definition carried :: "Pod \<Rightarrow> Pod \<Rightarrow> bool" where
  "carried pod p \<longleftrightarrow> (\<exists>ip. p = with_ip ip pod \<and> (ip \<noteq> [] \<or> ip = pst_PodIP (pod_Status pod)))"

lemma with_ip_simps [simp]:
  "pod_ObjectMeta (with_ip ip pod) = pod_ObjectMeta pod" "pod_Spec (with_ip ip pod) = pod_Spec pod"
  "container_name (with_ip ip pod) = container_name pod" "clean_pod (with_ip ip pod) = clean_pod pod"
  "present (with_ip ip pod) = present pod" "placed (with_ip ip pod) = placed pod"
  "undisturbed (with_ip ip pod) = undisturbed pod" "synced (with_ip ip pod) = synced pod"
  "pst_PodIP (pod_Status (with_ip ip pod)) = ip"
  "with_ip ip' (with_ip ip pod) = with_ip ip' pod" and with_ip_same: "with_ip (pst_PodIP (pod_Status pod)) pod = pod"
  by (simp_all add: with_ip_def container_name_def fun_eq_iff clean_pod_def present_def placed_def
      undisturbed_def synced_def)

lemma carried_refl: "carried pod pod"
  unfolding carried_def by (metis with_ip_same)

lemma carried_ip: "ip \<noteq> [] \<Longrightarrow> carried pod (with_ip ip pod)"
  by (auto simp: carried_def)

lemma carried_trans: "carried pod p \<Longrightarrow> carried p q \<Longrightarrow> carried pod q"
  by (auto simp: carried_def)

lemma carried_simps:
  assumes "carried pod p"
  shows "pod_ObjectMeta p = pod_ObjectMeta pod" "pod_Spec p = pod_Spec pod" "container_name p = container_name pod"
    "clean_pod p = clean_pod pod" "present p = present pod" "synced p = synced pod" "placed p = placed pod"
  using assms by (auto simp: carried_def)

text \<open>What is said of a container speaks of the containers with its name only.\<close>

lemma mem_called: "x \<in> set (called n cs) \<longleftrightarrow> x \<in> set cs \<and> ci_Name x = n"
  by (auto simp: called_def)

lemma same_called:
  assumes "called n cs = called n cs'"
  shows "n \<in> ci_Name ` set cs \<longleftrightarrow> n \<in> ci_Name ` set cs'" and "ci_Name x = n \<Longrightarrow> x \<in> set cs \<longleftrightarrow> x \<in> set cs'"
  using assms called_Nil_iff [of n cs] called_Nil_iff [of n cs'] mem_called [of x n cs] mem_called [of x n cs'] by auto

lemma present_called:
  "called (container_name pod c) cs = called (container_name pod c) cs' \<Longrightarrow> present pod c cs = present pod c cs'"
  unfolding present_def using same_called by metis

lemma undisturbed_called:
  assumes "called (container_name pod c) as = called (container_name pod c) cs" and "undisturbed pod c as bs"
    and "called (container_name pod c) bs = called (container_name pod c) ds"
  shows "undisturbed pod c cs ds"
  using assms unfolding undisturbed_def by (metis same_called(2))

lemma called_other: "synced pod c cs cs' \<Longrightarrow> n \<noteq> container_name pod c \<Longrightarrow> called n cs' = called n cs"
  by (simp add: synced_def placed_def)

definition all_synced :: "Pod \<Rightarrow> Container list \<Rightarrow> ContainerInfo list \<Rightarrow> ContainerInfo list \<Rightarrow> bool" where
  "all_synced pod containers cs cs' \<longleftrightarrow> infos_ok cs' \<and>
     (\<forall>c \<in> set containers. present pod c cs' \<and> undisturbed pod c cs cs') \<and>
     (\<forall>n. n \<notin> container_name pod ` set containers \<longrightarrow> called n cs' = called n cs)"

lemma all_synced_Cons:
  assumes s: "synced pod c cs cs'" and all: "all_synced pod containers cs' cs''"
    and "distinct (map (container_name pod) (c # containers))"
  shows "all_synced pod (c # containers) cs cs''"
proof -
  have c: "container_name pod c \<notin> container_name pod ` set containers" using assms(3) by simp
  then have same: "called (container_name pod c) cs' = called (container_name pod c) cs''"
    using all by (simp add: all_synced_def)
  have other: "called (container_name pod d) cs' = called (container_name pod d) cs" if "d \<in> set containers" for d
    using called_other [OF s] c that by (metis imageI)
  have "present pod c cs'' \<and> undisturbed pod c cs cs''"
    using s same undisturbed_called [OF refl _ same] by (auto simp: synced_def placed_def present_called [OF same])
  moreover have "present pod d cs'' \<and> undisturbed pod d cs cs''" if "d \<in> set containers" for d
    using all that undisturbed_called [OF other [OF that] _ refl] by (auto simp: all_synced_def)
  moreover have "called n cs'' = called n cs" if "n \<notin> container_name pod ` set (c # containers)" for n
    using all that called_other [OF s, of n] by (simp add: all_synced_def)
  ultimately show ?thesis using all by (simp add: all_synced_def)
qed

text \<open>What the agent was told of the containers of a name is what there is.\<close>

definition knows :: "ContainerInfo list \<Rightarrow> Pod \<Rightarrow> Container \<Rightarrow> ContainerInfo list \<Rightarrow> bool" where
  "knows rcs pod container c \<longleftrightarrow> called (container_name pod container) rcs = called (container_name pod container) c \<and>
     (\<forall>x \<in> set c. ci_Name x = container_name pod container \<longrightarrow> ci_PodName x = om_Name (pod_ObjectMeta pod))"

lemma knows_called:
  "called (container_name pod c) cs' = called (container_name pod c) cs \<Longrightarrow> knows rcs pod c cs \<Longrightarrow> knows rcs pod c cs'"
  unfolding knows_def using same_called by metis

context node
begin

lemma run_effect:
  assumes "infos_ok (cs e)" and "clean_pod pod container" and "container_name pod container \<notin> ci_Name ` set (cs e)"
  shows "triple (world_at good tab env t e) (rt_RunContainer rt pod container)
    (\<lambda>_ w. \<exists>e'. placed pod container (cs e) (cs e') \<and> world_at good tab env t e' w)"
proof (rule triple_post [OF run [OF assms]], elim exE conjE)
  fix w i e'
  let ?c = "new_info i pod container"
  assume i: "clean i" "i \<notin> ci_ID ` set (cs e)" and e': "cs e' = cs e @ [?c]" and w: "world_at good tab env t e' w"
  have name: "ci_Name ?c = container_name pod container" "ci_ID ?c = i" "ci_PodName ?c = om_Name (pod_ObjectMeta pod)"
    by (simp_all add: new_info_def)
  have "infos_ok (cs e')"
    unfolding e' using i assms new_info_clean [OF i(1) assms(2)] by (intro infos_ok_append) (simp_all add: name)
  moreover have "present pod container (cs e')"
    unfolding present_def e'
  proof (intro conjI ballI impI)
    show "container_name pod container \<in> ci_Name ` set (cs e @ [?c])" by (simp add: name)
    fix c assume "c \<in> set (cs e @ [?c])" "ci_Name c = container_name pod container"
    then have "c = ?c" using assms(3) by auto (metis imageI)
    then show "ci_PodName c = om_Name (pod_ObjectMeta pod)" by (simp add: name)
  qed
  moreover have "called n (cs e') = called n (cs e)" if "n \<noteq> container_name pod container" for n
    using that by (simp add: e') (simp add: called_def name)
  ultimately show "\<exists>e'. placed pod container (cs e) (cs e') \<and> world_at good tab env t e' w"
    using w by (auto simp: placed_def)
qed

lemma restart_effect:
  assumes "infos_ok (cs e)" and "clean_pod pod container" and "rc \<in> set (cs e)" and "ci_Name rc = container_name pod container"
  shows "triple (world_at good tab env t e) (restart rt (ci_ID rc) k pod container)
    (\<lambda>p w. p = pod \<and> (\<exists>e'. placed pod container (cs e) (cs e') \<and> world_at good tab env t e' w))"
  unfolding restart_def
proof (rule triple_gbind [OF stop [OF assms(1)]])
  show "ci_ID rc \<in> ci_ID ` set (cs e)" using assms(3) by simp
  fix r
  show "triple (\<lambda>w. \<exists>e'. cs e' = filter (\<lambda>c. ci_ID c \<noteq> ci_ID rc) (cs e) \<and> world_at good tab env t e' w)
    (gbind (rt_RunContainer rt pod container) (\<lambda>_. gret pod))
    (\<lambda>p w. p = pod \<and> (\<exists>e'. placed pod container (cs e) (cs e') \<and> world_at good tab env t e' w))"
  proof (rule triple_ex, rule triple_assuming)
    fix e1 assume e1: "cs e1 = filter (\<lambda>c. ci_ID c \<noteq> ci_ID rc) (cs e)"
    have called: "called n (cs e1) = (if n = container_name pod container then [] else called n (cs e))" for n
      using removed_called [OF assms(1,3), of n] by (simp add: e1 assms(4))
    then have "container_name pod container \<notin> ci_Name ` set (cs e1)" by (metis called_Nil_iff)
    moreover have "infos_ok (cs e1)" unfolding e1 using assms(1) by (rule infos_ok_filter)
    ultimately have "triple (world_at good tab env t e1) (rt_RunContainer rt pod container)
      (\<lambda>_ w. \<exists>e'. placed pod container (cs e1) (cs e') \<and> world_at good tab env t e' w)"
      using assms(2) by (intro run_effect)
    then show "triple (world_at good tab env t e1) (gbind (rt_RunContainer rt pod container) (\<lambda>_. gret pod))
      (\<lambda>p w. p = pod \<and> (\<exists>e'. placed pod container (cs e) (cs e') \<and> world_at good tab env t e' w))"
      by (rule triple_gbind) (rule triple_gret, use called in \<open>auto simp: placed_def\<close>)
  qed
qed

lemma check_probe_effect:
  assumes "infos_ok (cs e)" and "clean_pod pod container" and "rc \<in> set (cs e)" and "ci_Name rc = container_name pod container"
    and "present pod container (cs e)"
  shows "triple (world_at good tab env t e) (check_probe rt probe (ci_ID rc) container pod)
    (\<lambda>p w. p = pod \<and> (\<exists>e'. placed pod container (cs e) (cs e') \<and>
       (ctr_LivenessProbe container = None \<longrightarrow> cs e' = cs e) \<and> world_at good tab env t e' w))"
proof -
  let ?Q = "\<lambda>p w. p = pod \<and> (\<exists>e'. placed pod container (cs e) (cs e') \<and>
    (ctr_LivenessProbe container = None \<longrightarrow> cs e' = cs e) \<and> world_at good tab env t e' w)"
  have same: "triple (world_at good tab env t e) (gret pod) ?Q"
    using assms(1,5) by (intro triple_gret) (auto simp: placed_def)
  show ?thesis
  proof (cases "ctr_LivenessProbe container")
    case None
    with same show ?thesis by (simp add: check_probe_def)
  next
    case (Some p)
    have "triple (world_at good tab env t e) (case r of Inl err \<Rightarrow> gret pod
        | Inr ok \<Rightarrow> if ok then gret pod else restart rt (ci_ID rc) 1 pod container) ?Q" for r
      using same restart_effect [OF assms(1-4)] Some by (cases r) auto
    with Some show ?thesis by (auto simp: check_probe_def intro: triple_gbind [OF probing])
  qed
qed

lemma sync_container_effect:
  assumes "infos_ok (cs e)" and "clean_pod pod container" and "knows rcs pod container (cs e)"
  shows "triple (world_at good tab env t e) (sync_container rt probe rcs container pod)
    (\<lambda>p w. carried pod p \<and> (\<exists>e'. synced pod container (cs e) (cs e') \<and> world_at good tab env t e' w))"
proof (cases "find (\<lambda>rc. ci_Name rc = container_name pod container) rcs")
  case None
  then have "called (container_name pod container) rcs = []" by (auto simp: find_None_iff called_def filter_empty_conv)
  then have no: "container_name pod container \<notin> ci_Name ` set (cs e)"
    using assms(3) unfolding knows_def by (metis called_Nil_iff)
  then have "undisturbed pod container (cs e) cs'" for cs' unfolding undisturbed_def by (metis imageI)
  with run_effect [OF assms(1,2) no, of t]
  have "triple (world_at good tab env t e) (gbind (rt_RunContainer rt pod container) (\<lambda>_. gret pod))
    (\<lambda>p w. carried pod p \<and> (\<exists>e'. synced pod container (cs e) (cs e') \<and> world_at good tab env t e' w))"
    unfolding synced_def by (intro triple_gbind) (assumption, rule triple_gret, blast intro: carried_refl)
  with None show ?thesis by (simp add: sync_container_def)
next
  case (Some rc)
  then have name: "ci_Name rc = container_name pod container" and "rc \<in> set (called (container_name pod container) rcs)"
    using find_mem [OF Some] by (simp_all add: called_def)
  then have rc: "rc \<in> set (cs e)" using assms(3) by (simp add: knows_def) (simp add: called_def)
  have "container_name pod container \<in> ci_Name ` set (cs e)" using rc name by (metis imageI)
  then have present: "present pod container (cs e)" using assms(3) unfolding present_def knows_def by blast
  have only: "c = rc" if "c \<in> set (cs e)" "ci_Name c = container_name pod container" for c
    using assms(1) that rc name unfolding infos_ok_def by (metis distinct_by)
  show ?thesis
  proof (cases "has_prefix (ci_State rc) ''Exit''")
    case True
    then have "undisturbed pod container (cs e) cs'" for cs' unfolding undisturbed_def using only by blast
    with restart_effect [OF assms(1,2) rc name, of t 0]
    have "triple (world_at good tab env t e) (restart rt (ci_ID rc) 0 pod container)
      (\<lambda>p w. carried pod p \<and> (\<exists>e'. synced pod container (cs e) (cs e') \<and> world_at good tab env t e' w))"
      unfolding synced_def by (elim triple_post) (blast intro: carried_refl)
    with Some True show ?thesis by (simp add: sync_container_def)
  next
    case False
    let ?Q = "\<lambda>p w. carried pod p \<and> (\<exists>e'. synced pod container (cs e) (cs e') \<and> world_at good tab env t e' w)"
    have check: "triple (world_at good tab env t e) (check_probe rt probe (ci_ID rc) container p) ?Q" if "carried pod p" for p
    proof -
      obtain ip where p: "p = with_ip ip pod" using \<open>carried pod p\<close> by (auto simp: carried_def)
      have "triple (world_at good tab env t e) (check_probe rt probe (ci_ID rc) container p)
        (\<lambda>q w. q = p \<and> (\<exists>e'. placed pod container (cs e) (cs e') \<and>
          (ctr_LivenessProbe container = None \<longrightarrow> cs e' = cs e) \<and> world_at good tab env t e' w))"
        using check_probe_effect [of e p container rc t] assms(1,2) rc name present by (simp add: p)
      then show ?thesis using that by (elim triple_post) (auto simp: synced_def undisturbed_def)
    qed
    have "triple (world_at good tab env t e) (check_probe rt probe (ci_ID rc) container
          (case r of Inl err \<Rightarrow> pod | Inr ip \<Rightarrow> if ip \<noteq> [] then with_ip ip pod else pod)) ?Q" for r
      using check [OF carried_refl] check [OF carried_ip] by (cases r) simp_all
    with Some False show ?thesis
      by (auto simp: sync_container_def intro: triple_gbind [OF get_ip [OF assms(1)]])
  qed
qed

text \<open>All containers of a pod\<close>

lemma sync_containers_effect:
  assumes "infos_ok (cs e)" and "distinct (map (container_name pod) containers)"
    and "\<And>c. c \<in> set containers \<Longrightarrow> clean_pod pod c \<and> knows rcs pod c (cs e)" and "carried pod p"
  shows "triple (world_at good tab env t e) (sync_containers rt probe rcs containers p)
    (\<lambda>q w. carried pod q \<and> (\<exists>e'. all_synced pod containers (cs e) (cs e') \<and> world_at good tab env t e' w))"
  using assms
proof (induction containers arbitrary: p e)
  case Nil
  then show ?case by (auto simp: all_synced_def intro!: triple_gret)
next
  case (Cons c containers)
  note p = carried_simps [OF Cons.prems(4)]
  have "clean_pod pod c" "knows rcs pod c (cs e)" using Cons.prems(3) [of c] by simp_all
  then have c: "clean_pod p c" "knows rcs p c (cs e)" unfolding knows_def p by simp_all
  show ?case
    unfolding sync_containers.simps
  proof (rule triple_gbind [OF sync_container_effect [OF Cons.prems(1) c, of t]], rule triple_assuming, rule triple_ex,
      rule triple_assuming)
    fix q e1 assume "carried p q" and e1: "synced p c (cs e) (cs e1)"
    then have q: "carried pod q" and s: "synced pod c (cs e) (cs e1)"
      using carried_trans [OF Cons.prems(4)] by (simp_all add: p)
    then have ok: "infos_ok (cs e1)" by (simp add: synced_def placed_def)
    have "knows rcs pod d (cs e1)" if "d \<in> set containers" for d
    proof (rule knows_called [OF called_other [OF s]])
      show "knows rcs pod d (cs e)" using Cons.prems(3) that by simp
      show "container_name pod d \<noteq> container_name pod c" using Cons.prems(2) that by (metis distinct.simps(2) image_eqI list.simps(9) set_map)
    qed
    with Cons.prems(2,3) have "triple (world_at good tab env t e1) (sync_containers rt probe rcs containers q)
      (\<lambda>q w. carried pod q \<and> (\<exists>e'. all_synced pod containers (cs e1) (cs e') \<and> world_at good tab env t e' w))"
      by (intro Cons.IH [OF ok _ _ q]) auto
    then show "triple (world_at good tab env t e1) (sync_containers rt probe rcs containers q)
      (\<lambda>q w. carried pod q \<and> (\<exists>e'. all_synced pod (c # containers) (cs e) (cs e') \<and> world_at good tab env t e' w))"
      by (rule triple_post) (use all_synced_Cons [OF s _ Cons.prems(2)] in blast)
  qed
qed

end

end
