(* ===== verification/KubeletSpec.thy ===== *)
theory KubeletSpec
  imports Kubelet
begin

text \<open>
  What one sync of the node agent does to the pods and the containers: the loop over the pods of the
  node, the removal of what belongs to none of them, and the specification \<open>node_synced\<close> of both.
\<close>

section \<open>The status of a pod\<close>

abbreviation pod_name :: "Pod \<Rightarrow> string" where
  "pod_name p \<equiv> om_Name (pod_ObjectMeta p)"

abbreviation containers_of :: "Pod \<Rightarrow> Container list" where
  "containers_of p \<equiv> elems (psp_Containers (pod_Spec p))"

text \<open>The phase tells whether the agent saw containers of the pod; an address that was found is kept.\<close>

definition reported :: "ContainerInfo list \<Rightarrow> Pod \<Rightarrow> obj option \<Rightarrow> bool" where
  "reported rcs p x \<longleftrightarrow> (\<exists>q. carried p q \<and> x = Some (OPod (with_phase (new_phase rcs) q)))"

lemma with_phase_simps [simp]:
  "pod_ObjectMeta (with_phase ph p) = pod_ObjectMeta p" "pod_Spec (with_phase ph p) = pod_Spec p"
  "pst_Phase (pod_Status (with_phase ph p)) = ph" "with_phase (pst_Phase (pod_Status p)) p = p"
  "pst_PodIP (pod_Status (with_phase ph p)) = pst_PodIP (pod_Status p)"
  by (simp_all add: with_phase_def)

lemma status_settled:
  assumes "settled_obj (OPod p)"
  shows "settled_obj (OPod (with_phase ph (with_ip ip p)))"
proof -
  have p: "cok Pod_codec p" "cnrm Pod_codec p = p" using assms settled_ok(1) by auto
  then have "psp_Containers (pod_Spec (cnrm Pod_codec p)) = psp_Containers (pod_Spec p)" by simp
  then have "map_option (map (cnrm Container_codec)) (psp_Containers (pod_Spec p)) = psp_Containers (pod_Spec p)"
    by (simp del: Container_nrm)
  with p(1) show ?thesis
    by (simp add: settled_iff marshal_def codec_oks with_phase_def with_ip_def del: Container_nrm)
qed


context node
begin

abbreviation (input) pods_at :: "table \<Rightarrow> (string \<Rightarrow> obj option) \<Rightarrow> 'e \<Rightarrow> 'w \<Rightarrow> bool" where
  "pods_at t row \<equiv> world_at good tab env (t(''pods'' := row))"

lemma write_status_effect:
  assumes "row (pod_name p) = Some (OPod p)" and "settled_obj (OPod p)" and "plain_name (pod_name p)" and "carried p q"
  shows "triple (pods_at t row e) (write_status C rcs q)
    (\<lambda>_ w. \<exists>x. reported rcs p x \<and> pods_at t (row(pod_name p := x)) e w)"
proof (cases "pst_Phase (pod_Status q) \<noteq> new_phase rcs \<or> pst_PodIP (pod_Status q) \<noteq> []")
  case True
  let ?q = "with_phase (new_phase rcs) q" and ?t = "t(''pods'' := row)"
  have q: "pod_name ?q = pod_name p" using carried_simps(1) [OF assms(4)] by simp
  have set: "settled_obj (OPod ?q)" using assms(2,4) status_settled by (auto simp: carried_def)
  then have "put_effect ''pods'' (pod_name p) (OPod ?q) ?t = (200, t(''pods'' := row(pod_name p \<mapsto> OPod ?q)))"
    using assms(1) by (simp add: put_effect_def set_obj_def settled_iff del: obj_nrm.simps)
  moreover have "reported rcs p (Some (OPod ?q))" using assms(4) by (auto simp: reported_def)
  ultimately have "triple (pods_at t row e) (UpdatePod C ?q)
      (\<lambda>_ w. \<exists>x. reported rcs p x \<and> pods_at t (row(pod_name p := x)) e w)"
    using UpdatePod_effect [of ?q ?t e] set assms(3) unfolding q by (auto simp: settled_iff elim!: triple_post)
  with True show ?thesis
    unfolding write_status_def UpdatePodStatus_def by (auto intro: triple_gbind triple_gret)
next
  case False
  then have "q = p" using assms(4) unfolding carried_def by (metis with_ip_same with_ip_simps(9))
  with False have "reported rcs p (row (pod_name p))"
    using assms(1) carried_refl [of p] unfolding reported_def by (metis with_phase_simps(4))
  with False show ?thesis
    unfolding write_status_def by (auto intro!: triple_gret exI [of _ "row (pod_name p)"])
qed

lemma reconcilePod_effect:
  assumes "infos_ok (cs e)" and "distinct (map (container_name p) (containers_of p))"
    and "\<And>c. c \<in> set (containers_of p) \<Longrightarrow> clean_pod p c \<and> knows rcs p c (cs e)"
    and "row (pod_name p) = Some (OPod p)" and "settled_obj (OPod p)" and "plain_name (pod_name p)"
  shows "triple (pods_at t row e) (reconcilePod C rt probe p rcs)
    (\<lambda>_ w. \<exists>x e'. reported rcs p x \<and> all_synced p (containers_of p) (cs e) (cs e') \<and>
       pods_at t (row(pod_name p := x)) e' w)"
  unfolding reconcilePod_def
proof (rule triple_gbind [OF sync_containers_effect [OF assms(1-3) carried_refl]], assumption,
    rule triple_assuming, rule triple_ex, rule triple_assuming)
  fix q e' assume "carried p q" "all_synced p (containers_of p) (cs e) (cs e')"
  with write_status_effect [of row p q t e' rcs, OF assms(4-6)]
  show "triple (pods_at t row e') (write_status C rcs q)
    (\<lambda>_ w. \<exists>x e'. reported rcs p x \<and> all_synced p (containers_of p) (cs e) (cs e') \<and>
       pods_at t (row(pod_name p := x)) e' w)"
    by (auto elim!: triple_post)
qed

end


section \<open>All pods of the node\<close>

text \<open>The names of the containers that pods ask for\<close>

definition wanted :: "Pod list \<Rightarrow> string set" where
  "wanted ps = (\<Union>p \<in> set ps. container_name p ` set (containers_of p))"

definition pods_synced ::
  "Pod list \<Rightarrow> (string, ContainerInfo list) fmap \<Rightarrow> (string \<Rightarrow> obj option) \<Rightarrow> (string \<Rightarrow> obj option) \<Rightarrow>
     ContainerInfo list \<Rightarrow> ContainerInfo list \<Rightarrow> bool" where
  "pods_synced ps m row row' cs cs' \<longleftrightarrow> infos_ok cs' \<and>
     (\<forall>p \<in> set ps. reported (pod_containers m (pod_name p)) p (row' (pod_name p)) \<and>
        (\<forall>c \<in> set (containers_of p). present p c cs' \<and> undisturbed p c cs cs')) \<and>
     (\<forall>n. n \<notin> pod_name ` set ps \<longrightarrow> row' n = row n) \<and>
     (\<forall>n. n \<notin> wanted ps \<longrightarrow> called n cs' = called n cs)"

text \<open>Pods of a node as the agent expects them: no two containers share a name.\<close>

definition well_named :: "Pod list \<Rightarrow> bool" where
  "well_named ps \<longleftrightarrow> distinct (map pod_name ps) \<and>
     (\<forall>p \<in> set ps. distinct (map (container_name p) (containers_of p)) \<and> list_all (clean_pod p) (containers_of p)) \<and>
     (\<forall>p \<in> set ps. \<forall>q \<in> set ps. pod_name p \<noteq> pod_name q \<longrightarrow>
        container_name p ` set (containers_of p) \<inter> container_name q ` set (containers_of q) = {})"

lemma well_named_ConsD:
  assumes "well_named (p # ps)"
  shows "well_named ps" "distinct (map (container_name p) (containers_of p))" "list_all (clean_pod p) (containers_of p)"
    "pod_name p \<notin> pod_name ` set ps" "container_name p ` set (containers_of p) \<inter> wanted ps = {}"
proof -
  show "well_named ps" "distinct (map (container_name p) (containers_of p))" "list_all (clean_pod p) (containers_of p)"
    and new: "pod_name p \<notin> pod_name ` set ps"
    using assms by (auto simp: well_named_def)
  have "container_name p ` set (containers_of p) \<inter> container_name q ` set (containers_of q) = {}" if "q \<in> set ps" for q
  proof -
    have "pod_name p \<noteq> pod_name q" using new that by (metis imageI)
    then show ?thesis using assms that unfolding well_named_def by (meson list.set_intros)
  qed
  then show "container_name p ` set (containers_of p) \<inter> wanted ps = {}" unfolding wanted_def by blast
qed

lemma wanted_Cons [simp]: "wanted (p # ps) = container_name p ` set (containers_of p) \<union> wanted ps" "wanted [] = {}"
  by (auto simp: wanted_def)

lemma wanted_mem: "p \<in> set ps \<Longrightarrow> c \<in> set (containers_of p) \<Longrightarrow> container_name p c \<in> wanted ps"
  by (auto simp: wanted_def)

lemma pods_synced_Cons:
  assumes wn: "well_named (p # ps)" and rep: "reported (pod_containers m (pod_name p)) p x"
    and all: "all_synced p (containers_of p) cs cs'"
    and rest: "pods_synced ps (fmdrop (pod_name p) m) (row(pod_name p := x)) row' cs' cs''"
  shows "pods_synced (p # ps) m row row' cs cs''"
proof -
  note wn' = well_named_ConsD [OF wn]
  let ?N = "container_name p ` set (containers_of p)" and ?m = "fmdrop (pod_name p) m"
  have ok: "infos_ok cs''"
    and rep': "\<And>q. q \<in> set ps \<Longrightarrow> reported (pod_containers ?m (pod_name q)) q (row' (pod_name q))"
    and con: "\<And>q c. q \<in> set ps \<Longrightarrow> c \<in> set (containers_of q) \<Longrightarrow> present q c cs'' \<and> undisturbed q c cs' cs''"
    and row: "\<And>n. n \<notin> pod_name ` set ps \<Longrightarrow> row' n = (row(pod_name p := x)) n"
    and later: "\<And>n. n \<notin> wanted ps \<Longrightarrow> called n cs'' = called n cs'"
    using rest unfolding pods_synced_def by blast+
  have p: "row' (pod_name p) = x" using row [OF wn'(4)] by simp
  have before: "called n cs' = called n cs" if "n \<notin> ?N" for n
    using all that by (simp add: all_synced_def)
  have mine: "present p c cs'' \<and> undisturbed p c cs cs''" if "c \<in> set (containers_of p)" for c
  proof -
    have "container_name p c \<notin> wanted ps" using that wn'(5) by blast
    then have same: "called (container_name p c) cs' = called (container_name p c) cs''" using later by simp
    have "present p c cs' \<and> undisturbed p c cs cs'" using all that by (simp add: all_synced_def)
    then show ?thesis using present_called [OF same] undisturbed_called [OF refl _ same] by simp
  qed
  have others: "present q c cs'' \<and> undisturbed q c cs cs''" if "q \<in> set ps" "c \<in> set (containers_of q)" for q c
  proof -
    have "container_name q c \<notin> ?N" using wn'(5) wanted_mem [OF that] by blast
    then show ?thesis using con [OF that] undisturbed_called [OF before _ refl] by blast
  qed
  show ?thesis
    unfolding pods_synced_def
  proof (intro conjI allI impI ballI)
    show "infos_ok cs''" using ok .
    show "row' n = row n" if "n \<notin> pod_name ` set (p # ps)" for n using row [of n] that by simp
    show "called n cs'' = called n cs" if "n \<notin> wanted (p # ps)" for n
      using later [of n] before [of n] that by simp
    show "reported (pod_containers m (pod_name q)) q (row' (pod_name q))" if "q \<in> set (p # ps)" for q
    proof (cases "q = p")
      case True
      with rep p show ?thesis by simp
    next
      case False
      then have q: "q \<in> set ps" using that by simp
      then have "pod_name q \<noteq> pod_name p" using wn'(4) by (metis imageI)
      with rep' [OF q] show ?thesis by simp
    qed
    show "present q c cs''" "undisturbed q c cs cs''" if "q \<in> set (p # ps)" "c \<in> set (containers_of q)" for q c
      using that mine others by (metis set_ConsD)+
  qed
qed

context node
begin

lemma sync_pods_effect:
  assumes "infos_ok (cs e)" and "well_named ps"
    and "\<And>p c. p \<in> set ps \<Longrightarrow> c \<in> set (containers_of p) \<Longrightarrow> knows (pod_containers m (pod_name p)) p c (cs e)"
    and "\<And>p. p \<in> set ps \<Longrightarrow> row (pod_name p) = Some (OPod p) \<and> settled_obj (OPod p) \<and> plain_name (pod_name p)"
  shows "triple (pods_at t row e) (sync_pods C rt probe ps m)
    (\<lambda>m' w. (fmdom' m' = fmdom' m - pod_name ` set ps \<and>
        (\<forall>n. n \<notin> pod_name ` set ps \<longrightarrow> pod_containers m' n = pod_containers m n)) \<and>
      (\<exists>row' e'. pods_synced ps m row row' (cs e) (cs e') \<and> pods_at t row' e' w))"
  using assms
proof (induction ps arbitrary: m row e)
  case Nil
  then show ?case by (auto simp: pods_synced_def intro!: triple_gret)
next
  case (Cons p ps)
  note wn = well_named_ConsD [OF Cons.prems(2)]
  let ?n = "pod_name p" and ?m = "fmdrop (pod_name p) m"
  have p: "row ?n = Some (OPod p)" "settled_obj (OPod p)" "plain_name ?n" using Cons.prems(4) by simp_all
  have told: "clean_pod p c \<and> knows (pod_containers m ?n) p c (cs e)" if "c \<in> set (containers_of p)" for c
    using wn(3) Cons.prems(3) that by (simp add: list_all_iff)
  note step = reconcilePod_effect [of e p "pod_containers m ?n" row t, OF Cons.prems(1) wn(2) told p]
  show ?case
    unfolding sync_pods.simps
  proof (rule triple_gbind [OF step], assumption, rule triple_ex, rule triple_ex, rule triple_assuming, rule triple_assuming)
    fix x e1 assume x: "reported (pod_containers m ?n) p x" and e1: "all_synced p (containers_of p) (cs e) (cs e1)"
    let ?row = "row(?n := x)"
    have ok: "infos_ok (cs e1)" using e1 by (simp add: all_synced_def)
    have other: "pod_name q \<noteq> ?n" if "q \<in> set ps" for q using wn(4) that by (metis imageI)
    have "knows (pod_containers ?m (pod_name q)) q c (cs e1)" if "q \<in> set ps" "c \<in> set (containers_of q)" for q c
    proof (rule knows_called)
      have "container_name q c \<notin> container_name p ` set (containers_of p)" using wn(5) wanted_mem [OF that] by blast
      then show "called (container_name q c) (cs e1) = called (container_name q c) (cs e)"
        using e1 by (simp add: all_synced_def)
      show "knows (pod_containers ?m (pod_name q)) q c (cs e)" using Cons.prems(3) [of q c] that other by simp
    qed
    moreover have "?row (pod_name q) = Some (OPod q) \<and> settled_obj (OPod q) \<and> plain_name (pod_name q)" if "q \<in> set ps" for q
      using Cons.prems(4) [of q] that other by simp
    ultimately have "triple (pods_at t ?row e1) (sync_pods C rt probe ps ?m)
      (\<lambda>m' w. (fmdom' m' = fmdom' ?m - pod_name ` set ps \<and>
          (\<forall>n. n \<notin> pod_name ` set ps \<longrightarrow> pod_containers m' n = pod_containers ?m n)) \<and>
        (\<exists>row' e'. pods_synced ps ?m ?row row' (cs e1) (cs e') \<and> pods_at t row' e' w))"
      using ok wn(1) by (intro Cons.IH) simp_all
    then show "triple (pods_at t ?row e1) (sync_pods C rt probe ps ?m)
      (\<lambda>m' w. (fmdom' m' = fmdom' m - pod_name ` set (p # ps) \<and>
          (\<forall>n. n \<notin> pod_name ` set (p # ps) \<longrightarrow> pod_containers m' n = pod_containers m n)) \<and>
        (\<exists>row' e'. pods_synced (p # ps) m row row' (cs e) (cs e') \<and> pods_at t row' e' w))"
      by (rule triple_post) (use pods_synced_Cons [OF Cons.prems(2) x e1] in \<open>auto; blast\<close>)
  qed
qed

text \<open>What is left in the map of running pods is stopped and removed.\<close>

lemma stop_all_effect:
  assumes "infos_ok (cs e)" and "distinct xs" and "set xs \<subseteq> set (cs e)"
  shows "triple (world_at good tab env t e) (for_each xs (\<lambda>c. gbind (rt_StopContainer rt (ci_ID c) 0) (\<lambda>err. gret ())))
    (\<lambda>_ w. \<exists>e'. cs e' = filter (\<lambda>c. c \<notin> set xs) (cs e) \<and> world_at good tab env t e' w)"
  using assms
proof (induction xs arbitrary: e)
  case Nil
  then show ?case by (auto intro!: triple_gret)
next
  case (Cons x xs)
  let ?f = "\<lambda>c. gbind (rt_StopContainer rt (ci_ID c) 0) (\<lambda>err. gret ())"
  have mem: "ci_ID x \<in> ci_ID ` set (cs e)" using Cons.prems(3) by simp
  have x: "ci_ID c = ci_ID x \<longleftrightarrow> c = x" if "c \<in> set (cs e)" for c
    using Cons.prems(1,3) that distinct_by [of ci_ID "cs e" c x] by (auto simp: infos_ok_def)
  have one: "triple (world_at good tab env t e) (?f x)
      (\<lambda>_ w. \<exists>e'. cs e' = filter (\<lambda>c. ci_ID c \<noteq> ci_ID x) (cs e) \<and> world_at good tab env t e' w)"
    by (rule triple_gbind [OF stop [OF Cons.prems(1) mem]]) (rule triple_gret)
  show ?case
    unfolding for_each.simps
  proof (rule triple_gbind [OF one], rule triple_ex, rule triple_assuming)
    fix e1 assume e1: "cs e1 = filter (\<lambda>c. ci_ID c \<noteq> ci_ID x) (cs e)"
    then have "cs e1 = filter (\<lambda>c. c \<noteq> x) (cs e)" using x by (simp cong: filter_cong)
    moreover from this have "triple (world_at good tab env t e1) (for_each xs ?f)
      (\<lambda>_ w. \<exists>e'. cs e' = filter (\<lambda>c. c \<notin> set xs) (cs e1) \<and> world_at good tab env t e' w)"
      using Cons.prems by (intro Cons.IH) (auto simp: infos_ok_filter)
    ultimately show "triple (world_at good tab env t e1) (for_each xs ?f)
      (\<lambda>_ w. \<exists>e'. cs e' = filter (\<lambda>c. c \<notin> set (x # xs)) (cs e) \<and> world_at good tab env t e' w)"
      by (simp add: conj_commute)
  qed
qed

lemma clean_up_effect:
  assumes "infos_ok (cs e)" and "distinct ks"
    and "\<And>k. k \<in> set ks \<Longrightarrow> k \<noteq> [] \<Longrightarrow> distinct (pod_containers m k) \<and> set (pod_containers m k) \<subseteq> set (cs e) \<and>
      list_all (\<lambda>c. ci_PodName c = k) (pod_containers m k)"
  shows "triple (world_at good tab env t e) (for_each ks (\<lambda>podName. if podName \<noteq> [] then
        for_each (pod_containers m podName) (\<lambda>c. gbind (rt_StopContainer rt (ci_ID c) 0) (\<lambda>err. gret ())) else gret ()))
    (\<lambda>_ w. \<exists>e'. cs e' = filter (\<lambda>c. \<not> (\<exists>k \<in> set ks. k \<noteq> [] \<and> c \<in> set (pod_containers m k))) (cs e) \<and>
       world_at good tab env t e' w)"
  using assms
proof (induction ks arbitrary: e)
  case Nil
  then show ?case by (auto intro!: triple_gret)
next
  case (Cons k ks)
  let ?one = "\<lambda>podName. if podName \<noteq> [] then
        for_each (pod_containers m podName) (\<lambda>c. gbind (rt_StopContainer rt (ci_ID c) 0) (\<lambda>err. gret ())) else gret ()"
  have one: "triple (world_at good tab env t e) (?one k)
      (\<lambda>_ w. \<exists>e'. cs e' = filter (\<lambda>c. \<not> (k \<noteq> [] \<and> c \<in> set (pod_containers m k))) (cs e) \<and> world_at good tab env t e' w)"
    using stop_all_effect [OF Cons.prems(1), of "pod_containers m k" t] Cons.prems(3) [of k]
    by (cases "k = []") (auto intro!: triple_gret)
  show ?case
    unfolding for_each.simps
  proof (rule triple_gbind [OF one], rule triple_ex, rule triple_assuming)
    fix e1 assume e1: "cs e1 = filter (\<lambda>c. \<not> (k \<noteq> [] \<and> c \<in> set (pod_containers m k))) (cs e)"
    have ks: "distinct (pod_containers m j) \<and> set (pod_containers m j) \<subseteq> set (cs e1) \<and>
        list_all (\<lambda>c. ci_PodName c = j) (pod_containers m j)" if "j \<in> set ks" "j \<noteq> []" for j
    proof -
      have "j \<noteq> k" using Cons.prems(2) that(1) by auto
      moreover have "c \<in> set (pod_containers m k) \<Longrightarrow> k \<noteq> [] \<Longrightarrow> ci_PodName c = k"
        "c \<in> set (pod_containers m j) \<Longrightarrow> ci_PodName c = j" for c
        using Cons.prems(3) [of k] Cons.prems(3) [of j] that by (auto simp: list_all_iff)
      ultimately show ?thesis using Cons.prems(3) [of j] that by (auto simp: e1)
    qed
    have "triple (world_at good tab env t e1) (for_each ks ?one)
      (\<lambda>_ w. \<exists>e'. cs e' = filter (\<lambda>c. \<not> (\<exists>k \<in> set ks. k \<noteq> [] \<and> c \<in> set (pod_containers m k))) (cs e1) \<and>
       world_at good tab env t e' w)"
      using Cons.prems(1,2) ks by (intro Cons.IH) (simp_all add: e1 infos_ok_filter)
    moreover have "filter (\<lambda>c. \<not> (\<exists>k \<in> set ks. k \<noteq> [] \<and> c \<in> set (pod_containers m k))) (cs e1) =
        filter (\<lambda>c. \<not> (\<exists>k \<in> set (k # ks). k \<noteq> [] \<and> c \<in> set (pod_containers m k))) (cs e)"
      unfolding e1 filter_filter by (rule filter_cong) auto
    ultimately show "triple (world_at good tab env t e1) (for_each ks ?one)
      (\<lambda>_ w. \<exists>e'. cs e' = filter (\<lambda>c. \<not> (\<exists>k \<in> set (k # ks). k \<noteq> [] \<and> c \<in> set (pod_containers m k))) (cs e) \<and>
       world_at good tab env t e' w)"
      by simp
  qed
qed

end


section \<open>One sync\<close>

text \<open>The pods of a row that are bound to a node\<close>

definition bound_to :: "string \<Rightarrow> (string \<Rightarrow> obj option) \<Rightarrow> Pod set" where
  "bound_to host row = {p. \<exists>n. row n = Some (OPod p) \<and> psp_NodeName (pod_Spec p) = host}"

text \<open>
  What a sync starts from: the containers the bound pods ask for have names of their own, and a
  container with such a name is labelled with its pod.
\<close>

definition node_ready :: "string \<Rightarrow> (string \<Rightarrow> obj option) \<Rightarrow> ContainerInfo list \<Rightarrow> bool" where
  "node_ready host row cs \<longleftrightarrow> infos_ok cs \<and>
     (\<forall>p \<in> bound_to host row. distinct (map (container_name p) (containers_of p)) \<and> list_all (clean_pod p) (containers_of p) \<and>
        (\<forall>q \<in> bound_to host row. pod_name p \<noteq> pod_name q \<longrightarrow>
           container_name p ` set (containers_of p) \<inter> container_name q ` set (containers_of q) = {}) \<and>
        (\<forall>x \<in> set cs. ci_Name x \<in> container_name p ` set (containers_of p) \<longrightarrow> ci_PodName x = pod_name p))"

text \<open>
  What it ends in: every bound pod reports whether it had containers, and has them all now;
  no labelled container is left that belongs to no bound pod; the rest is as it was.
\<close>

definition node_synced ::
  "string \<Rightarrow> (string \<Rightarrow> obj option) \<Rightarrow> (string \<Rightarrow> obj option) \<Rightarrow> ContainerInfo list \<Rightarrow> ContainerInfo list \<Rightarrow> bool" where
  "node_synced host row row' cs cs' \<longleftrightarrow> infos_ok cs' \<and>
     (\<forall>n. (\<exists>p. row n = Some (OPod p) \<and> psp_NodeName (pod_Spec p) = host \<and>
              reported (filter (\<lambda>c. ci_PodName c = n) cs) p (row' n)) \<or>
          (\<not> (\<exists>p. row n = Some (OPod p) \<and> psp_NodeName (pod_Spec p) = host) \<and> row' n = row n)) \<and>
     (\<forall>p \<in> bound_to host row. \<forall>c \<in> set (containers_of p). present p c cs' \<and> undisturbed p c cs cs') \<and>
     (\<forall>x \<in> set cs'. ci_PodName x = [] \<or> ci_PodName x \<in> pod_name ` bound_to host row) \<and>
     (\<forall>x \<in> set cs. ci_PodName x = [] \<or> ci_PodName x \<in> pod_name ` bound_to host row \<longrightarrow>
        (\<forall>p \<in> bound_to host row. ci_Name x \<notin> container_name p ` set (containers_of p)) \<longrightarrow> x \<in> set cs')"

lemma node_syncedD:
  assumes "node_synced host row row' cs cs'"
  shows "infos_ok cs'"
    and "row n = Some (OPod p) \<Longrightarrow> psp_NodeName (pod_Spec p) = host \<Longrightarrow> reported (filter (\<lambda>c. ci_PodName c = n) cs) p (row' n)"
    and "p \<in> bound_to host row \<Longrightarrow> c \<in> set (containers_of p) \<Longrightarrow> present p c cs' \<and> undisturbed p c cs cs'"
    and "x \<in> set cs' \<Longrightarrow> ci_PodName x = [] \<or> ci_PodName x \<in> pod_name ` bound_to host row"
  using assms unfolding node_synced_def by (blast, metis obj.inject(1) option.inject, blast+)

text \<open>A sync changes no more of a bound pod than its status, so it leaves what the next one starts from.\<close>

lemma reported_pod:
  assumes "reported rcs p x"
  obtains q where "x = Some (OPod q)" and "pod_ObjectMeta q = pod_ObjectMeta p" and "pod_Spec q = pod_Spec p"
    and "container_name q = container_name p" and "clean_pod q = clean_pod p" and "pst_Phase (pod_Status q) = new_phase rcs"
proof -
  obtain q where q: "carried p q" "x = Some (OPod (with_phase (new_phase rcs) q))" using assms by (auto simp: reported_def)
  have "container_name (with_phase ph q) = container_name q" "clean_pod (with_phase ph q) = clean_pod q" for ph
    by (simp_all add: fun_eq_iff container_name_def clean_pod_def)
  with that [OF q(2)] carried_simps [OF q(1)] show ?thesis by simp
qed

lemma synced_bound:
  assumes "node_synced host row row' cs cs'" and "q \<in> bound_to host row'"
  obtains p where "p \<in> bound_to host row" and "pod_ObjectMeta q = pod_ObjectMeta p" and "pod_Spec q = pod_Spec p"
    and "container_name q = container_name p" and "clean_pod q = clean_pod p"
proof -
  obtain n where n: "row' n = Some (OPod q)" "psp_NodeName (pod_Spec q) = host" using assms(2) by (auto simp: bound_to_def)
  from assms(1) consider p where "row n = Some (OPod p)" "psp_NodeName (pod_Spec p) = host"
      "reported (filter (\<lambda>c. ci_PodName c = n) cs) p (row' n)" | "row' n = row n"
    unfolding node_synced_def by blast
  then show ?thesis
  proof cases
    case 1
    then have "p \<in> bound_to host row" by (auto simp: bound_to_def)
    with reported_pod [OF 1(3)] n(1) that show ?thesis by (metis obj.inject(1) option.inject)
  next
    case 2
    with n that show ?thesis by (auto simp: bound_to_def)
  qed
qed

lemma synced_tidy:
  assumes "tidy row" and "node_synced host row row' cs cs'"
  shows "tidy row'"
proof -
  have "obj_name x = n \<and> plain_name n" if x: "row' n = Some x" for n x
  proof -
    from assms(2) consider p where "row n = Some (OPod p)" "reported (filter (\<lambda>c. ci_PodName c = n) cs) p (row' n)"
      | "row' n = row n"
      unfolding node_synced_def by blast
    then show ?thesis
    proof cases
      case 1
      obtain q where "x = OPod q" "pod_ObjectMeta q = pod_ObjectMeta p" using reported_pod [OF 1(2)] x by (metis option.inject)
      with 1(1) assms(1) show ?thesis by (force simp: tidy_def named_def obj_name_def)
    next
      case 2
      then have "row n = Some x" using x by simp
      with assms(1) show ?thesis by (force simp: tidy_def named_def)
    qed
  qed
  then show ?thesis unfolding tidy_def named_def by blast
qed

lemma synced_ready:
  assumes "node_ready host row cs" and "node_synced host row row' cs cs'"
  shows "node_ready host row' cs'"
proof -
  have "distinct (map (container_name p) (containers_of p)) \<and> list_all (clean_pod p) (containers_of p) \<and>
      (\<forall>q \<in> bound_to host row'. pod_name p \<noteq> pod_name q \<longrightarrow>
         container_name p ` set (containers_of p) \<inter> container_name q ` set (containers_of q) = {}) \<and>
      (\<forall>x \<in> set cs'. ci_Name x \<in> container_name p ` set (containers_of p) \<longrightarrow> ci_PodName x = pod_name p)"
    if p: "p \<in> bound_to host row'" for p
  proof -
    obtain p0 where p0: "p0 \<in> bound_to host row" and same: "pod_ObjectMeta p = pod_ObjectMeta p0" "pod_Spec p = pod_Spec p0"
      "container_name p = container_name p0" "clean_pod p = clean_pod p0"
      using synced_bound [OF assms(2) p] .
    have "container_name p ` set (containers_of p) \<inter> container_name q ` set (containers_of q) = {}"
      if "q \<in> bound_to host row'" "pod_name p \<noteq> pod_name q" for q
      using synced_bound [OF assms(2) that(1)] assms(1) p0 that(2) unfolding node_ready_def same by metis
    moreover have "ci_PodName x = pod_name p" if "x \<in> set cs'" "ci_Name x = container_name p c" "c \<in> set (containers_of p)" for x c
      using node_syncedD(3) [OF assms(2) p0, of c] that unfolding present_def same by blast
    ultimately show ?thesis using assms(1) p0 unfolding node_ready_def same by blast
  qed
  moreover have "infos_ok cs'" using assms(2) by (rule node_syncedD(1))
  ultimately show ?thesis unfolding node_ready_def by blast
qed

text \<open>The bound pods as a listing of the row gives them\<close>

definition listed_for :: "string \<Rightarrow> Pod list \<Rightarrow> Pod list" where
  "listed_for host ps = filter (\<lambda>p. psp_NodeName (pod_Spec p) = host) ps"

lemma listed_pods:
  assumes "enumerates (map OPod ps) row" and "tidy row"
  shows "set (listed_for host ps) = bound_to host row"
    and "distinct (map pod_name (listed_for host ps))"
    and "p \<in> bound_to host row \<Longrightarrow> row (pod_name p) = Some (OPod p) \<and> plain_name (pod_name p)"
proof -
  have named: "named row" using assms(2) by (simp add: tidy_def)
  have at: "row (pod_name p) = Some (OPod p)" if "p \<in> set ps" for p
    using enumerates_named(2) [OF assms(1) named, of "OPod p"] that by (simp add: obj_name_def)
  have in_ps: "p \<in> set ps" if "row n = Some (OPod p)" for p n
    using enumerates_mem [OF assms(1) that] by auto
  show "set (listed_for host ps) = bound_to host row"
    unfolding listed_for_def bound_to_def using at in_ps by auto
  have "map obj_name (map OPod ps) = map pod_name ps" by (simp add: obj_name_def)
  then have "distinct (map pod_name ps)" using enumerates_named(1) [OF assms(1) named] by (simp only:)
  then show "distinct (map pod_name (listed_for host ps))" by (simp add: listed_for_def distinct_map_filter)
  assume "p \<in> bound_to host row"
  then have "row (pod_name p) = Some (OPod p)" using at in_ps by (auto simp: bound_to_def)
  then show "row (pod_name p) = Some (OPod p) \<and> plain_name (pod_name p)" using assms(2) by (simp add: tidy_def)
qed

lemma ready_well_named:
  assumes "node_ready host row cs" and "set ps = bound_to host row" and "distinct (map pod_name ps)"
  shows "well_named ps"
  using assms(1,3) unfolding well_named_def node_ready_def assms(2) by blast

lemma ready_knows:
  assumes "node_ready host row cs" and "p \<in> bound_to host row" and "c \<in> set (containers_of p)" and "pod_name p \<noteq> []"
  shows "knows (pod_containers (running_pods (filter (\<lambda>c. ci_PodName c \<noteq> []) cs)) (pod_name p)) p c cs"
proof -
  have label: "ci_PodName x = pod_name p" if "x \<in> set cs" "ci_Name x = container_name p c" for x
    using assms(1-3) that unfolding node_ready_def by blast
  then have "filter (\<lambda>x. ci_Name x = container_name p c \<and> ci_PodName x = pod_name p \<and> ci_PodName x \<noteq> []) cs =
      filter (\<lambda>x. ci_Name x = container_name p c) cs"
    using assms(4) by (intro filter_cong) auto
  with label show ?thesis
    by (auto simp: knows_def running_pods_lookup called_def conj_ac)
qed

text \<open>A container of another pod has none of the wanted names, so the first part leaves it.\<close>

lemma unwanted_stays:
  assumes "node_ready host row cs" and "set ps = bound_to host row" and "pods_synced ps m row row' cs cs1"
    and "x \<in> set cs" and "ci_PodName x \<notin> pod_name ` set ps"
  shows "x \<in> set cs1"
proof -
  have "ci_Name x \<notin> wanted ps"
    using assms(1,4,5) unfolding wanted_def node_ready_def assms(2) by blast
  then have "called (ci_Name x) cs1 = called (ci_Name x) cs" using assms(3) unfolding pods_synced_def by blast
  then show ?thesis using same_called(2) [of "ci_Name x" cs1 cs x] assms(4) by simp
qed

text \<open>Both parts of a sync together\<close>

lemma node_synced_parts:
  assumes ready: "node_ready host row cs" and ps: "set ps = bound_to host row"
    and plain: "\<And>p. p \<in> bound_to host row \<Longrightarrow> row (pod_name p) = Some (OPod p) \<and> pod_name p \<noteq> []"
    and named: "named row"
    and pods: "pods_synced ps (running_pods (filter (\<lambda>c. ci_PodName c \<noteq> []) cs)) row row' cs cs1"
    and left: "cs' = filter (\<lambda>x. \<not> (x \<in> set cs \<and> ci_PodName x \<noteq> [] \<and> ci_PodName x \<notin> pod_name ` set ps)) cs1"
  shows "node_synced host row row' cs cs'"
proof -
  let ?B = "bound_to host row"
  have ok: "infos_ok cs1"
    and rep: "\<And>p. p \<in> ?B \<Longrightarrow> reported (pod_containers (running_pods (filter (\<lambda>c. ci_PodName c \<noteq> []) cs)) (pod_name p)) p (row' (pod_name p))"
    and con: "\<And>p c. p \<in> ?B \<Longrightarrow> c \<in> set (containers_of p) \<Longrightarrow> present p c cs1 \<and> undisturbed p c cs cs1"
    and row: "\<And>n. n \<notin> pod_name ` ?B \<Longrightarrow> row' n = row n"
    and same: "\<And>n. n \<notin> wanted ps \<Longrightarrow> called n cs1 = called n cs"
    using pods unfolding pods_synced_def ps by blast+
  have keeps: "called (container_name p c) cs1 = called (container_name p c) cs'"
    if "p \<in> ?B" "c \<in> set (containers_of p)" for p c
  proof -
    have "ci_PodName x = pod_name p" if "x \<in> set cs" "ci_Name x = container_name p c" for x
      using ready \<open>p \<in> ?B\<close> \<open>c \<in> _\<close> that unfolding node_ready_def by blast
    then have "filter (\<lambda>x. ci_Name x = container_name p c \<and>
          \<not> (x \<in> set cs \<and> ci_PodName x \<noteq> [] \<and> ci_PodName x \<notin> pod_name ` set ps)) cs1 =
        filter (\<lambda>x. ci_Name x = container_name p c) cs1"
      using that(1) by (intro filter_cong) (auto simp: ps)
    then show ?thesis by (simp add: left called_def conj_commute)
  qed
  have wanted: "n \<in> wanted ps \<longleftrightarrow> (\<exists>p \<in> ?B. n \<in> container_name p ` set (containers_of p))" for n
    by (auto simp: wanted_def ps)
  show ?thesis
    unfolding node_synced_def
  proof (intro conjI allI ballI impI)
    show "infos_ok cs'" using ok by (simp add: left infos_ok_filter)
    fix n
    show "(\<exists>p. row n = Some (OPod p) \<and> psp_NodeName (pod_Spec p) = host \<and>
              reported (filter (\<lambda>c. ci_PodName c = n) cs) p (row' n)) \<or>
          (\<not> (\<exists>p. row n = Some (OPod p) \<and> psp_NodeName (pod_Spec p) = host) \<and> row' n = row n)"
    proof (cases "\<exists>p. row n = Some (OPod p) \<and> psp_NodeName (pod_Spec p) = host")
      case True
      then obtain p where p: "row n = Some (OPod p)" "psp_NodeName (pod_Spec p) = host" by blast
      then have "p \<in> ?B" by (auto simp: bound_to_def)
      moreover have n: "pod_name p = n" using p(1) named by (force simp: named_def obj_name_def)
      moreover have "filter (\<lambda>c. ci_PodName c = n \<and> ci_PodName c \<noteq> []) cs = filter (\<lambda>c. ci_PodName c = n) cs"
        using plain [OF \<open>p \<in> ?B\<close>] n by (intro filter_cong) auto
      ultimately have "reported (filter (\<lambda>c. ci_PodName c = n) cs) p (row' n)"
        using rep [of p] by (simp add: running_pods_lookup conj_commute)
      with p show ?thesis by blast
    next
      case False
      then have "n \<notin> pod_name ` ?B" using plain by (force simp: bound_to_def)
      with row False show ?thesis by blast
    qed
  next
    fix p c assume p: "p \<in> ?B" "c \<in> set (containers_of p)"
    show "present p c cs'" "undisturbed p c cs cs'"
      using con [OF p] present_called [OF keeps [OF p]] undisturbed_called [OF refl _ keeps [OF p]] by blast+
  next
    fix x assume x: "x \<in> set cs'"
    show "ci_PodName x = [] \<or> ci_PodName x \<in> pod_name ` ?B"
    proof (cases "ci_Name x \<in> wanted ps")
      case True
      then obtain p c where p: "p \<in> ?B" "c \<in> set (containers_of p)" "ci_Name x = container_name p c" by (auto simp: wanted)
      then have "ci_PodName x = pod_name p" using con [OF p(1,2)] x by (auto simp: present_def left)
      with p(1) show ?thesis by blast
    next
      case False
      then have "x \<in> set cs" using same_called(2) [OF same [OF False], of x] x by (simp add: left)
      with x show ?thesis by (auto simp: left ps)
    qed
  next
    fix x assume x: "x \<in> set cs" "ci_PodName x = [] \<or> ci_PodName x \<in> pod_name ` ?B"
      and "\<forall>p \<in> ?B. ci_Name x \<notin> container_name p ` set (containers_of p)"
    then have "ci_Name x \<notin> wanted ps" by (auto simp: wanted)
    then have "x \<in> set cs1" using same_called(2) [OF same, of "ci_Name x" x] x(1) by simp
    with x show "x \<in> set cs'" by (auto simp: left ps)
  qed
qed

context node
begin

lemma runSync_effect:
  assumes "tidy (t ''pods'')" and ready: "node_ready nodeName (t ''pods'') (cs e)"
    and iter: "\<And>ks. set (iter ks) = set ks \<and> distinct (iter ks)"
  shows "triple (at_table t e) (runSync C rt probe iter nodeName)
    (\<lambda>_ w. \<exists>row e'. node_synced nodeName (t ''pods'') row (cs e) (cs e') \<and> pods_at t row e' w)"
  unfolding runSync_def
proof (rule triple_gbind [OF ListPods_effect], rule tripleI)
  let ?row = "t ''pods''" and ?L = "filter (\<lambda>c. ci_PodName c \<noteq> []) (cs e)"
  let ?Q = "\<lambda>w. \<exists>row e'. node_synced nodeName ?row row (cs e) (cs e') \<and> pods_at t row e' w"
  fix r w assume w: "at_table t e w \<and> lists OPod ?row r"
  then obtain ps where r: "r = Inr (slice_of ps)" and en: "enumerates (map OPod ps) ?row" by (auto simp: lists_def)
  let ?mine = "listed_for nodeName ps" and ?m = "running_pods ?L"
  note listed = listed_pods [OF en assms(1), where host = nodeName]
  have ok: "infos_ok (cs e)" using ready by (simp add: node_ready_def)
  have plain: "?row (pod_name p) = Some (OPod p) \<and> settled_obj (OPod p) \<and> plain_name (pod_name p)" if "p \<in> set ?mine" for p
    using listed(3) [of p] that at_entry [of t e w "''pods''"] w unfolding listed(1) by blast
  have knows: "knows (pod_containers ?m (pod_name p)) p c (cs e)" if "p \<in> set ?mine" "c \<in> set (containers_of p)" for p c
    using plain [OF that(1)] that ready_knows [OF ready] unfolding listed(1) by (auto simp: plain_name_def)
  have sync: "triple (at_table t e) (sync_pods C rt probe ?mine ?m)
    (\<lambda>m' w. (fmdom' m' = fmdom' ?m - pod_name ` set ?mine \<and>
        (\<forall>n. n \<notin> pod_name ` set ?mine \<longrightarrow> pod_containers m' n = pod_containers ?m n)) \<and>
      (\<exists>row' e'. pods_synced ?mine ?m ?row row' (cs e) (cs e') \<and> pods_at t row' e' w))"
    using sync_pods_effect [of e ?mine ?m ?row t, OF ok ready_well_named [OF ready listed(1,2)] knows plain]
    by (simp only: fun_upd_triv)
  have left: "triple (pods_at t row' e1) (clean_up rt iter m') (\<lambda>_. ?Q)"
    if m': "fmdom' m' = fmdom' ?m - pod_name ` set ?mine"
      "\<forall>n. n \<notin> pod_name ` set ?mine \<longrightarrow> pod_containers m' n = pod_containers ?m n"
      and s: "pods_synced ?mine ?m ?row row' (cs e) (cs e1)" for m' row' e1
  proof -
    have ks: "set (iter (map_keys m')) = ci_PodName ` set ?L - pod_name ` set ?mine" "distinct (iter (map_keys m'))"
      using iter m'(1) running_pods_keys [of ?L] by simp_all
    have of_key: "pod_containers m' k = filter (\<lambda>c. ci_PodName c = k) ?L" if "k \<notin> pod_name ` set ?mine" for k
      using m'(2) that by (simp add: running_pods_lookup)
    have stays: "x \<in> set (cs e1)" if "x \<in> set (cs e)" "ci_PodName x \<notin> pod_name ` set ?mine" for x
      using unwanted_stays [OF ready listed(1) s that] .
    have "distinct (cs e)" using ok by (auto simp: infos_ok_def distinct_map)
    then have "distinct (pod_containers m' k) \<and> set (pod_containers m' k) \<subseteq> set (cs e1) \<and>
        list_all (\<lambda>c. ci_PodName c = k) (pod_containers m' k)" if "k \<in> set (iter (map_keys m'))" for k
      using that ks(1) of_key [of k] stays by (auto simp: list_all_iff)
    moreover have "infos_ok (cs e1)" using s by (simp add: pods_synced_def)
    ultimately have "triple (pods_at t row' e1) (clean_up rt iter m') (\<lambda>_ w. \<exists>e'. cs e' =
        filter (\<lambda>c. \<not> (\<exists>k \<in> set (iter (map_keys m')). k \<noteq> [] \<and> c \<in> set (pod_containers m' k))) (cs e1) \<and> pods_at t row' e' w)"
      unfolding clean_up_def by (intro clean_up_effect ks(2)) simp_all
    moreover have gone: "(\<exists>k \<in> set (iter (map_keys m')). k \<noteq> [] \<and> c \<in> set (pod_containers m' k)) \<longleftrightarrow>
        c \<in> set (cs e) \<and> ci_PodName c \<noteq> [] \<and> ci_PodName c \<notin> pod_name ` set ?mine" for c
      using ks(1) of_key by auto
    ultimately show ?thesis
      using node_synced_parts [OF ready listed(1) _ _ s refl] plain assms(1)
      unfolding gone by (elim triple_post) (fastforce simp: listed(1) tidy_def plain_name_def)
  qed
  have "triple (at_table t e) (gbind (sync_pods C rt probe ?mine ?m) (clean_up rt iter)) (\<lambda>_. ?Q)"
    by (rule triple_gbind [OF sync], rule triple_assuming, rule triple_ex, rule triple_ex, rule triple_assuming) (blast intro: left)
  then have "triple (at_table t e) (gbind (rt_ListContainers rt) (\<lambda>r. case r of Inl err \<Rightarrow> gret ()
          | Inr containers \<Rightarrow> gbind (sync_pods C rt probe ?mine (running_pods (elems containers))) (clean_up rt iter))) (\<lambda>_. ?Q)"
    by (intro triple_gbind [OF list_containers [OF ok]] triple_assuming) simp
  then obtain x w' where run: "gbind (rt_ListContainers rt) (\<lambda>r. case r of Inl err \<Rightarrow> gret ()
          | Inr containers \<Rightarrow> gbind (sync_pods C rt probe ?mine (running_pods (elems containers))) (clean_up rt iter)) w = (Ret x, w')"
    and fin: "?Q w'"
    using w unfolding triple_def by blast
  have "(case r of Inl err \<Rightarrow> gret ()
     | Inr pods \<Rightarrow> (let myPods = filter (\<lambda>p. psp_NodeName (pod_Spec p) = nodeName) (elems pods) in
          gbind (rt_ListContainers rt) (\<lambda>r. case r of Inl err \<Rightarrow> gret ()
          | Inr containers \<Rightarrow> gbind (sync_pods C rt probe myPods (running_pods (elems containers))) (clean_up rt iter)))) w = (Ret x, w')"
    using run by (simp only: r sum.case elems_slice_of Let_def listed_for_def)
  with fin show "\<exists>x w'. (case r of Inl err \<Rightarrow> gret ()
     | Inr pods \<Rightarrow> (let myPods = filter (\<lambda>p. psp_NodeName (pod_Spec p) = nodeName) (elems pods) in
          gbind (rt_ListContainers rt) (\<lambda>r. case r of Inl err \<Rightarrow> gret ()
          | Inr containers \<Rightarrow> gbind (sync_pods C rt probe myPods (running_pods (elems containers))) (clean_up rt iter)))) w = (Ret x, w') \<and> ?Q w'"
    by blast
qed

end

end
