(* ===== verification/NodeAgent.thy ===== *)
theory NodeAgent
  imports KubeletSpec
begin

text \<open>
  The node agent in the cluster, with docker: a daemon that does what \<open>docker_ok\<close> says, which makes
  the agent's contract \<open>node\<close> hold for the code's own runtime and prober, and the agent's properties.
\<close>

section \<open>A docker daemon\<close>

text \<open>
  The daemon keeps the list of containers in the environment of the cluster. It answers the five
  commands the runtime sends; a new container gets an identifier longer than any other.
\<close>

definition fresh_id :: "ContainerInfo list \<Rightarrow> string" where
  "fresh_id cs = replicate (Suc (sum_list (map (\<lambda>c. length (ci_ID c)) cs))) CHR ''a''"

definition dockerd_run :: "string list \<Rightarrow> ContainerInfo list \<Rightarrow> (string \<times> gerror option) \<times> ContainerInfo list" where
  "dockerd_run args cs =
     (if args ! 3 \<in> ci_Name ` set cs then ((''Conflict'', Some (Errorf ''exit status 125'')), cs)
      else ((fresh_id cs @ [CHR 0x0A], None),
        cs @ [\<lparr>ci_ID = fresh_id cs, ci_Name = args ! 3, ci_Image = args ! 8, ci_State = ''running'',
               ci_PodName = drop (length ''k8s.pod.name='') (args ! 5),
               ci_PodNamespace = drop (length ''k8s.pod.namespace='') (args ! 7)\<rparr>]))"

definition dockerd_rm :: "string \<Rightarrow> ContainerInfo list \<Rightarrow> (string \<times> gerror option) \<times> ContainerInfo list" where
  "dockerd_rm i cs =
     (if list_ex (\<lambda>c. ci_ID c = i \<and> ci_State c \<noteq> ''exited'') cs
      then ((''You cannot remove a running container'', Some (Errorf ''exit status 1'')), cs)
      else ((i @ [CHR 0x0A], None), filter (\<lambda>c. ci_ID c \<noteq> i) cs))"

definition dockerd_stop :: "string \<Rightarrow> ContainerInfo list \<Rightarrow> (string \<times> gerror option) \<times> ContainerInfo list" where
  "dockerd_stop i cs =
     (if i \<in> ci_ID ` set cs then ((i @ [CHR 0x0A], None), set_exited i cs)
      else ((''No such container'', Some (Errorf ''exit status 1'')), cs))"

definition dockerd :: "string list \<Rightarrow> ContainerInfo list \<Rightarrow> (string \<times> gerror option) \<times> ContainerInfo list" where
  "dockerd args cs =
     (if args = [] then ((''Usage'', Some (Errorf ''exit status 1'')), cs)
      else if hd args = ''ps'' then ((print_ps cs, None), cs)
      else if hd args = ''run'' then dockerd_run args cs
      else if hd args = ''stop'' then dockerd_stop (last args) cs
      else if hd args = ''rm'' then dockerd_rm (last args) cs
      else ((''172.17.0.2'' @ [CHR 0x0A], None), cs))"

text \<open>The containers are a part of the environment, read with \<open>look\<close> and written with \<open>put\<close>.\<close>

definition docker_via :: "('e \<Rightarrow> ContainerInfo list) \<Rightarrow> (ContainerInfo list \<Rightarrow> 'e \<Rightarrow> 'e) \<Rightarrow> 'e cluster docker" where
  "docker_via look put args w = (case dockerd args (look (w_env w)) of (r, cs) \<Rightarrow> (Ret r, w\<lparr>w_env := put cs (w_env w)\<rparr>))"

definition docker_in :: "ContainerInfo list cluster docker" where
  "docker_in = docker_via id (\<lambda>cs e. cs)"

lemma docker_via_triple:
  assumes "Q (fst (dockerd args (look e)))" and "R (put (snd (dockerd args (look e))) e)"
  shows "triple (world_at cluster_good cluster_table w_env t e) (docker_via look put args)
    (\<lambda>r w. Q r \<and> (\<exists>e'. R e' \<and> world_at cluster_good cluster_table w_env t e' w))"
  using assms
  by (cases "dockerd args (look e)")
     (auto simp: triple_def docker_via_def world_at_def cluster_good_def cluster_table_def world_good_def world_table_def)

lemma fresh_id_new: "fresh_id cs \<notin> ci_ID ` set cs"
proof
  assume "fresh_id cs \<in> ci_ID ` set cs"
  then obtain c where "c \<in> set cs" "ci_ID c = fresh_id cs" by auto
  then have "length (fresh_id cs) \<in> set (map (\<lambda>c. length (ci_ID c)) cs)" by force
  then have "length (fresh_id cs) \<le> sum_list (map (\<lambda>c. length (ci_ID c)) cs)" by (intro member_le_sum_list) simp_all
  then show False by (simp add: fresh_id_def)
qed

lemma fresh_id_clean: "clean (fresh_id cs)"
proof -
  have "\<not> is_space (CHR ''a'')" by (simp add: is_space_def)
  then show ?thesis unfolding clean_def fresh_id_def list_all_iff set_replicate_conv_if by simp
qed

lemma dockerd_run_args:
  "dockerd (run_args pod container) cs =
     (if container_name pod container \<in> ci_Name ` set cs then ((''Conflict'', Some (Errorf ''exit status 125'')), cs)
      else ((fresh_id cs @ [CHR 0x0A], None), cs @ [new_info (fresh_id cs) pod container]))"
  by (simp add: dockerd_def dockerd_run_def run_args_def new_info_def)

lemma docker_via_frame:
  assumes "snd (dockerd args (look e)) = look e" and "put (look e) e = e"
  shows "triple (world_at cluster_good cluster_table w_env t e) (docker_via look put args)
    (\<lambda>r w. r = fst (dockerd args (look e)) \<and> world_at cluster_good cluster_table w_env t e w)"
  by (rule triple_post [OF docker_via_triple [where Q = "\<lambda>r. r = fst (dockerd args (look e))" and R = "\<lambda>e'. e' = e"]])
     (use assms in auto)

lemma dockerd_others:
  "dockerd ps_args cs = ((print_ps cs, None), cs)"
  "dockerd (inspect_args i) cs = ((''172.17.0.2'' @ [CHR 0x0A], None), cs)"
  "dockerd (stop_args i k) cs = dockerd_stop i cs"
  "dockerd [''rm'', i] cs = dockerd_rm i cs"
  by (simp_all add: dockerd_def ps_args_def inspect_args_def stop_args_def)

lemma docker_via_ok:
  assumes put: "\<And>cs e. look (put cs e) = cs" and same: "\<And>e. put (look e) e = e"
  shows "docker_ok cluster_good cluster_table w_env (docker_via look put) look"
  unfolding docker_ok_def
proof (intro allI impI conjI)
  fix t e
  let ?P = "world_at cluster_good cluster_table w_env t" and ?D = "docker_via look put"
  note frame = docker_via_frame [where look = look and put = put and e = e and t = t, OF _ same]
  show "triple (?P e) (?D ps_args) (\<lambda>r w. r = (print_ps (look e), None) \<and> ?P e w)"
    using frame [of ps_args] by (simp add: dockerd_others)
  show "triple (?P e) (?D (inspect_args i)) (\<lambda>r. ?P e)" for i
    using frame [of "inspect_args i"] by (auto simp: dockerd_others elim!: triple_post)
  show "triple (?P e) (?D (run_args pod container)) (\<lambda>r w.
          if container_name pod container \<in> ci_Name ` set (look e) then snd r \<noteq> None \<and> ?P e w
          else \<exists>i e'. snd r = None \<and> clean i \<and> i \<notin> ci_ID ` set (look e) \<and>
                 look e' = look e @ [new_info i pod container] \<and> ?P e' w)" for pod container
  proof (cases "container_name pod container \<in> ci_Name ` set (look e)")
    case True
    then show ?thesis
      using frame [of "run_args pod container"] by (auto simp: dockerd_run_args elim!: triple_post)
  next
    case False
    have "triple (?P e) (?D (run_args pod container)) (\<lambda>r w. snd r = None \<and>
        (\<exists>e'. look e' = look e @ [new_info (fresh_id (look e)) pod container] \<and> ?P e' w))"
      using False by (intro docker_via_triple) (simp_all add: dockerd_run_args put)
    with False show ?thesis
      using fresh_id_new [of "look e"] fresh_id_clean [of "look e"] by (auto elim!: triple_post)
  qed
  show "triple (?P e) (?D (stop_args i k)) (\<lambda>r w. snd r = None \<and> (\<exists>e'. look e' = set_exited i (look e) \<and> ?P e' w))"
    if "i \<in> ci_ID ` set (look e)" for i k
    using that by (intro docker_via_triple) (simp_all add: dockerd_others dockerd_stop_def put)
  show "triple (?P e) (?D [''rm'', i]) (\<lambda>r w. \<exists>e'. look e' = filter (\<lambda>c. ci_ID c \<noteq> i) (look e) \<and> ?P e' w)"
    if "\<forall>c \<in> set (look e). ci_ID c = i \<longrightarrow> ci_State c = ''exited''" for i
  proof -
    have "\<not> list_ex (\<lambda>c. ci_ID c = i \<and> ci_State c \<noteq> ''exited'') (look e)" using that by (auto simp: list_ex_iff)
    then have "triple (?P e) (?D [''rm'', i]) (\<lambda>r w. True \<and> (\<exists>e'. look e' = filter (\<lambda>c. ci_ID c \<noteq> i) (look e) \<and> ?P e' w))"
      by (intro docker_via_triple) (simp_all add: dockerd_others dockerd_rm_def put)
    then show ?thesis by simp
  qed
qed

lemma docker_in_ok: "docker_ok cluster_good cluster_table w_env docker_in id"
  unfolding docker_in_def by (rule docker_via_ok) simp_all

text \<open>A network in which every service answers\<close>

definition calm_prober :: "'w DefaultProber" where
  "calm_prober = \<lparr>dp_HTTP = (\<lambda>url. gret (Inr 200)), dp_Dial = (\<lambda>addr. gret None)\<rparr>"

lemma calm_prober_ok: "probes_ok good tab env calm_prober"
  by (auto simp: probes_ok_def calm_prober_def intro: triple_gret)

interpretation docker_agent: node "cluster_client base" cluster_good cluster_table w_env
  "DockerRuntime docker_in" "\<lambda>pod container. Probe_run calm_prober pod" id for base
  by (rule docker_node [OF cluster.rest_axioms docker_in_ok calm_prober_ok])


section \<open>A small node\<close>

text \<open>Pods \<open>p\<close> and \<open>q\<close> are bound to the node; \<open>q\<close> has a container that has exited, and one is left of a
  pod that is gone.\<close>

definition demo_container :: Container where
  "demo_container = Container_zero\<lparr>ctr_Name := ''c'', ctr_Image := ''img''\<rparr>"

definition demo_bound :: "string \<Rightarrow> Pod" where
  "demo_bound n = Pod_zero\<lparr>pod_ObjectMeta := ObjectMeta_zero\<lparr>om_Name := n\<rparr>,
     pod_Spec := PodSpec_zero\<lparr>psp_Containers := Some [demo_container], psp_NodeName := ''n1''\<rparr>\<rparr>"

definition demo_pods :: "obj list" where
  "demo_pods = [OPod (demo_bound ''p''), OPod (demo_bound ''q'')]"

definition demo_info :: "string \<Rightarrow> string \<Rightarrow> string \<Rightarrow> ContainerInfo" where
  "demo_info i n st = \<lparr>ci_ID = i, ci_Name = ''k8s-lite-'' @ n @ ''-c'', ci_Image = ''img'', ci_State = st,
     ci_PodName = n, ci_PodNamespace = []\<rparr>"

definition demo_containers :: "ContainerInfo list" where
  "demo_containers = [demo_info ''1'' ''q'' ''exited'', demo_info ''2'' ''gone'' ''running'']"

lemma demo_bound_simps [simp]:
  "pod_name (demo_bound n) = n" "containers_of (demo_bound n) = [demo_container]"
  "psp_NodeName (pod_Spec (demo_bound n)) = ''n1''" "om_Namespace (pod_ObjectMeta (demo_bound n)) = []"
  "container_name (demo_bound n) demo_container = ''k8s-lite-'' @ n @ ''-c''"
  "ctr_Name demo_container = ''c''" "ctr_Image demo_container = ''img''" "ctr_LivenessProbe demo_container = None"
  by (simp_all add: demo_bound_def container_name_def demo_container_def Pod_zero_def PodSpec_zero_def ObjectMeta_zero_def
      Container_zero_def elems_def)

lemma demo_bound_settled: "settled_obj (OPod (demo_bound n))"
  by (simp add: settled_iff marshal_def codec_oks demo_bound_def demo_container_def Pod_zero_def ObjectMeta_zero_def
      PodSpec_zero_def PodStatus_zero_def Container_zero_def ResourceRequirements_zero_def elems_def)

lemma demo_pods_ok: "demo_objects demo_pods"
  using demo_bound_settled by (simp add: demo_objects_def demo_pods_def obj_name_def)

lemma demo_pods_table:
  "cluster_table (cluster_with demo_pods e) ''pods'' = [''p'' \<mapsto> OPod (demo_bound ''p''), ''q'' \<mapsto> OPod (demo_bound ''q'')]"
  by (rule ext) (simp add: demo_table_objs [OF demo_pods_ok], simp add: demo_pods_def obj_name_def)

lemma demo_pods_tidy: "tidy (cluster_table (cluster_with demo_pods e) ''pods'')"
  by (auto simp: demo_pods_table tidy_def named_def obj_name_def plain_name_def name_char_def)

lemma demo_pods_bound: "bound_to ''n1'' (cluster_table (cluster_with demo_pods e) ''pods'') = {demo_bound ''p'', demo_bound ''q''}"
proof -
  have two: "row = [a \<mapsto> OPod x, b \<mapsto> OPod y] \<Longrightarrow> a \<noteq> b \<Longrightarrow> psp_NodeName (pod_Spec x) = h \<Longrightarrow> psp_NodeName (pod_Spec y) = h \<Longrightarrow>
      bound_to h row = {x, y}" for row a b x y h
    by (fastforce simp: bound_to_def split: if_splits)
  show ?thesis by (rule two [OF demo_pods_table]) simp_all
qed

lemma demo_clean: "clean ''1''" "clean ''2''" "clean ''p''" "clean ''q''" "clean ''gone''" "clean ''c''" "clean ''img''"
  "clean ''k8s-lite-q-c''" "clean ''k8s-lite-gone-c''" "clean ''exited''" "clean ''running''"
  by (simp_all add: clean_def is_space_def)

lemma demo_node_ready: "node_ready ''n1'' (cluster_table (cluster_with demo_pods e) ''pods'') demo_containers"
proof -
  have "infos_ok demo_containers"
    using demo_clean by (simp add: infos_ok_def demo_containers_def demo_info_def clean_info_def)
  moreover have "clean_pod (demo_bound ''p'') demo_container" "clean_pod (demo_bound ''q'') demo_container"
    using demo_clean by (simp_all add: clean_pod_def)
  ultimately show ?thesis
    by (auto simp: node_ready_def demo_pods_bound demo_containers_def demo_info_def)
qed

section \<open>A container that has exited\<close>

text \<open>Pod \<open>n\<close> of a row is \<open>p\<close> up to its status, and its container \<open>c\<close> is \<open>x\<close>, among the containers of a node.\<close>

definition exited_on ::
  "string \<Rightarrow> string \<Rightarrow> Pod \<Rightarrow> Container \<Rightarrow> ContainerInfo \<Rightarrow> (string \<Rightarrow> obj option) \<Rightarrow> ContainerInfo list \<Rightarrow> bool" where
  "exited_on host n p c x row cs \<longleftrightarrow>
     (\<exists>q. row n = Some (OPod q) \<and> pod_ObjectMeta q = pod_ObjectMeta p \<and> pod_Spec q = pod_Spec p) \<and>
     psp_NodeName (pod_Spec p) = host \<and> c \<in> set (containers_of p) \<and> x \<in> set cs \<and> ci_Name x = container_name p c"

definition phase_at :: "string \<Rightarrow> (string \<Rightarrow> obj option) \<Rightarrow> string" where
  "phase_at n row = (case row n of Some (OPod q) \<Rightarrow> pst_Phase (pod_Status q) | _ \<Rightarrow> [])"

lemma synced_exited:
  assumes "docker_ok cluster_good cluster_table w_env docker dk" and "probes_ok cluster_good cluster_table w_env prober"
    and "cluster_good w" and "tidy (cluster_table w ''pods'')"
    and "node_ready nodeName (cluster_table w ''pods'') (dk (w_env w))"
    and "\<And>ks. set (iter ks) = set ks \<and> distinct (iter ks)"
    and "exited_on nodeName n p c x (cluster_table w ''pods'') (dk (w_env w))"
    and "ctr_LivenessProbe c = None" and "ci_State x = ''exited''"
  shows "\<exists>w'. runSync (cluster_client base) (DockerRuntime docker) (\<lambda>pod container. Probe_run prober pod) iter nodeName w = (Ret (), w') \<and>
    (cluster_good w' \<and> tidy (cluster_table w' ''pods'') \<and> node_ready nodeName (cluster_table w' ''pods'') (dk (w_env w')) \<and>
     exited_on nodeName n p c x (cluster_table w' ''pods'') (dk (w_env w'))) \<and>
    phase_at n (cluster_table w' ''pods'') = ''Running''"
proof -
  let ?row = "cluster_table w ''pods''" and ?cs = "dk (w_env w)"
  have "world_at cluster_good cluster_table w_env (cluster_table w) (w_env w) w"
    using assms(3) by (simp add: world_at_def)
  from tripleD [OF node.runSync_effect [OF docker_node [OF cluster.rest_axioms assms(1,2)], of "cluster_table w", OF assms(4-6)] this, of base]
  obtain w' row where run: "runSync (cluster_client base) (DockerRuntime docker) (\<lambda>pod container. Probe_run prober pod) iter nodeName w = (Ret (), w')"
    and synced: "node_synced nodeName ?row row ?cs (dk (w_env w'))" and row: "cluster_table w' ''pods'' = row" and good: "cluster_good w'"
    by (auto simp: world_at_def)
  obtain q where q: "?row n = Some (OPod q)" "pod_ObjectMeta q = pod_ObjectMeta p" "pod_Spec q = pod_Spec p"
    and host: "psp_NodeName (pod_Spec q) = nodeName" and c: "c \<in> set (containers_of q)"
    and x: "x \<in> set ?cs" "ci_Name x = container_name p c"
    using assms(7) by (auto simp: exited_on_def)
  have name: "ci_Name x = container_name q c" using x(2) q(2) by (simp add: container_name_def)
  have bound: "q \<in> bound_to nodeName ?row" using q(1) host by (auto simp: bound_to_def)
  have "undisturbed q c ?cs (dk (w_env w'))" using node_syncedD(3) [OF synced bound c] by simp
  then have "called (ci_Name x) (dk (w_env w')) = called (ci_Name x) ?cs"
    using x(1) name assms(8,9) by (simp add: undisturbed_def)
  then have stays: "x \<in> set (dk (w_env w'))" using same_called(2) x(1) by blast
  have "pod_name q = n" using assms(4) q(1) by (force simp: tidy_def named_def obj_name_def)
  then have "ci_PodName x = n" using assms(5) c x(1) name bound unfolding node_ready_def by blast
  then have "x \<in> set (filter (\<lambda>c. ci_PodName c = n) ?cs)" using x(1) by simp
  then have ph: "new_phase (filter (\<lambda>c. ci_PodName c = n) ?cs) = ''Running''" unfolding new_phase_def by (metis list.set(1) empty_iff)
  obtain q' where q': "row n = Some (OPod q')" "pod_ObjectMeta q' = pod_ObjectMeta p" "pod_Spec q' = pod_Spec p"
    and "pst_Phase (pod_Status q') = ''Running''"
    using reported_pod [OF node_syncedD(2) [OF synced q(1) host]] ph q(2,3) by metis
  then have "phase_at n row = ''Running''" by (simp add: phase_at_def)
  moreover have "exited_on nodeName n p c x row (dk (w_env w'))"
    using assms(7) q' stays unfolding exited_on_def by blast
  ultimately show ?thesis
    using good synced_tidy [OF assms(4) synced] synced_ready [OF assms(5) synced] unfolding row [symmetric]
    by (intro exI [of _ w'] conjI run)
qed

section \<open>Properties\<close>

text \<open>C6: One sync of the node agent brings the node to what the cluster asks for: every container of a
  pod bound to it exists, labelled with the pod; no labelled container of any other pod is left;
  the pods bound to it report the phase, every other pod, every other container and the rest of the
  cluster stay as they are.\<close>

theorem agent_sync:
  assumes "docker_ok cluster_good cluster_table w_env docker dk" and "probes_ok cluster_good cluster_table w_env prober"
    and "cluster_good w" and "tidy (cluster_table w ''pods'')"
    and "node_ready nodeName (cluster_table w ''pods'') (dk (w_env w))"
    and "\<And>ks. set (iter ks) = set ks \<and> distinct (iter ks)"
  shows "\<exists>w'. runSync (cluster_client base) (DockerRuntime docker) (\<lambda>pod container. Probe_run prober pod) iter nodeName w = (Ret (), w') \<and>
    cluster_good w' \<and>
    node_synced nodeName (cluster_table w ''pods'') (cluster_table w' ''pods'') (dk (w_env w)) (dk (w_env w')) \<and>
    (\<forall>r. r \<noteq> ''pods'' \<longrightarrow> cluster_table w' r = cluster_table w r)"
proof -
  have "world_at cluster_good cluster_table w_env (cluster_table w) (w_env w) w"
    using assms(3) by (simp add: world_at_def)
  from tripleD [OF node.runSync_effect [OF docker_node [OF cluster.rest_axioms assms(1,2)], of "cluster_table w", OF assms(4-6)] this, of base]
  show ?thesis by (fastforce simp: world_at_def)
qed


theorem agent_sync_witness:
  "\<exists>w'. runSync (cluster_client ''http://api'') (DockerRuntime docker_in) (\<lambda>pod container. Probe_run calm_prober pod) remdups ''n1''
      (cluster_with demo_pods demo_containers) = (Ret (), w') \<and>
     present (demo_bound ''p'') demo_container (w_env w') \<and>
     (\<forall>x \<in> set (w_env w'). ci_PodName x \<noteq> ''gone'')"
proof -
  let ?w = "cluster_with demo_pods demo_containers"
  have ready: "node_ready ''n1'' (cluster_table ?w ''pods'') (id (w_env ?w))" using demo_node_ready by simp
  have iter: "set (remdups ks) = set ks \<and> distinct (remdups ks)" for ks :: "string list" by simp
  obtain w' where run: "runSync (cluster_client ''http://api'') (DockerRuntime docker_in) (\<lambda>pod container. Probe_run calm_prober pod)
      remdups ''n1'' ?w = (Ret (), w')"
    and synced: "node_synced ''n1'' (cluster_table ?w ''pods'') (cluster_table w' ''pods'') (id (w_env ?w)) (id (w_env w'))"
    using agent_sync [where base = "''http://api''" and iter = remdups, OF docker_in_ok calm_prober_ok
        demo_good [OF demo_pods_ok] demo_pods_tidy ready iter] by (elim exE conjE)
  note end_state = synced [unfolded node_synced_def demo_pods_bound id_apply]
  have "present (demo_bound ''p'') demo_container (w_env w')"
    using end_state [THEN conjunct2, THEN conjunct2, THEN conjunct1] by simp
  moreover have "ci_PodName x \<noteq> ''gone''" if "x \<in> set (w_env w')" for x
    using end_state [THEN conjunct2, THEN conjunct2, THEN conjunct2, THEN conjunct1] that by auto
  ultimately show ?thesis using run by blast
qed

text \<open>C30: A container that exits is never started again: docker reports the state \<open>exited\<close>, the agent
  looks for states that begin with \<open>Exit\<close>. However often the sync loop runs on, the container stays as
  it is, its pod stays bound, and from the first sync on the pod is reported as running; and the
  cluster and the node stay fit for the next sync.\<close>

theorem exited_container_stays:
  assumes "docker_ok cluster_good cluster_table w_env docker dk" and "probes_ok cluster_good cluster_table w_env prober"
    and "cluster_good w" and "tidy (cluster_table w ''pods'')"
    and "node_ready nodeName (cluster_table w ''pods'') (dk (w_env w))"
    and "\<And>ks. set (iter ks) = set ks \<and> distinct (iter ks)"
    and "cluster_table w ''pods'' n = Some (OPod p)" and "psp_NodeName (pod_Spec p) = nodeName"
    and "c \<in> set (containers_of p)" and "ctr_LivenessProbe c = None"
    and "x \<in> set (dk (w_env w))" and "ci_Name x = container_name p c" and "ci_State x = ''exited''"
  shows "\<exists>w' q. syncLoop (cluster_client base) (DockerRuntime docker) (\<lambda>pod container. Probe_run prober pod) iter nodeName ws w = (Ret (), w') \<and>
    x \<in> set (dk (w_env w')) \<and>
    cluster_table w' ''pods'' n = Some (OPod q) \<and> pod_ObjectMeta q = pod_ObjectMeta p \<and> pod_Spec q = pod_Spec p \<and>
    (ws \<noteq> [] \<and> hd ws = Tick \<longrightarrow> pst_Phase (pod_Status q) = ''Running'') \<and>
    cluster_good w' \<and> tidy (cluster_table w' ''pods'') \<and> node_ready nodeName (cluster_table w' ''pods'') (dk (w_env w'))"
proof -
  let ?sync = "runSync (cluster_client base) (DockerRuntime docker) (\<lambda>pod container. Probe_run prober pod) iter nodeName"
  let ?I = "\<lambda>w. cluster_good w \<and> tidy (cluster_table w ''pods'') \<and> node_ready nodeName (cluster_table w ''pods'') (dk (w_env w)) \<and>
    exited_on nodeName n p c x (cluster_table w ''pods'') (dk (w_env w))"
  have loop: "\<exists>w'. run_loop ?sync ws w = (Ret (), w') \<and> ?I w' \<and>
      (ws \<noteq> [] \<and> hd ws = Tick \<or> phase_at n (cluster_table w ''pods'') = ''Running'' \<longrightarrow>
         phase_at n (cluster_table w' ''pods'') = ''Running'')" if "?I w" for w
    using that
  proof (induction ?sync ws arbitrary: w rule: run_loop.induct)
    case (3 ws)
    obtain w1 where run: "?sync w = (Ret (), w1)" and inv: "?I w1" and ph: "phase_at n (cluster_table w1 ''pods'') = ''Running''"
      using synced_exited [OF assms(1,2) _ _ _ assms(6), where w = w and base = base and x = x] assms(10,13) "3.prems" by blast
    then show ?case using "3.hyps" [OF inv] by (simp add: gbind_def)
  qed (simp_all add: gret_def)
  have "exited_on nodeName n p c x (cluster_table w ''pods'') (dk (w_env w))"
    using assms(7-12) by (auto simp: exited_on_def)
  with assms(3-5) loop [of w] obtain w' where run: "run_loop ?sync ws w = (Ret (), w')" and inv: "?I w'"
    and ph: "ws \<noteq> [] \<and> hd ws = Tick \<longrightarrow> phase_at n (cluster_table w' ''pods'') = ''Running''"
    by blast
  obtain q where "cluster_table w' ''pods'' n = Some (OPod q)" "pod_ObjectMeta q = pod_ObjectMeta p" "pod_Spec q = pod_Spec p"
    using inv by (auto simp: exited_on_def)
  with inv ph have "x \<in> set (dk (w_env w')) \<and>
      cluster_table w' ''pods'' n = Some (OPod q) \<and> pod_ObjectMeta q = pod_ObjectMeta p \<and> pod_Spec q = pod_Spec p \<and>
      (ws \<noteq> [] \<and> hd ws = Tick \<longrightarrow> pst_Phase (pod_Status q) = ''Running'') \<and>
      cluster_good w' \<and> tidy (cluster_table w' ''pods'') \<and> node_ready nodeName (cluster_table w' ''pods'') (dk (w_env w'))"
    by (auto simp: exited_on_def phase_at_def)
  then show ?thesis unfolding syncLoop_def run by blast
qed

theorem exited_container_stays_witness:
  "\<exists>w' q. syncLoop (cluster_client ''http://api'') (DockerRuntime docker_in) (\<lambda>pod container. Probe_run calm_prober pod) remdups ''n1''
      [Tick, Tick, Tick] (cluster_with demo_pods demo_containers) = (Ret (), w') \<and>
     demo_info ''1'' ''q'' ''exited'' \<in> set (w_env w') \<and>
     cluster_table w' ''pods'' ''q'' = Some (OPod q) \<and> pst_Phase (pod_Status q) = ''Running''"
proof -
  let ?w = "cluster_with demo_pods demo_containers" and ?x = "demo_info ''1'' ''q'' ''exited''"
  have ready: "node_ready ''n1'' (cluster_table ?w ''pods'') (id (w_env ?w))" using demo_node_ready by simp
  have q: "cluster_table ?w ''pods'' ''q'' = Some (OPod (demo_bound ''q''))" by (simp add: demo_pods_table)
  have x: "?x \<in> set (id (w_env ?w))" "ci_Name ?x = container_name (demo_bound ''q'') demo_container" "ci_State ?x = ''exited''"
    by (simp_all add: demo_containers_def demo_info_def)
  have iter: "set (remdups ks) = set ks \<and> distinct (remdups ks)" for ks :: "string list" by simp
  have c: "psp_NodeName (pod_Spec (demo_bound ''q'')) = ''n1''" "demo_container \<in> set (containers_of (demo_bound ''q''))"
    "ctr_LivenessProbe demo_container = None"
    by simp_all
  from exited_container_stays [where base = "''http://api''" and iter = remdups and ws = "[Tick, Tick, Tick]",
      OF docker_in_ok calm_prober_ok demo_good [OF demo_pods_ok] demo_pods_tidy ready iter q c x]
  show ?thesis by (simp only: id_apply list.distinct list.sel simp_thms) blast
qed

text \<open>What docker prints for its containers is read back exactly: \<open>ListContainers\<close> gives the containers
  that carry a pod label, in the order printed, with every field.\<close>

lemma listing_read_back:
  assumes "list_all clean_info cs" and "docker ps_args w = (Ret (print_ps cs, None), w')"
  shows "ListContainers docker w = (Ret (Inr (slice_of (filter (\<lambda>c. ci_PodName c \<noteq> []) cs))), w')"
  using assms parse_print_ps [of cs] by (simp add: ListContainers_def gbind_def gret_def)

lemma listing_read_back_witness:
  "ListContainers docker_in (cluster_with [] demo_containers) =
     (Ret (Inr (slice_of demo_containers)), cluster_with [] demo_containers)"
proof -
  let ?w = "cluster_with [] demo_containers"
  have clean: "list_all clean_info demo_containers"
    using demo_clean by (simp add: demo_containers_def demo_info_def clean_info_def)
  have "docker_in ps_args ?w = (Ret (print_ps demo_containers, None), ?w)"
    by (simp add: docker_in_def docker_via_def dockerd_others cluster_with_def cluster_of_def)
  from listing_read_back [of demo_containers docker_in ?w ?w, OF clean this] show ?thesis by (simp add: demo_containers_def demo_info_def)
qed

end
