(* ===== verification/Proxy.thy ===== *)
theory Proxy
  imports Scheduler
begin

text \<open>
  internal/proxy/proxier.go: for every node port of a service the proxy keeps a TCP listener, and for
  every service its endpoints as last read; each connection is handed to one of the addresses. Opening
  and closing a listener and dialling a backend are parameters; the bytes piped between the two
  connections are not modelled.
\<close>

section \<open>The proxier\<close>

text \<open>
  \<open>px_serving\<close> holds the goroutines \<open>serve(ln, svcName)\<close> that run: each hands the connections of its
  listener to the service it was started with, until the listener is closed.
\<close>

record 'l Proxier =
  px_listeners :: "(int32, 'l) fmap"
  px_endpoints :: "(string, Endpoints) fmap"
  px_serving :: "('l \<times> string) list"

definition NewProxier :: "'l Proxier" where
  "NewProxier = \<lparr>px_listeners = fmempty, px_endpoints = fmempty, px_serving = []\<rparr>"

definition cache_endpoints :: "string \<Rightarrow> Endpoints option result \<Rightarrow> (string, Endpoints) fmap \<Rightarrow> (string, Endpoints) fmap" where
  "cache_endpoints n r eps = (case r of Inr (Some ep) \<Rightarrow> fmupd n ep eps | _ \<Rightarrow> eps)"

text \<open>The two loops that build \<open>desiredPorts\<close> and refresh the cache\<close>

fun service_ports ::
  "'w Client \<Rightarrow> string \<Rightarrow> ServicePort list \<Rightarrow> (int32, string) fmap \<times> (string, Endpoints) fmap \<Rightarrow>
     ('w, (int32, string) fmap \<times> (string, Endpoints) fmap) go" where
  "service_ports c n [] s = gret s"
| "service_ports c n (port # ports) s =
     (if sp_NodePort port \<noteq> 0
      then gbind (GetEndpoints c n) (\<lambda>r.
        service_ports c n ports (fmupd (sp_NodePort port) n (fst s), cache_endpoints n r (snd s)))
      else service_ports c n ports s)"

fun desired_ports ::
  "'w Client \<Rightarrow> Service list \<Rightarrow> (int32, string) fmap \<times> (string, Endpoints) fmap \<Rightarrow>
     ('w, (int32, string) fmap \<times> (string, Endpoints) fmap) go" where
  "desired_ports c [] s = gret s"
| "desired_ports c (svc # svcs) s =
     gbind (service_ports c (om_Name (svc_ObjectMeta svc)) (ssp_Ports (svc_Spec svc)) s) (desired_ports c svcs)"

definition px_addr :: "int32 \<Rightarrow> string" where
  "px_addr port = '':'' @ print_int (sint port)"

definition px_open :: "int32 \<Rightarrow> string \<Rightarrow> 'l \<Rightarrow> 'l Proxier \<Rightarrow> 'l Proxier" where
  "px_open port svcName ln p =
     p\<lparr>px_listeners := fmupd port ln (px_listeners p), px_serving := px_serving p @ [(ln, svcName)]\<rparr>"

fun open_listeners ::
  "(string \<Rightarrow> ('w, 'l result) go) \<Rightarrow> (int32 \<times> string) list \<Rightarrow> 'l Proxier \<Rightarrow> ('w, 'l Proxier) go" where
  "open_listeners Listen [] p = gret p"
| "open_listeners Listen ((port, svcName) # ports) p =
     (if fmlookup (px_listeners p) port = None
      then gbind (Listen (px_addr port)) (\<lambda>r. case r of
          Inl err \<Rightarrow> open_listeners Listen ports p
        | Inr ln \<Rightarrow> open_listeners Listen ports (px_open port svcName ln p))
      else open_listeners Listen ports p)"

text \<open>\<open>Accept\<close> fails once its listener is closed, so the goroutine that served it returns.\<close>

definition px_close :: "int32 \<Rightarrow> 'l \<Rightarrow> 'l Proxier \<Rightarrow> 'l Proxier" where
  "px_close port ln p =
     p\<lparr>px_listeners := fmdrop port (px_listeners p), px_serving := filter (\<lambda>x. fst x \<noteq> ln) (px_serving p)\<rparr>"

fun close_listeners ::
  "('l \<Rightarrow> ('w, gerror option) go) \<Rightarrow> (int32, string) fmap \<Rightarrow> int32 list \<Rightarrow> 'l Proxier \<Rightarrow> ('w, 'l Proxier) go" where
  "close_listeners Close d [] p = gret p"
| "close_listeners Close d (port # ports) p =
     (case fmlookup (px_listeners p) port of
        None \<Rightarrow> close_listeners Close d ports p
      | Some ln \<Rightarrow>
          if fmlookup d port = None
          then gbind (Close ln) (\<lambda>err. close_listeners Close d ports (px_close port ln p))
          else close_listeners Close d ports p)"

text \<open>The two ranges over maps each have an order of their own.\<close>

definition px_sync ::
  "'w Client \<Rightarrow> (string \<Rightarrow> ('w, 'l result) go) \<Rightarrow> ('l \<Rightarrow> ('w, gerror option) go) \<Rightarrow>
     (int32 list \<Rightarrow> int32 list) \<times> (int32 list \<Rightarrow> int32 list) \<Rightarrow> 'l Proxier \<Rightarrow> ('w, 'l Proxier \<times> gerror option) go" where
  "px_sync c Listen Close iter p =
     gbind (ListServices c) (\<lambda>r. case r of
       Inl err \<Rightarrow> gret (p, Some err)
     | Inr services \<Rightarrow>
         gbind (desired_ports c (elems services) (fmempty, px_endpoints p)) (\<lambda>(d, eps).
           gbind (open_listeners Listen (map (\<lambda>k. (k, the (fmlookup d k))) (fst iter (map_keys d)))
               (p\<lparr>px_endpoints := eps\<rparr>)) (\<lambda>p.
             gbind (close_listeners Close d (snd iter (map_keys (px_listeners p))) p) (\<lambda>p.
               gret (p, None)))))"

definition closeAll :: "('l \<Rightarrow> ('w, gerror option) go) \<Rightarrow> (int32 list \<Rightarrow> int32 list) \<Rightarrow> 'l Proxier \<Rightarrow> ('w, unit) go" where
  "closeAll Close iter p =
     for_each (iter (map_keys (px_listeners p))) (\<lambda>port. case fmlookup (px_listeners p) port of
       None \<Rightarrow> gret ()
     | Some ln \<Rightarrow> gbind (Close ln) (\<lambda>err. gret ()))"

fun px_Run ::
  "'w Client \<Rightarrow> (string \<Rightarrow> ('w, 'l result) go) \<Rightarrow> ('l \<Rightarrow> ('w, gerror option) go) \<Rightarrow>
     (int32 list \<Rightarrow> int32 list) \<times> (int32 list \<Rightarrow> int32 list) \<Rightarrow> wake list \<Rightarrow> 'l Proxier \<Rightarrow> ('w, 'l Proxier) go" where
  "px_Run c Listen Close iter [] p = gret p"
| "px_Run c Listen Close iter (CtxDone # ws) p = gbind (closeAll Close (fst iter) p) (\<lambda>_. gret p)"
| "px_Run c Listen Close iter (Tick # ws) p =
     gbind (px_sync c Listen Close iter p) (\<lambda>(p, err). px_Run c Listen Close iter ws p)"

section \<open>A connection\<close>

text \<open>The address a connection is forwarded to; none when the service has no endpoints.\<close>

definition backends :: "EndpointSubset \<Rightarrow> string list" where
  "backends ss =
     (let targetPort = (if elems (es_Ports ss) \<noteq> [] then epp_Port (elems (es_Ports ss) ! 0) else 80) in
      map (\<lambda>addr. ea_IP addr @ '':'' @ print_int (sint targetPort)) (elems (es_Addresses ss)))"

definition pick_backend :: "(nat \<Rightarrow> ('w, nat) go) \<Rightarrow> 'l Proxier \<Rightarrow> string \<Rightarrow> ('w, string option) go" where
  "pick_backend Intn p svcName =
     (case fmlookup (px_endpoints p) svcName of
        None \<Rightarrow> gret None
      | Some ep \<Rightarrow>
          if elems (ep_Subsets ep) = [] \<or> elems (es_Addresses (elems (ep_Subsets ep) ! 0)) = [] then gret None
          else let bs = backends (elems (ep_Subsets ep) ! 0) in
               if bs = [] then gret None
               else gbind (Intn (length bs)) (\<lambda>k.
                 if k < length bs then gret (Some (bs ! k)) else gpanic Index_out_of_range))"

datatype connection = Closed | Piped string

definition handleConnection ::
  "(nat \<Rightarrow> ('w, nat) go) \<Rightarrow> (string \<Rightarrow> ('w, gerror option) go) \<Rightarrow> 'l Proxier \<Rightarrow> string \<Rightarrow> ('w, connection) go" where
  "handleConnection Intn Dial p svcName =
     gbind (pick_backend Intn p svcName) (\<lambda>b. case b of
       None \<Rightarrow> gret Closed
     | Some backend \<Rightarrow> gbind (Dial backend) (\<lambda>err. gret (if err = None then Piped backend else Closed)))"

text \<open>\<open>serve\<close> on what \<open>Accept\<close> returns: the goroutines it starts, each with its connection, until the
  listener is closed.\<close>

fun px_serve :: "'c result list \<Rightarrow> string \<Rightarrow> ('c \<times> string) list" where
  "px_serve [] svcName = []"
| "px_serve (Inl err # accepted) svcName = []"
| "px_serve (Inr conn # accepted) svcName = (conn, svcName) # px_serve accepted svcName"

section \<open>What the proxy relies on\<close>

text \<open>The addresses of the node that are listened on, by which listener; some can never be listened on.\<close>

definition ports_ok :: "(string \<times> 'l) list \<Rightarrow> bool" where
  "ports_ok b \<longleftrightarrow> distinct (map fst b) \<and> distinct (map snd b)"

locale network = rest C good tab env
  for C :: "'w Client" and good tab and env :: "'w \<Rightarrow> 'e" +
  fixes Listen :: "string \<Rightarrow> ('w, 'l result) go" and Close :: "'l \<Rightarrow> ('w, gerror option) go"
    and refused :: "string set" and bound :: "'e \<Rightarrow> (string \<times> 'l) list"
  assumes listen: "ports_ok (bound e) \<Longrightarrow> triple (world_at good tab env t e) (Listen addr) (\<lambda>r w.
      if addr \<in> refused \<union> fst ` set (bound e) then (\<exists>err. r = Inl err) \<and> world_at good tab env t e w
      else \<exists>ln e'. r = Inr ln \<and> ln \<notin> snd ` set (bound e) \<and> bound e' = bound e @ [(addr, ln)] \<and>
             world_at good tab env t e' w)"
    and close: "ports_ok (bound e) \<Longrightarrow> triple (world_at good tab env t e) (Close ln) (\<lambda>r w.
      \<exists>e'. bound e' = filter (\<lambda>x. snd x \<noteq> ln) (bound e) \<and> world_at good tab env t e' w)"

section \<open>The listeners of a proxier\<close>

definition handlers :: "'l Proxier \<Rightarrow> 'l \<Rightarrow> string list" where
  "handlers p ln = map snd (filter (\<lambda>x. fst x = ln) (px_serving p))"

text \<open>Its listeners are open at their addresses, each served by one goroutine, and no other is served.\<close>

definition px_ok :: "'l Proxier \<Rightarrow> (string \<times> 'l) list \<Rightarrow> bool" where
  "px_ok p b \<longleftrightarrow> ports_ok b \<and>
     (\<forall>port ln. fmlookup (px_listeners p) port = Some ln \<longrightarrow>
        (px_addr port, ln) \<in> set b \<and> (\<exists>svcName. handlers p ln = [svcName])) \<and>
     fst ` set (px_serving p) \<subseteq> snd ` set b"

lemma px_addr_inj: "px_addr m = px_addr n \<longleftrightarrow> m = n"
proof
  assume "px_addr m = px_addr n"
  then have "clamp64 (sint m) = clamp64 (sint n)" using ParseInt_print by (metis append_same_eq px_addr_def same_append_eq)
  moreover have "clamp64 (sint i) = sint i" for i :: int32
    using sint_ge [of i] sint_lt [of i] by (simp add: clamp64_def)
  ultimately show "m = n" by (simp add: signed_word_eqI)
qed simp


lemma handlers_simps [simp]:
  "handlers (px_open port svcName ln p) l = handlers p l @ (if l = ln then [svcName] else [])"
  "handlers (px_close port ln p) l = (if l = ln then [] else handlers p l)"
  "handlers (p\<lparr>px_endpoints := eps\<rparr>) l = handlers p l"
  "px_listeners (px_open port svcName ln p) = fmupd port ln (px_listeners p)"
  "px_listeners (px_close port ln p) = fmdrop port (px_listeners p)"
  "px_endpoints (px_open port svcName ln p) = px_endpoints p" "px_endpoints (px_close port ln p) = px_endpoints p"
proof -
  have "filter (\<lambda>x. fst x \<noteq> ln \<and> fst x = l) xs = (if l = ln then [] else filter (\<lambda>x. fst x = l) xs)"
    for xs :: "('a \<times> string) list"
    by (induction xs) auto
  then show "handlers (px_close port ln p) l = (if l = ln then [] else handlers p l)"
    by (simp add: handlers_def px_close_def)
qed (simp_all add: handlers_def px_open_def px_close_def)

lemma handlers_unbound: "px_ok p b \<Longrightarrow> ln \<notin> snd ` set b \<Longrightarrow> handlers p ln = []"
  by (force simp: px_ok_def handlers_def filter_empty_conv)

lemma px_ok_open:
  assumes "px_ok p b" and "px_addr port \<notin> fst ` set b" and "ln \<notin> snd ` set b"
  shows "px_ok (px_open port svcName ln p) (b @ [(px_addr port, ln)])"
proof -
  have "handlers p ln = []" using handlers_unbound [OF assms(1,3)] .
  moreover have "l \<noteq> ln" if "fmlookup (px_listeners p) q = Some l" for q l
    using assms(1,3) that unfolding px_ok_def by (metis imageI snd_conv)
  moreover have "ports_ok (b @ [(px_addr port, ln)])" using assms by (simp add: px_ok_def ports_ok_def)
  moreover have "fst ` set (px_serving (px_open port svcName ln p)) \<subseteq> snd ` set (b @ [(px_addr port, ln)])"
    using assms(1) unfolding px_ok_def px_open_def by auto
  moreover have "(px_addr q, l) \<in> set (b @ [(px_addr port, ln)]) \<and> (\<exists>s. handlers (px_open port svcName ln p) l = [s])"
    if "fmlookup (px_listeners (px_open port svcName ln p)) q = Some l" for q l
  proof (cases "q = port")
    case True
    then show ?thesis using that calculation(1) by simp
  next
    case False
    then have q: "fmlookup (px_listeners p) q = Some l" using that by simp
    then have "(px_addr q, l) \<in> set b \<and> (\<exists>s. handlers p l = [s])" using assms(1) unfolding px_ok_def by blast
    with calculation(2) [OF q] show ?thesis by simp
  qed
  ultimately show ?thesis unfolding px_ok_def by blast
qed

lemma listeners_inj:
  assumes "px_ok p b" and "fmlookup (px_listeners p) port = Some ln" and "fmlookup (px_listeners p) port' = Some ln"
  shows "port' = port"
proof -
  have mem: "(px_addr port, ln) \<in> set b" "(px_addr port', ln) \<in> set b"
    using assms unfolding px_ok_def by blast+
  have "inj_on snd (set b)" using assms(1) by (simp add: px_ok_def ports_ok_def distinct_map)
  from inj_onD [OF this _ mem] have "(px_addr port, ln) = (px_addr port', ln)" by simp
  then show ?thesis by (simp add: px_addr_inj)
qed

lemma px_ok_close:
  assumes "px_ok p b" and "fmlookup (px_listeners p) port = Some ln"
  shows "px_ok (px_close port ln p) (filter (\<lambda>x. snd x \<noteq> ln) b)"
proof -
  let ?p = "px_close port ln p" and ?b = "filter (\<lambda>x. snd x \<noteq> ln) b"
  have "(px_addr q, l) \<in> set ?b \<and> (\<exists>s. handlers ?p l = [s])" if l: "fmlookup (px_listeners ?p) q = Some l" for q l
  proof -
    have q: "q \<noteq> port" "fmlookup (px_listeners p) q = Some l" using l by (auto split: if_splits)
    then have "l \<noteq> ln" using listeners_inj [OF assms] by blast
    moreover have "(px_addr q, l) \<in> set b \<and> (\<exists>s. handlers p l = [s])" using assms(1) q(2) unfolding px_ok_def by blast
    ultimately show ?thesis by simp
  qed
  moreover have "ports_ok ?b"
    using assms(1) by (simp add: px_ok_def ports_ok_def distinct_map_filter)
  moreover have "fst ` set (px_serving ?p) \<subseteq> snd ` set ?b"
  proof
    fix l assume "l \<in> fst ` set (px_serving ?p)"
    then have "l \<noteq> ln" "l \<in> snd ` set b" using assms(1) by (auto simp: px_ok_def px_close_def)
    then show "l \<in> snd ` set ?b" by auto
  qed
  ultimately show ?thesis unfolding px_ok_def by blast
qed

section \<open>Opening and closing\<close>

text \<open>After the listeners of a list of ports with their services are opened\<close>

definition opened ::
  "string set \<Rightarrow> (int32 \<times> string) list \<Rightarrow> (string \<times> 'l) list \<Rightarrow> 'l Proxier \<Rightarrow> 'l Proxier \<Rightarrow> bool" where
  "opened refused xs b p p' \<longleftrightarrow> px_endpoints p' = px_endpoints p \<and>
     (\<forall>port. (port \<notin> fst ` set xs \<or> fmlookup (px_listeners p) port \<noteq> None) \<longrightarrow>
        fmlookup (px_listeners p') port = fmlookup (px_listeners p) port) \<and>
     (\<forall>(port, svcName) \<in> set xs. fmlookup (px_listeners p) port = None \<longrightarrow>
        (if px_addr port \<in> refused \<union> fst ` set b then fmlookup (px_listeners p') port = None
         else \<exists>ln. fmlookup (px_listeners p') port = Some ln \<and> handlers p' ln = [svcName])) \<and>
     (\<forall>ln. ln \<in> snd ` set b \<longrightarrow> handlers p' ln = handlers p ln)"

lemma opened_skip:
  assumes rest: "opened refused xs b p p'" and "port \<notin> fst ` set xs"
    and "fmlookup (px_listeners p) port \<noteq> None \<or> px_addr port \<in> refused \<union> fst ` set b"
  shows "opened refused ((port, svcName) # xs) b p p'"
proof -
  have "fmlookup (px_listeners p') port = fmlookup (px_listeners p) port"
    using rest assms(2) by (auto simp: opened_def)
  with assms show ?thesis by (auto simp: opened_def)
qed

lemma opened_Cons:
  assumes rest: "opened refused xs (b @ [(px_addr port, ln)]) (px_open port svcName ln p) p'"
    and "px_ok p b" and "port \<notin> fst ` set xs" and "ln \<notin> snd ` set b"
    and "fmlookup (px_listeners p) port = None" and "px_addr port \<notin> refused \<union> fst ` set b"
  shows "opened refused ((port, svcName) # xs) b p p'"
proof -
  have ln: "fmlookup (px_listeners p') port = Some ln" "handlers p' ln = [svcName]"
    using rest assms(3) handlers_unbound [OF assms(2,4)] by (auto simp: opened_def)
  have keep: "fmlookup (px_listeners p') q = fmlookup (px_listeners p) q"
    if "q \<notin> fst ` set ((port, svcName) # xs) \<or> fmlookup (px_listeners p) q \<noteq> None" for q
    using rest that assms(5) by (auto simp: opened_def)
  have new: "if px_addr q \<in> refused \<union> fst ` set b then fmlookup (px_listeners p') q = None
      else \<exists>ln. fmlookup (px_listeners p') q = Some ln \<and> handlers p' ln = [s]"
    if "(q, s) \<in> set xs" "fmlookup (px_listeners p) q = None" for q s
  proof -
    have "q \<noteq> port" using that(1) assms(3) by force
    then have "px_addr q \<noteq> px_addr port" by (simp add: px_addr_inj)
    with rest that \<open>q \<noteq> port\<close> show ?thesis unfolding opened_def by fastforce
  qed
  have "handlers p' l = handlers p l" if "l \<in> snd ` set b" for l
  proof -
    have "l \<noteq> ln" using that assms(4) by blast
    moreover have "handlers p' l = handlers (px_open port svcName ln p) l"
      using rest that unfolding opened_def by simp
    ultimately show ?thesis by simp
  qed
  moreover have "if px_addr q \<in> refused \<union> fst ` set b then fmlookup (px_listeners p') q = None
      else \<exists>ln. fmlookup (px_listeners p') q = Some ln \<and> handlers p' ln = [s]"
    if "(q, s) \<in> set ((port, svcName) # xs)" "fmlookup (px_listeners p) q = None" for q s
  proof (cases "(q, s) \<in> set xs")
    case False
    then have "q = port" "s = svcName" using that(1) by simp_all
    then show ?thesis using ln unfolding if_not_P [OF assms(6) [folded \<open>q = port\<close>]] by blast
  qed (use new that(2) in blast)
  moreover have "px_endpoints p' = px_endpoints p" using rest by (simp add: opened_def)
  ultimately show ?thesis using keep unfolding opened_def by blast
qed

text \<open>After the listeners of undesired ports are closed\<close>

definition closed_others :: "(int32, string) fmap \<Rightarrow> int32 list \<Rightarrow> 'l Proxier \<Rightarrow> 'l Proxier \<Rightarrow> bool" where
  "closed_others d ports p p' \<longleftrightarrow> px_endpoints p' = px_endpoints p \<and>
     (\<forall>port. fmlookup (px_listeners p') port =
        (if port \<in> set ports \<and> fmlookup d port = None then None else fmlookup (px_listeners p) port)) \<and>
     (\<forall>port ln. fmlookup (px_listeners p') port = Some ln \<longrightarrow> handlers p' ln = handlers p ln)"

context network
begin

lemma open_listeners_effect:
  assumes "px_ok p (bound e)" and "distinct (map fst xs)"
  shows "triple (world_at good tab env t e) (open_listeners Listen xs p)
    (\<lambda>p' w. \<exists>e'. opened refused xs (bound e) p p' \<and> px_ok p' (bound e') \<and> world_at good tab env t e' w)"
  using assms
proof (induction xs arbitrary: p e)
  case Nil
  then show ?case by (auto simp: opened_def intro!: triple_gret)
next
  case (Cons x xs)
  obtain port s where x: "x = (port, s)" by (cases x)
  let ?Q = "\<lambda>p' w. \<exists>e'. opened refused (x # xs) (bound e) p p' \<and> px_ok p' (bound e') \<and> world_at good tab env t e' w"
  have fresh: "port \<notin> fst ` set xs" "distinct (map fst xs)" using Cons.prems(2) by (auto simp: x)
  have skip: "triple (world_at good tab env t e) (open_listeners Listen xs p) ?Q"
    if "fmlookup (px_listeners p) port \<noteq> None \<or> px_addr port \<in> refused \<union> fst ` set (bound e)"
    using opened_skip [OF _ fresh(1) that] unfolding x
    by (intro triple_post [OF Cons.IH [OF Cons.prems(1) fresh(2)]]) blast
  show ?case
  proof (cases "fmlookup (px_listeners p) port = None")
    case False
    then show ?thesis using skip unfolding x open_listeners.simps if_not_P [OF False] by blast
  next
    case None: True
    have ok: "ports_ok (bound e)" using Cons.prems(1) by (simp add: px_ok_def)
    show ?thesis
    proof (cases "px_addr port \<in> refused \<union> fst ` set (bound e)")
      case True
      have "triple (world_at good tab env t e) (Listen (px_addr port)) (\<lambda>r w. (\<exists>err. r = Inl err) \<and> world_at good tab env t e w)"
        using listen [OF ok, of t "px_addr port"] True by simp
      then have "triple (world_at good tab env t e) (gbind (Listen (px_addr port)) (\<lambda>r. case r of
          Inl err \<Rightarrow> open_listeners Listen xs p | Inr ln \<Rightarrow> open_listeners Listen xs (px_open port s ln p))) ?Q"
        by (rule triple_gbind) (rule triple_assuming, use skip True in auto)
      with None show ?thesis by (simp add: x)
    next
      case False
      have "triple (world_at good tab env t e) (Listen (px_addr port)) (\<lambda>r w. \<exists>ln e'. r = Inr ln \<and>
          ln \<notin> snd ` set (bound e) \<and> bound e' = bound e @ [(px_addr port, ln)] \<and> world_at good tab env t e' w)"
        using listen [OF ok, of t "px_addr port"] unfolding if_not_P [OF False] .
      then have "triple (world_at good tab env t e) (gbind (Listen (px_addr port)) (\<lambda>r. case r of
          Inl err \<Rightarrow> open_listeners Listen xs p | Inr ln \<Rightarrow> open_listeners Listen xs (px_open port s ln p))) ?Q"
      proof (rule triple_gbind, intro triple_ex triple_assuming)
        fix r ln e1 assume r: "r = Inr ln" and ln: "ln \<notin> snd ` set (bound e)" and e1: "bound e1 = bound e @ [(px_addr port, ln)]"
        have "px_ok (px_open port s ln p) (bound e1)"
          using px_ok_open [OF Cons.prems(1) _ ln] False by (simp add: e1)
        from Cons.IH [OF this fresh(2)] opened_Cons [OF _ Cons.prems(1) fresh(1) ln None False]
        show "triple (world_at good tab env t e1) (case r of
          Inl err \<Rightarrow> open_listeners Listen xs p | Inr ln \<Rightarrow> open_listeners Listen xs (px_open port s ln p)) ?Q"
          unfolding r x sum.case e1 by (elim triple_post) blast
      qed
      with None show ?thesis by (simp add: x)
    qed
  qed
qed

lemma close_listeners_effect:
  assumes "px_ok p (bound e)" and "distinct ports"
  shows "triple (world_at good tab env t e) (close_listeners Close d ports p)
    (\<lambda>p' w. \<exists>e'. closed_others d ports p p' \<and> px_ok p' (bound e') \<and> world_at good tab env t e' w)"
  using assms
proof (induction ports arbitrary: p e)
  case Nil
  then show ?case by (auto simp: closed_others_def intro!: triple_gret)
next
  case (Cons port ports)
  let ?Q = "\<lambda>p' w. \<exists>e'. closed_others d (port # ports) p p' \<and> px_ok p' (bound e') \<and> world_at good tab env t e' w"
  show ?case
  proof (cases "fmlookup (px_listeners p) port = None \<or> fmlookup d port \<noteq> None")
    case True
    then have "closed_others d ports p p' \<Longrightarrow> closed_others d (port # ports) p p'" for p'
      by (auto simp: closed_others_def)
    with Cons.IH [OF Cons.prems(1)] Cons.prems(2) True show ?thesis
      by (auto elim!: triple_post split: option.split)
  next
    case False
    then obtain ln where ln: "fmlookup (px_listeners p) port = Some ln" and d: "fmlookup d port = None" by auto
    have ok: "ports_ok (bound e)" using Cons.prems(1) by (simp add: px_ok_def)
    have step: "closed_others d ports (px_close port ln p) p' \<Longrightarrow> closed_others d (port # ports) p p'" for p'
      using listeners_inj [OF Cons.prems(1) ln] d by (auto simp: closed_others_def split: if_splits)
    have "triple (world_at good tab env t e) (gbind (Close ln) (\<lambda>err. close_listeners Close d ports (px_close port ln p))) ?Q"
    proof (rule triple_gbind [OF close [OF ok]], rule triple_ex, rule triple_assuming)
      fix e1 assume e1: "bound e1 = filter (\<lambda>x. snd x \<noteq> ln) (bound e)"
      have "px_ok (px_close port ln p) (bound e1)" using px_ok_close [OF Cons.prems(1) ln] by (simp add: e1)
      from Cons.IH [OF this] Cons.prems(2)
      show "triple (world_at good tab env t e1) (close_listeners Close d ports (px_close port ln p)) ?Q"
        by (auto intro: step elim!: triple_post)
    qed
    with ln d show ?thesis by simp
  qed
qed

end


section \<open>One sync\<close>

definition exposes :: "Service \<Rightarrow> int32 \<Rightarrow> bool" where
  "exposes svc port \<longleftrightarrow> port \<noteq> 0 \<and> port \<in> sp_NodePort ` set (ssp_Ports (svc_Spec svc))"

text \<open>The services of a row that have a node port\<close>

definition exposing :: "(string \<Rightarrow> obj option) \<Rightarrow> int32 \<Rightarrow> string set" where
  "exposing row port = {n. \<exists>svc. row n = Some (OService svc) \<and> exposes svc port}"

definition read_endpoints :: "(string \<Rightarrow> obj option) \<Rightarrow> string \<Rightarrow> Endpoints option \<Rightarrow> Endpoints option" where
  "read_endpoints row n old = (case row n of Some (OEndpoints ep) \<Rightarrow> Some ep | _ \<Rightarrow> old)"

text \<open>
  A port that no service has is closed; one that was open keeps its listener and what serves it; one
  that was not is opened for one of its services, if the system lets it. The endpoints of the services
  are read again, where there are any.
\<close>

definition proxy_synced ::
  "string set \<Rightarrow> (string \<Rightarrow> obj option) \<Rightarrow> (string \<Rightarrow> obj option) \<Rightarrow> (string \<times> 'l) list \<Rightarrow> 'l Proxier \<Rightarrow> 'l Proxier \<Rightarrow> bool" where
  "proxy_synced refused services eps b p p' \<longleftrightarrow>
     (\<forall>port. if exposing services port = {} then fmlookup (px_listeners p') port = None
        else case fmlookup (px_listeners p) port of
            Some ln \<Rightarrow> fmlookup (px_listeners p') port = Some ln \<and> handlers p' ln = handlers p ln
          | None \<Rightarrow>
              if px_addr port \<in> refused \<union> fst ` set b then fmlookup (px_listeners p') port = None
              else \<exists>ln. fmlookup (px_listeners p') port = Some ln \<and> (\<exists>n \<in> exposing services port. handlers p' ln = [n])) \<and>
     (\<forall>n. fmlookup (px_endpoints p') n =
        (if \<exists>port. n \<in> exposing services port then read_endpoints eps n (fmlookup (px_endpoints p) n)
         else fmlookup (px_endpoints p) n))"

lemma exposes_Cons: "list_ex (\<lambda>sp. sp_NodePort sp \<noteq> 0) sps \<longleftrightarrow> (\<exists>port. port \<noteq> 0 \<and> port \<in> sp_NodePort ` set sps)"
  by (auto simp: list_ex_iff)

definition ports_done :: "(string \<Rightarrow> obj option) \<Rightarrow> string \<Rightarrow> ServicePort list \<Rightarrow>
    (int32, string) fmap \<times> (string, Endpoints) fmap \<Rightarrow> (int32, string) fmap \<times> (string, Endpoints) fmap \<Rightarrow> bool" where
  "ports_done row n sps s s' \<longleftrightarrow>
     (\<forall>port. fmlookup (fst s') port = (if port \<noteq> 0 \<and> port \<in> sp_NodePort ` set sps then Some n else fmlookup (fst s) port)) \<and>
     (\<forall>m. fmlookup (snd s') m =
        (if m = n \<and> list_ex (\<lambda>sp. sp_NodePort sp \<noteq> 0) sps then read_endpoints row n (fmlookup (snd s) n)
         else fmlookup (snd s) m))"

lemma ports_done_Cons:
  assumes "sp_NodePort sp \<noteq> 0" and "map_option OEndpoints x = row n"
    and "ports_done row n sps (fmupd (sp_NodePort sp) n (fst s), cache_endpoints n (Inr x) (snd s)) s'"
  shows "ports_done row n (sp # sps) s s'"
proof -
  have look: "fmlookup (cache_endpoints n (Inr x) (snd s)) m = (if m = n then read_endpoints row n (fmlookup (snd s) n) else fmlookup (snd s) m)" for m
    using assms(2) by (cases x) (auto simp: cache_endpoints_def read_endpoints_def dest: sym)
  have "read_endpoints row n (read_endpoints row n old) = read_endpoints row n old" for old
    by (auto simp: read_endpoints_def split: option.split obj.split)
  with assms(1,3) look show ?thesis unfolding ports_done_def by auto
qed

definition services_done :: "(string \<Rightarrow> obj option) \<Rightarrow> Service list \<Rightarrow>
    (int32, string) fmap \<times> (string, Endpoints) fmap \<Rightarrow> (int32, string) fmap \<times> (string, Endpoints) fmap \<Rightarrow> bool" where
  "services_done row svcs s s' \<longleftrightarrow>
     (\<forall>port. if \<exists>svc \<in> set svcs. exposes svc port
        then \<exists>svc \<in> set svcs. exposes svc port \<and> fmlookup (fst s') port = Some (om_Name (svc_ObjectMeta svc))
        else fmlookup (fst s') port = fmlookup (fst s) port) \<and>
     (\<forall>m. fmlookup (snd s') m =
        (if \<exists>svc \<in> set svcs. om_Name (svc_ObjectMeta svc) = m \<and> (\<exists>port. exposes svc port)
         then read_endpoints row m (fmlookup (snd s) m) else fmlookup (snd s) m))"

lemma services_done_Cons:
  assumes one: "ports_done row (om_Name (svc_ObjectMeta svc)) (ssp_Ports (svc_Spec svc)) s s1"
    and rest: "services_done row svcs s1 s'"
  shows "services_done row (svc # svcs) s s'"
proof -
  have port: "fmlookup (fst s1) port = (if exposes svc port then Some (om_Name (svc_ObjectMeta svc)) else fmlookup (fst s) port)" for port
    using one by (simp add: ports_done_def exposes_def)
  have eps: "fmlookup (snd s1) m = (if om_Name (svc_ObjectMeta svc) = m \<and> (\<exists>port. exposes svc port)
      then read_endpoints row m (fmlookup (snd s) m) else fmlookup (snd s) m)" for m
    using one unfolding ports_done_def exposes_Cons exposes_def by auto
  have twice: "read_endpoints row n (read_endpoints row n old) = read_endpoints row n old" for n old
    by (auto simp: read_endpoints_def split: option.split obj.split)
  show ?thesis
    unfolding services_done_def
  proof (intro conjI allI)
    fix port
    have r: "if \<exists>svc \<in> set svcs. exposes svc port
        then \<exists>svc \<in> set svcs. exposes svc port \<and> fmlookup (fst s') port = Some (om_Name (svc_ObjectMeta svc))
        else fmlookup (fst s') port = fmlookup (fst s1) port"
      using rest unfolding services_done_def by blast
    show "if \<exists>svc \<in> set (svc # svcs). exposes svc port
        then \<exists>svc \<in> set (svc # svcs). exposes svc port \<and> fmlookup (fst s') port = Some (om_Name (svc_ObjectMeta svc))
        else fmlookup (fst s') port = fmlookup (fst s) port"
      using r port [of port] by (auto split: if_splits)
  next
    fix m
    have "fmlookup (snd s') m = (if \<exists>svc \<in> set svcs. om_Name (svc_ObjectMeta svc) = m \<and> (\<exists>port. exposes svc port)
         then read_endpoints row m (fmlookup (snd s1) m) else fmlookup (snd s1) m)"
      using rest unfolding services_done_def by blast
    then show "fmlookup (snd s') m = (if \<exists>svc \<in> set (svc # svcs). om_Name (svc_ObjectMeta svc) = m \<and> (\<exists>port. exposes svc port)
         then read_endpoints row m (fmlookup (snd s) m) else fmlookup (snd s) m)"
      using twice eps [of m] by auto
  qed
qed

context rest
begin

lemma service_ports_effect:
  assumes "plain_name n"
  shows "triple (at_table t e) (service_ports C n sps s) (\<lambda>s' w. ports_done (t ''endpoints'') n sps s s' \<and> at_table t e w)"
proof (induction sps arbitrary: s)
  case Nil
  then show ?case by (auto simp: ports_done_def intro!: triple_gret)
next
  case (Cons sp sps)
  show ?case
  proof (cases "sp_NodePort sp = 0")
    case True
    then have "ports_done (t ''endpoints'') n sps s s' \<Longrightarrow> ports_done (t ''endpoints'') n (sp # sps) s s'" for s'
      by (auto simp: ports_done_def)
    with Cons.IH [of s] True show ?thesis by (auto elim!: triple_post)
  next
    case False
    have "triple (at_table t e) (gbind (GetEndpoints C n) (\<lambda>r.
        service_ports C n sps (fmupd (sp_NodePort sp) n (fst s), cache_endpoints n r (snd s))))
      (\<lambda>s' w. ports_done (t ''endpoints'') n (sp # sps) s s' \<and> at_table t e w)"
    proof (rule triple_gbind [OF GetEndpoints_effect [OF assms]], rule tripleI, elim conjE exE)
      fix r :: "Endpoints option result" and w x assume w: "at_table t e w" and r: "r = Inr x" "map_option OEndpoints x = t ''endpoints'' n"
      from tripleD [OF Cons.IH w] ports_done_Cons [where row = "t ''endpoints''" and n = n and x = x, OF False r(2)]
      show "\<exists>s' w'. service_ports C n sps (fmupd (sp_NodePort sp) n (fst s), cache_endpoints n r (snd s)) w = (Ret s', w') \<and>
          ports_done (t ''endpoints'') n (sp # sps) s s' \<and> at_table t e w'"
        unfolding r(1) by blast
    qed
    with False show ?thesis by simp
  qed
qed

lemma desired_ports_effect:
  assumes "\<And>svc. svc \<in> set svcs \<Longrightarrow> plain_name (om_Name (svc_ObjectMeta svc))"
  shows "triple (at_table t e) (desired_ports C svcs s) (\<lambda>s' w. services_done (t ''endpoints'') svcs s s' \<and> at_table t e w)"
  using assms
proof (induction svcs arbitrary: s)
  case Nil
  then show ?case by (auto simp: services_done_def intro!: triple_gret)
next
  case (Cons svc svcs)
  have "plain_name (om_Name (svc_ObjectMeta svc))" using Cons.prems by simp
  from service_ports_effect [OF this]
  show ?case
    unfolding desired_ports.simps
  proof (rule triple_gbind, intro triple_assuming)
    fix s1 assume s1: "ports_done (t ''endpoints'') (om_Name (svc_ObjectMeta svc)) (ssp_Ports (svc_Spec svc)) s s1"
    show "triple (at_table t e) (desired_ports C svcs s1) (\<lambda>s' w. services_done (t ''endpoints'') (svc # svcs) s s' \<and> at_table t e w)"
      by (rule triple_post [OF Cons.IH]) (use Cons.prems services_done_Cons [OF s1] in auto)
  qed
qed

end


lemma proxy_synced_parts:
  assumes svcs: "enumerates (map OService svcs) services" and named: "named services"
    and d: "services_done eps svcs (fmempty, px_endpoints p) (d, eps')"
    and op: "opened refused xs b (p\<lparr>px_endpoints := eps'\<rparr>) p1"
    and xs: "set xs = {(port, n). fmlookup d port = Some n}"
    and cl: "closed_others d ports p1 p'" and ports: "set ports = fmdom' (px_listeners p1)"
    and ok: "px_ok p b"
  shows "proxy_synced refused services eps b p p'"
proof -
  have at: "services (om_Name (svc_ObjectMeta svc)) = Some (OService svc)" if "svc \<in> set svcs" for svc
    using enumerates_named(2) [OF svcs named, of "OService svc"] that by (simp add: obj_name_def)
  have mem: "svc \<in> set svcs \<and> om_Name (svc_ObjectMeta svc) = n" if "services n = Some (OService svc)" for svc n
    using enumerates_mem [OF svcs that] named that by (auto simp: named_def) (metis getObjectMeta.simps(5) obj_name_def)
  have exp: "n \<in> exposing services port \<longleftrightarrow> (\<exists>svc \<in> set svcs. exposes svc port \<and> om_Name (svc_ObjectMeta svc) = n)" for n port
    unfolding exposing_def using at mem by blast
  have dport: "if exposing services port = {} then fmlookup d port = None
      else \<exists>n \<in> exposing services port. fmlookup d port = Some n" for port
  proof (cases "\<exists>svc \<in> set svcs. exposes svc port")
    case True
    then obtain svc where "svc \<in> set svcs" "exposes svc port" "fmlookup d port = Some (om_Name (svc_ObjectMeta svc))"
      using d unfolding services_done_def fst_conv by metis
    then show ?thesis using exp by auto
  next
    case False
    then have "exposing services port = {}" using exp by blast
    moreover have "fmlookup d port = None"
      using d [unfolded services_done_def, THEN conjunct1, THEN spec, of port] unfolding if_not_P [OF False] by simp
    ultimately show ?thesis by simp
  qed
  have look: "fmlookup (px_listeners p') port = (if fmlookup d port = None then None else fmlookup (px_listeners p1) port)" for port
  proof -
    have "fmlookup (px_listeners p1) port = None" if "port \<notin> set ports" using that unfolding ports by (cases "fmlookup (px_listeners p1) port") (auto simp: fmlookup_dom'_iff)
    then show ?thesis using cl by (auto simp: closed_others_def)
  qed
  have same: "handlers p' ln = handlers p1 ln" if "fmlookup (px_listeners p') port = Some ln" for port ln
    using cl that by (auto simp: closed_others_def)
  have port: "if exposing services port = {} then fmlookup (px_listeners p') port = None
        else case fmlookup (px_listeners p) port of
            Some ln \<Rightarrow> fmlookup (px_listeners p') port = Some ln \<and> handlers p' ln = handlers p ln
          | None \<Rightarrow>
              if px_addr port \<in> refused \<union> fst ` set b then fmlookup (px_listeners p') port = None
              else \<exists>ln. fmlookup (px_listeners p') port = Some ln \<and> (\<exists>n \<in> exposing services port. handlers p' ln = [n])" for port
  proof (cases "exposing services port = {}")
    case True
    with dport [of port] look [of port] show ?thesis by simp
  next
    case False
    with dport [of port] obtain n where n: "n \<in> exposing services port" "fmlookup d port = Some n" by auto
    then have l: "fmlookup (px_listeners p') port = fmlookup (px_listeners p1) port" using look [of port] by simp
    show ?thesis
    proof (cases "fmlookup (px_listeners p) port")
      case (Some ln)
      then have "fmlookup (px_listeners p1) port = Some ln" using op by (simp add: opened_def)
      moreover have "ln \<in> snd ` set b" using ok Some unfolding px_ok_def by (metis imageI snd_conv)
      then have "handlers p1 ln = handlers p ln" using op by (simp add: opened_def)
      ultimately show ?thesis using False Some l same [of port ln] by simp
    next
      case None
      have "if px_addr port \<in> refused \<union> fst ` set b then fmlookup (px_listeners p1) port = None
         else \<exists>ln. fmlookup (px_listeners p1) port = Some ln \<and> handlers p1 ln = [n]"
        using op n(2) None unfolding opened_def xs by simp
      then show ?thesis using False None l same [of port] n(1) by (auto split: if_splits)
    qed
  qed
  have "px_endpoints p' = eps'" using op cl by (simp add: opened_def closed_others_def)
  moreover have "(\<exists>svc \<in> set svcs. om_Name (svc_ObjectMeta svc) = n \<and> (\<exists>port. exposes svc port)) \<longleftrightarrow> (\<exists>port. n \<in> exposing services port)" for n
    unfolding exp by blast
  ultimately have "fmlookup (px_endpoints p') n = (if \<exists>port. n \<in> exposing services port
      then read_endpoints eps n (fmlookup (px_endpoints p) n) else fmlookup (px_endpoints p) n)" for n
    using d by (simp add: services_done_def)
  with port show ?thesis unfolding proxy_synced_def by blast
qed

context network
begin

lemma px_sync_effect:
  assumes "tidy (t ''services'')" and ok: "px_ok p (bound e)"
    and iter: "\<And>ks. set (fst iter ks) = set ks \<and> distinct (fst iter ks)" "\<And>ks. set (snd iter ks) = set ks \<and> distinct (snd iter ks)"
  shows "triple (at_table t e) (px_sync C Listen Close iter p)
    (\<lambda>r w. snd r = None \<and> (\<exists>e'. proxy_synced refused (t ''services'') (t ''endpoints'') (bound e) p (fst r) \<and>
       px_ok (fst r) (bound e') \<and> at_table t e' w))"
  unfolding px_sync_def
proof (rule triple_gbind [OF ListServices_effect], rule triple_listed)
  let ?Q = "\<lambda>r w. snd r = None \<and> (\<exists>e'. proxy_synced refused (t ''services'') (t ''endpoints'') (bound e) p (fst r) \<and>
       px_ok (fst r) (bound e') \<and> at_table t e' w)"
  fix r svcs assume r: "r = Inr (slice_of svcs)" and en: "enumerates (map OService svcs) (t ''services'')"
  have named: "named (t ''services'')" using assms(1) by (simp add: tidy_def)
  have plain: "plain_name (om_Name (svc_ObjectMeta svc))" if "svc \<in> set svcs" for svc
    using enumerates_named(2) [OF en named, of "OService svc"] that assms(1) by (auto simp: tidy_def obj_name_def)
  have "triple (at_table t e) (gbind (desired_ports C svcs (fmempty, px_endpoints p)) (\<lambda>(d, eps).
           gbind (open_listeners Listen (map (\<lambda>k. (k, the (fmlookup d k))) (fst iter (map_keys d))) (p\<lparr>px_endpoints := eps\<rparr>)) (\<lambda>p.
             gbind (close_listeners Close d (snd iter (map_keys (px_listeners p))) p) (\<lambda>p. gret (p, None))))) ?Q"
  proof (rule triple_gbind [OF desired_ports_effect], rule plain, assumption, rule triple_assuming)
    fix s assume s: "services_done (t ''endpoints'') svcs (fmempty, px_endpoints p) s"
    obtain d eps where deps: "s = (d, eps)" by (cases s)
    let ?xs = "map (\<lambda>k. (k, the (fmlookup d k))) (fst iter (map_keys d))" and ?p = "p\<lparr>px_endpoints := eps\<rparr>"
    have fst_xs: "map fst ?xs = fst iter (map_keys d)" by (simp add: comp_def)
    have xs: "set ?xs = {(port, n). fmlookup d port = Some n}"
      using iter(1) [of "map_keys d"] by (auto simp: fmlookup_dom'_iff image_iff)
    have "px_ok ?p (bound e)" using ok by (simp add: px_ok_def)
    moreover have "distinct (map fst ?xs)" using iter(1) by (simp only: fst_xs)
    ultimately have opens: "triple (at_table t e) (open_listeners Listen ?xs ?p)
      (\<lambda>p' w. \<exists>e'. opened refused ?xs (bound e) ?p p' \<and> px_ok p' (bound e') \<and> at_table t e' w)"
      by (rule open_listeners_effect)
    have closes: "triple (at_table t e1) (gbind (close_listeners Close d (snd iter (map_keys (px_listeners p1))) p1) (\<lambda>p. gret (p, None))) ?Q"
      if p1: "opened refused ?xs (bound e) ?p p1" "px_ok p1 (bound e1)" for p1 e1
    proof (rule triple_gbind [OF close_listeners_effect [OF p1(2)]])
      show "distinct (snd iter (map_keys (px_listeners p1)))" using iter(2) by simp
      have "proxy_synced refused (t ''services'') (t ''endpoints'') (bound e) p p'"
        if "closed_others d (snd iter (map_keys (px_listeners p1))) p1 p'" for p'
        by (rule proxy_synced_parts [OF en named s [unfolded deps] p1(1) xs that _ ok]) (use iter(2) in simp)
      then show "triple (\<lambda>w. \<exists>e'. closed_others d (snd iter (map_keys (px_listeners p1))) p1 p' \<and> px_ok p' (bound e') \<and> at_table t e' w)
          (gret (p', None)) ?Q" for p'
        by (intro triple_gret) auto
    qed
    show "triple (at_table t e) (case s of (d, eps) \<Rightarrow>
        gbind (open_listeners Listen (map (\<lambda>k. (k, the (fmlookup d k))) (fst iter (map_keys d))) (p\<lparr>px_endpoints := eps\<rparr>)) (\<lambda>p.
          gbind (close_listeners Close d (snd iter (map_keys (px_listeners p))) p) (\<lambda>p. gret (p, None)))) ?Q"
      unfolding deps prod.case
      by (rule triple_gbind [OF opens], rule triple_ex, rule triple_assuming, rule triple_assuming, rule closes)
  qed
  then show "triple (at_table t e) (case r of Inl err \<Rightarrow> gret (p, Some err)
     | Inr services \<Rightarrow> gbind (desired_ports C (elems services) (fmempty, px_endpoints p)) (\<lambda>(d, eps).
           gbind (open_listeners Listen (map (\<lambda>k. (k, the (fmlookup d k))) (fst iter (map_keys d))) (p\<lparr>px_endpoints := eps\<rparr>)) (\<lambda>p.
             gbind (close_listeners Close d (snd iter (map_keys (px_listeners p))) p) (\<lambda>p. gret (p, None))))) ?Q"
    unfolding r sum.case elems_slice_of .
qed

text \<open>The same of a world\<close>

lemma px_sync_runs:
  assumes "good w" and "tidy (tab w ''services'')" and "px_ok p (bound (env w))"
    and "\<And>ks. set (fst iter ks) = set ks \<and> distinct (fst iter ks)" and "\<And>ks. set (snd iter ks) = set ks \<and> distinct (snd iter ks)"
  shows "\<exists>p' w'. px_sync C Listen Close iter p w = (Ret (p', None), w') \<and> good w' \<and> tab w' = tab w \<and> px_ok p' (bound (env w')) \<and>
    proxy_synced refused (tab w ''services'') (tab w ''endpoints'') (bound (env w)) p p'"
proof -
  have "at_table (tab w) (env w) w" using assms(1) by (simp add: world_at_def)
  from tripleE [OF px_sync_effect [of "tab w", OF assms(2-5)] this]
  obtain r w' where run: "px_sync C Listen Close iter p w = (Ret r, w')" and "snd r = None"
    and synced: "\<exists>e'. proxy_synced refused (tab w ''services'') (tab w ''endpoints'') (bound (env w)) p (fst r) \<and>
       px_ok (fst r) (bound e') \<and> at_table (tab w) e' w'"
    by blast
  then have "r = (fst r, None)" by (metis prod.collapse)
  with run synced show ?thesis by (auto simp: world_at_def)
qed

end

section \<open>Backends\<close>

text \<open>The addresses the cached endpoints of a service offer\<close>

definition offered :: "'l Proxier \<Rightarrow> string \<Rightarrow> string list" where
  "offered p n = (case fmlookup (px_endpoints p) n of
     None \<Rightarrow> []
   | Some ep \<Rightarrow> (case elems (ep_Subsets ep) of [] \<Rightarrow> [] | ss # _ \<Rightarrow> backends ss))"

lemma pick_backend_offered:
  "pick_backend Intn p n = (if offered p n = [] then gret None
     else gbind (Intn (length (offered p n))) (\<lambda>k.
       if k < length (offered p n) then gret (Some (offered p n ! k)) else gpanic Index_out_of_range))"
proof (cases "fmlookup (px_endpoints p) n")
  case None
  then show ?thesis by (simp add: pick_backend_def offered_def)
next
  case (Some ep)
  show ?thesis
  proof (cases "elems (ep_Subsets ep)")
    case Nil
    with Some show ?thesis by (simp add: pick_backend_def offered_def)
  next
    case (Cons ss rest)
    with Some have "offered p n = backends ss" by (simp add: offered_def)
    moreover have "elems (es_Addresses ss) = [] \<longleftrightarrow> backends ss = []" by (simp add: backends_def Let_def)
    ultimately show ?thesis using Some Cons by (simp add: pick_backend_def Let_def cong: if_cong)
  qed
qed

context dice
begin

lemma pick_backend_effect:
  "triple (world_at good tab env t e) (pick_backend Intn p n)
    (\<lambda>b w. (if offered p n = [] then b = None else \<exists>a \<in> set (offered p n). b = Some a) \<and> (\<exists>e'. world_at good tab env t e' w))"
proof (cases "offered p n = []")
  case True
  then show ?thesis unfolding pick_backend_offered by (auto intro!: triple_gret)
next
  case False
  then have "0 < length (offered p n)" by simp
  show ?thesis
    unfolding pick_backend_offered if_not_P [OF False]
  proof (rule triple_gbind [OF roll [OF \<open>0 < _\<close>]], rule triple_assuming)
    fix k assume "k < length (offered p n)"
    then show "triple (\<lambda>w. \<exists>e'. world_at good tab env t e' w)
      (if k < length (offered p n) then gret (Some (offered p n ! k)) else gpanic Index_out_of_range)
      (\<lambda>b w. (\<exists>a \<in> set (offered p n). b = Some a) \<and> (\<exists>e'. world_at good tab env t e' w))"
      by (auto intro!: triple_gret)
  qed
qed

end


section \<open>In the cluster\<close>

text \<open>
  A world whose environment is the node of the proxy: the addresses listened on, each with the number
  of its listener, and a stream of random numbers. An address is refused unless its port is one.
\<close>

record node_net =
  nn_bound :: "(string \<times> nat) list"
  nn_dice :: dice_source

definition bad_address :: "string \<Rightarrow> bool" where
  "bad_address addr \<longleftrightarrow> ParseInt (tl addr) < 1 \<or> 65535 < ParseInt (tl addr)"

definition net_Listen :: "string \<Rightarrow> (node_net cluster, nat result) go" where
  "net_Listen addr w =
     (let b = nn_bound (w_env w); ln = Suc (sum_list (map snd b)) in
      if bad_address addr \<or> addr \<in> fst ` set b then (Ret (Inl (Errorf ''listen tcp'')), w)
      else (Ret (Inr ln), w\<lparr>w_env := (w_env w)\<lparr>nn_bound := b @ [(addr, ln)]\<rparr>\<rparr>))"

definition net_Close :: "nat \<Rightarrow> (node_net cluster, gerror option) go" where
  "net_Close ln w =
     (Ret None, w\<lparr>w_env := (w_env w)\<lparr>nn_bound := filter (\<lambda>x. snd x \<noteq> ln) (nn_bound (w_env w))\<rparr>\<rparr>)"

definition net_Intn :: "nat \<Rightarrow> (node_net cluster, nat) go" where
  "net_Intn n w =
     (let d = nn_dice (w_env w) in
      (Ret (ds_roll d (ds_next d) mod n), w\<lparr>w_env := (w_env w)\<lparr>nn_dice := d\<lparr>ds_next := Suc (ds_next d)\<rparr>\<rparr>\<rparr>))"

lemma world_at_env:
  "world_at cluster_good cluster_table w_env t e w \<Longrightarrow> world_at cluster_good cluster_table w_env t e' (w\<lparr>w_env := e'\<rparr>)"
  by (auto simp: world_at_def cluster_good_def cluster_table_def world_good_def world_table_def)

lemma next_listener: "Suc (sum_list (map snd b)) \<notin> snd ` set b"
proof
  assume "Suc (sum_list (map snd b)) \<in> snd ` set b"
  then have "Suc (sum_list (map snd b)) \<in> set (map snd b)" by simp
  then have "Suc (sum_list (map snd b)) \<le> sum_list (map snd b)" by (intro member_le_sum_list) simp_all
  then show False by simp
qed

interpretation net_cluster: network "cluster_client base" cluster_good cluster_table w_env net_Listen net_Close
  "Collect bad_address" nn_bound for base
proof unfold_locales
  fix t addr ln and e :: node_net
  let ?P = "world_at cluster_good cluster_table w_env t"
  show "triple (?P e) (net_Close ln) (\<lambda>r w. \<exists>e'. nn_bound e' = filter (\<lambda>x. snd x \<noteq> ln) (nn_bound e) \<and> ?P e' w)"
    unfolding triple_def net_Close_def using world_at_env
    by (fastforce simp: world_at_def)
  let ?ln = "Suc (sum_list (map snd (nn_bound e)))"
  show "triple (?P e) (net_Listen addr) (\<lambda>r w.
      if addr \<in> Collect bad_address \<union> fst ` set (nn_bound e) then (\<exists>err. r = Inl err) \<and> ?P e w
      else \<exists>ln e'. r = Inr ln \<and> ln \<notin> snd ` set (nn_bound e) \<and> nn_bound e' = nn_bound e @ [(addr, ln)] \<and> ?P e' w)"
  proof (rule tripleI)
    fix w assume w: "?P e w"
    then have env: "w_env w = e" by (simp add: world_at_def)
    show "\<exists>r w'. net_Listen addr w = (Ret r, w') \<and>
      (if addr \<in> Collect bad_address \<union> fst ` set (nn_bound e) then (\<exists>err. r = Inl err) \<and> ?P e w'
       else \<exists>ln e'. r = Inr ln \<and> ln \<notin> snd ` set (nn_bound e) \<and> nn_bound e' = nn_bound e @ [(addr, ln)] \<and> ?P e' w')"
    proof (cases "addr \<in> Collect bad_address \<union> fst ` set (nn_bound e)")
      case True
      with w show ?thesis by (simp add: net_Listen_def env)
    next
      case False
      let ?e = "e\<lparr>nn_bound := nn_bound e @ [(addr, ?ln)]\<rparr>"
      have "net_Listen addr w = (Ret (Inr ?ln), w\<lparr>w_env := ?e\<rparr>)" using False by (simp add: net_Listen_def env Let_def)
      moreover have "?P ?e (w\<lparr>w_env := ?e\<rparr>)" using world_at_env [OF w] .
      moreover have "nn_bound ?e = nn_bound e @ [(addr, ?ln)]" by simp
      ultimately show ?thesis unfolding if_not_P [OF False] using next_listener by blast
    qed
  qed
qed

interpretation net_dice: dice "cluster_client base" cluster_good cluster_table w_env net_Intn for base
proof unfold_locales
  fix n :: nat and t and e :: node_net assume "0 < n"
  then show "triple (world_at cluster_good cluster_table w_env t e) (net_Intn n)
    (\<lambda>k w. k < n \<and> (\<exists>e'. world_at cluster_good cluster_table w_env t e' w))"
    unfolding triple_def net_Intn_def Let_def using world_at_env by fastforce
qed


section \<open>A small node\<close>

text \<open>A service with a node port, and a proxy that still serves this port for a service that is gone\<close>

definition demo_front :: Service where
  "demo_front = Service_zero\<lparr>svc_ObjectMeta := ObjectMeta_zero\<lparr>om_Name := ''front''\<rparr>,
     svc_Spec := ServiceSpec_zero\<lparr>ssp_Ports := [ServicePort_zero\<lparr>sp_NodePort := 30080\<rparr>]\<rparr>\<rparr>"

definition demo_net :: node_net where
  "demo_net = \<lparr>nn_bound = [(px_addr 30080, 1)], nn_dice = \<lparr>ds_roll = (\<lambda>i. i), ds_next = 0\<rparr>\<rparr>"

definition demo_proxier :: "nat Proxier" where
  "demo_proxier = \<lparr>px_listeners = fmupd 30080 1 fmempty, px_endpoints = fmempty, px_serving = [(1, ''old'')]\<rparr>"

lemma demo_front_settled: "settled_obj (OService demo_front)"
  by (simp add: settled_iff marshal_def codec_oks demo_front_def Service_zero_def ObjectMeta_zero_def
      ServiceSpec_zero_def ServicePort_zero_def IntOrString_zero_def ServiceStatus_zero_def LoadBalancerStatus_zero_def
      IntOrString_codec_def)

lemma demo_front_simps [simp]:
  "om_Name (svc_ObjectMeta demo_front) = ''front''" "obj_name (OService demo_front) = ''front''"
  "exposes demo_front port \<longleftrightarrow> port = 30080"
  by (auto simp: demo_front_def exposes_def obj_name_def ServiceSpec_zero_def)

lemma demo_front_table:
  "cluster_table (cluster_with [OService demo_front] e) ''services'' = [''front'' \<mapsto> OService demo_front]"
  using demo_single [OF demo_front_settled, of e "''services''"] by simp

lemma demo_front_tidy: "tidy (cluster_table (cluster_with [OService demo_front] e) ''services'')"
  by (auto simp: demo_front_table tidy_def named_def plain_name_def name_char_def)

lemma demo_front_exposing:
  "exposing (cluster_table (cluster_with [OService demo_front] e) ''services'') port = (if port = 30080 then {''front''} else {})"
  by (auto simp: exposing_def demo_front_table split: if_splits)

lemma demo_proxier_ok: "px_ok demo_proxier (nn_bound demo_net)"
  by (auto simp: px_ok_def ports_ok_def demo_proxier_def demo_net_def handlers_def split: if_splits)

lemma demo_port_fine: "\<not> bad_address (px_addr 30080)"
  by (simp add: bad_address_def px_addr_def ParseInt_print clamp64_def)

section \<open>Properties\<close>

text \<open>C14: One sync of the proxy: the ports it listens on are the node ports of the services, as far as the
  system lets it open them; the listeners that stay are served as before, each port by one
  goroutine; the endpoints of these services are read again; the cluster is not changed.\<close>

theorem proxy_sync:
  assumes "network (cluster_client base) cluster_good cluster_table w_env Listen Close refused bound"
    and "cluster_good w" and "tidy (cluster_table w ''services'')" and "px_ok p (bound (w_env w))"
    and "\<And>ks. set (fst iter ks) = set ks \<and> distinct (fst iter ks)" and "\<And>ks. set (snd iter ks) = set ks \<and> distinct (snd iter ks)"
  shows "\<exists>p' w'. px_sync (cluster_client base) Listen Close iter p w = (Ret (p', None), w') \<and>
    cluster_good w' \<and> cluster_table w' = cluster_table w \<and> px_ok p' (bound (w_env w')) \<and>
    proxy_synced refused (cluster_table w ''services'') (cluster_table w ''endpoints'') (bound (w_env w)) p p'"
  using network.px_sync_runs [of "cluster_client base" cluster_good cluster_table w_env Listen Close refused bound w p iter, OF assms] .

theorem proxy_sync_witness:
  "\<exists>p' w'. px_sync (cluster_client ''http://api'') net_Listen net_Close (remdups, remdups) NewProxier
      (cluster_with [OService demo_front] (demo_net\<lparr>nn_bound := []\<rparr>)) = (Ret (p', None), w') \<and>
    (\<exists>ln. fmlookup (px_listeners p') 30080 = Some ln \<and> handlers p' ln = [''front''])"
proof -
  let ?e = "demo_net\<lparr>nn_bound := []\<rparr>" and ?p = "NewProxier :: nat Proxier"
  let ?w = "cluster_with [OService demo_front] ?e"
  have "demo_objects [OService demo_front]" using demo_front_settled by simp
  note good = demo_good [OF this]
  have ok: "px_ok ?p (nn_bound (w_env ?w))" by (simp add: px_ok_def ports_ok_def NewProxier_def)
  have iter: "set (fst (remdups, remdups) ks) = set ks \<and> distinct (fst (remdups, remdups) ks)"
    "set (snd (remdups, remdups) ks) = set ks \<and> distinct (snd (remdups, remdups) ks)" for ks :: "int32 list"
    by simp_all
  obtain p' w' where run: "px_sync (cluster_client ''http://api'') net_Listen net_Close (remdups, remdups) ?p ?w = (Ret (p', None), w')"
    and synced: "proxy_synced (Collect bad_address) (cluster_table ?w ''services'') (cluster_table ?w ''endpoints'') (nn_bound (w_env ?w)) ?p p'"
    using proxy_sync [where base = "''http://api''" and iter = "(remdups, remdups)",
        OF net_cluster.network_axioms good demo_front_tidy ok iter] by (elim exE conjE)
  have "\<exists>ln. fmlookup (px_listeners p') 30080 = Some ln \<and> handlers p' ln = [''front'']"
    using synced [unfolded proxy_synced_def, THEN conjunct1, THEN spec, of 30080]
    demo_port_fine by (simp add: demo_front_exposing NewProxier_def)
  with run show ?thesis by blast
qed

text \<open>C40: A node port that changes hands keeps its old service: while some service has the port its listener
  stays open, and its connections go on to the service it was opened for, though that service no
  longer has the port.\<close>

theorem reassigned_port_keeps_service:
  assumes "network (cluster_client base) cluster_good cluster_table w_env Listen Close refused bound"
    and "cluster_good w" and "tidy (cluster_table w ''services'')" and "px_ok p (bound (w_env w))"
    and "\<And>ks. set (fst iter ks) = set ks \<and> distinct (fst iter ks)" and "\<And>ks. set (snd iter ks) = set ks \<and> distinct (snd iter ks)"
    and "fmlookup (px_listeners p) port = Some ln" and "handlers p ln = [old]"
    and "exposing (cluster_table w ''services'') port = {new}" and "new \<noteq> old"
  shows "\<exists>p' w'. px_sync (cluster_client base) Listen Close iter p w = (Ret (p', None), w') \<and>
    fmlookup (px_listeners p') port = Some ln \<and> handlers p' ln = [old]"
proof -
  obtain p' w' where run: "px_sync (cluster_client base) Listen Close iter p w = (Ret (p', None), w')"
    and synced: "proxy_synced refused (cluster_table w ''services'') (cluster_table w ''endpoints'') (bound (w_env w)) p p'"
    using network.px_sync_runs [of "cluster_client base" cluster_good cluster_table w_env Listen Close refused bound w p iter, OF assms(1-6)] by (elim exE conjE)
  have "fmlookup (px_listeners p') port = Some ln \<and> handlers p' ln = handlers p ln"
    using synced [unfolded proxy_synced_def, THEN conjunct1, THEN spec, of port] assms(7,9) by simp
  with run assms(8) show ?thesis by auto
qed

theorem reassigned_port_keeps_service_witness:
  "\<exists>p' w'. px_sync (cluster_client ''http://api'') net_Listen net_Close (remdups, remdups) demo_proxier
      (cluster_with [OService demo_front] demo_net) = (Ret (p', None), w') \<and>
    fmlookup (px_listeners p') 30080 = Some 1 \<and> handlers p' 1 = [''old'']"
proof -
  let ?w = "cluster_with [OService demo_front] demo_net"
  have "demo_objects [OService demo_front]" using demo_front_settled by simp
  note good = demo_good [OF this]
  have ok: "px_ok demo_proxier (nn_bound (w_env ?w))" using demo_proxier_ok by simp
  have iter: "set (fst (remdups, remdups) ks) = set ks \<and> distinct (fst (remdups, remdups) ks)"
    "set (snd (remdups, remdups) ks) = set ks \<and> distinct (snd (remdups, remdups) ks)" for ks :: "int32 list"
    by simp_all
  have port: "fmlookup (px_listeners demo_proxier) 30080 = Some 1" "handlers demo_proxier 1 = [''old'']"
    "exposing (cluster_table ?w ''services'') 30080 = {''front''}" "''front'' \<noteq> ''old''"
    by (simp_all add: demo_proxier_def handlers_def demo_front_exposing)
  show ?thesis
    by (rule reassigned_port_keeps_service [where base = "''http://api''" and iter = "(remdups, remdups)",
        OF net_cluster.network_axioms good demo_front_tidy ok iter port])
qed

end
