(* ===== verification/Middleware.thy ===== *)
theory Middleware
  imports ServerSpec
begin

text \<open>
  What \<open>routes\<close> wraps around the handlers (internal/apiserver/server.go): the middleware of the
  repository, which counts requests and looks at client certificates, between those of chi and
  render, which are arguments. \<open>ServeTLS\<close> is the listener that asks for certificates.
\<close>

section \<open>Metrics\<close>

fun method_text :: "http_method \<Rightarrow> string" where
  "method_text GET = ''GET''"
| "method_text POST = ''POST''"
| "method_text PUT = ''PUT''"
| "method_text DELETE = ''DELETE''"

text \<open>\<open>httpRequestsTotal\<close> by method, path and status; \<open>httpRequestDuration\<close> by method and path\<close>

record metrics =
  mt_requests :: "string \<times> string \<times> string \<Rightarrow> nat"
  mt_durations :: "string \<times> string \<Rightarrow> int list"

definition no_metrics :: metrics where
  "no_metrics = \<lparr>mt_requests = (\<lambda>l. 0), mt_durations = (\<lambda>l. [])\<rparr>"

text \<open>What the middleware does once the handler has returned\<close>

definition observe_request :: "http_request \<Rightarrow> nat \<Rightarrow> int \<Rightarrow> metrics \<Rightarrow> metrics" where
  "observe_request r st duration m =
     (let status = print_nat st; path = rq_url r;
          l = (method_text (rq_method r), path, status); k = (method_text (rq_method r), path) in
      m\<lparr>mt_requests := (mt_requests m)(l := Suc (mt_requests m l)),
        mt_durations := (mt_durations m)(k := mt_durations m k @ [duration])\<rparr>)"

section \<open>Middleware\<close>

text \<open>A handler over the store and the metrics; a stream is counted when its handler returns.\<close>

type_synonym 's handler = "http_request \<Rightarrow> 's \<Rightarrow> (answer \<times> 's) option"

definition prometheusMiddleware :: "('s \<Rightarrow> 's \<Rightarrow> int) \<Rightarrow> ('s \<times> metrics) handler \<Rightarrow> ('s \<times> metrics) handler" where
  "prometheusMiddleware elapsed next r sm =
     (case next r sm of
        None \<Rightarrow> None
      | Some (Streaming i, sm') \<Rightarrow> Some (Streaming i, sm')
      | Some (Done resp, (s', m')) \<Rightarrow>
          Some (Done resp, (s', observe_request r (rp_status resp) (elapsed (fst sm) s') m')))"

text \<open>\<open>peers\<close> is \<open>r.TLS\<close> with its \<open>PeerCertificates\<close>.\<close>

definition authMiddleware :: "(http_request \<Rightarrow> 'cert list option) \<Rightarrow> 's handler \<Rightarrow> 's handler" where
  "authMiddleware peers next r s =
     (case peers r of
        Some certs \<Rightarrow> if length certs > 0 then next r s else next r s
      | None \<Rightarrow> next r s)"

text \<open>The routes, \<open>/metrics\<close> among them: \<open>promhttp\<close> prints what has been counted.\<close>

definition route_handler :: "(metrics \<Rightarrow> string) \<Rightarrow> 's Server \<Rightarrow> ('s \<times> metrics) handler" where
  "route_handler promhttp srv r = (\<lambda>(s, m).
     if sv_Router srv (rq_method r) (rq_url r) = Metrics
     then Some (Done \<lparr>rp_status = 200, rp_body = promhttp m\<rparr>, (s, m))
     else map_option (\<lambda>(a, s'). (a, (s', m))) (ServeHTTP srv r s))"

text \<open>The chain of \<open>routes\<close>, the first \<open>Use\<close> outermost\<close>

definition routes :: "(('s \<times> metrics) handler \<Rightarrow> ('s \<times> metrics) handler) \<Rightarrow> (('s \<times> metrics) handler \<Rightarrow> ('s \<times> metrics) handler) \<Rightarrow>
    (('s \<times> metrics) handler \<Rightarrow> ('s \<times> metrics) handler) \<Rightarrow> ('s \<Rightarrow> 's \<Rightarrow> int) \<Rightarrow> (http_request \<Rightarrow> 'cert list option) \<Rightarrow>
    (metrics \<Rightarrow> string) \<Rightarrow> 's Server \<Rightarrow> ('s \<times> metrics) handler" where
  "routes Logger Recoverer SetContentType elapsed peers promhttp srv =
     Logger (Recoverer (SetContentType (SetContentType
       (prometheusMiddleware elapsed (authMiddleware peers (route_handler promhttp srv))))))"

text \<open>Middleware that only logs, only acts on a panic, or only sets a context value\<close>

definition passes :: "('s handler \<Rightarrow> 's handler) \<Rightarrow> bool" where
  "passes mw \<longleftrightarrow> (\<forall>h. mw h = h)"

text \<open>Requests one after the other\<close>

fun serve_all :: "'s handler \<Rightarrow> http_request list \<Rightarrow> 's \<Rightarrow> (answer list \<times> 's) option" where
  "serve_all h [] s = Some ([], s)"
| "serve_all h (r # rs) s =
     (case h r s of
        None \<Rightarrow> None
      | Some (a, s') \<Rightarrow> map_option (\<lambda>(as, s''). (a # as, s'')) (serve_all h rs s'))"

fun request_labels :: "http_request \<Rightarrow> answer \<Rightarrow> (string \<times> string \<times> string) option" where
  "request_labels r (Done resp) = Some (method_text (rq_method r), rq_url r, print_nat (rp_status resp))"
| "request_labels r (Streaming i) = None"

definition counted :: "string \<times> string \<times> string \<Rightarrow> http_request list \<Rightarrow> answer list \<Rightarrow> nat" where
  "counted l rs as = length (filter (\<lambda>(r, a). request_labels r a = Some l) (zip rs as))"

lemma authMiddleware_lets_everyone: "authMiddleware peers next = next"
  by (intro ext) (simp add: authMiddleware_def split: option.split)

lemma routes_one:
  assumes "passes Logger" and "passes Recoverer" and "passes SetContentType"
    and "sv_Router srv (rq_method r) (rq_url r) \<noteq> Metrics"
  shows "routes Logger Recoverer SetContentType elapsed peers promhttp srv r (s, m) =
    (case ServeHTTP srv r s of
       None \<Rightarrow> None
     | Some (Streaming i, s') \<Rightarrow> Some (Streaming i, (s', m))
     | Some (Done resp, s') \<Rightarrow> Some (Done resp, (s', observe_request r (rp_status resp) (elapsed s s') m)))"
  using assms
  by (simp add: routes_def passes_def authMiddleware_lets_everyone prometheusMiddleware_def route_handler_def
      split: option.split prod.split answer.split)

lemma observed_requests:
  "mt_requests (observe_request r (rp_status resp) d m) l =
     mt_requests m l + (if request_labels r (Done resp) = Some l then 1 else 0)"
  by (auto simp: observe_request_def Let_def)

section \<open>The TLS listener\<close>

text \<open>What \<open>ListenAndServeTLS\<close> is asked to do\<close>

record ('pool, 'h) tls_server =
  ts_Addr :: string
  ts_Handler :: 'h
  ts_ClientCAs :: 'pool
  ts_RequireAndVerify :: bool

text \<open>Text that is no certificate leaves the pool as it was; \<open>addPEM\<close> reports it and nobody asks.\<close>

definition Server_ServeTLS :: "(string \<Rightarrow> string result) \<Rightarrow> 'pool \<Rightarrow> (string \<Rightarrow> 'pool \<Rightarrow> 'pool) \<Rightarrow>
    (('pool, 'h) tls_server \<Rightarrow> string \<Rightarrow> string \<Rightarrow> ('w, gerror option) go) \<Rightarrow> 'h \<Rightarrow>
    string \<Rightarrow> string \<Rightarrow> string \<Rightarrow> string \<Rightarrow> ('w, gerror option) go" where
  "Server_ServeTLS readFile emptyPool addPEM listen router addr certFile keyFile caFile =
     (case readFile caFile of
        Inl err \<Rightarrow> gret (Some (Errorf ''read ca cert''))
      | Inr caCert \<Rightarrow>
          listen \<lparr>ts_Addr = addr, ts_Handler = router, ts_ClientCAs = addPEM caCert emptyPool,
                  ts_RequireAndVerify = True\<rparr> certFile keyFile)"

section \<open>Properties\<close>

text \<open>C26: The middleware is invisible but for its counters: requests in any number, one after the other, get
  the answers and leave the store they would without it, a blocked one included; and for every
  method, path and status the counter has grown by the number of requests answered that way.\<close>

theorem middleware_only_counts:
  assumes "passes Logger" and "passes Recoverer" and "passes SetContentType"
    and "\<forall>r \<in> set rs. sv_Router srv (rq_method r) (rq_url r) \<noteq> Metrics"
  shows "map_option (\<lambda>(as, s', m'). (as, s', mt_requests m'))
      (serve_all (routes Logger Recoverer SetContentType elapsed peers promhttp srv) rs (s, m)) =
    map_option (\<lambda>(as, s'). (as, s', \<lambda>l. mt_requests m l + counted l rs as)) (serve_all (ServeHTTP srv) rs s)"
  using assms(4)
proof (induction rs arbitrary: s m)
  case (Cons r rs)
  note one = routes_one [OF assms(1-3), of srv r elapsed peers promhttp s m]
  show ?case
  proof (cases "ServeHTTP srv r s")
    case None
    with one Cons.prems show ?thesis by simp
  next
    case (Some as)
    obtain a s1 where a: "as = (a, s1)" by (cases as)
    define m1 where "m1 = (case a of Done resp \<Rightarrow> observe_request r (rp_status resp) (elapsed s s1) m | Streaming i \<Rightarrow> m)"
    have step: "routes Logger Recoverer SetContentType elapsed peers promhttp srv r (s, m) = Some (a, (s1, m1))"
      using one Cons.prems Some a by (simp add: m1_def split: answer.split)
    have count: "mt_requests m1 l = mt_requests m l + (if request_labels r a = Some l then 1 else 0)" for l
      by (cases a) (simp_all add: m1_def observed_requests)
    have "counted l (r # rs) (a # as) = (if request_labels r a = Some l then 1 else 0) + counted l rs as" for l as
      by (simp add: counted_def)
    with Cons.IH [of s1 m1] Cons.prems Some a step count show ?thesis
      by (cases "serve_all (ServeHTTP srv) rs s1";
          cases "serve_all (routes Logger Recoverer SetContentType elapsed peers promhttp srv) rs (s1, m1)")
        (auto simp: fun_eq_iff)
  qed
qed (simp add: counted_def)

text \<open>A request deleting the lease of \<open>lease_store\<close>\<close>

definition delete_request :: http_request where
  "delete_request = \<lparr>rq_method = DELETE, rq_url = ''/api/v1/leases/a'', rq_watch = False, rq_body = []\<rparr>"

lemma delete_twice:
  "\<exists>r1 r2 s'. serve_all (ServeHTTP plain_server) [delete_request, delete_request] lease_store = Some ([Done r1, Done r2], s') \<and>
     rp_status r1 = 200 \<and> rp_status r2 = 404"
proof -
  have name: "plain_name ''a''" by (simp add: plain_name_def name_char_def)
  have k: "keeps ms_inv ms_view lease_store" using lease_store_facts by (simp add: keeps_def)
  note del = MemoryStore.ServeHTTP_delete [OF lease_store_facts(1) _ _ name routes(7), of _ "OLease Lease_zero" False "[]"]
  obtain r1 s1 where one: "ServeHTTP plain_server delete_request lease_store = Some (Done r1, s1)"
    "keeps ms_inv ms_view s1" "ms_quiet s1"
    "(rp_status r1, objs (ms_view s1)) = delete_effect ''leases'' ''a'' (objs (ms_view lease_store))"
    using del [OF k lease_store_facts(4)] by (auto simp: delete_request_def)
  obtain r2 s2 where two: "ServeHTTP plain_server delete_request s1 = Some (Done r2, s2)"
    "(rp_status r2, objs (ms_view s2)) = delete_effect ''leases'' ''a'' (objs (ms_view s1))"
    using del [OF one(2,3)] by (auto simp: delete_request_def)
  have "rp_status r1 = 200" "objs (ms_view s1) ''leases'' ''a'' = None"
    using one(4) by (auto simp: delete_effect_def lease_store_table set_obj_def split: if_splits)
  moreover from this have "rp_status r2 = 404" using two(2) by (auto simp: delete_effect_def split: if_splits)
  ultimately show ?thesis using one(1) two(1) by simp
qed

theorem middleware_only_counts_witness:
  "\<exists>as s' m'. serve_all (routes (\<lambda>h. h) (\<lambda>h. h) (\<lambda>h. h) (\<lambda>s s'. 5) (\<lambda>r. None :: nat list option) (\<lambda>m. []) plain_server)
      [delete_request, delete_request] (lease_store, no_metrics) = Some (as, s', m') \<and>
     mt_requests m' (''DELETE'', ''/api/v1/leases/a'', ''200'') = 1 \<and>
     mt_requests m' (''DELETE'', ''/api/v1/leases/a'', ''404'') = 1"
proof -
  obtain r1 r2 s' where run: "serve_all (ServeHTTP plain_server) [delete_request, delete_request] lease_store = Some ([Done r1, Done r2], s')"
    and st: "rp_status r1 = 200" "rp_status r2 = 404" using delete_twice by blast
  have route: "\<forall>r \<in> set [delete_request, delete_request]. sv_Router plain_server (rq_method r) (rq_url r) \<noteq> Metrics"
    by (simp add: delete_request_def plain_server_def plain_router_def resource_routes_def)
  have nums: "print_nat 200 = ''200''" "print_nat 404 = ''404''" by (code_simp, code_simp)
  let ?all = "serve_all (routes (\<lambda>h. h) (\<lambda>h. h) (\<lambda>h. h) (\<lambda>s s'. 5) (\<lambda>r. None :: nat list option) (\<lambda>m. []) plain_server)
      [delete_request, delete_request] (lease_store, no_metrics)"
  have "map_option (\<lambda>(as, s', m'). (as, s', mt_requests m')) ?all = map_option (\<lambda>(as, s'). (as, s', \<lambda>l. mt_requests no_metrics l +
      counted l [delete_request, delete_request] as)) (serve_all (ServeHTTP plain_server) [delete_request, delete_request] lease_store)"
    by (rule middleware_only_counts [OF _ _ _ route]) (simp_all add: passes_def)
  then have "map_option (\<lambda>(as, s', m'). (as, s', mt_requests m')) ?all = Some ([Done r1, Done r2], s',
      \<lambda>l. counted l [delete_request, delete_request] [Done r1, Done r2])"
    unfolding run by (simp add: no_metrics_def)
  then obtain m' where m: "?all = Some ([Done r1, Done r2], s', m')"
    "mt_requests m' = (\<lambda>l. counted l [delete_request, delete_request] [Done r1, Done r2])" by auto
  have "counted (''DELETE'', ''/api/v1/leases/a'', ''200'') [delete_request, delete_request] [Done r1, Done r2] = 1"
    "counted (''DELETE'', ''/api/v1/leases/a'', ''404'') [delete_request, delete_request] [Done r1, Done r2] = 1"
    by (simp_all add: counted_def delete_request_def st nums)
  with m show ?thesis by simp
qed

end
