(* ===== verification/Commands.thy ===== *)
theory Commands
  imports Middleware NodeAgent Proxy Scheduler LeaderElection ReplicaSetController DeploymentController ServiceController
begin

text \<open>
  cmd/: the programs that start the components. What \<open>flag.Parse\<close> has read, environment, host name and
  process id are arguments, what \<open>log.Fatalf\<close> ends is a panic. The controllers a manager runs, and the
  processes of a cluster, take turns; only the order within each is modelled. A process that runs
  until a signal is given the ticks before it.
\<close>

section \<open>Flags and clients\<close>

definition flag_string :: "(string \<Rightarrow> string option) \<Rightarrow> string \<Rightarrow> string \<Rightarrow> string" where
  "flag_string flags name dflt = (case flags name of None \<Rightarrow> dflt | Some v \<Rightarrow> v)"

definition flag_bool :: "(string \<Rightarrow> string option) \<Rightarrow> string \<Rightarrow> bool" where
  "flag_bool flags name = (flag_string flags name ''false'' = ''true'')"

text \<open>\<open>client.New\<close> on the flags every client program but the scheduler has; \<open>New\<close> is \<open>New_client\<close> on its files\<close>

definition flag_client :: "(string \<Rightarrow> string \<Rightarrow> string \<Rightarrow> string \<Rightarrow> 'w Client outcome) \<Rightarrow> (string \<Rightarrow> string option) \<Rightarrow>
    'w Client outcome" where
  "flag_client New flags = New (flag_string flags ''api-url'' ''http://localhost:8080'') (flag_string flags ''tls-cert'' [])
     (flag_string flags ''tls-key'' []) (flag_string flags ''tls-ca'' [])"

definition with_client :: "(string \<Rightarrow> string \<Rightarrow> string \<Rightarrow> string \<Rightarrow> 'w Client outcome) \<Rightarrow> (string \<Rightarrow> string option) \<Rightarrow>
    ('w Client \<Rightarrow> ('w, 'a) go) \<Rightarrow> ('w, 'a) go" where
  "with_client New flags k =
     (case flag_client New flags of Panic h \<Rightarrow> gpanic h | Ret cli \<Rightarrow> k cli)"

section \<open>cmd/kubelet\<close>

definition kubelet_node :: "string \<Rightarrow> string \<Rightarrow> string" where
  "kubelet_node nodeName host = (if nodeName = [] then host else nodeName)"

definition kubelet_main ::
  "'w Client \<Rightarrow> ('w, gotime) go \<Rightarrow> 'w Runtime \<Rightarrow> (Pod \<Rightarrow> Container \<Rightarrow> Probe \<Rightarrow> ('w, bool result) go) \<Rightarrow>
     (string list \<Rightarrow> string list) \<Rightarrow> string \<Rightarrow> string \<Rightarrow> wake list \<Rightarrow> ('w, unit) go" where
  "kubelet_main c Now rt probe iter nodeName host ws =
     gbind (agent_Start c Now rt probe iter (kubelet_node nodeName host) ws) (\<lambda>err. case err of
       Some e \<Rightarrow> gpanic Fatal
     | None \<Rightarrow> gret ())"

definition kubelet_process ::
  "(string \<Rightarrow> string \<Rightarrow> string \<Rightarrow> string \<Rightarrow> 'w Client outcome) \<Rightarrow> (string \<Rightarrow> string option) \<Rightarrow> string \<Rightarrow> ('w, gotime) go \<Rightarrow>
     'w Runtime \<Rightarrow> (Pod \<Rightarrow> Container \<Rightarrow> Probe \<Rightarrow> ('w, bool result) go) \<Rightarrow> (string list \<Rightarrow> string list) \<Rightarrow> wake list \<Rightarrow> ('w, unit) go" where
  "kubelet_process New flags host Now rt probe iter ws =
     with_client New flags (\<lambda>c. kubelet_main c Now rt probe iter (flag_string flags ''node-name'' []) host ws)"

section \<open>cmd/scheduler and cmd/proxy\<close>

text \<open>\<open>scheduler.New\<close> gives its client no certificate, and the program has no flag for one.\<close>

definition scheduler_New :: "(string \<Rightarrow> string \<Rightarrow> string \<Rightarrow> string \<Rightarrow> 'w Client outcome) \<Rightarrow> string \<Rightarrow> 'w Client outcome" where
  "scheduler_New New apiURL = New apiURL [] [] []"

definition scheduler_process ::
  "(string \<Rightarrow> string \<Rightarrow> string \<Rightarrow> string \<Rightarrow> 'w Client outcome) \<Rightarrow> (string \<Rightarrow> string option) \<Rightarrow> (nat \<Rightarrow> ('w, nat) go) \<Rightarrow>
     (string \<Rightarrow> int64) \<Rightarrow> wake list \<Rightarrow> ('w, unit) go" where
  "scheduler_process New flags Intn cores ws =
     (case scheduler_New New (flag_string flags ''api-url'' ''http://localhost:8080'') of
        Panic h \<Rightarrow> gpanic h
      | Ret c \<Rightarrow> sched_Start c Intn cores ws)"

definition proxy_process ::
  "(string \<Rightarrow> string \<Rightarrow> string \<Rightarrow> string \<Rightarrow> 'w Client outcome) \<Rightarrow> (string \<Rightarrow> string option) \<Rightarrow>
     (string \<Rightarrow> ('w, 'l result) go) \<Rightarrow> ('l \<Rightarrow> ('w, gerror option) go) \<Rightarrow>
     (int32 list \<Rightarrow> int32 list) \<times> (int32 list \<Rightarrow> int32 list) \<Rightarrow> wake list \<Rightarrow> ('w, 'l Proxier) go" where
  "proxy_process New flags Listen Close iter ws =
     with_client New flags (\<lambda>c. px_Run c Listen Close iter ws NewProxier)"

section \<open>cmd/apiserver\<close>

text \<open>Which listener the server starts\<close>

datatype serving_mode = ServeTLS string string string string | ListenAndServe string

definition apiserver_listen :: "string \<Rightarrow> string \<Rightarrow> string \<Rightarrow> string \<Rightarrow> serving_mode" where
  "apiserver_listen PORT tlsCert tlsKey tlsCA =
     (let port = (if PORT = [] then ''8080'' else PORT) in
      if tlsCert \<noteq> [] \<and> tlsKey \<noteq> [] \<and> tlsCA \<noteq> [] then ServeTLS ('':'' @ port) tlsCert tlsKey tlsCA
      else ListenAndServe ('':'' @ port))"

definition apiserver_serve :: "(string \<Rightarrow> string result) \<Rightarrow> 'pool \<Rightarrow> (string \<Rightarrow> 'pool \<Rightarrow> 'pool) \<Rightarrow>
    (('pool, 'h) tls_server \<Rightarrow> string \<Rightarrow> string \<Rightarrow> ('w, gerror option) go) \<Rightarrow> (string \<Rightarrow> 'h \<Rightarrow> ('w, gerror option) go) \<Rightarrow>
    'h \<Rightarrow> serving_mode \<Rightarrow> ('w, gerror option) go" where
  "apiserver_serve readFile emptyPool addPEM listenTLS listen router mode =
     (case mode of
        ServeTLS addr cert key ca \<Rightarrow> Server_ServeTLS readFile emptyPool addPEM listenTLS router addr cert key ca
      | ListenAndServe addr \<Rightarrow> listen addr router)"

text \<open>\<open>openStore\<close> is \<open>NewMemoryStore\<close> on the disk, \<open>wrap\<close> the middleware of \<open>routes\<close>.\<close>

definition apiserver_process :: "(string \<Rightarrow> string option) \<Rightarrow> string \<Rightarrow> (string \<Rightarrow> MemoryStore) \<Rightarrow>
    ((string \<times> string) list \<Rightarrow> http_method \<Rightarrow> string \<Rightarrow> route) \<Rightarrow> (nat \<Rightarrow> json \<Rightarrow> http_response) \<Rightarrow>
    (MemoryStore Server \<Rightarrow> MemoryStore \<Rightarrow> 'h) \<Rightarrow> ('h \<Rightarrow> serving_mode \<Rightarrow> ('w, gerror option) go) \<Rightarrow> ('w, unit) go" where
  "apiserver_process flags PORT openStore chi render wrap serve =
     (let store = openStore (flag_string flags ''data-file'' ''k8s-lite.db'');
          server = NewServer MemoryStore_ops chi render in
      gbind (serve (wrap server store)
          (apiserver_listen PORT (flag_string flags ''tls-cert'' []) (flag_string flags ''tls-key'' [])
             (flag_string flags ''tls-ca'' [])))
        (\<lambda>err. case err of Some e \<Rightarrow> gpanic Fatal | None \<Rightarrow> gret ()))"

section \<open>cmd/controller-manager\<close>

definition manager_identity :: "string \<Rightarrow> string \<Rightarrow> nat \<Rightarrow> string" where
  "manager_identity host computer pid = host @ ''-'' @ computer @ ''-'' @ print_nat pid"

definition manager_config :: "string \<Rightarrow> Config" where
  "manager_config identity =
     \<lparr>le_LockName = ''k8s-lite-controller-manager'', le_Identity = identity,
      le_LeaseDuration = 15 * second_ns, le_RenewDeadline = 10 * second_ns, le_RetryPeriod = 2 * second_ns\<rparr>"

text \<open>The controllers of a manager, round by round in any order\<close>

datatype controller = ReplicaSets | Deployments | Services

definition controller_round :: "'w Client \<Rightarrow> ('w, string) go \<Rightarrow> (EndpointAddress list \<Rightarrow> EndpointAddress list) \<Rightarrow>
    controller \<Rightarrow> ('w, unit) go" where
  "controller_round c newUUID sortSlice k =
     (case k of
        ReplicaSets \<Rightarrow> rs_reconcile c newUUID
      | Deployments \<Rightarrow> gbind (dep_reconcile c) (\<lambda>err. gret ())
      | Services \<Rightarrow> gbind (syncServices c sortSlice) (\<lambda>err. gret ()))"

definition controllers_run :: "('w, string) go \<Rightarrow> (EndpointAddress list \<Rightarrow> EndpointAddress list) \<Rightarrow> controller list \<Rightarrow>
    'w Client \<Rightarrow> ('w, unit) go" where
  "controllers_run newUUID sortSlice ks c = for_each ks (controller_round c newUUID sortSlice)"

text \<open>
  \<open>main\<close>, once it has its client: without \<open>-leader-elect\<close> the controllers run on the signal's context,
  whose end ends the program; with it the elector runs them, and \<open>log.Fatalf\<close> is what it does on losing
  the lease. The three controllers are goroutines: a turn is a round of any of them.
\<close>

datatype 'w manager = Elects "'w elector" | Runs bool 'w | Exited "halt option" 'w

inductive manager_step :: "'w Client \<Rightarrow> ('w, gotime) go \<Rightarrow> ('w, string) go \<Rightarrow> (EndpointAddress list \<Rightarrow> EndpointAddress list) \<Rightarrow>
    string \<Rightarrow> ('w \<Rightarrow> 'w \<Rightarrow> bool) \<Rightarrow> 'w manager \<Rightarrow> 'w manager \<Rightarrow> bool" for c Now newUUID sortSlice identity others where
  Elector: "elector_step c Now (manager_config identity) (controller_round c newUUID sortSlice) (gpanic Fatal) others e e' \<Longrightarrow>
    manager_step c Now newUUID sortSlice identity others (Elects e) (Elects e')"
| Elector_returns: "er_at e = Returned \<Longrightarrow>
    manager_step c Now newUUID sortSlice identity others (Elects e) (Exited None (er_world e))"
| Elector_dies: "er_at e = Died h \<Longrightarrow>
    manager_step c Now newUUID sortSlice identity others (Elects e) (Exited (Some h) (er_world e))"
| Round: "controller_round c newUUID sortSlice k w = (Ret (), w') \<Longrightarrow>
    manager_step c Now newUUID sortSlice identity others (Runs dn w) (Runs dn w')"
| Round_panics: "controller_round c newUUID sortSlice k w = (Panic h, w') \<Longrightarrow>
    manager_step c Now newUUID sortSlice identity others (Runs dn w) (Exited (Some h) w')"
| Manager_signal: "manager_step c Now newUUID sortSlice identity others (Runs dn w) (Runs True w)"
| Run_ends: "manager_step c Now newUUID sortSlice identity others (Runs True w) (Exited None w)"
| World: "others w w' \<Longrightarrow> manager_step c Now newUUID sortSlice identity others (Runs dn w) (Runs dn w')"

definition manager_start :: "bool \<Rightarrow> 'w \<Rightarrow> 'w manager" where
  "manager_start leaderElect w = (if leaderElect then Elects (RunOrDie False w) else Runs False w)"

text \<open>The states a manager process can be in\<close>

definition manager_process ::
  "(string \<Rightarrow> string \<Rightarrow> string \<Rightarrow> string \<Rightarrow> 'w Client outcome) \<Rightarrow> (string \<Rightarrow> string option) \<Rightarrow> string \<Rightarrow> string \<Rightarrow> nat \<Rightarrow>
     ('w, gotime) go \<Rightarrow> ('w, string) go \<Rightarrow> (EndpointAddress list \<Rightarrow> EndpointAddress list) \<Rightarrow> ('w \<Rightarrow> 'w \<Rightarrow> bool) \<Rightarrow>
     'w \<Rightarrow> 'w manager \<Rightarrow> bool" where
  "manager_process New flags host computer pid Now newUUID sortSlice others w m \<longleftrightarrow>
     (case flag_client New flags of
        Panic h \<Rightarrow> m = Exited (Some h) w
      | Ret c \<Rightarrow> rtranclp (manager_step c Now newUUID sortSlice (manager_identity host computer pid) others)
          (manager_start (flag_bool flags ''leader-elect'') w) m)"

inductive_cases manager_exits: "manager_step c Now newUUID sortSlice identity others (Elects e) m"

section \<open>Shutting down\<close>

text \<open>
  A manager that leads ends with a fatal error on a plain signal: the context is done, the renewal loop
  returns, and \<open>OnStoppedLeading\<close> is called as if the lease had been lost. Once it has led, no run of it
  ends in any other way than with an error.
\<close>

lemma leader_shutdown_is_fatal:
  assumes "er_at e = Renewing"
  shows "rtranclp (manager_step c Now newUUID sortSlice identity others) (Elects e) (Exited (Some Fatal) (er_world e))"
proof -
  let ?step = "elector_step c Now (manager_config identity) (controller_round c newUUID sortSlice) (gpanic Fatal) others"
  let ?e1 = "e\<lparr>er_done := True\<rparr>" let ?e2 = "?e1\<lparr>er_at := Leaving\<rparr>"
  let ?e3 = "?e2\<lparr>er_at := Telling, er_terms := cancel_newest (er_terms ?e2)\<rparr>" let ?e4 = "?e3\<lparr>er_at := Died Fatal\<rparr>"
  have "?step e ?e1" using assms by (intro elector_step.Signal) (simp add: er_alive_def)
  moreover have "?step ?e1 ?e2" using assms by (intro elector_step.Renew_done) simp_all
  moreover have "?step ?e2 ?e3" by (intro elector_step.Cancel) simp
  moreover have "?step ?e3 ?e4"
    using elector_step.Tell_panics [of ?e3 "gpanic Fatal" Fatal "er_world e"] by (simp add: gpanic_run)
  moreover have "manager_step c Now newUUID sortSlice identity others (Elects ?e4) (Exited (Some Fatal) (er_world e))"
    using manager_step.Elector_dies [of ?e4] by simp
  ultimately show ?thesis
    by (meson manager_step.Elector rtranclp.rtrancl_into_rtrancl rtranclp.rtrancl_refl)
qed

lemma led_manager_never_exits_well:
  assumes "rtranclp (manager_step c Now newUUID sortSlice identity others) (manager_start True w) (Elects e)"
    and "er_terms e \<noteq> []"
  shows "\<not> manager_step c Now newUUID sortSlice identity others (Elects e) (Exited None w')"
proof
  let ?step = "elector_step c Now (manager_config identity) (controller_round c newUUID sortSlice) (gpanic Fatal) others"
  have reach: "case m of Elects e \<Rightarrow> rtranclp ?step (RunOrDie False w) e | Runs dn w \<Rightarrow> False | Exited r w \<Rightarrow> True"
    if "rtranclp (manager_step c Now newUUID sortSlice identity others) (manager_start True w) m" for m
    using that
  proof (induction rule: rtranclp_induct)
    case base
    show ?case by (simp add: manager_start_def)
  next
    case (step m m')
    from step(2,3) show ?case by (cases rule: manager_step.cases) (auto intro: rtranclp.rtrancl_into_rtrancl)
  qed
  then have r: "rtranclp ?step (RunOrDie False w) e" using assms(1) by fastforce
  then have "er_inv e" by (rule elector_inv)
  moreover have "er_stops e = 0"
    using elector_stops_fatal [OF r] by (simp add: gpanic_run RunOrDie_def)
  moreover assume "manager_step c Now newUUID sortSlice identity others (Elects e) (Exited None w')"
  then have "er_at e = Returned" by (rule manager_exits) simp_all
  ultimately show False using assms(2) by (simp add: er_inv_def er_alive_def)
qed

text \<open>The lease of a manager outlives seven missed renewals: it lasts 15 seconds, renewed every 2.\<close>

lemma manager_lease_seconds: "sint (lease_seconds (manager_config identity)) = 15"
  by (simp add: lease_seconds_def manager_config_def second_ns_def)

section \<open>A server that asks for certificates\<close>

text \<open>
  What crypto/tls documents of a listener with \<open>RequireAndVerifyClientCert\<close>: a handshake without a
  certificate fails, so the request is an error and the handler never sees it; with a certificate the
  pool verifies, requests go through. \<open>dial\<close> is the HTTP transport of a client with these credentials.
\<close>

definition mutual_tls :: "(('k \<times> string) option \<Rightarrow> http_request \<Rightarrow> 'w \<Rightarrow> http_response result \<times> 'w) \<Rightarrow> ('k \<times> string \<Rightarrow> bool) \<Rightarrow>
    (http_request \<Rightarrow> 'w \<Rightarrow> http_response result \<times> 'w) \<Rightarrow> bool" where
  "mutual_tls dial verified send \<longleftrightarrow>
     (\<forall>r w. \<exists>e. dial None r w = (Inl e, w)) \<and> (\<forall>cred. verified cred \<longrightarrow> dial (Some cred) = send)"

lemma refused_list:
  assumes "\<And>r w. \<exists>e. cl_HTTP c r w = (Inl e, w)"
  shows "\<exists>e. get_items c path L items w = (Ret (Inl e), w)"
proof -
  obtain e where "cl_HTTP c \<lparr>rq_method = GET, rq_url = cl_BaseURL c @ path, rq_watch = False, rq_body = []\<rparr> w = (Inl e, w)"
    using assms by blast
  then show ?thesis by (simp add: get_items_def HTTP_Do_def gbind_def gret_def)
qed

lemma refused_round:
  assumes "\<And>r w. \<exists>e. cl_HTTP c r w = (Inl e, w)"
  shows "scheduleOneRound c Intn cores w = (Ret (), w)"
proof -
  obtain e where "ListPods c [] w = (Ret (Inl e), w)"
    unfolding ListPods_def using refused_list [of c, OF assms] by blast
  then show ?thesis by (simp add: scheduleOneRound_def gbind_def gret_def)
qed

lemma run_loop_idle: "m w = (Ret (), w) \<Longrightarrow> run_loop m ws w = (Ret (), w)"
  by (induction m ws rule: run_loop.induct) (simp_all add: gret_def gbind_def)

lemma uncertified_scheduler_idle:
  assumes "mutual_tls dial verified send"
  shows "scheduler_process (New_client load read dial) flags Intn cores ws w = (Ret (), w)"
proof -
  let ?c = "\<lparr>cl_BaseURL = flag_string flags ''api-url'' ''http://localhost:8080'', cl_HTTP = dial None\<rparr>"
  have refused: "\<exists>e. cl_HTTP ?c r w = (Inl e, w)" for r w using assms by (simp add: mutual_tls_def)
  have "sched_Start ?c Intn cores ws w = (Ret (), w)"
    unfolding sched_Start_def by (rule run_loop_idle) (rule refused_round [of ?c, OF refused])
  then show ?thesis by (simp add: scheduler_process_def scheduler_New_def New_client_def)
qed

lemma certified_client:
  assumes "mutual_tls dial verified (cluster_send url)" and "load cert key = Inr k" and "read ca = Inr pool" and "verified (k, pool)"
    and "cert \<noteq> []" and "key \<noteq> []" and "ca \<noteq> []"
  shows "New_client load read dial url cert key ca = Ret (cluster_client url)"
  using assms by (simp add: New_client_def cluster_client_def mutual_tls_def)

text \<open>C23: A cluster whose API server asks for client certificates never schedules: the scheduler has no flag
  for a certificate and builds its client without one, so every request of every round is refused
  and nothing changes, whatever its flags, while a program given a verified certificate has a client
  that reaches the server.\<close>

theorem secure_cluster_never_schedules:
  assumes "mutual_tls dial verified (cluster_send (flag_string flags ''api-url'' ''http://localhost:8080''))"
    and "load (flag_string flags ''tls-cert'' []) (flag_string flags ''tls-key'' []) = Inr k"
    and "read (flag_string flags ''tls-ca'' []) = Inr ca" and "verified (k, ca)"
    and "\<forall>f \<in> {''tls-cert'', ''tls-key'', ''tls-ca''}. flag_string flags f [] \<noteq> []"
  shows "scheduler_process (New_client load read dial) flags Intn cores ws w = (Ret (), w) \<and>
    with_client (New_client load read dial) flags prog w =
      prog (cluster_client (flag_string flags ''api-url'' ''http://localhost:8080'')) w"
proof
  let ?url = "flag_string flags ''api-url'' ''http://localhost:8080''"
  show "scheduler_process (New_client load read dial) flags Intn cores ws w = (Ret (), w)"
    using assms(1) by (rule uncertified_scheduler_idle)
  have "New_client load read dial ?url (flag_string flags ''tls-cert'' []) (flag_string flags ''tls-key'' [])
      (flag_string flags ''tls-ca'' []) = Ret (cluster_client ?url)"
    by (rule certified_client [OF assms(1) _ _ assms(4)]) (use assms in simp_all)
  then show "with_client (New_client load read dial) flags prog w = prog (cluster_client ?url) w"
    by (simp add: with_client_def flag_client_def)
qed

text \<open>Credentials in three files, and a connection that needs them\<close>

definition demo_flags :: "string \<Rightarrow> string option" where
  "demo_flags = [''tls-cert'' \<mapsto> ''c.pem'', ''tls-key'' \<mapsto> ''c.key'', ''tls-ca'' \<mapsto> ''ca.pem'', ''api-url'' \<mapsto> ''https://api'']"

definition demo_dial :: "(string \<times> string) option \<Rightarrow> http_request \<Rightarrow> 'e cluster \<Rightarrow> http_response result \<times> 'e cluster" where
  "demo_dial cred = (case cred of None \<Rightarrow> (\<lambda>r w. (Inl (Errorf ''bad certificate''), w)) | Some _ \<Rightarrow> cluster_send ''https://api'')"

theorem secure_cluster_never_schedules_witness:
  "scheduler_process (New_client (\<lambda>cert key. Inr cert) Inr demo_dial) demo_flags roll_dice (\<lambda>_. 0) [Tick, Tick]
      (cluster_with demo_sched demo_dice) = (Ret (), cluster_with demo_sched demo_dice)"
proof -
  let ?w = "cluster_with demo_sched demo_dice"
  have "scheduler_process (New_client (\<lambda>cert key. Inr cert) Inr demo_dial) demo_flags roll_dice (\<lambda>_. 0) [Tick, Tick] ?w = (Ret (), ?w) \<and>
    with_client (New_client (\<lambda>cert key. Inr cert) Inr demo_dial) demo_flags (\<lambda>c. gret ()) ?w =
      gret () ?w"
    by (rule secure_cluster_never_schedules [where verified = "\<lambda>_. True" and k = "''c.pem''" and ca = "''ca.pem''"])
      (simp_all add: mutual_tls_def demo_dial_def flag_string_def demo_flags_def)
  then show ?thesis by blast
qed

end
