(* ===== verification/Rollout.thy ===== *)
theory Rollout
  imports ReplicaSetController DeploymentController
begin

text \<open>
  Deployment and replica set controller together. The replica sets of a deployment all carry the
  deployment's own selector, so after an update the old one (count 0) and the new one (the full
  count) claim the same pods: one deletes what the other creates, round by round.
\<close>

section \<open>Replica sets that share a selector\<close>

definition replicas :: "ReplicaSet \<Rightarrow> int32 option" where
  "replicas rs = rssp_Replicas (rs_Spec rs)"

text \<open>One replica set wants \<open>d\<close> pods, every other, and there is one, wants none of the same pods.\<close>

definition competing :: "strmap \<Rightarrow> int32 \<Rightarrow> string \<Rightarrow> ReplicaSet \<Rightarrow> table \<Rightarrow> bool" where
  "competing sel d b new t \<longleftrightarrow>
     t ''replicasets'' b = Some (OReplicaSet new) \<and> replicas new = Some d \<and> rs_selector new = sel \<and>
     (\<forall>n rs. n \<noteq> b \<longrightarrow> t ''replicasets'' n = Some (OReplicaSet rs) \<longrightarrow> replicas rs = Some 0 \<and> rs_selector rs = sel) \<and>
     (\<exists>n rs. n \<noteq> b \<and> t ''replicasets'' n = Some (OReplicaSet rs))"

lemma competing_listed:
  assumes "competing sel d b new t" and "enumerates (map OReplicaSet rss) (t ''replicasets'')" and "d \<noteq> 0"
  shows "new \<in> set rss" and "\<exists>rs \<in> set rss. rs \<noteq> new" and "distinct (filter (\<lambda>rs. rs = new) rss)"
    and "\<And>rs. rs \<in> set rss \<Longrightarrow> rs_selector rs = sel \<and> (rs = new \<or> replicas rs = Some 0)"
proof -
  let ?row = "t ''replicasets''"
  obtain ns where ns: "distinct ns" "set ns = dom ?row" "map OReplicaSet rss = map (\<lambda>n. the (?row n)) ns"
    using assms(2) unfolding enumerates_def by blast
  have len: "length rss = length ns" using arg_cong [OF ns(3), of length] by simp
  have at: "?row (ns ! i) = Some (OReplicaSet (rss ! i))" if "i < length rss" for i
  proof -
    have "OReplicaSet (rss ! i) = the (?row (ns ! i))"
      using arg_cong [OF ns(3), of "\<lambda>xs. xs ! i"] that len by simp
    moreover have "ns ! i \<in> dom ?row" using that len ns(2) nth_mem [of i ns] by simp
    ultimately show ?thesis by auto
  qed
  have mem: "\<exists>n. ?row n = Some (OReplicaSet rs)" if "rs \<in> set rss" for rs
    using that at by (auto simp: in_set_conv_nth)
  have b: "ns ! i = b" if "i < length rss" "rss ! i = new" for i
  proof (rule ccontr)
    assume "ns ! i \<noteq> b"
    then have "replicas new = Some 0" using assms(1) at [OF that(1)] that(2) unfolding competing_def by metis
    with assms(1,3) show False by (simp add: competing_def)
  qed
  show "new \<in> set rss" using enumerates_mem [OF assms(2), of b] assms(1) by (auto simp: competing_def)
  obtain n old where old: "n \<noteq> b" "?row n = Some (OReplicaSet old)" using assms(1) by (auto simp: competing_def)
  then have "replicas old = Some 0" using assms(1) by (auto simp: competing_def)
  then have "old \<noteq> new" using assms(1,3) by (auto simp: competing_def)
  then show "\<exists>rs \<in> set rss. rs \<noteq> new" using enumerates_mem [OF assms(2) old(2)] by auto
  show "rs_selector rs = sel \<and> (rs = new \<or> replicas rs = Some 0)" if rs: "rs \<in> set rss" for rs
    using mem [OF rs] assms(1) unfolding competing_def by (metis obj.inject(3) option.inject)
  have "card {i. i < length rss \<and> rss ! i = new} \<le> 1"
  proof -
    have "i = j" if "i < length rss" "rss ! i = new" "j < length rss" "rss ! j = new" for i j
      using nth_eq_iff_index_eq [OF ns(1), of i j] b [OF that(1,2)] b [OF that(3,4)] that(1,3) len by simp
    then show ?thesis by (auto simp: card_le_Suc0_iff_eq)
  qed
  then have "length (filter (\<lambda>rs. rs = new) rss) \<le> 1" by (simp add: length_filter_conv_card)
  then show "distinct (filter (\<lambda>rs. rs = new) rss)" by (cases "filter (\<lambda>rs. rs = new) rss") auto
qed

text \<open>A replica set whose count in the snapshot is right does nothing, whatever has happened since.\<close>

lemma reconcile_even:
  assumes "replicas rs = Some d" and "length ps < 2 ^ 31" and "int (length (my_pods (rs_selector rs) ps)) = sint d"
  shows "reconcileRS c u rs ps = gret ()"
  using reconcileRS_body [OF assms(1) [unfolded replicas_def] assms(2), of c u] assms(3) by (simp add: Let_def)

lemma drops_twice: "fold drop_pod ns (fold drop_pod ns t) = fold drop_pod ns t"
  by (intro ext) (simp add: drops_row)

context uuids
begin

lemma flap_down:
  assumes "\<And>rs. rs \<in> set rss \<Longrightarrow> rs_selector rs = sel \<and> (rs = new \<or> replicas rs = Some 0)" and "\<exists>rs \<in> set rss. rs \<noteq> new"
    and "replicas new = Some d" and "int (length (my_pods sel ps)) = sint d"
    and "length ps < 2 ^ 31" and "\<And>p. p \<in> set ps \<Longrightarrow> plain_name (om_Name (pod_ObjectMeta p))"
  shows "triple (world_at good tab env t e) (for_each rss (\<lambda>rs. reconcileRS C newUUID rs ps))
    (\<lambda>_. world_at good tab env (fold drop_pod (pod_names (my_pods sel ps)) t) e)"
proof -
  let ?m = "my_pods sel ps" and ?t = "fold drop_pod (pod_names (my_pods sel ps)) t"
  let ?I = "\<lambda>ys. world_at good tab env (if \<exists>rs \<in> set ys. rs \<noteq> new then ?t else t) e"
  have old: "triple (world_at good tab env s e) (reconcileRS C newUUID rs ps) (\<lambda>_. world_at good tab env (fold drop_pod (pod_names ?m) s) e)"
    if "replicas rs = Some 0" "rs_selector rs = sel" for rs s
  proof -
    have "int (length ?m) < 2 ^ 31" using my_pods_short [OF assms(5), of sel] by simp
    then have "reconcileRS C newUUID rs ps = for_upto (length ?m) 0 (delete_first C ?m)"
      using reconcileRS_body [OF that(1) [unfolded replicas_def] assms(5), of C newUUID] that(2) by (simp add: Let_def)
    moreover have "p \<in> set ?m \<Longrightarrow> plain_name (om_Name (pod_ObjectMeta p))" for p
      using assms(6) by (simp add: my_pods_def)
    ultimately show ?thesis using scale_down [of "length ?m" ?m s e] by simp
  qed
  have "triple (?I []) (for_each rss (\<lambda>rs. reconcileRS C newUUID rs ps)) (\<lambda>_. ?I rss)"
  proof (rule triple_for_each_suffix)
    fix ys rs zs assume "rss = ys @ rs # zs"
    then have rs: "rs_selector rs = sel \<and> (rs = new \<or> replicas rs = Some 0)" using assms(1) [of rs] by simp
    show "triple (?I ys) (reconcileRS C newUUID rs ps) (\<lambda>_. ?I (ys @ [rs]))"
    proof (cases "rs = new")
      case True
      then have "reconcileRS C newUUID rs ps = gret ()" using assms(3-5) rs by (intro reconcile_even) simp_all
      with True show ?thesis by (auto intro: triple_gret)
    next
      case False
      with rs old [of rs t] old [of rs ?t] show ?thesis by (auto simp: drops_twice)
    qed
  qed
  with assms(2) show ?thesis by simp
qed

lemma flap_up:
  assumes "\<And>rs. rs \<in> set rss \<Longrightarrow> rs_selector rs = sel \<and> (rs = new \<or> replicas rs = Some 0)" and "new \<in> set rss"
    and "distinct (filter (\<lambda>rs. rs = new) rss)"
    and "replicas new = Some d" and "0 < sint d" and "my_pods sel ps = []" and "length ps < 2 ^ 31"
    and "\<And>i. i < nat (sint d) \<Longrightarrow> 5 \<le> length (draw peek advance e i)"
    and "\<And>u. marshal_obj (OPod (pod_from_template new u)) \<noteq> None"
  shows "triple (world_at good tab env t e) (for_each rss (\<lambda>rs. reconcileRS C newUUID rs ps))
    (\<lambda>_. world_at good tab env (fold (add_pod new) (map (draw peek advance e) [0..<nat (sint d)]) t) ((advance ^^ nat (sint d)) e))"
proof -
  let ?n = "nat (sint d)"
  let ?I = "\<lambda>ys. if new \<in> set ys
    then world_at good tab env (fold (add_pod new) (map (draw peek advance e) [0..<?n]) t) ((advance ^^ ?n) e)
    else world_at good tab env t e"
  have up: "triple (world_at good tab env t e) (reconcileRS C newUUID new ps) (\<lambda>_. ?I [new])"
  proof -
    have "rs_selector new = sel" using assms(1,2) by blast
    then have "reconcileRS C newUUID new ps = for_upto ?n 0 (\<lambda>i. gbind (createPod C newUUID new) (\<lambda>err. gret ()))"
      using reconcileRS_body [OF assms(4) [unfolded replicas_def] assms(7), of C newUUID] assms(5,6) by (simp add: Let_def)
    then show ?thesis using scale_up [OF assms(8,9)] by simp
  qed
  have "triple (?I []) (for_each rss (\<lambda>rs. reconcileRS C newUUID rs ps)) (\<lambda>_. ?I rss)"
  proof (rule triple_for_each_suffix)
    fix ys rs zs assume split: "rss = ys @ rs # zs"
    then have rs: "rs_selector rs = sel \<and> (rs = new \<or> replicas rs = Some 0)" using assms(1) [of rs] by simp
    show "triple (?I ys) (reconcileRS C newUUID rs ps) (\<lambda>_. ?I (ys @ [rs]))"
    proof (cases "rs = new")
      case True
      have "new \<notin> set ys"
      proof
        assume "new \<in> set ys"
        then have "new \<in> set (filter (\<lambda>rs. rs = new) ys)" by simp
        with assms(3) True show False by (simp add: split)
      qed
      with up True show ?thesis by simp
    next
      case False
      then have "reconcileRS C newUUID rs ps = gret ()"
        using rs assms(6,7) by (intro reconcile_even [where d = 0]) simp_all
      with False show ?thesis by (auto intro: triple_gret)
    qed
  qed
  with assms(2) show ?thesis by simp
qed

end

section \<open>The two states of a rollout\<close>

text \<open>The selector has either its full count of pods or none; the other pods \<open>Oth\<close> stay.\<close>

definition pod_count :: "strmap \<Rightarrow> int32 \<Rightarrow> bool \<Rightarrow> string set \<Rightarrow> (nat \<Rightarrow> string) \<Rightarrow> nat \<Rightarrow> table \<Rightarrow> bool" where
  "pod_count sel d full Oth u N t \<longleftrightarrow>
     tidy (t ''pods'') \<and> finite (dom (t ''pods'')) \<and>
     dom (t ''pods'') - owned sel (t ''pods'') = Oth \<and> card Oth + nat (sint d) < 2 ^ 31 \<and>
     card (owned sel (t ''pods'')) = (if full then nat (sint d) else 0) \<and>
     fresh_ids u N t \<and> (\<forall>i < N. list_all name_char (take 5 (u i)))"

definition rollout :: "strmap \<Rightarrow> int32 \<Rightarrow> string \<Rightarrow> ReplicaSet \<Rightarrow> bool \<Rightarrow> string set \<Rightarrow> (nat \<Rightarrow> string) \<Rightarrow> nat \<Rightarrow> table \<Rightarrow> bool" where
  "rollout sel d b new full Oth u N t \<longleftrightarrow> competing sel d b new t \<and> pod_count sel d full Oth u N t"

definition sound_template :: "strmap \<Rightarrow> int32 \<Rightarrow> ReplicaSet \<Rightarrow> bool" where
  "sound_template sel d rs \<longleftrightarrow> 0 < sint d \<and> rs_labelsMatch sel (template_labels rs) \<and>
     cok ReplicaSet_codec rs \<and> plain_name (om_Name (rs_ObjectMeta rs))"

lemma pod_countD:
  assumes "pod_count sel d full Oth u N t"
  shows "tidy (t ''pods'')" and "finite (dom (t ''pods''))"
    and "dom (t ''pods'') - owned sel (t ''pods'') = Oth" and "card Oth + nat (sint d) < 2 ^ 31"
    and "card (owned sel (t ''pods'')) = (if full then nat (sint d) else 0)"
    and "fresh_ids u N t" and "\<And>i. i < N \<Longrightarrow> list_all name_char (take 5 (u i))"
  using assms by (simp_all add: pod_count_def)

lemma pod_count_rows: "pod_count sel d full Oth u N t \<Longrightarrow> t' ''pods'' = t ''pods'' \<Longrightarrow> pod_count sel d full Oth u N t'"
  by (simp add: pod_count_def fresh_ids_def)

lemma counted_pods:
  assumes "pod_count sel d full Oth u N t" and "enumerates (map OPod ps) (t ''pods'')"
  shows "length ps < 2 ^ 31" and "\<And>p. p \<in> set ps \<Longrightarrow> plain_name (om_Name (pod_ObjectMeta p))"
    and "census sel ps (t ''pods'')" and "length (my_pods sel ps) = (if full then nat (sint d) else 0)"
proof -
  note r = pod_countD [OF assms(1)]
  have nm: "named (t ''pods'')" using r(1) by (simp add: tidy_def)
  show c: "census sel ps (t ''pods'')" using census_listing [OF assms(2) nm] .
  then show "length (my_pods sel ps) = (if full then nat (sint d) else 0)" using census_card r(5) by metis
  have "length ps = card (dom (t ''pods''))"
  proof -
    obtain ns where "distinct ns" "set ns = dom (t ''pods'')" "map OPod ps = map (\<lambda>n. the (t ''pods'' n)) ns"
      using assms(2) unfolding enumerates_def by blast
    then show ?thesis by (metis distinct_card length_map)
  qed
  also have "\<dots> = card Oth + card (owned sel (t ''pods''))"
  proof -
    have "dom (t ''pods'') = Oth \<union> owned sel (t ''pods'')" "Oth \<inter> owned sel (t ''pods'') = {}"
      using r(3) owned_dom [of sel "t ''pods''"] by blast+
    moreover from this(1) have "finite Oth" "finite (owned sel (t ''pods''))"
      using r(2) by (metis finite_Un)+
    ultimately show ?thesis using card_Un_disjoint by metis
  qed
  finally show "length ps < 2 ^ 31" using r(4,5) by (simp split: if_splits)
  show "plain_name (om_Name (pod_ObjectMeta p))" if "p \<in> set ps" for p
    using enumerates_names(2) [OF assms(2) nm that] r(1) unfolding tidy_def by blast
qed

lemma competing_rows: "competing sel d b new t \<Longrightarrow> t' ''replicasets'' = t ''replicasets'' \<Longrightarrow> competing sel d b new t'"
  by (simp add: competing_def)

lemma count_down:
  assumes "pod_count sel d True Oth u N t" and "set ns = owned sel (t ''pods'')"
  shows "pod_count sel d False Oth u N (fold drop_pod ns t)"
proof -
  note r = pod_countD [OF assms(1)]
  have "tidy (fold drop_pod ns t ''pods'')" using r(1) by (auto simp: tidy_def named_def drops_row)
  moreover have "owned sel (fold drop_pod ns t ''pods'') = {}" using assms(2) by (simp add: owned_drops)
  moreover have "fresh_ids u N (fold drop_pod ns t)" using r(6) by (simp add: fresh_ids_def drops_row)
  moreover have "finite Oth" using r(2,3) by auto
  ultimately show ?thesis
    using r(2-4,7) assms(2) by (simp add: pod_count_def dom_drops)
qed

lemma rollout_down:
  assumes "rollout sel d b new True Oth u N t" and "set ns = owned sel (t ''pods'')"
  shows "rollout sel d b new False Oth u N (fold drop_pod ns t)"
  using assms count_down [of sel d Oth u N t ns] by (auto simp: rollout_def drops_row intro: competing_rows)

lemma owned_adds:
  assumes "rs_labelsMatch sel (template_labels rs)" and "distinct (map (pod_name rs) us)"
    and "\<forall>u \<in> set us. t ''pods'' (pod_name rs u) = None"
  shows "owned sel (fold (add_pod rs) us t ''pods'') = pod_name rs ` set us \<union> owned sel (t ''pods'')"
  using assms(2,3)
proof (induction us arbitrary: t)
  case (Cons u us)
  have "add_pod rs u t ''pods'' (pod_name rs v) = None" if "v \<in> set us" for v
  proof -
    have "pod_name rs v \<noteq> pod_name rs u" using Cons.prems(1) that by (auto simp: image_iff)
    then show ?thesis using Cons.prems(2) that by (simp add: add_pod_row)
  qed
  then have "owned sel (fold (add_pod rs) us (add_pod rs u t) ''pods'') =
      pod_name rs ` set us \<union> owned sel (add_pod rs u t ''pods'')"
    using Cons.prems(1) by (intro Cons.IH) auto
  then show ?case using owned_add [OF assms(1), of u t] Cons.prems(2) by auto
qed simp

lemma name_of_pod:
  assumes "plain_name (om_Name (rs_ObjectMeta rs))" and "list_all name_char (take 5 u)"
  shows "plain_name (pod_name rs u)"
  using assms by (auto simp: plain_name_def pod_name_def list_all_iff name_char_def)

lemma tidy_adds:
  assumes "tidy (t ''pods'')" and "\<And>u. u \<in> set us \<Longrightarrow> plain_name (pod_name rs u)"
  shows "tidy (fold (add_pod rs) us t ''pods'')"
  using assms
proof (induction us arbitrary: t)
  case (Cons u us)
  have "obj_name (OPod (cnrm Pod_codec (pod_from_template rs u))) = pod_name rs u"
    using new_pod_simps(1) [of rs u] by (simp add: obj_name_def)
  then have "tidy (add_pod rs u t ''pods'')"
    using Cons.prems by (auto simp: tidy_def named_def add_pod_row simp del: nrm_simps)
  with Cons show ?case by simp
qed simp

lemma count_up:
  assumes "pod_count sel d False Oth u N t" and "sound_template sel d new" and "nat (sint d) \<le> N"
    and "replicas new = Some d" and "rs_selector new = sel"
  shows "pod_count sel d True Oth (\<lambda>i. u (nat (sint d) + i)) (N - nat (sint d))
    (fold (add_pod new) (map u [0..<nat (sint d)]) t)"
proof -
  let ?n = "nat (sint d)"
  let ?t = "fold (add_pod new) (map u [0..<?n]) t"
  note r = pod_countD [OF assms(1)]
  have match: "rs_labelsMatch sel (template_labels new)" using assms(2) by (simp add: sound_template_def)
  note sel = assms(4) [unfolded replicas_def] assms(5)
  have own0: "card (owned sel (t ''pods'')) = 0" using r(5) by simp
  then have need: "rs_need new t = ?n" by (simp add: rs_need_def sel)
  have step: "rs_step new u t ?t" using own0 by (simp add: rs_step_def sel need Let_def)
  note names = fresh_names [OF r(6) assms(3), of new]
  have "tidy (?t ''pods'')"
  proof (rule tidy_adds)
    show "tidy (t ''pods'')" using r(1) .
    show "plain_name (pod_name new v)" if "v \<in> set (map u [0..<?n])" for v
      using that r(7) assms(2,3) by (auto simp: sound_template_def intro!: name_of_pod)
  qed
  moreover have "finite (dom (?t ''pods''))" using rs_step_finite [OF step r(2)] .
  moreover have "dom (?t ''pods'') - owned sel (?t ''pods'') = Oth"
  proof -
    have "pod_name new ` set (map u [0..<?n]) \<inter> dom (t ''pods'') = {}" using names(2) by auto
    moreover have "owned sel (?t ''pods'') = pod_name new ` set (map u [0..<?n]) \<union> owned sel (t ''pods'')"
      using match names by (rule owned_adds)
    ultimately show ?thesis unfolding dom_adds using r(3) by blast
  qed
  moreover have "card (owned sel (?t ''pods'')) = ?n"
    using card_owned_adds [of sel new t, OF match r(2) names] own0 by simp
  moreover have "fresh_ids (\<lambda>i. u (?n + i)) (N - ?n) ?t"
    using rs_step_fresh [OF step r(6)] assms(3) by (simp add: need)
  ultimately show ?thesis
    using r(4,7) assms(3) by (simp add: pod_count_def)
qed

lemma rollout_up:
  assumes "rollout sel d b new False Oth u N t" and "sound_template sel d new" and "nat (sint d) \<le> N"
  shows "rollout sel d b new True Oth (\<lambda>i. u (nat (sint d) + i)) (N - nat (sint d))
    (fold (add_pod new) (map u [0..<nat (sint d)]) t)"
proof -
  have c: "competing sel d b new t" and p: "pod_count sel d False Oth u N t" using assms(1) by (simp_all add: rollout_def)
  then have "replicas new = Some d" "rs_selector new = sel" by (simp_all add: competing_def)
  with count_up [OF p assms(2,3)] competing_rows [OF c] show ?thesis by (simp add: rollout_def adds_row)
qed

context uuids
begin

text \<open>One round takes a rollout from one state to the other.\<close>

definition rollout_at :: "strmap \<Rightarrow> int32 \<Rightarrow> string \<Rightarrow> ReplicaSet \<Rightarrow> string set \<Rightarrow> table \<Rightarrow> bool \<Rightarrow> nat \<Rightarrow> 'w \<Rightarrow> bool" where
  "rollout_at sel d b new Oth t0 full N w \<longleftrightarrow>
     (\<exists>t e. (rollout sel d b new full Oth (draw peek advance e) N t \<and> (\<forall>r. r \<noteq> ''pods'' \<longrightarrow> t r = t0 r)) \<and>
        world_at good tab env t e w)"

lemma round_down:
  assumes "sound_template sel d new"
  shows "triple (rollout_at sel d b new Oth t0 True N) (rs_reconcile C newUUID) (\<lambda>_. rollout_at sel d b new Oth t0 False N)"
  unfolding rollout_at_def
proof (rule triple_ex, rule triple_ex, rule triple_assuming, elim conjE)
  fix t e assume r: "rollout sel d b new True Oth (draw peek advance e) N t" and rows: "\<forall>r. r \<noteq> ''pods'' \<longrightarrow> t r = t0 r"
  have d: "d \<noteq> 0" "0 < sint d" using assms by (auto simp: sound_template_def)
  have c: "competing sel d b new t" and n: "pod_count sel d True Oth (draw peek advance e) N t"
    using r by (simp_all add: rollout_def)
  show "triple (world_at good tab env t e) (rs_reconcile C newUUID)
     (\<lambda>_ w. \<exists>t e. (rollout sel d b new False Oth (draw peek advance e) N t \<and> (\<forall>r. r \<noteq> ''pods'' \<longrightarrow> t r = t0 r)) \<and>
        world_at good tab env t e w)"
  proof (rule reconcile_lists)
    fix rss ps assume rss: "enumerates (map OReplicaSet rss) (t ''replicasets'')" and ps: "enumerates (map OPod ps) (t ''pods'')"
    note p = counted_pods [OF n ps]
    note l = competing_listed [OF c rss d(1)]
    let ?t = "fold drop_pod (pod_names (my_pods sel ps)) t"
    have "triple (world_at good tab env t e) (for_each rss (\<lambda>rs. reconcileRS C newUUID rs ps)) (\<lambda>_. world_at good tab env ?t e)"
      using p(4) d(2) c by (intro flap_down [OF l(4,2) _ _ p(1,2)]) (auto simp: competing_def)
    moreover have "rollout sel d b new False Oth (draw peek advance e) N ?t"
      using p(3) by (intro rollout_down [OF r]) (simp add: census_def)
    moreover have "?t r = t0 r" if "r \<noteq> ''pods''" for r using that rows by (simp add: drops_row)
    ultimately show "triple (world_at good tab env t e) (for_each rss (\<lambda>rs. reconcileRS C newUUID rs ps))
       (\<lambda>_ w. \<exists>t e. (rollout sel d b new False Oth (draw peek advance e) N t \<and> (\<forall>r. r \<noteq> ''pods'' \<longrightarrow> t r = t0 r)) \<and>
          world_at good tab env t e w)"
      by (auto elim!: triple_post)
  qed
qed

lemma round_up:
  assumes "sound_template sel d new"
  shows "triple (rollout_at sel d b new Oth t0 False (nat (sint d) + N)) (rs_reconcile C newUUID) (\<lambda>_. rollout_at sel d b new Oth t0 True N)"
  unfolding rollout_at_def
proof (rule triple_ex, rule triple_ex, rule triple_assuming, elim conjE)
  fix t e assume r: "rollout sel d b new False Oth (draw peek advance e) (nat (sint d) + N) t" and rows: "\<forall>r. r \<noteq> ''pods'' \<longrightarrow> t r = t0 r"
  have d: "d \<noteq> 0" "0 < sint d" using assms by (auto simp: sound_template_def)
  have c: "competing sel d b new t" and n: "pod_count sel d False Oth (draw peek advance e) (nat (sint d) + N) t"
    using r by (simp_all add: rollout_def)
  let ?n = "nat (sint d)"
  show "triple (world_at good tab env t e) (rs_reconcile C newUUID)
     (\<lambda>_ w. \<exists>t e. (rollout sel d b new True Oth (draw peek advance e) N t \<and> (\<forall>r. r \<noteq> ''pods'' \<longrightarrow> t r = t0 r)) \<and>
        world_at good tab env t e w)"
  proof (rule reconcile_lists)
    fix rss ps assume rss: "enumerates (map OReplicaSet rss) (t ''replicasets'')" and ps: "enumerates (map OPod ps) (t ''pods'')"
    note p = counted_pods [OF n ps]
    note l = competing_listed [OF c rss d(1)]
    let ?t = "fold (add_pod new) (map (draw peek advance e) [0..<?n]) t" and ?e = "(advance ^^ ?n) e"
    have "triple (world_at good tab env t e) (for_each rss (\<lambda>rs. reconcileRS C newUUID rs ps)) (\<lambda>_. world_at good tab env ?t ?e)"
    proof (rule flap_up [OF l(4,1,3) _ d(2) _ p(1)])
      show "replicas new = Some d" using c by (simp add: competing_def)
      show "my_pods sel ps = []" using p(4) by simp
      show "5 \<le> length (draw peek advance e i)" if "i < ?n" for i
        using pod_countD(6) [OF n] that by (simp add: fresh_ids_def)
      show "marshal_obj (OPod (pod_from_template new u)) \<noteq> None" for u
        using assms by (intro template_ok) (simp add: sound_template_def)
    qed
    moreover have "rollout sel d b new True Oth (draw peek advance ?e) N ?t"
      using rollout_up [OF r assms] by (simp add: draw_shift)
    moreover have "?t r = t0 r" if "r \<noteq> ''pods''" for r using that rows by (simp add: adds_row)
    ultimately show "triple (world_at good tab env t e) (for_each rss (\<lambda>rs. reconcileRS C newUUID rs ps))
       (\<lambda>_ w. \<exists>t e. (rollout sel d b new True Oth (draw peek advance e) N t \<and> (\<forall>r. r \<noteq> ''pods'' \<longrightarrow> t r = t0 r)) \<and>
          world_at good tab env t e w)"
      by (auto elim!: triple_post)
  qed
qed

text \<open>\<open>2 k\<close> rounds come back to the start, one more leaves nothing.\<close>

lemma rollout_rounds:
  assumes "sound_template sel d new"
  shows "triple (rollout_at sel d b new Oth t0 True (k * nat (sint d) + N))
    (rs_Start C newUUID (replicate (2 * k + (if half then 1 else 0)) Tick)) (\<lambda>_. rollout_at sel d b new Oth t0 (\<not> half) N)"
proof (induction k)
  case 0
  show ?case
  proof (cases half)
    case True
    have "triple (rollout_at sel d b new Oth t0 True N) (gbind (rs_reconcile C newUUID) (\<lambda>_. gret ()))
        (\<lambda>_. rollout_at sel d b new Oth t0 False N)"
      by (rule triple_gbind [OF round_down [OF assms]]) (rule triple_gret)
    with True show ?thesis by (simp add: rs_Start_def)
  qed (auto simp: rs_Start_def intro: triple_gret)
next
  case (Suc k)
  let ?h = "if half then 1 else 0 :: nat"
  have run: "rs_Start C newUUID (replicate (2 * Suc k + ?h) Tick) =
      gbind (rs_reconcile C newUUID) (\<lambda>_. gbind (rs_reconcile C newUUID)
        (\<lambda>_. rs_Start C newUUID (replicate (2 * k + ?h) Tick)))"
    by (simp add: rs_Start_def)
  have eq: "Suc k * nat (sint d) + N = nat (sint d) + (k * nat (sint d) + N)" by simp
  show ?case
    unfolding run eq
    by (rule triple_gbind [OF round_down [OF assms]], rule triple_gbind [OF round_up [OF assms]], rule Suc.IH)
qed

end

section \<open>An updated deployment\<close>

abbreviation dep_selector :: "Deployment \<Rightarrow> strmap" where
  "dep_selector d \<equiv> ls_MatchLabels (dsp_Selector (dep_Spec d))"

text \<open>The replica sets of the cluster are those of earlier templates of the deployment.\<close>

definition being_updated :: "Deployment \<Rightarrow> int32 \<Rightarrow> (string \<Rightarrow> obj option) \<Rightarrow> bool" where
  "being_updated d c row \<longleftrightarrow>
     dsp_Replicas (dep_Spec d) = Some c \<and> 0 < sint c \<and>
     rs_labelsMatch (dep_selector d) (om_Labels (pts_ObjectMeta (dsp_Template (dep_Spec d)))) \<and>
     row (new_rs_name d) = None \<and> (\<exists>n rs. row n = Some (OReplicaSet rs)) \<and>
     (\<forall>n rs. row n = Some (OReplicaSet rs) \<longrightarrow>
        rs_selector rs = dep_selector d \<and> dep_selects d rs \<and> positive rs \<and> revision rs \<noteq> dep_hash d)"

lemma new_rs_selects [simp]:
  "rs_selector (new_rs d h) = dep_selector d"
  "template_labels (new_rs d h) = om_Labels (pts_ObjectMeta (dsp_Template (dep_Spec d)))"
  "om_Name (rs_ObjectMeta (new_rs d h)) = om_Name (dep_ObjectMeta d) @ ''-'' @ take 10 h"
  by (simp_all add: rs_selector_def template_labels_def new_rs_def)

lemma new_rs_replicas: "dsp_Replicas (dep_Spec d) = Some c \<Longrightarrow> replicas (new_rs d h) = Some c"
  by (simp add: replicas_def new_rs_def)

lemma updated_competes:
  assumes "being_updated d c (t ''replicasets'')" and "dep_spec d (t ''replicasets'') err (t1 ''replicasets'')"
  shows "err = None" and "competing (dep_selector d) c (new_rs_name d) (new_rs d (dep_hash d)) t1"
proof -
  let ?row = "t ''replicasets''" and ?new = "new_rs d (dep_hash d)"
  have up: "dsp_Replicas (dep_Spec d) = Some c" "?row (new_rs_name d) = None" "\<exists>n rs. ?row n = Some (OReplicaSet rs)"
    "\<And>n rs. ?row n = Some (OReplicaSet rs) \<Longrightarrow>
        rs_selector rs = dep_selector d \<and> dep_selects d rs \<and> positive rs \<and> revision rs \<noteq> dep_hash d"
    using assms(1) unfolding being_updated_def by blast+
  have "\<nexists>n. current_rs d ?row n" using up(4) by (auto simp: current_rs_def)
  with assms(2) up(2) have err: "err = None"
    and row: "t1 ''replicasets'' = dep_row d (new_rs_name d) (?row(new_rs_name d \<mapsto> OReplicaSet ?new))"
    by (simp_all add: dep_spec_def)
  show "err = None" by (rule err)
  have "scale (desired_replicas d) ?new = ?new"
    using new_rs_replicas [OF up(1)] by (intro scale_same) (simp add: desired_replicas_def up(1) replicas_def)
  then have new: "t1 ''replicasets'' (new_rs_name d) = Some (OReplicaSet ?new)" by (simp add: row dep_row_def)
  have sel: "rs_selector (scale n rs) = rs_selector rs" for n rs by (simp add: rs_selector_def scale_def)
  have old: "t1 ''replicasets'' n = map_option (\<lambda>x. case x of OReplicaSet rs \<Rightarrow> OReplicaSet (scale 0 rs) | _ \<Rightarrow> x) (?row n)"
    if "n \<noteq> new_rs_name d" for n
  proof (cases "?row n")
    case None
    with that show ?thesis by (simp add: row dep_row_def)
  next
    case (Some x)
    with that up(4) [of n] show ?thesis by (cases x) (simp_all add: row dep_row_def)
  qed
  have others: "replicas rs = Some 0 \<and> rs_selector rs = dep_selector d"
    if "n \<noteq> new_rs_name d" "t1 ''replicasets'' n = Some (OReplicaSet rs)" for n rs
  proof (cases "?row n")
    case None
    with that show ?thesis by (simp add: old)
  next
    case (Some x)
    with that up(4) [of n] show ?thesis by (cases x) (auto simp: old sel replicas_def)
  qed
  have some: "\<exists>n rs. n \<noteq> new_rs_name d \<and> t1 ''replicasets'' n = Some (OReplicaSet rs)"
  proof -
    obtain n rs where n: "?row n = Some (OReplicaSet rs)" using up(3) by blast
    then have "n \<noteq> new_rs_name d" using up(2) by auto
    with old [OF this] n show ?thesis by (intro exI [of _ n]) simp
  qed
  show "competing (dep_selector d) c (new_rs_name d) ?new t1"
    unfolding competing_def
  proof (intro conjI allI impI)
    show "t1 ''replicasets'' (new_rs_name d) = Some (OReplicaSet ?new)" by (rule new)
    show "replicas ?new = Some c" using up(1) by (rule new_rs_replicas)
  qed (use others some in simp_all)
qed

lemma updated_template:
  assumes "being_updated d c row" and "settled_obj (ODeployment d)" and "plain_name (om_Name (dep_ObjectMeta d))"
  shows "sound_template (dep_selector d) c (new_rs d (dep_hash d))"
  using assms settled_ok(3) [OF new_rs_settled [OF assms(2)]] new_rs_name_plain [OF assms(3)]
  by (auto simp: sound_template_def being_updated_def new_rs_name_def)

section \<open>Properties\<close>

text \<open>C5: A rollout never settles. A deployment whose template has changed, with its old replica sets and
  exactly its count of pods: one synchronization creates the new replica set and sets the old ones
  to zero, but all of them select the same pods, so from then on the replica set controller deletes
  every pod of the deployment in one round and creates the full count in the next, as long as
  generated names do not repeat.\<close>

theorem rollout_never_settles:
  assumes "cluster_good w" and "tidy (cluster_table w ''replicasets'')" and "tidy (cluster_table w ''pods'')"
    and "cluster_table w ''deployments'' k = Some (ODeployment d)" and "plain_name (om_Name (dep_ObjectMeta d))"
    and "being_updated d c (cluster_table w ''replicasets'')"
    and "card (dom (cluster_table w ''pods'')) < 2 ^ 31"
    and "card (owned (dep_selector d) (cluster_table w ''pods'')) = nat (sint c)"
    and "fresh_ids (coming_uuids w) (m * nat (sint c)) (cluster_table w)"
    and "\<forall>i < m * nat (sint c). list_all name_char (take 5 (coming_uuids w i))"
  shows "\<exists>w1. syncDeployment (cluster_client base) d w = (Ret None, w1) \<and>
    (\<forall>j \<le> 2 * m + 1. \<exists>w2. rs_Start (cluster_client base) draw_uuid (replicate j Tick) w1 = (Ret (), w2) \<and>
       card (owned (dep_selector d) (cluster_table w2 ''pods'')) = (if even j then nat (sint c) else 0))"
proof -
  let ?sel = "dep_selector d" and ?new = "new_rs d (dep_hash d)" and ?t = "cluster_table w" and ?n = "nat (sint c)"
  let ?Oth = "dom (?t ''pods'') - owned ?sel (?t ''pods'')"
  have d: "settled_obj (ODeployment d)" using cluster.entry [OF assms(1,4)] by simp
  have fin: "finite (dom (?t ''pods''))" using assms(1) by (rule cluster_pods_finite)
  obtain err w1 where run: "syncDeployment (cluster_client base) d w = (Ret err, w1)" "cluster_good w1"
    and spec: "dep_spec d (?t ''replicasets'') err (cluster_table w1 ''replicasets'')"
    and t1: "cluster_table w1 = ?t(''replicasets'' := cluster_table w1 ''replicasets'')" and env: "w_env w1 = w_env w"
    using cluster_sync [OF assms(1,2) d assms(5), of base] by (elim exE conjE)
  note c = updated_competes [of d c ?t err "cluster_table w1", OF assms(6) spec]
  have pods: "cluster_table w1 ''pods'' = ?t ''pods''" using fun_cong [OF t1, of "''pods''"] by simp
  have ids: "draw uuid_peek uuid_advance (w_env w1) = coming_uuids w" unfolding env by (rule draw_uuids)
  have small: "card ?Oth + ?n < 2 ^ 31"
  proof -
    have "card ?Oth = card (dom (?t ''pods'')) - ?n"
      unfolding assms(8) [symmetric] by (rule card_Diff_subset [OF finite_subset [OF owned_dom fin] owned_dom])
    moreover have "?n \<le> card (dom (?t ''pods''))"
      unfolding assms(8) [symmetric] by (rule card_mono [OF fin owned_dom])
    ultimately show ?thesis using assms(7) by linarith
  qed
  have sound: "sound_template ?sel c ?new" using updated_template [OF assms(6) d assms(5)] .
  have start: "rs_cluster.rollout_at ?sel c (new_rs_name d) ?new ?Oth (cluster_table w1) True N w1" if "N \<le> m * ?n" for N
  proof -
    have "rollout ?sel c (new_rs_name d) ?new True ?Oth (coming_uuids w) N (cluster_table w1)"
      using c(2) assms(3,8-10) fin small that by (auto simp: rollout_def pod_count_def pods fresh_ids_def distinct_map inj_on_def)
    then show ?thesis
      unfolding rs_cluster.rollout_at_def using run(2) ids by (auto simp: world_at_def)
  qed
  have rounds: "\<exists>w2. rs_Start (cluster_client base) draw_uuid (replicate (2 * i + (if half then 1 else 0)) Tick) w1 = (Ret (), w2) \<and>
       card (owned ?sel (cluster_table w2 ''pods'')) = (if half then 0 else ?n)" if "i \<le> m" for i half
  proof -
    let ?R = "rs_cluster.rollout_at ?sel c (new_rs_name d) ?new ?Oth (cluster_table w1)"
    have "i * ?n + 0 \<le> m * ?n" using that by simp
    then have at: "?R True (i * ?n + 0) w1" by (rule start)
    have "triple (?R True (i * ?n + 0))
        (rs_Start (cluster_client base) draw_uuid (replicate (2 * i + (if half then 1 else 0)) Tick)) (\<lambda>_. ?R (\<not> half) 0)"
      using sound by (rule rs_cluster.rollout_rounds)
    then obtain x w2 where "rs_Start (cluster_client base) draw_uuid (replicate (2 * i + (if half then 1 else 0)) Tick) w1 = (Ret x, w2)"
        "?R (\<not> half) 0 w2" using at by (rule tripleE)
    then show ?thesis
      by (auto simp: rs_cluster.rollout_at_def rollout_def pod_count_def world_at_def)
  qed
  have "\<exists>w2. rs_Start (cluster_client base) draw_uuid (replicate j Tick) w1 = (Ret (), w2) \<and>
       card (owned ?sel (cluster_table w2 ''pods'')) = (if even j then ?n else 0)" if "j \<le> 2 * m + 1" for j
  proof -
    have j: "2 * (j div 2) + (if odd j then 1 else 0) = j" by simp
    have "j div 2 \<le> m" using that by linarith
    have swap: "(if odd j then 0 else ?n) = (if even j then ?n else 0)" by simp
    show ?thesis using rounds [OF \<open>j div 2 \<le> m\<close>, of "odd j"] unfolding j swap .
  qed
  with run(1) c(1) show ?thesis by blast
qed

text \<open>An old replica set of the deployment and its one pod\<close>

definition demo_old :: ReplicaSet where
  "demo_old = demo_rs (Some 1) (fmupd ''app'' ''web'' fmempty)
     \<lparr>rs_ObjectMeta := ObjectMeta_zero\<lparr>om_Name := ''old'', om_Labels := fmupd ''app'' ''web'' fmempty\<rparr>\<rparr>"

definition demo_update :: "obj list" where
  "demo_update = [ODeployment (demo_dep (Some 1) (fmupd ''app'' ''web'' fmempty)), OReplicaSet demo_old, OPod (demo_pod ''a'')]"

lemma demo_old_simps [simp]:
  "rs_name demo_old = ''old''" "rs_selector demo_old = fmupd ''app'' ''web'' fmempty" "revision demo_old = []"
  "om_Name (rs_ObjectMeta demo_old) = ''old''" "om_Labels (rs_ObjectMeta demo_old) = fmupd ''app'' ''web'' fmempty" "positive demo_old"
  by (simp_all add: demo_old_def rs_name_def rs_selector_def revision_def demo_rs_def ObjectMeta_zero_def label_def positive_def)

lemma demo_old_settled: "settled_obj (OReplicaSet demo_old)"
  by (rule settled_ReplicaSetI)
    (simp_all add: codec_oks demo_old_def demo_rs_def ReplicaSet_zero_def ObjectMeta_zero_def
      PodSpec_zero_def ReplicaSetStatus_zero_def)

lemma demo_update_storable: "storable demo_update"
  using demo_old_settled demo_dep_settled demo_pod_ok
  by (simp add: storable_def demo_update_def settled_iff marshal_def)

lemma demo_update_table:
  "cluster_table (cluster_with demo_update e) ''deployments'' = [''web'' \<mapsto> ODeployment (demo_dep (Some 1) (fmupd ''app'' ''web'' fmempty))]"
  "cluster_table (cluster_with demo_update e) ''replicasets'' = [''old'' \<mapsto> OReplicaSet demo_old]"
  "cluster_table (cluster_with demo_update e) ''pods'' = [''a'' \<mapsto> OPod (demo_pod ''a'')]"
proof -
  let ?dep = "demo_dep (Some 1) (fmupd ''app'' ''web'' fmempty)"
  have nrm: "obj_nrm (ODeployment ?dep) = ODeployment ?dep" "obj_nrm (OReplicaSet demo_old) = OReplicaSet demo_old"
    "obj_nrm (OPod (demo_pod ''a'')) = OPod (demo_pod ''a'')"
    using demo_dep_settled [of "Some 1" "fmupd ''app'' ''web'' fmempty"] demo_old_settled demo_pod_nrm [of "''a''"]
    by (simp_all add: settled_iff)
  have name: "obj_name (OPod (demo_pod ''a'')) = ''a''" "obj_name (ODeployment ?dep) = ''web''"
    by (simp_all add: obj_name_def demo_pod_def)
  have tab: "cluster_table (cluster_with demo_update e) r =
      (\<lambda>n. map_of [((''deployments'', ''web''), ODeployment ?dep), ((''replicasets'', ''old''), OReplicaSet demo_old),
        ((''pods'', ''a''), OPod (demo_pod ''a''))] (r, n))" for r
    by (rule ext, subst cluster_with_table [OF demo_update_storable])
      (simp add: table_of_def demo_update_def nrm name del: obj_nrm.simps)
  show "cluster_table (cluster_with demo_update e) ''deployments'' = [''web'' \<mapsto> ODeployment ?dep]"
    "cluster_table (cluster_with demo_update e) ''replicasets'' = [''old'' \<mapsto> OReplicaSet demo_old]"
    "cluster_table (cluster_with demo_update e) ''pods'' = [''a'' \<mapsto> OPod (demo_pod ''a'')]"
    unfolding tab by (simp_all add: fun_eq_iff)
qed

theorem rollout_never_settles_witness:
  "\<exists>w1. syncDeployment (cluster_client ''http://api'') (demo_dep (Some 1) (fmupd ''app'' ''web'' fmempty))
       (cluster_with demo_update demo_uuids) = (Ret None, w1) \<and>
     (\<forall>j \<le> 3. \<exists>w2. rs_Start (cluster_client ''http://api'') draw_uuid (replicate j Tick) w1 = (Ret (), w2) \<and>
        card (owned (fmupd ''app'' ''web'' fmempty) (cluster_table w2 ''pods'')) = (if even j then 1 else 0))"
proof -
  let ?L = "fmupd ''app'' ''web'' fmempty :: strmap" and ?w = "cluster_with demo_update demo_uuids"
  let ?d = "demo_dep (Some 1) ?L"
  have names: "plain_name ''web''" "plain_name ''old''" "plain_name ''a''" by (simp_all add: plain_name_def name_char_def)
  have match: "rs_labelsMatch ?L ?L" "dep_labelsMatch ?L ?L" "?L \<noteq> fmempty"
    by (auto simp: rs_labelsMatch_iff dep_labelsMatch_def list_all_iff)
  have pod: "om_Labels (pod_ObjectMeta (demo_pod ''a'')) = ?L" by (simp add: demo_pod_def)
  have tidy: "tidy (cluster_table ?w ''replicasets'')" "tidy (cluster_table ?w ''pods'')"
    unfolding demo_update_table using names by (simp_all add: tidy_def named_def obj_name_def demo_pod_def)
  have hash: "length (dep_hash ?d) = 64" by (simp add: dep_hash_def computeHash_def)
  have up: "being_updated ?d 1 (cluster_table ?w ''replicasets'')"
    unfolding demo_update_table being_updated_def
    using match hash by (auto simp: new_rs_name_def dep_selects_def)
  have own: "owned ?L (cluster_table ?w ''pods'') = {''a''}"
    unfolding demo_update_table using match(1) pod by (auto simp: owned_def)
  have fresh: "fresh_ids (coming_uuids ?w) 1 (cluster_table ?w)"
    unfolding fresh_ids_def demo_update_table by auto
  have chars: "\<forall>i < 1. list_all name_char (take 5 (coming_uuids ?w i))"
    by (simp add: name_char_def)
  have "\<exists>w1. syncDeployment (cluster_client ''http://api'') ?d ?w = (Ret None, w1) \<and>
    (\<forall>j \<le> 2 * 1 + 1. \<exists>w2. rs_Start (cluster_client ''http://api'') draw_uuid (replicate j Tick) w1 = (Ret (), w2) \<and>
       card (owned (dep_selector ?d) (cluster_table w2 ''pods'')) = (if even j then nat (sint (1 :: int32)) else 0))"
  proof (rule rollout_never_settles [OF cluster_with_good [OF demo_update_storable] tidy _ _ up])
    show "cluster_table ?w ''deployments'' ''web'' = Some (ODeployment ?d)" by (simp add: demo_update_table)
  qed (use names own fresh chars in \<open>simp_all add: demo_update_table\<close>)
  moreover have "nat (sint (1 :: int32)) = 1" "2 * 1 + 1 = (3 :: nat)" by simp_all
  ultimately show ?thesis unfolding demo_dep_simps by (simp only:)
qed

end
