(* ===== verification/Convergence.thy ===== *)
theory Convergence
  imports Commands Rollout
begin

text \<open>
  The controllers of one manager taking turns (\<open>controllers_run\<close>): a new deployment gets its replica
  set, its pods, and then rest, in whatever order the rounds come.
\<close>

section \<open>How far a deployment has come\<close>

datatype stage = Declared | HasReplicaSet | HasPods

fun after_round :: "controller \<Rightarrow> stage \<Rightarrow> stage" where
  "after_round Deployments Declared = HasReplicaSet"
| "after_round ReplicaSets HasReplicaSet = HasPods"
| "after_round k st = st"

definition deployable :: "Deployment \<Rightarrow> int32 \<Rightarrow> bool" where
  "deployable d c \<longleftrightarrow> dsp_Replicas (dep_Spec d) = Some c \<and> 0 < sint c \<and> plain_name (om_Name (dep_ObjectMeta d)) \<and>
     rs_labelsMatch (dep_selector d) (om_Labels (pts_ObjectMeta (dsp_Template (dep_Spec d)))) \<and> settled_obj (ODeployment d)"

text \<open>Pods a replica set of this deployment has added to those of \<open>row\<close>\<close>

definition grown :: "Deployment \<Rightarrow> (string \<Rightarrow> obj option) \<Rightarrow> (string \<Rightarrow> obj option) \<Rightarrow> bool" where
  "grown d row row' \<longleftrightarrow> (\<forall>n. row' n = row n \<or> row n = None \<and>
     (\<exists>u. 5 \<le> length u \<and> row' n = Some (OPod (cnrm Pod_codec (pod_from_template (new_rs d (dep_hash d)) u)))))"

lemma grown_add:
  assumes "grown d row (t ''pods'')" and "5 \<le> length u"
  shows "grown d row (add_pod (new_rs d (dep_hash d)) u t ''pods'')"
  unfolding grown_def
proof
  fix n
  let ?made = "\<lambda>x. \<exists>u. 5 \<le> length u \<and> x = Some (OPod (cnrm Pod_codec (pod_from_template (new_rs d (dep_hash d)) u)))"
  have "t ''pods'' n = row n \<or> row n = None \<and> ?made (t ''pods'' n)" using assms(1) unfolding grown_def by (rule spec)
  moreover have "?made (Some (OPod (cnrm Pod_codec (pod_from_template (new_rs d (dep_hash d)) u))))" using assms(2) by blast
  ultimately show "add_pod (new_rs d (dep_hash d)) u t ''pods'' n = row n \<or>
      row n = None \<and> ?made (add_pod (new_rs d (dep_hash d)) u t ''pods'' n)"
    unfolding add_pod_row by (auto simp del: nrm_simps)
qed

lemma grown_adds:
  "grown d row (t ''pods'') \<Longrightarrow> \<forall>u \<in> set us. 5 \<le> length u \<Longrightarrow> grown d row (fold (add_pod (new_rs d (dep_hash d))) us t ''pods'')"
  by (induction us arbitrary: t) (simp_all add: grown_add)

text \<open>What the controllers write of a table\<close>

definition others_kept :: "table \<Rightarrow> table \<Rightarrow> bool" where
  "others_kept t t' \<longleftrightarrow> (\<forall>r. r \<notin> {''replicasets'', ''pods'', ''endpoints''} \<longrightarrow> t' r = t r)"

lemma others_kept_upd: "others_kept t t1 \<Longrightarrow> r \<in> {''replicasets'', ''pods'', ''endpoints''} \<Longrightarrow> others_kept t (t1(r := row))"
  by (auto simp: others_kept_def)

lemma others_kept_adds: "others_kept t t1 \<Longrightarrow> others_kept t (fold (add_pod rs) us t1)"
  by (simp add: others_kept_def adds_row)

text \<open>The only deployment of a cluster that started as \<open>t0\<close>, whose pods it does not select\<close>

definition deploying :: "string \<Rightarrow> Deployment \<Rightarrow> int32 \<Rightarrow> table \<Rightarrow> stage \<Rightarrow> (nat \<Rightarrow> string) \<Rightarrow> nat \<Rightarrow> table \<Rightarrow> bool" where
  "deploying k d c t0 st u N t \<longleftrightarrow>
     t ''deployments'' = [k \<mapsto> ODeployment d] \<and>
     t ''replicasets'' = (if st = Declared then Map.empty else [new_rs_name d \<mapsto> OReplicaSet (new_rs d (dep_hash d))]) \<and>
     pod_count (dep_selector d) c (st = HasPods) (dom (t0 ''pods'')) u N t \<and> grown d (t0 ''pods'') (t ''pods'') \<and> (st \<noteq> HasPods \<longrightarrow> nat (sint c) \<le> N) \<and>
     tidy (t ''services'') \<and> named (t ''endpoints'') \<and> others_kept t0 t"

lemma deployingD:
  assumes "deploying k d c t0 st u N t"
  shows "t ''deployments'' = [k \<mapsto> ODeployment d]"
    and "t ''replicasets'' = (if st = Declared then Map.empty else [new_rs_name d \<mapsto> OReplicaSet (new_rs d (dep_hash d))])"
    and "pod_count (dep_selector d) c (st = HasPods) (dom (t0 ''pods'')) u N t" and "st \<noteq> HasPods \<Longrightarrow> nat (sint c) \<le> N"
    and "tidy (t ''services'')" and "named (t ''endpoints'')" and "grown d (t0 ''pods'') (t ''pods'')"
    and "others_kept t0 t"
  using assms by (simp_all add: deploying_def)

lemma enumerates_empty [simp]: "enumerates xs Map.empty \<longleftrightarrow> xs = []"
  by (auto simp: enumerates_def)

lemma deployable_new:
  assumes "deployable d c"
  shows "replicas (new_rs d h) = Some c" and "scale (desired_replicas d) (new_rs d h) = new_rs d h"
    and "sound_template (dep_selector d) c (new_rs d (dep_hash d))" and "plain_name (new_rs_name d)"
    and "dep_selects d (new_rs d (dep_hash d))"
proof -
  have rep: "dsp_Replicas (dep_Spec d) = Some c" and set: "settled_obj (ODeployment d)"
    and name: "plain_name (om_Name (dep_ObjectMeta d))" using assms by (simp_all add: deployable_def)
  show r: "replicas (new_rs d h) = Some c" using rep by (rule new_rs_replicas)
  then show "scale (desired_replicas d) (new_rs d h) = new_rs d h"
    by (intro scale_same) (simp add: desired_replicas_def rep replicas_def)
  show n: "plain_name (new_rs_name d)" using name by (rule new_rs_name_plain)
  show "sound_template (dep_selector d) c (new_rs d (dep_hash d))"
    using assms n settled_ok(3) [OF new_rs_settled [OF set]] by (simp add: sound_template_def deployable_def new_rs_name_def)
  show "dep_selects d (new_rs d (dep_hash d))"
    using assms by (auto simp: deployable_def rs_labelsMatch_iff dep_labelsMatch_def list_all_iff label_def set_map_keys fmdom'_alt_def
        fmlookup_dom_iff)
qed

lemma dep_spec_deploying:
  assumes "deployable d c" and "dep_spec d (if st = Declared then Map.empty else [new_rs_name d \<mapsto> OReplicaSet (new_rs d (dep_hash d))]) err row'"
  shows "row' = (if after_round Deployments st = Declared then Map.empty else [new_rs_name d \<mapsto> OReplicaSet (new_rs d (dep_hash d))])"
proof -
  let ?row = "[new_rs_name d \<mapsto> OReplicaSet (new_rs d (dep_hash d))]"
  note new = deployable_new [OF assms(1)]
  have keep: "dep_row d (new_rs_name d) ?row = ?row" by (auto simp: dep_row_def new(2) fun_eq_iff)
  have cur: "current_rs d ?row n \<longleftrightarrow> n = new_rs_name d" for n using new(5) by (auto simp: current_rs_def)
  have none: "\<not> current_rs d Map.empty n" for n by (simp add: current_rs_def)
  show ?thesis
  proof (cases "st = Declared")
    case True
    with assms(2) show ?thesis by (simp add: dep_spec_def none keep)
  next
    case False
    with assms(2) have "row' = ?row" by (auto simp: dep_spec_def cur keep)
    with False show ?thesis by (cases st) simp_all
  qed
qed

lemma new_rs_name_eq: "rs_name (new_rs d (dep_hash d)) = new_rs_name d"
  by (simp add: new_rs_name_def)

context uuids
begin

definition deploying_at :: "string \<Rightarrow> Deployment \<Rightarrow> int32 \<Rightarrow> table \<Rightarrow> stage \<Rightarrow> 'w \<Rightarrow> bool" where
  "deploying_at k d c t0 st w \<longleftrightarrow>
     (\<exists>t e. (\<exists>N. deploying k d c t0 st (draw peek advance e) N t) \<and> world_at good tab env t e w)"

lemma deployments_turn:
  assumes d: "deployable d c"
  shows "triple (deploying_at k d c t0 st) (gbind (dep_reconcile C) (\<lambda>err. gret ())) (\<lambda>_. deploying_at k d c t0 (after_round Deployments st))"
  unfolding deploying_at_def
proof (rule triple_ex, rule triple_ex, rule triple_assuming, elim exE)
  fix t e N assume t: "deploying k d c t0 st (draw peek advance e) N t"
  note D = deployingD [OF t]
  let ?Q = "\<lambda>w. \<exists>t e. (\<exists>N. deploying k d c t0 (after_round Deployments st) (draw peek advance e) N t) \<and> world_at good tab env t e w"
  note new = deployable_new [OF d]
  have set: "settled_obj (ODeployment d)" using d by (simp add: deployable_def)
  have sync: "triple (world_at good tab env t e) (syncDeployment C d) (\<lambda>_. ?Q)"
  proof (rule triple_post [OF syncDeployment_effect])
    show "named (t ''replicasets'')" using D(2) by (auto simp: named_def new_rs_name_def)
    show "settled_obj (ODeployment d)" by (rule set)
    show "plain_name (new_rs_name d)" using new(4) .
    show "plain_name n" if "t ''replicasets'' n \<noteq> None" for n
      using that D(2) new(4) by (auto split: if_splits)
    fix err w assume "\<exists>row'. dep_spec d (t ''replicasets'') err row' \<and> world_at good tab env (t(''replicasets'' := row')) e w"
    then obtain row' where spec: "dep_spec d (t ''replicasets'') err row'" and w: "world_at good tab env (t(''replicasets'' := row')) e w"
      by blast
    have "deploying k d c t0 (after_round Deployments st) (draw peek advance e) N (t(''replicasets'' := row'))"
    proof -
      have "row' = (if after_round Deployments st = Declared then Map.empty else [new_rs_name d \<mapsto> OReplicaSet (new_rs d (dep_hash d))])"
        using spec unfolding D(2) by (rule dep_spec_deploying [OF d])
      moreover have "after_round Deployments st = HasPods \<longleftrightarrow> st = HasPods" by (cases st) simp_all
      moreover have "pod_count (dep_selector d) c (st = HasPods) (dom (t0 ''pods'')) (draw peek advance e) N (t(''replicasets'' := row'))"
        using D(3) by (rule pod_count_rows) simp
      ultimately show ?thesis using D by (simp add: deploying_def others_kept_upd)
    qed
    with w show "?Q w" by blast
  qed
  have rec: "triple (world_at good tab env t e) (dep_reconcile C) (\<lambda>_. ?Q)"
    unfolding dep_reconcile_def
  proof (rule triple_gbind [OF ListDeployments_effect], rule triple_listed)
    fix r :: "Deployment slice result" and ds
    assume r: "r = Inr (slice_of ds)" and en: "enumerates (map ODeployment ds) (t ''deployments'')"
    have "map ODeployment ds = [ODeployment d]" using en unfolding D(1) by (rule enumerates_single)
    then have ds: "ds = [d]" by auto
    show "triple (world_at good tab env t e) (case r of Inl err \<Rightarrow> gret (Some err)
       | Inr deployments \<Rightarrow>
           gbind (for_each (elems deployments) (\<lambda>d. gbind (syncDeployment C d) (\<lambda>err. gret ()))) (\<lambda>_. gret None)) (\<lambda>_. ?Q)"
      unfolding r ds sum.case elems_slice_of for_each.simps gbind_assoc gbind_gret
      by (rule triple_gbind [OF sync]) (rule triple_gret)
  qed
  show "triple (world_at good tab env t e) (gbind (dep_reconcile C) (\<lambda>err. gret ())) (\<lambda>_. ?Q)"
    by (rule triple_gbind [OF rec]) (rule triple_gret)
qed

lemma replicasets_turn:
  assumes d: "deployable d c"
  shows "triple (deploying_at k d c t0 st) (rs_reconcile C newUUID) (\<lambda>_. deploying_at k d c t0 (after_round ReplicaSets st))"
  unfolding deploying_at_def
proof (rule triple_ex, rule triple_ex, rule triple_assuming, elim exE)
  fix t e N assume t: "deploying k d c t0 st (draw peek advance e) N t"
  note D = deployingD [OF t]
  let ?Q = "\<lambda>w. \<exists>t e. (\<exists>N. deploying k d c t0 (after_round ReplicaSets st) (draw peek advance e) N t) \<and> world_at good tab env t e w"
  let ?new = "new_rs d (dep_hash d)" and ?n = "nat (sint c)"
  note new = deployable_new [OF d]
  have c: "0 < sint c" using d by (simp add: deployable_def)
  show "triple (world_at good tab env t e) (rs_reconcile C newUUID) (\<lambda>_. ?Q)"
  proof (rule reconcile_lists)
    fix rss ps assume rss: "enumerates (map OReplicaSet rss) (t ''replicasets'')" and ps: "enumerates (map OPod ps) (t ''pods'')"
    note p = counted_pods [OF D(3) ps]
    show "triple (world_at good tab env t e) (for_each rss (\<lambda>rs. reconcileRS C newUUID rs ps)) (\<lambda>_. ?Q)"
    proof (cases st)
      case Declared
      then have "rss = []" using rss D(2) by simp
      then show ?thesis using t Declared by (auto intro: triple_gret)
    next
      case HasReplicaSet
      then have "map OReplicaSet rss = [OReplicaSet ?new]" using rss D(2) by (intro enumerates_single [of _ "new_rs_name d"]) simp
      then have one: "rss = [?new]" by auto
      let ?t = "fold (add_pod ?new) (map (draw peek advance e) [0..<?n]) t" and ?e = "(advance ^^ ?n) e"
      have N: "?n \<le> N" using D(4) HasReplicaSet by simp
      have long: "5 \<le> length (draw peek advance e i)" if "i < ?n" for i
        using pod_countD(6) [OF D(3)] that N by (simp add: fresh_ids_def)
      have up: "triple (world_at good tab env t e) (for_each rss (\<lambda>rs. reconcileRS C newUUID rs ps)) (\<lambda>_. world_at good tab env ?t ?e)"
      proof (rule flap_up [where sel = "dep_selector d"])
        show "my_pods (dep_selector d) ps = []" using p(4) HasReplicaSet by simp
        show "5 \<le> length (draw peek advance e i)" if "i < ?n" for i using that by (rule long)
        show "marshal_obj (OPod (pod_from_template ?new u)) \<noteq> None" for u
          using new(3) by (intro template_ok) (simp add: sound_template_def)
      qed (use one new(1) c p(1) in simp_all)
      have "pod_count (dep_selector d) c True (dom (t0 ''pods'')) (draw peek advance ?e) (N - ?n) ?t"
        using count_up [of "dep_selector d" c "dom (t0 ''pods'')" "draw peek advance e" N t ?new] D(3) HasReplicaSet new(1,3) N
        by (simp add: draw_shift)
      then have "deploying k d c t0 HasPods (draw peek advance ?e) (N - ?n) ?t"
        using D HasReplicaSet grown_adds [of d "t0 ''pods''" t "map (draw peek advance e) [0..<?n]", OF D(7)] long
        by (simp add: deploying_def adds_row others_kept_adds fun_upd_def)
      with HasReplicaSet show ?thesis by (auto intro: triple_post [OF up])
    next
      case HasPods
      then have "map OReplicaSet rss = [OReplicaSet ?new]" using rss D(2) by (intro enumerates_single [of _ "new_rs_name d"]) simp
      then have one: "rss = [?new]" by auto
      have "reconcileRS C newUUID ?new ps = gret ()"
        using p(1,4) HasPods c by (intro reconcile_even [OF new(1)]) simp_all
      then have "for_each rss (\<lambda>rs. reconcileRS C newUUID rs ps) = gret ()" by (simp add: one)
      then show ?thesis using t HasPods by (auto intro: triple_gret)
    qed
  qed
qed

lemma services_turn:
  assumes "sorts_addresses srt"
  shows "triple (deploying_at k d c t0 st) (gbind (syncServices C srt) (\<lambda>err. gret ())) (\<lambda>_. deploying_at k d c t0 (after_round Services st))"
  unfolding deploying_at_def
proof (rule triple_ex, rule triple_ex, rule triple_assuming, elim exE)
  fix t e N assume t: "deploying k d c t0 st (draw peek advance e) N t"
  note D = deployingD [OF t]
  let ?Q = "\<lambda>w. \<exists>t e. (\<exists>N. deploying k d c t0 (after_round Services st) (draw peek advance e) N t) \<and> world_at good tab env t e w"
  have "triple (world_at good tab env t e) (syncServices C srt) (\<lambda>_. ?Q)"
  proof (rule triple_post [OF syncServices_effect])
    show "tidy (t ''services'')" "named (t ''endpoints'')" using D(5,6) .
    show "named (t ''pods'')" using pod_countD(1) [OF D(3)] by (simp add: tidy_def)
    show "sorts_addresses srt" by (rule assms)
    fix err w assume "err = None \<and> (\<exists>svcs row. enumerates (map OService svcs) (t ''services'') \<and> svc_round svcs t row \<and>
      world_at good tab env (t(''endpoints'' := row)) e w)"
    then obtain row where row: "named row" and w: "world_at good tab env (t(''endpoints'' := row)) e w"
      by (auto simp: svc_round_def)
    have "pod_count (dep_selector d) c (st = HasPods) (dom (t0 ''pods'')) (draw peek advance e) N (t(''endpoints'' := row))"
      using D(3) by (rule pod_count_rows) simp
    then have "deploying k d c t0 st (draw peek advance e) N (t(''endpoints'' := row))"
      using D row by (simp add: deploying_def others_kept_upd)
    with w show "?Q w" by auto
  qed
  then show "triple (world_at good tab env t e) (gbind (syncServices C srt) (\<lambda>err. gret ())) (\<lambda>_. ?Q)"
    by (rule triple_gbind) (rule triple_gret)
qed

lemma controllers_converge:
  assumes "deployable d c" and "sorts_addresses srt"
  shows "triple (deploying_at k d c t0 st) (controllers_run newUUID srt ks C) (\<lambda>_. deploying_at k d c t0 (fold after_round ks st))"
proof (induction ks arbitrary: st)
  case Nil
  then show ?case by (auto simp: controllers_run_def intro: triple_gret)
next
  case (Cons r ks)
  have "triple (deploying_at k d c t0 st) (controller_round C newUUID srt r) (\<lambda>_. deploying_at k d c t0 (after_round r st))"
    using deployments_turn [OF assms(1)] replicasets_turn [OF assms(1)] services_turn [OF assms(2)]
    by (cases r) (simp_all add: controller_round_def)
  from triple_gbind [OF this Cons.IH] show ?case by (simp add: controllers_run_def)
qed

end

text \<open>What the rounds come to: a round of deployments and, some time after, one of replica sets\<close>

lemma stage_reached: "fold after_round (as @ Deployments # bs @ ReplicaSets # cs) Declared = HasPods"
proof -
  have stay: "fold after_round ks HasPods = HasPods" for ks
    by (induction ks) (simp_all split: controller.split)
  have mid: "fold after_round ks HasReplicaSet \<noteq> Declared" for ks
  proof (induction ks)
    case (Cons r ks)
    then show ?case using stay by (cases r) simp_all
  qed simp
  have "fold after_round as Declared \<in> {Declared, HasReplicaSet, HasPods}" by (cases "fold after_round as Declared") simp_all
  have first: "after_round Deployments st \<noteq> Declared" for st by (cases st) simp_all
  have late: "fold after_round ks st \<noteq> Declared" if "st \<noteq> Declared" for ks st
    using that mid stay by (cases st) auto
  have last: "after_round ReplicaSets st = HasPods" if "st \<noteq> Declared" for st using that by (cases st) simp_all
  show ?thesis using last [OF late [OF first]] stay by simp
qed

section \<open>Properties\<close>

text \<open>C4: A new deployment converges and rests: in a cluster with no other deployment and no replica set, its
  selector matching its own template and no existing pod, once the manager has run a round of the
  deployment controller and later one of the replica set controller, with whatever rounds of the
  three before, between and after, there is exactly one replica set, at the desired count, and
  exactly that many pods match the selector, each new one made from the template; no other pod is touched,
  and of the other resources only the endpoints.\<close>

theorem new_deployment_converges:
  assumes "cluster_good w" and "deployable d c"
    and "cluster_table w ''deployments'' = [k \<mapsto> ODeployment d]" and "cluster_table w ''replicasets'' = Map.empty"
    and "tidy (cluster_table w ''pods'')" and "card (dom (cluster_table w ''pods'')) + nat (sint c) < 2 ^ 31"
    and "owned (dep_selector d) (cluster_table w ''pods'') = {}"
    and "tidy (cluster_table w ''services'')" and "named (cluster_table w ''endpoints'')" and "sorts_addresses srt"
    and "fresh_ids (coming_uuids w) (nat (sint c)) (cluster_table w)"
    and "\<forall>i < nat (sint c). list_all name_char (take 5 (coming_uuids w i))"
  shows "\<exists>w'. controllers_run draw_uuid srt (as @ Deployments # bs @ ReplicaSets # cs) (cluster_client base) w = (Ret (), w') \<and>
    cluster_table w' ''replicasets'' = [new_rs_name d \<mapsto> OReplicaSet (new_rs d (dep_hash d))] \<and>
    replicas (new_rs d (dep_hash d)) = Some c \<and>
    card (owned (dep_selector d) (cluster_table w' ''pods'')) = nat (sint c) \<and>
    dom (cluster_table w' ''pods'') = dom (cluster_table w ''pods'') \<union> owned (dep_selector d) (cluster_table w' ''pods'') \<and>
    grown d (cluster_table w ''pods'') (cluster_table w' ''pods'') \<and> others_kept (cluster_table w) (cluster_table w')"
proof -
  let ?t = "cluster_table w" and ?ks = "as @ Deployments # bs @ ReplicaSets # cs"
  have fin: "finite (dom (?t ''pods''))" using assms(1) by (rule cluster_pods_finite)
  have "deploying k d c ?t Declared (coming_uuids w) (nat (sint c)) (cluster_table w)"
    using assms fin by (simp add: deploying_def pod_count_def grown_def others_kept_def)
  then have at: "rs_cluster.deploying_at k d c ?t Declared w"
    unfolding rs_cluster.deploying_at_def using assms(1) by (auto simp: draw_uuids world_at_def)
  have "triple (rs_cluster.deploying_at k d c ?t Declared) (controllers_run draw_uuid srt ?ks (cluster_client base))
      (\<lambda>_. rs_cluster.deploying_at k d c ?t (fold after_round ?ks Declared))"
    using assms(2,10) by (rule rs_cluster.controllers_converge)
  then obtain x w' where run: "controllers_run draw_uuid srt ?ks (cluster_client base) w = (Ret x, w')"
    and "rs_cluster.deploying_at k d c ?t (fold after_round ?ks Declared) w'" using at by (rule tripleE)
  then have end_at: "rs_cluster.deploying_at k d c ?t HasPods w'" unfolding stage_reached by simp
  from end_at obtain u N where "deploying k d c ?t HasPods u N (cluster_table w')"
    by (auto simp: rs_cluster.deploying_at_def world_at_def)
  note D = deployingD [OF this]
  have "cluster_table w' ''replicasets'' = [new_rs_name d \<mapsto> OReplicaSet (new_rs d (dep_hash d))]" using D(2) by simp
  moreover have "card (owned (dep_selector d) (cluster_table w' ''pods'')) = nat (sint c)"
    "dom (cluster_table w' ''pods'') = dom (?t ''pods'') \<union> owned (dep_selector d) (cluster_table w' ''pods'')"
    using pod_countD(3,5) [OF D(3)] owned_dom [of "dep_selector d" "cluster_table w' ''pods''"] by auto
  ultimately show ?thesis using run deployable_new(1) [OF assms(2)] D(7,8) by simp
qed

theorem new_deployment_converges_witness:
  "\<exists>w'. controllers_run draw_uuid (sort_key ea_IP)
      ([ReplicaSets] @ Deployments # [Services] @ ReplicaSets # [ReplicaSets, Deployments]) (cluster_client ''http://api'')
      (cluster_with [ODeployment (demo_dep (Some 2) (fmupd ''app'' ''web'' fmempty))] demo_uuids) = (Ret (), w') \<and>
    card (owned (fmupd ''app'' ''web'' fmempty) (cluster_table w' ''pods'')) = 2"
proof -
  let ?L = "fmupd ''app'' ''web'' fmempty :: strmap"
  let ?d = "demo_dep (Some 2) ?L" and ?w = "cluster_with [ODeployment (demo_dep (Some 2) ?L)] demo_uuids"
  let ?t = "cluster_table ?w"
  have two: "nat (sint (2 :: int32)) = 2" by simp
  have name: "plain_name ''web''" by (simp add: plain_name_def name_char_def)
  have "rs_labelsMatch ?L ?L" by (auto simp: rs_labelsMatch_iff)
  then have dep: "deployable ?d 2" using demo_dep_settled name by (simp add: deployable_def ObjectMeta_zero_def)
  have empty: "?t ''replicasets'' = Map.empty" "?t ''pods'' = Map.empty" "?t ''services'' = Map.empty" "?t ''endpoints'' = Map.empty"
    and row: "?t ''deployments'' = [''web'' \<mapsto> ODeployment ?d]" by (simp_all add: demo_dep_table)
  have tidy: "tidy Map.empty" "named Map.empty" by (simp_all add: tidy_def named_def)
  have none: "owned (dep_selector ?d) (?t ''pods'') = {}" by (simp add: empty owned_def)
  have fresh: "fresh_ids (coming_uuids ?w) (nat (sint (2 :: int32))) ?t"
    unfolding two fresh_ids_def empty by (auto simp: numeral_2_eq_2)
  have chars: "\<forall>i < nat (sint (2 :: int32)). list_all name_char (take 5 (coming_uuids ?w i))"
    unfolding two by (auto simp: numeral_2_eq_2 name_char_def less_Suc_eq)
  have "\<exists>w'. controllers_run draw_uuid (sort_key ea_IP) ([ReplicaSets] @ Deployments # [Services] @ ReplicaSets # [ReplicaSets, Deployments])
      (cluster_client ''http://api'') ?w = (Ret (), w') \<and>
    cluster_table w' ''replicasets'' = [new_rs_name ?d \<mapsto> OReplicaSet (new_rs ?d (dep_hash ?d))] \<and>
    replicas (new_rs ?d (dep_hash ?d)) = Some 2 \<and>
    card (owned (dep_selector ?d) (cluster_table w' ''pods'')) = nat (sint (2 :: int32)) \<and>
    dom (cluster_table w' ''pods'') = dom (?t ''pods'') \<union> owned (dep_selector ?d) (cluster_table w' ''pods'') \<and>
    grown ?d (?t ''pods'') (cluster_table w' ''pods'') \<and> others_kept ?t (cluster_table w')"
    by (rule new_deployment_converges [OF demo_dep_good dep row _ _ _ none _ _ sort_addresses fresh chars])
      (simp_all add: empty tidy)
  then show ?thesis unfolding two demo_dep_simps by blast
qed

end
