(* ===== verification/Watch.thy ===== *)
theory Watch
  imports Apiserver StorageSpec
begin

text \<open>
  The streaming half of a watch: the loop of \<open>handleWatch\<close> (internal/apiserver/server.go) against
  \<open>notifyWatchers\<close> and \<open>Stop\<close> (internal/storage/memory.go), step by step. Storage takes an operation
  with its notifications as one step; here every send on a watcher's channel is one, the goroutines
  that stream interleave with it, and who holds the store's lock is part of the state.
\<close>

section \<open>What is streamed\<close>

fun EventType_text :: "EventType \<Rightarrow> string" where
  "EventType_text Added = ''ADDED''"
| "EventType_text Modified = ''MODIFIED''"
| "EventType_text Deleted = ''DELETED''"
| "EventType_text ErrorEvent = ''ERROR''"

text \<open>
  \<open>encoder.Encode(event)\<close>: one line of JSON. How a generic map prints (its numbers are floating point)
  is the argument \<open>generic\<close>.
\<close>

fun payload_json :: "((string \<times> json) list \<Rightarrow> json) \<Rightarrow> payload \<Rightarrow> json" where
  "payload_json generic (Live ob) = obj_json ob"
| "payload_json generic (Tombstone None) = JNull"
| "payload_json generic (Tombstone (Some ms)) = generic ms"

definition Event_json :: "((string \<times> json) list \<Rightarrow> json) \<Rightarrow> Event \<Rightarrow> json" where
  "Event_json generic ev =
     JObj [(''Type'', JStr (EventType_text (ev_Type ev))), (''Object'', payload_json generic (ev_Object ev))]"

definition Encode :: "((string \<times> json) list \<Rightarrow> json) \<Rightarrow> Event \<Rightarrow> string" where
  "Encode generic ev = print_json (Event_json generic ev) @ [CHR 0x0A]"

text \<open>One turn of the loop: what it writes and flushes, or that it returns (\<open>None\<close>)\<close>

datatype selected = ContextDone | Received "Event option"

definition watch_turn :: "(Event \<Rightarrow> string) \<Rightarrow> bool \<Rightarrow> selected \<Rightarrow> string option" where
  "watch_turn enc writable sel =
     (case sel of
        ContextDone \<Rightarrow> None
      | Received None \<Rightarrow> None
      | Received (Some event) \<Rightarrow> if writable then Some (enc event) else None)"

section \<open>Changes in three parts\<close>

datatype change = Create_of string obj | Update_of string obj | Delete_of string

fun change_run :: "change \<Rightarrow> MemoryStore \<Rightarrow> (gerror option \<times> MemoryStore) option" where
  "change_run (Create_of key ob) = ms_Create key ob"
| "change_run (Update_of key ob) = ms_Update key ob"
| "change_run (Delete_of key) = ms_Delete key"

fun change_key :: "change \<Rightarrow> string" where
  "change_key (Create_of key ob) = key"
| "change_key (Update_of key ob) = key"
| "change_key (Delete_of key) = key"

text \<open>The refusal before anything is touched, the new entries, the event\<close>

fun change_guard :: "change \<Rightarrow> MemoryStore \<Rightarrow> gerror option" where
  "change_guard (Create_of key ob) s = create_guard key ob (ms_view s)"
| "change_guard (Update_of key ob) s = update_guard key ob (ms_view s)"
| "change_guard (Delete_of key) s = delete_guard key (ms_view s)"

fun change_data :: "change \<Rightarrow> entries \<Rightarrow> entries" where
  "change_data (Create_of key ob) d = AList.update key (the (marshal_obj ob)) d"
| "change_data (Update_of key ob) d = AList.update key (the (marshal_obj ob)) d"
| "change_data (Delete_of key) d = AList.delete key d"

fun change_event :: "change \<Rightarrow> MemoryStore \<Rightarrow> Event" where
  "change_event (Create_of key ob) s = \<lparr>ev_Type = Added, ev_Object = Live ob\<rparr>"
| "change_event (Update_of key ob) s = \<lparr>ev_Type = Modified, ev_Object = Live ob\<rparr>"
| "change_event (Delete_of key) s = \<lparr>ev_Type = Deleted, ev_Object = tombstone (the (ms_view s key))\<rparr>"

lemma change_run_parts:
  "change_run c s = (case change_guard c s of
     Some err \<Rightarrow> Some (Some err, s)
   | None \<Rightarrow> commit (ev_Type (change_event c s)) (change_key c) (ev_Object (change_event c s)) (change_data c (ms_data s)) s)"
  by (cases c) (simp_all add: ms_op_commits split: option.split)

section \<open>The server with its streams\<close>

text \<open>A stream whose loop has returned waits in the deferred \<open>Stop\<close> for the store's lock.\<close>

datatype stream_phase = Looping | Stopping | Stopped

text \<open>\<open>sm_since\<close> is the number of changes before the watch was opened; it is not in the program.\<close>

record stream =
  sm_prefix :: string
  sm_phase :: stream_phase
  sm_body :: "string list"
  sm_since :: nat

text \<open>The lock of the store: free, or held by a change with the watchers it still has to send to\<close>

datatype store_lock = Unlocked | Sending Event "nat list"

text \<open>\<open>ww_log\<close> records the changes that were not refused; it is not in the program.\<close>

record watch_world =
  ww_store :: MemoryStore
  ww_lock :: store_lock
  ww_streams :: "nat \<rightharpoonup> stream"
  ww_log :: "(string \<times> Event) list"

datatype act = Begin_change change | Send_event | Finish_change | Open_watch string | Turn nat bool | CtxEnd nat | Close_watch nat

definition chan_of :: "nat \<Rightarrow> MemoryStore \<Rightarrow> Event list option" where
  "chan_of i s = map_option w_chan (find (\<lambda>w. w_id w = i) (ms_watchers s))"

definition set_chan :: "nat \<Rightarrow> Event list \<Rightarrow> MemoryStore \<Rightarrow> MemoryStore" where
  "set_chan i evs s = s\<lparr>ms_watchers := map (\<lambda>w. if w_id w = i then w\<lparr>w_chan := evs\<rparr> else w) (ms_watchers s)\<rparr>"

definition watchers_of :: "string \<Rightarrow> MemoryStore \<Rightarrow> nat list" where
  "watchers_of key s = map w_id (filter (\<lambda>w. has_prefix key (w_keyPrefix w)) (ms_watchers s))"

inductive watch_step :: "(Event \<Rightarrow> string) \<Rightarrow> act \<Rightarrow> watch_world \<Rightarrow> watch_world \<Rightarrow> bool" for enc where
  Begin_change: "ww_lock s = Unlocked \<Longrightarrow> change_guard c (ww_store s) = None \<Longrightarrow>
    watch_step enc (Begin_change c) s (s\<lparr>
      ww_store := (ww_store s)\<lparr>ms_data := change_data c (ms_data (ww_store s))\<rparr>,
      ww_lock := Sending (change_event c (ww_store s)) (watchers_of (change_key c) (ww_store s)),
      ww_log := ww_log s @ [(change_key c, change_event c (ww_store s))]\<rparr>)"
| Send_event: "ww_lock s = Sending ev (i # todo) \<Longrightarrow> chan_of i (ww_store s) = Some evs \<Longrightarrow> length evs < chan_cap \<Longrightarrow>
    watch_step enc Send_event s (s\<lparr>ww_store := set_chan i (evs @ [ev]) (ww_store s), ww_lock := Sending ev todo\<rparr>)"
| Finish_change: "ww_lock s = Sending ev [] \<Longrightarrow>
    watch_step enc Finish_change s (s\<lparr>ww_store := snd (ms_sync (ww_store s)), ww_lock := Unlocked\<rparr>)"
| Open_watch: "ww_lock s = Unlocked \<Longrightarrow> ms_Watch p (ww_store s) = (i, st) \<Longrightarrow>
    watch_step enc (Open_watch p) s (s\<lparr>ww_store := st,
      ww_streams := (ww_streams s)(i \<mapsto> \<lparr>sm_prefix = p, sm_phase = Looping, sm_body = [], sm_since = length (ww_log s)\<rparr>)\<rparr>)"
| Turn: "ww_streams s i = Some sm \<Longrightarrow> sm_phase sm = Looping \<Longrightarrow> chan_of i (ww_store s) = Some (ev # evs) \<Longrightarrow>
    watch_step enc (Turn i writable) s (s\<lparr>ww_store := set_chan i evs (ww_store s),
      ww_streams := (ww_streams s)(i \<mapsto> (case watch_turn enc writable (Received (Some ev)) of
        Some t \<Rightarrow> sm\<lparr>sm_body := sm_body sm @ [t]\<rparr> | None \<Rightarrow> sm\<lparr>sm_phase := Stopping\<rparr>))\<rparr>)"
| CtxEnd: "ww_streams s i = Some sm \<Longrightarrow> sm_phase sm = Looping \<Longrightarrow> watch_turn enc w ContextDone = None \<Longrightarrow>
    watch_step enc (CtxEnd i) s (s\<lparr>ww_streams := (ww_streams s)(i \<mapsto> sm\<lparr>sm_phase := Stopping\<rparr>)\<rparr>)"
| Close_watch: "ww_lock s = Unlocked \<Longrightarrow> ww_streams s i = Some sm \<Longrightarrow> sm_phase sm = Stopping \<Longrightarrow>
    ms_Stop i (ww_store s) = Some st \<Longrightarrow>
    watch_step enc (Close_watch i) s (s\<lparr>ww_store := st, ww_streams := (ww_streams s)(i \<mapsto> sm\<lparr>sm_phase := Stopped\<rparr>)\<rparr>)"

inductive_cases BeginE: "watch_step enc (Begin_change c) s s'"
inductive_cases SendE: "watch_step enc Send_event s s'"
inductive_cases FinishE: "watch_step enc Finish_change s s'"
inductive_cases TurnE: "watch_step enc (Turn i writable) s s'"

inductive watch_run :: "(Event \<Rightarrow> string) \<Rightarrow> act list \<Rightarrow> watch_world \<Rightarrow> watch_world \<Rightarrow> bool" for enc where
  run_Nil: "watch_run enc [] s s"
| run_Cons: "watch_step enc a s s' \<Longrightarrow> watch_run enc as s' s'' \<Longrightarrow> watch_run enc (a # as) s s''"

inductive_cases run_NilE [elim!]: "watch_run enc [] s s'"
inductive_cases run_ConsE: "watch_run enc (a # as) s s'"

text \<open>A server that has just loaded its store\<close>

definition watch_start :: "MemoryStore \<Rightarrow> watch_world" where
  "watch_start st = \<lparr>ww_store = st, ww_lock = Unlocked, ww_streams = Map.empty, ww_log = []\<rparr>"

definition watch_reach :: "(Event \<Rightarrow> string) \<Rightarrow> watch_world \<Rightarrow> bool" where
  "watch_reach enc s \<longleftrightarrow> (\<exists>st as. ms_watchers st = [] \<and> watch_run enc as (watch_start st) s)"

section \<open>Watchers by identity\<close>

definition watcher_at :: "nat \<Rightarrow> MemoryStore \<Rightarrow> watcher option" where
  "watcher_at i s = find (\<lambda>w. w_id w = i) (ms_watchers s)"

definition watcher_ids :: "MemoryStore \<Rightarrow> nat list" where
  "watcher_ids s = map w_id (ms_watchers s)"

lemma chan_of_at: "chan_of i s = map_option w_chan (watcher_at i s)"
  by (simp add: chan_of_def watcher_at_def)

lemma watcher_at_iff:
  assumes "distinct (watcher_ids s)"
  shows "watcher_at i s = Some w \<longleftrightarrow> w \<in> set (ms_watchers s) \<and> w_id w = i"
proof -
  have "find (\<lambda>w. w_id w = i) ws = Some w \<longleftrightarrow> w \<in> set ws \<and> w_id w = i" if "distinct (map w_id ws)" for ws
    using that by (induction ws) (auto simp: image_iff)
  then show ?thesis using assms by (simp add: watcher_at_def watcher_ids_def)
qed

lemma watcher_at_None: "watcher_at i s = None \<longleftrightarrow> i \<notin> set (watcher_ids s)"
  by (auto simp: watcher_at_def watcher_ids_def find_None_iff)

lemma watchers_of_iff:
  assumes "distinct (watcher_ids s)"
  shows "i \<in> set (watchers_of key s) \<longleftrightarrow> (\<exists>w. watcher_at i s = Some w \<and> has_prefix key (w_keyPrefix w))"
  unfolding watcher_at_iff [OF assms] by (auto simp: watchers_of_def)

lemma watchers_of_distinct: "distinct (watcher_ids s) \<Longrightarrow> distinct (watchers_of key s)"
  by (simp add: watchers_of_def watcher_ids_def distinct_map_filter)

lemma watchers_of_ids: "set (watchers_of key s) \<subseteq> set (watcher_ids s)"
  by (auto simp: watchers_of_def watcher_ids_def)

lemma set_chan_simps [simp]:
  "watcher_ids (set_chan i evs s) = watcher_ids s" "ms_next (set_chan i evs s) = ms_next s"
  "ms_data (set_chan i evs s) = ms_data s" "ms_view (set_chan i evs s) = ms_view s"
  "watcher_at j (set_chan i evs s) = map_option (\<lambda>w. if j = i then w\<lparr>w_chan := evs\<rparr> else w) (watcher_at j s)"
proof -
  have "find (\<lambda>w. w_id w = j) (map (\<lambda>w. if w_id w = i then w\<lparr>w_chan := evs\<rparr> else w) ws) =
      map_option (\<lambda>w. if j = i then w\<lparr>w_chan := evs\<rparr> else w) (find (\<lambda>w. w_id w = j) ws)" for ws
    by (induction ws) auto
  then show "watcher_at j (set_chan i evs s) = map_option (\<lambda>w. if j = i then w\<lparr>w_chan := evs\<rparr> else w) (watcher_at j s)"
    by (simp add: watcher_at_def set_chan_def)
qed (auto simp: watcher_ids_def set_chan_def ms_view_def)

lemma ms_sync_simps [simp]:
  "watcher_ids (snd (ms_sync s)) = watcher_ids s" "ms_next (snd (ms_sync s)) = ms_next s"
  "ms_view (snd (ms_sync s)) = ms_view s" "watcher_at i (snd (ms_sync s)) = watcher_at i s"
  by (auto simp: ms_sync_def watcher_ids_def watcher_at_def ms_view_def split: list.split option.split)

lemma ms_data_simps [simp]:
  "watcher_ids (s\<lparr>ms_data := d\<rparr>) = watcher_ids s" "watcher_at i (s\<lparr>ms_data := d\<rparr>) = watcher_at i s"
  "ms_view (s\<lparr>ms_data := d\<rparr>) = map_of d" "ms_view (s\<lparr>ms_watchers := ws\<rparr>) = ms_view s"
  "ms_view (s\<lparr>ms_next := n\<rparr>) = ms_view s"
  by (simp_all add: watcher_ids_def watcher_at_def ms_view_def)

lemma ms_Watch_at:
  assumes "ms_Watch p s = (i, s')"
  shows "i = ms_next s" and "ms_next s' = Suc i" and "ms_view s' = ms_view s" and "watcher_ids s' = watcher_ids s @ [i]"
    and "i \<notin> set (watcher_ids s) \<Longrightarrow> watcher_at j s' = (if j = i then Some \<lparr>w_id = i, w_keyPrefix = p, w_chan = []\<rparr> else watcher_at j s)"
proof -
  have snoc: "find P (ws @ [w]) = (case find P ws of None \<Rightarrow> if P w then Some w else None | Some x \<Rightarrow> Some x)"
    for P and ws :: "watcher list" and w by (induction ws) auto
  show "i = ms_next s" "ms_next s' = Suc i" "ms_view s' = ms_view s" "watcher_ids s' = watcher_ids s @ [i]"
    using assms by (auto simp: ms_Watch_def ms_view_def watcher_ids_def)
  assume "i \<notin> set (watcher_ids s)"
  then have "watcher_at i s = None" by (simp add: watcher_at_None)
  then show "watcher_at j s' = (if j = i then Some \<lparr>w_id = i, w_keyPrefix = p, w_chan = []\<rparr> else watcher_at j s)"
    using assms by (auto simp: ms_Watch_def watcher_at_def snoc split: option.split)
qed

lemma ms_Stop_at:
  assumes "ms_Stop i s = Some s'" and "distinct (watcher_ids s)"
  shows "ms_next s' = ms_next s" and "ms_view s' = ms_view s" and "distinct (watcher_ids s')"
    and "set (watcher_ids s') = set (watcher_ids s) - {i}"
    and "watcher_at j s' = (if j = i then None else watcher_at j s)"
proof -
  have drop: "map w_id (drop_watcher k ws) = remove1 k (map w_id ws)" for k ws by (induction ws) auto
  have ids: "watcher_ids s' = remove1 i (watcher_ids s)"
    using assms(1) by (auto simp: ms_Stop_def watcher_ids_def drop split: if_splits)
  show "ms_next s' = ms_next s" "ms_view s' = ms_view s"
    using assms(1) by (auto simp: ms_Stop_def ms_view_def split: if_splits)
  show "distinct (watcher_ids s')" and set: "set (watcher_ids s') = set (watcher_ids s) - {i}"
    using assms(2) by (simp_all add: ids distinct_remove1)
  have "find (\<lambda>w. w_id w = j) (drop_watcher k ws) = find (\<lambda>w. w_id w = j) ws" if "j \<noteq> k" for k ws
    using that by (induction ws) auto
  moreover have "watcher_at i s' = None" using set by (simp add: watcher_at_None)
  ultimately show "watcher_at j s' = (if j = i then None else watcher_at j s)"
    using assms(1) by (auto simp: ms_Stop_def watcher_at_def split: if_splits)
qed

section \<open>What a stream has said\<close>

text \<open>The events of the changes under a prefix\<close>

definition heard :: "string \<Rightarrow> (string \<times> Event) list \<Rightarrow> Event list" where
  "heard p log = map snd (filter (\<lambda>(key, ev). has_prefix key p) log)"

text \<open>What the change that holds the lock has still to send to watcher \<open>i\<close>\<close>

fun due :: "nat \<Rightarrow> store_lock \<Rightarrow> Event list" where
  "due i Unlocked = []"
| "due i (Sending ev todo) = (if i \<in> set todo then [ev] else [])"

text \<open>
  The body of a stream, what its channel holds and what is due make up the changes since it was opened;
  once its loop has returned the body is a prefix of them.
\<close>

definition stream_ok :: "(Event \<Rightarrow> string) \<Rightarrow> watch_world \<Rightarrow> nat \<Rightarrow> stream \<Rightarrow> bool" where
  "stream_ok enc s i sm \<longleftrightarrow> sm_since sm \<le> length (ww_log s) \<and>
     (let all = map enc (heard (sm_prefix sm) (drop (sm_since sm) (ww_log s))) in
      if sm_phase sm = Looping then \<exists>evs. chan_of i (ww_store s) = Some evs \<and> all = sm_body sm @ map enc (evs @ due i (ww_lock s))
      else \<exists>rest. all = sm_body sm @ rest)"

definition lock_ok :: "watch_world \<Rightarrow> bool" where
  "lock_ok s \<longleftrightarrow> (case ww_lock s of Unlocked \<Rightarrow> True
     | Sending ev todo \<Rightarrow> distinct todo \<and> set todo \<subseteq> set (watcher_ids (ww_store s)))"

definition watch_inv :: "(Event \<Rightarrow> string) \<Rightarrow> watch_world \<Rightarrow> bool" where
  "watch_inv enc s \<longleftrightarrow> distinct (watcher_ids (ww_store s)) \<and> lock_ok s \<and>
     (\<forall>i \<in> set (watcher_ids (ww_store s)). i < ms_next (ww_store s)) \<and>
     (\<forall>i w. watcher_at i (ww_store s) = Some w \<longrightarrow> length (w_chan w) \<le> chan_cap \<and>
        (\<exists>sm. ww_streams s i = Some sm \<and> sm_phase sm \<noteq> Stopped \<and> sm_prefix sm = w_keyPrefix w)) \<and>
     (\<forall>i sm. ww_streams s i = Some sm \<longrightarrow> i < ms_next (ww_store s) \<and> stream_ok enc s i sm \<and>
        (sm_phase sm \<noteq> Stopped \<longrightarrow> i \<in> set (watcher_ids (ww_store s))))"

lemma heard_snoc [simp]: "heard p (log @ [(key, ev)]) = heard p log @ (if has_prefix key p then [ev] else [])"
  by (simp add: heard_def)

lemma watch_invD:
  assumes "watch_inv enc s"
  shows "distinct (watcher_ids (ww_store s))" and "lock_ok s"
    and "\<And>i. i \<in> set (watcher_ids (ww_store s)) \<Longrightarrow> i < ms_next (ww_store s)"
    and "\<And>i w. watcher_at i (ww_store s) = Some w \<Longrightarrow> length (w_chan w) \<le> chan_cap \<and>
        (\<exists>sm. ww_streams s i = Some sm \<and> sm_phase sm \<noteq> Stopped \<and> sm_prefix sm = w_keyPrefix w)"
    and "\<And>i sm. ww_streams s i = Some sm \<Longrightarrow> i < ms_next (ww_store s) \<and> stream_ok enc s i sm \<and>
        (sm_phase sm \<noteq> Stopped \<longrightarrow> i \<in> set (watcher_ids (ww_store s)))"
  using assms unfolding watch_inv_def by blast+

text \<open>One preservation lemma per step\<close>

lemma watch_invI:
  assumes "distinct (watcher_ids (ww_store s))" and "lock_ok s"
    and "\<And>i. i \<in> set (watcher_ids (ww_store s)) \<Longrightarrow> i < ms_next (ww_store s)"
    and "\<And>i w. watcher_at i (ww_store s) = Some w \<Longrightarrow> length (w_chan w) \<le> chan_cap \<and>
        (\<exists>sm. ww_streams s i = Some sm \<and> sm_phase sm \<noteq> Stopped \<and> sm_prefix sm = w_keyPrefix w)"
    and "\<And>i sm. ww_streams s i = Some sm \<Longrightarrow> i < ms_next (ww_store s) \<and> stream_ok enc s i sm \<and>
        (sm_phase sm \<noteq> Stopped \<longrightarrow> i \<in> set (watcher_ids (ww_store s)))"
  shows "watch_inv enc s"
  using assms unfolding watch_inv_def by blast

lemma inv_Begin:
  assumes inv: "watch_inv enc s" and free: "ww_lock s = Unlocked"
  shows "watch_inv enc (s\<lparr>ww_store := (ww_store s)\<lparr>ms_data := d\<rparr>, ww_lock := Sending ev (watchers_of key (ww_store s)),
      ww_log := ww_log s @ [(key, ev)]\<rparr>)" (is "watch_inv enc ?s")
proof (rule watch_invI)
  note I = watch_invD [OF inv]
  show "lock_ok ?s" using I(1) by (simp add: lock_ok_def watchers_of_distinct watchers_of_ids)
  fix i sm assume "ww_streams ?s i = Some sm"
  then have sm: "ww_streams s i = Some sm" by simp
  have "stream_ok enc ?s i sm"
  proof (cases "sm_phase sm = Looping")
    case True
    obtain w where w: "watcher_at i (ww_store s) = Some w" "w_keyPrefix w = sm_prefix sm"
      using I(4,5) sm True watcher_at_None by (metis not_Some_eq option.inject stream_phase.distinct(3))
    then have "i \<in> set (watchers_of key (ww_store s)) \<longleftrightarrow> has_prefix key (sm_prefix sm)"
      by (simp add: watchers_of_iff [OF I(1)])
    with I(5) [OF sm] True w show ?thesis by (auto simp: stream_ok_def Let_def free chan_of_at)
  next
    case False
    with I(5) [OF sm] show ?thesis by (auto simp: stream_ok_def Let_def)
  qed
  with I(5) [OF sm] show "i < ms_next (ww_store ?s) \<and> stream_ok enc ?s i sm \<and>
      (sm_phase sm \<noteq> Stopped \<longrightarrow> i \<in> set (watcher_ids (ww_store ?s)))" by simp
qed (use watch_invD [OF inv] in simp_all)

lemma inv_Send:
  assumes inv: "watch_inv enc s" and lock: "ww_lock s = Sending ev (i # todo)"
    and c: "chan_of i (ww_store s) = Some evs" "length evs < chan_cap"
  shows "watch_inv enc (s\<lparr>ww_store := set_chan i (evs @ [ev]) (ww_store s), ww_lock := Sending ev todo\<rparr>)" (is "watch_inv enc ?s")
proof (rule watch_invI)
  note I = watch_invD [OF inv]
  show "lock_ok ?s" using I(2) lock by (auto simp: lock_ok_def)
  have todo: "i \<notin> set todo" using I(2) lock by (simp add: lock_ok_def)
  show "length (w_chan w) \<le> chan_cap \<and> (\<exists>sm. ww_streams ?s j = Some sm \<and> sm_phase sm \<noteq> Stopped \<and> sm_prefix sm = w_keyPrefix w)"
    if "watcher_at j (ww_store ?s) = Some w" for j w
    using that I(4) [of j] c(2) by (auto split: if_splits)
  fix j sm assume "ww_streams ?s j = Some sm"
  then have sm: "ww_streams s j = Some sm" by simp
  have "stream_ok enc ?s j sm"
    using I(5) [OF sm] c(1) todo by (auto simp: stream_ok_def Let_def chan_of_at lock split: if_splits)
  with I(5) [OF sm] show "j < ms_next (ww_store ?s) \<and> stream_ok enc ?s j sm \<and>
      (sm_phase sm \<noteq> Stopped \<longrightarrow> j \<in> set (watcher_ids (ww_store ?s)))" by simp
qed (use watch_invD [OF inv] in simp_all)

lemma inv_Finish:
  assumes inv: "watch_inv enc s" and lock: "ww_lock s = Sending ev []"
  shows "watch_inv enc (s\<lparr>ww_store := snd (ms_sync (ww_store s)), ww_lock := Unlocked\<rparr>)" (is "watch_inv enc ?s")
proof (rule watch_invI)
  note I = watch_invD [OF inv]
  show "i < ms_next (ww_store ?s) \<and> stream_ok enc ?s i sm \<and>
      (sm_phase sm \<noteq> Stopped \<longrightarrow> i \<in> set (watcher_ids (ww_store ?s)))" if "ww_streams ?s i = Some sm" for i sm
    using that I(5) [of i sm] by (auto simp: stream_ok_def Let_def chan_of_at lock)
qed (use watch_invD [OF inv] in \<open>simp_all add: lock_ok_def\<close>)

lemma inv_Open:
  assumes inv: "watch_inv enc s" and lock: "ww_lock s = Unlocked" and w: "ms_Watch p (ww_store s) = (i, st)"
  shows "watch_inv enc (s\<lparr>ww_store := st,
      ww_streams := (ww_streams s)(i \<mapsto> \<lparr>sm_prefix = p, sm_phase = Looping, sm_body = [], sm_since = length (ww_log s)\<rparr>)\<rparr>)"
    (is "watch_inv enc ?s")
proof (rule watch_invI)
  note I = watch_invD [OF inv]
  note W = ms_Watch_at [OF w]
  have new: "i \<notin> set (watcher_ids (ww_store s))" using I(3) W(1) by auto
  note at = W(5) [OF new]
  show "distinct (watcher_ids (ww_store ?s))" using I(1) W(4) new by simp
  show "lock_ok ?s" by (simp add: lock_ok_def lock)
  show "j < ms_next (ww_store ?s)" if "j \<in> set (watcher_ids (ww_store ?s))" for j
    using that I(3) [of j] W(1,2,4) by auto
  show "length (w_chan w) \<le> chan_cap \<and> (\<exists>sm. ww_streams ?s j = Some sm \<and> sm_phase sm \<noteq> Stopped \<and> sm_prefix sm = w_keyPrefix w)"
    if "watcher_at j (ww_store ?s) = Some w" for j w
    using that I(4) [of j] at [of j] by (auto split: if_splits)
  fix j sm assume sm: "ww_streams ?s j = Some sm"
  have "stream_ok enc ?s j sm"
    using sm I(5) [of j] at [of j] by (auto simp: stream_ok_def Let_def chan_of_at lock heard_def split: if_splits)
  with sm I(5) [of j] W(1,2,4) show "j < ms_next (ww_store ?s) \<and> stream_ok enc ?s j sm \<and>
      (sm_phase sm \<noteq> Stopped \<longrightarrow> j \<in> set (watcher_ids (ww_store ?s)))"
    by (auto split: if_splits)
qed

lemma inv_Turn:
  assumes inv: "watch_inv enc s" and sm: "ww_streams s i = Some sm" "sm_phase sm = Looping"
    and c: "chan_of i (ww_store s) = Some (ev # evs)"
  shows "watch_inv enc (s\<lparr>ww_store := set_chan i evs (ww_store s),
      ww_streams := (ww_streams s)(i \<mapsto> (case watch_turn enc writable (Received (Some ev)) of
        Some t \<Rightarrow> sm\<lparr>sm_body := sm_body sm @ [t]\<rparr> | None \<Rightarrow> sm\<lparr>sm_phase := Stopping\<rparr>))\<rparr>)" (is "watch_inv enc ?s")
proof (rule watch_invI)
  note I = watch_invD [OF inv]
  show "lock_ok ?s" using I(2) by (simp add: lock_ok_def split: store_lock.splits)
  show "length (w_chan w) \<le> chan_cap \<and> (\<exists>sm. ww_streams ?s j = Some sm \<and> sm_phase sm \<noteq> Stopped \<and> sm_prefix sm = w_keyPrefix w)"
    if "watcher_at j (ww_store ?s) = Some w" for j w
    using that I(4) [of j] sm c by (auto simp: chan_of_at watch_turn_def split: if_splits)
  fix j sm' assume sm': "ww_streams ?s j = Some sm'"
  have "stream_ok enc ?s j sm'"
  proof (cases "j = i")
    case False
    with sm' I(5) [of j] show ?thesis by (auto simp: stream_ok_def Let_def chan_of_at)
  next
    case True
    obtain w where w: "watcher_at i (ww_store s) = Some w" "w_chan w = ev # evs" using c by (auto simp: chan_of_at)
    with True sm' I(5) [OF sm(1)] sm(2) show ?thesis
      by (cases writable) (auto simp: stream_ok_def Let_def chan_of_at watch_turn_def)
  qed
  with sm' I(5) [of j] sm show "j < ms_next (ww_store ?s) \<and> stream_ok enc ?s j sm' \<and>
      (sm_phase sm' \<noteq> Stopped \<longrightarrow> j \<in> set (watcher_ids (ww_store ?s)))"
    by (auto split: if_splits)
qed (use watch_invD [OF inv] in simp_all)

lemma inv_CtxEnd:
  assumes inv: "watch_inv enc s" and sm: "ww_streams s i = Some sm" "sm_phase sm = Looping"
  shows "watch_inv enc (s\<lparr>ww_streams := (ww_streams s)(i \<mapsto> sm\<lparr>sm_phase := Stopping\<rparr>)\<rparr>)" (is "watch_inv enc ?s")
proof (rule watch_invI)
  note I = watch_invD [OF inv]
  show "lock_ok ?s" using I(2) by (simp add: lock_ok_def split: store_lock.splits)
  show "length (w_chan w) \<le> chan_cap \<and> (\<exists>sm. ww_streams ?s j = Some sm \<and> sm_phase sm \<noteq> Stopped \<and> sm_prefix sm = w_keyPrefix w)"
    if "watcher_at j (ww_store ?s) = Some w" for j w
    using that I(4) [of j] sm by (auto split: if_splits)
  fix j sm' assume sm': "ww_streams ?s j = Some sm'"
  have "stream_ok enc ?s j sm'"
    using sm' I(5) [of j] I(5) [OF sm(1)] sm(2) by (auto simp: stream_ok_def Let_def split: if_splits)
  with sm' I(5) [of j] sm show "j < ms_next (ww_store ?s) \<and> stream_ok enc ?s j sm' \<and>
      (sm_phase sm' \<noteq> Stopped \<longrightarrow> j \<in> set (watcher_ids (ww_store ?s)))"
    by (auto split: if_splits)
qed (use watch_invD [OF inv] in simp_all)

lemma inv_Close:
  assumes inv: "watch_inv enc s" and lock: "ww_lock s = Unlocked" and sm: "ww_streams s i = Some sm" "sm_phase sm = Stopping"
    and st: "ms_Stop i (ww_store s) = Some st"
  shows "watch_inv enc (s\<lparr>ww_store := st, ww_streams := (ww_streams s)(i \<mapsto> sm\<lparr>sm_phase := Stopped\<rparr>)\<rparr>)" (is "watch_inv enc ?s")
proof (rule watch_invI)
  note I = watch_invD [OF inv]
  note S = ms_Stop_at [OF st I(1)]
  show "distinct (watcher_ids (ww_store ?s))" using S(3) by simp
  show "lock_ok ?s" by (simp add: lock_ok_def lock)
  show "j < ms_next (ww_store ?s)" if "j \<in> set (watcher_ids (ww_store ?s))" for j
    using that I(3) [of j] S(1,4) by simp
  show "length (w_chan w) \<le> chan_cap \<and> (\<exists>sm. ww_streams ?s j = Some sm \<and> sm_phase sm \<noteq> Stopped \<and> sm_prefix sm = w_keyPrefix w)"
    if "watcher_at j (ww_store ?s) = Some w" for j w
    using that I(4) [of j] S(5) [of j] by (auto split: if_splits)
  fix j sm' assume sm': "ww_streams ?s j = Some sm'"
  have "stream_ok enc ?s j sm'"
    using sm' I(5) [of j] I(5) [OF sm(1)] sm(2) S(5) [of j]
    by (auto simp: stream_ok_def Let_def chan_of_at split: if_splits)
  with sm' I(5) [of j] I(5) [OF sm(1)] S(1,4) show "j < ms_next (ww_store ?s) \<and> stream_ok enc ?s j sm' \<and>
      (sm_phase sm' \<noteq> Stopped \<longrightarrow> j \<in> set (watcher_ids (ww_store ?s)))"
    by (auto split: if_splits)
qed

lemma watch_inv_step: "watch_step enc a s s' \<Longrightarrow> watch_inv enc s \<Longrightarrow> watch_inv enc s'"
  by (induction rule: watch_step.induct)
    (blast intro: inv_Begin inv_Send inv_Finish inv_Open inv_Turn inv_CtxEnd inv_Close)+

lemma watch_inv_run: "watch_run enc as s s' \<Longrightarrow> watch_inv enc s \<Longrightarrow> watch_inv enc s'"
  by (induction rule: watch_run.induct) (auto intro: watch_inv_step)

lemma watch_inv_start: "ms_watchers st = [] \<Longrightarrow> watch_inv enc (watch_start st)"
  by (simp add: watch_inv_def watch_start_def watcher_ids_def watcher_at_def lock_ok_def)

lemma watch_reach_inv: "watch_reach enc s \<Longrightarrow> watch_inv enc s"
  by (auto simp: watch_reach_def intro: watch_inv_run watch_inv_start)

lemma run_append: "watch_run enc as s s' \<Longrightarrow> watch_run enc bs s' s'' \<Longrightarrow> watch_run enc (as @ bs) s s''"
  by (induction rule: watch_run.induct) (auto intro: watch_run.intros)

section \<open>The abstract store under a run\<close>

fun change_spec :: "change \<Rightarrow> kv \<Rightarrow> gerror option \<times> kv" where
  "change_spec (Create_of key ob) = create_spec key ob"
| "change_spec (Update_of key ob) = update_spec key ob"
| "change_spec (Delete_of key) = delete_spec key"

definition begun :: "act list \<Rightarrow> change list" where
  "begun as = List.map_filter (\<lambda>a. case a of Begin_change c \<Rightarrow> Some c | _ \<Rightarrow> None) as"

lemma begun_simps [simp]:
  "begun [] = []" "begun (a # as) = (case a of Begin_change c \<Rightarrow> [c] | _ \<Rightarrow> []) @ begun as"
  by (simp_all add: begun_def map_filter_def split: act.split)

lemma guard_spec: "change_guard c s = fst (change_spec c (ms_view s))"
  by (cases c) (auto simp: create_guard_def update_guard_def delete_guard_def create_spec_def update_spec_def
      delete_spec_def put_spec_def split: option.split)

lemma data_spec: "change_guard c s = None \<Longrightarrow> map_of (change_data c (ms_data s)) = snd (change_spec c (ms_view s))"
  by (cases c) (auto simp: create_guard_def update_guard_def delete_guard_def create_spec_def update_spec_def
      delete_spec_def put_spec_def update_conv' delete_conv' ms_view_def split: if_splits option.splits)

lemma step_view:
  "watch_step enc a s s' \<Longrightarrow>
     ms_view (ww_store s') = fold (\<lambda>c m. snd (change_spec c m)) (begun [a]) (ms_view (ww_store s))"
  by (induction rule: watch_step.induct)
    (auto simp: data_spec ms_Watch_def ms_Stop_def split: if_splits)

lemma run_view:
  "watch_run enc as s s' \<Longrightarrow>
     ms_view (ww_store s') = fold (\<lambda>c m. snd (change_spec c m)) (begun as) (ms_view (ww_store s))"
proof (induction rule: watch_run.induct)
  case (run_Cons a s s' as s'')
  then show ?case using step_view [OF run_Cons.hyps(1)] by (simp split: act.split)
qed simp

text \<open>A change that nobody disturbs is the operation of Storage.\<close>

lemma send_all:
  assumes "ww_lock s = Sending ev todo" and "distinct (watcher_ids (ww_store s))" and "distinct todo"
    and "set todo \<subseteq> set (watcher_ids (ww_store s))"
    and "\<And>i evs. i \<in> set todo \<Longrightarrow> chan_of i (ww_store s) = Some evs \<Longrightarrow> length evs < chan_cap"
  shows "watch_run enc (replicate (length todo) Send_event) s (s\<lparr>ww_lock := Sending ev [],
    ww_store := (ww_store s)\<lparr>ms_watchers := map (\<lambda>w. if w_id w \<in> set todo then receive ev w else w) (ms_watchers (ww_store s))\<rparr>\<rparr>)"
  using assms
proof (induction todo arbitrary: s)
  case Nil
  then have "s\<lparr>ww_lock := Sending ev [], ww_store := (ww_store s)\<lparr>ms_watchers :=
      map (\<lambda>w. if w_id w \<in> set [] then receive ev w else w) (ms_watchers (ww_store s))\<rparr>\<rparr> = s" by (cases s) simp
  then show ?case using run_Nil [of enc s] by simp
next
  case (Cons i todo)
  let ?st = "ww_store s"
  obtain w where w: "watcher_at i ?st = Some w" using Cons.prems(4) watcher_at_None [of i ?st] by auto
  let ?evs = "w_chan w"
  have evs: "chan_of i ?st = Some ?evs" "length ?evs < chan_cap" using w Cons.prems(5) [of i] by (auto simp: chan_of_at)
  let ?s = "s\<lparr>ww_store := set_chan i (?evs @ [ev]) ?st, ww_lock := Sending ev todo\<rparr>"
  have step: "watch_step enc Send_event s ?s" using Cons.prems(1) evs by (rule watch_step.Send_event)
  have w': "v = w" if "v \<in> set (ms_watchers ?st)" "w_id v = i" for v
    using watcher_at_iff [OF Cons.prems(2), of i v] w that by simp
  have "watch_run enc (replicate (length todo) Send_event) ?s (?s\<lparr>ww_lock := Sending ev [],
    ww_store := (ww_store ?s)\<lparr>ms_watchers := map (\<lambda>w. if w_id w \<in> set todo then receive ev w else w) (ms_watchers (ww_store ?s))\<rparr>\<rparr>)"
  proof (rule Cons.IH)
    show "length evs < chan_cap" if "j \<in> set todo" "chan_of j (ww_store ?s) = Some evs" for j evs
      using that Cons.prems(3) Cons.prems(5) [of j] by (auto simp: chan_of_at split: if_splits)
  qed (use Cons.prems in simp_all)
  also have "?s\<lparr>ww_lock := Sending ev [],
    ww_store := (ww_store ?s)\<lparr>ms_watchers := map (\<lambda>w. if w_id w \<in> set todo then receive ev w else w) (ms_watchers (ww_store ?s))\<rparr>\<rparr> =
    s\<lparr>ww_lock := Sending ev [],
    ww_store := ?st\<lparr>ms_watchers := map (\<lambda>w. if w_id w \<in> set (i # todo) then receive ev w else w) (ms_watchers ?st)\<rparr>\<rparr>"
    using w' Cons.prems(3) by (auto simp: set_chan_def receive_def)
  finally show ?case using step by (auto intro: run_Cons)
qed

lemma undisturbed_change:
  assumes "watch_inv enc s" and "ww_lock s = Unlocked" and "change_guard c (ww_store s) = None"
    and "change_run c (ww_store s) = Some (err, st)"
  shows "\<exists>as s'. watch_run enc as s s' \<and> begun as = [c] \<and> ww_store s' = st \<and> ww_lock s' = Unlocked"
proof -
  let ?st = "ww_store s" and ?ev = "change_event c (ww_store s)" and ?todo = "watchers_of (change_key c) (ww_store s)"
  let ?s1 = "s\<lparr>ww_store := ?st\<lparr>ms_data := change_data c (ms_data ?st)\<rparr>, ww_lock := Sending ?ev ?todo,
      ww_log := ww_log s @ [(change_key c, ?ev)]\<rparr>"
  let ?ws = "map (\<lambda>w. if w_id w \<in> set ?todo then receive ?ev w else w) (ms_watchers ?st)"
  let ?s2 = "?s1\<lparr>ww_lock := Sending ?ev [], ww_store := (ww_store ?s1)\<lparr>ms_watchers := ?ws\<rparr>\<rparr>"
  note I = watch_invD [OF assms(1)]
  have commit: "commit (ev_Type ?ev) (change_key c) (ev_Object ?ev) (change_data c (ms_data ?st)) ?st = Some (err, st)"
    using assms(3,4) by (simp add: change_run_parts)
  have room: "\<not> full w" if "w \<in> set (ms_watchers ?st)" "has_prefix (change_key c) (w_keyPrefix w)" for w
    using commit that by (auto simp: commit_iff matches_def split: if_splits)
  have eta: "\<lparr>ev_Type = ev_Type ?ev, ev_Object = ev_Object ?ev\<rparr> = ?ev" by simp
  have same: "?ws = map (\<lambda>w. if matches (change_key c) w then receive ?ev w else w) (ms_watchers ?st)"
  proof (rule map_cong [OF refl])
    fix w assume "w \<in> set (ms_watchers ?st)"
    then have "watcher_at (w_id w) ?st = Some w" using watcher_at_iff [OF I(1)] by simp
    then have "w_id w \<in> set ?todo \<longleftrightarrow> matches (change_key c) w" by (simp add: watchers_of_iff [OF I(1)] matches_def)
    then show "(if w_id w \<in> set ?todo then receive ?ev w else w) = (if matches (change_key c) w then receive ?ev w else w)" by simp
  qed
  have st: "ms_sync (ww_store ?s2) = (err, st)"
    using commit unfolding commit_iff same eta by (simp split: if_splits)
  have one: "watch_step enc (Begin_change c) s ?s1" using assms(2,3) by (rule watch_step.Begin_change)
  have two: "watch_run enc (replicate (length ?todo) Send_event) ?s1 ?s2"
  proof -
    have "length evs < chan_cap" if i: "i \<in> set ?todo" and c: "chan_of i (ww_store ?s1) = Some evs" for i evs
    proof -
      obtain w where w: "watcher_at i ?st = Some w" "has_prefix (change_key c) (w_keyPrefix w)"
        using i watchers_of_iff [OF I(1)] by blast
      then have "\<not> full w" using room watcher_at_iff [OF I(1)] by blast
      with c w(1) show ?thesis by (simp add: chan_of_at full_def)
    qed
    then show ?thesis
      using send_all [of ?s1 ?ev ?todo enc] I(1) by (simp add: watchers_of_distinct watchers_of_ids)
  qed
  let ?s3 = "?s2\<lparr>ww_store := snd (ms_sync (ww_store ?s2)), ww_lock := Unlocked\<rparr>"
  have "watch_step enc Finish_change ?s2 ?s3" by (rule watch_step.Finish_change [of _ ?ev]) simp
  from run_Cons [OF one run_append [OF two run_Cons [OF this run_Nil]]]
  have "watch_run enc (Begin_change c # replicate (length ?todo) Send_event @ [Finish_change]) s ?s3" .
  moreover have "begun (Begin_change c # replicate n Send_event @ [Finish_change]) = [c]" for n
    by (induction n) simp_all
  moreover have "ww_store ?s3 = st" "ww_lock ?s3 = Unlocked" using st by simp_all
  ultimately show ?thesis by blast
qed

section \<open>Changes come to an end\<close>

text \<open>The steps that need no new request and no client going away\<close>

definition progress_act :: "act \<Rightarrow> bool" where
  "progress_act a \<longleftrightarrow> (case a of Send_event \<Rightarrow> True | Finish_change \<Rightarrow> True | Turn i writable \<Rightarrow> writable | _ \<Rightarrow> False)"

fun waiting :: "store_lock \<Rightarrow> nat list" where
  "waiting Unlocked = []"
| "waiting (Sending ev todo) = todo"

definition listened :: "watch_world \<Rightarrow> bool" where
  "listened s \<longleftrightarrow> (\<forall>i \<in> set (waiting (ww_lock s)). \<exists>sm. ww_streams s i = Some sm \<and> sm_phase sm = Looping)"

definition pending :: "watch_world \<Rightarrow> nat" where
  "pending s = (case ww_lock s of Unlocked \<Rightarrow> 0 | Sending ev todo \<Rightarrow> Suc (2 * length todo)) +
     sum_list (map (\<lambda>w. length (w_chan w)) (ms_watchers (ww_store s)))"

lemma sum_set_chan:
  assumes "distinct (watcher_ids s)" and "chan_of i s = Some evs"
  shows "sum_list (map (\<lambda>w. length (w_chan w)) (ms_watchers (set_chan i evs' s))) + length evs =
    sum_list (map (\<lambda>w. length (w_chan w)) (ms_watchers s)) + length evs'"
proof -
  have keep: "map ((\<lambda>w. length (w_chan w)) \<circ> (\<lambda>w. if w_id w = k then w\<lparr>w_chan := evs'\<rparr> else w)) ws =
      map (\<lambda>w. length (w_chan w)) ws" if "k \<notin> w_id ` set ws" for k ws
    using that by (induction ws) auto
  have "sum_list (map (\<lambda>w. length (w_chan w)) (map (\<lambda>w. if w_id w = i then w\<lparr>w_chan := evs'\<rparr> else w) ws)) + length evs =
      sum_list (map (\<lambda>w. length (w_chan w)) ws) + length evs'"
    if "distinct (map w_id ws)" "find (\<lambda>w. w_id w = i) ws = Some w" "w_chan w = evs" for ws w
    using that by (induction ws) (auto simp: keep split: if_splits)
  then show ?thesis using assms by (auto simp: watcher_ids_def chan_of_def set_chan_def)
qed

lemma sync_watchers [simp]: "ms_watchers (snd (ms_sync s)) = ms_watchers s"
  by (simp add: ms_sync_def split: list.split option.split)

lemma progress_decreases:
  assumes "watch_step enc a s s'" and "progress_act a" and "watch_inv enc s"
  shows "Suc (pending s') = pending s"
  using assms
proof (cases rule: watch_step.cases)
  case (Send_event ev i todo evs)
  with sum_set_chan [OF watch_invD(1) [OF assms(3)] Send_event(4), of "evs @ [ev]"] show ?thesis by (simp add: pending_def)
next
  case (Turn i sm ev evs writable)
  with sum_set_chan [OF watch_invD(1) [OF assms(3)] Turn(5), of evs] show ?thesis by (simp add: pending_def)
qed (simp_all add: progress_act_def pending_def)

lemma progress_listened:
  assumes "watch_step enc a s s'" and "progress_act a" and "listened s"
  shows "listened s'"
  using assms
  by (cases rule: watch_step.cases) (auto simp: progress_act_def listened_def watch_turn_def)

lemma progress_enabled:
  assumes "watch_inv enc s" and "listened s" and "ww_lock s \<noteq> Unlocked"
  obtains a s' where "progress_act a" and "watch_step enc a s s'"
proof -
  obtain ev todo where lock: "ww_lock s = Sending ev todo" using assms(3) by (cases "ww_lock s") auto
  show ?thesis
  proof (cases todo)
    case Nil
    with that [of Finish_change] watch_step.Finish_change [of s ev enc] lock show ?thesis by (simp add: progress_act_def)
  next
    case (Cons i rest)
    then obtain sm where sm: "ww_streams s i = Some sm" "sm_phase sm = Looping"
      using assms(2) lock by (auto simp: listened_def)
    then obtain evs where evs: "chan_of i (ww_store s) = Some evs"
      using watch_invD(5) [OF assms(1) sm(1)] by (auto simp: stream_ok_def Let_def)
    show ?thesis
    proof (cases "length evs < chan_cap")
      case True
      with that [of Send_event] watch_step.Send_event [of s ev i rest evs enc] lock Cons evs show ?thesis by (simp add: progress_act_def)
    next
      case False
      then obtain e evs' where "evs = e # evs'" by (cases evs) (auto simp: chan_cap_def)
      with that [of "Turn i True"] watch_step.Turn [of s i sm e evs' enc True] sm evs show ?thesis
        by (simp add: progress_act_def)
    qed
  qed
qed

lemma progress_run:
  assumes "watch_run enc as s s'" and "list_all progress_act as" and "watch_inv enc s" and "listened s"
  shows "length as + pending s' = pending s" and "watch_inv enc s'" and "listened s'"
proof -
  have "length as + pending s' = pending s \<and> watch_inv enc s' \<and> listened s'"
    using assms
  proof (induction rule: watch_run.induct)
    case (run_Cons a s s' as s'')
    then show ?case
      using progress_decreases [of enc a s s'] progress_listened [of enc a s s'] watch_inv_step [of enc a s s'] by simp
  qed simp
  then show "length as + pending s' = pending s" "watch_inv enc s'" "listened s'" by simp_all
qed

lemma progress_ends:
  assumes "watch_inv enc s" and "listened s"
  shows "\<exists>as s'. watch_run enc as s s' \<and> list_all progress_act as \<and> ww_lock s' = Unlocked"
  using assms
proof (induction "pending s" arbitrary: s rule: less_induct)
  case less
  show ?case
  proof (cases "ww_lock s = Unlocked")
    case True
    then show ?thesis using run_Nil [of enc s] by (intro exI [of _ "[]"] exI [of _ s]) simp
  next
    case False
    obtain a s1 where a: "progress_act a" "watch_step enc a s s1" using progress_enabled [OF less.prems False] .
    then obtain as s' where "watch_run enc as s1 s'" "list_all progress_act as" "ww_lock s' = Unlocked"
      using less.hyps [of s1] less.prems progress_decreases [OF a(2,1) less.prems(1)]
        progress_listened [OF a(2,1)] watch_inv_step [OF a(2)] by fastforce
    with a show ?thesis using run_Cons [OF a(2)] by (intro exI [of _ "a # as"] exI [of _ s']) simp
  qed
qed

section \<open>A client that leaves\<close>

text \<open>The change that holds the lock waits for a stream that no longer reads.\<close>

definition stuck :: "watch_world \<Rightarrow> bool" where
  "stuck s \<longleftrightarrow> (\<exists>ev i todo sm evs. ww_lock s = Sending ev (i # todo) \<and> ww_streams s i = Some sm \<and>
     sm_phase sm \<noteq> Looping \<and> chan_of i (ww_store s) = Some evs \<and> chan_cap \<le> length evs)"

definition client_act :: "act \<Rightarrow> bool" where
  "client_act a \<longleftrightarrow> (case a of Turn i writable \<Rightarrow> True | CtxEnd i \<Rightarrow> True | _ \<Rightarrow> False)"

lemma stuck_step:
  assumes "watch_step enc a s s'" and "stuck s"
  shows "stuck s'" and "client_act a" and "ms_data (ww_store s') = ms_data (ww_store s)"
proof -
  from assms(2) obtain ev i todo sm evs where st: "ww_lock s = Sending ev (i # todo)" "ww_streams s i = Some sm"
    "sm_phase sm \<noteq> Looping" "chan_of i (ww_store s) = Some evs" "chan_cap \<le> length evs"
    unfolding stuck_def by blast
  show "stuck s'" "client_act a" "ms_data (ww_store s') = ms_data (ww_store s)"
    using assms(1) st
    by (cases rule: watch_step.cases; auto simp: stuck_def client_act_def chan_of_at)+
qed

lemma stuck_run:
  "watch_run enc as s s' \<Longrightarrow> stuck s \<Longrightarrow>
     stuck s' \<and> list_all client_act as \<and> ms_data (ww_store s') = ms_data (ww_store s)"
  by (induction rule: watch_run.induct) (use stuck_step in fastforce)+

section \<open>The handler\<close>

text \<open>\<open>handleWatch\<close> answers with the stream that the step \<open>Open_watch\<close> sets up.\<close>

lemma handleWatch_opens:
  assumes "sv_Store srv = MemoryStore_ops" and "ww_lock s = Unlocked"
    and "handleWatch srv resource (ww_store s) = Some (Streaming i, st)"
  shows "watch_step enc (Open_watch (registry_prefix resource)) s (s\<lparr>ww_store := st, ww_streams := (ww_streams s)
    (i \<mapsto> \<lparr>sm_prefix = registry_prefix resource, sm_phase = Looping, sm_body = [], sm_since = length (ww_log s)\<rparr>)\<rparr>)"
  using assms by (intro watch_step.Open_watch) (auto simp: handleWatch_def MemoryStore_ops_def split: prod.splits)

section \<open>One client watching one key\<close>

definition filled :: "nat \<Rightarrow> watch_world \<Rightarrow> bool" where
  "filled n s \<longleftrightarrow> ww_lock s = Unlocked \<and> (\<exists>sm. ww_streams s 0 = Some sm \<and> sm_phase sm = Looping) \<and>
     (\<exists>evs. ms_watchers (ww_store s) = [\<lparr>w_id = 0, w_keyPrefix = ''k'', w_chan = evs\<rparr>] \<and> length evs = n)"

lemma some_change: "\<exists>c. change_key c = ''k'' \<and> change_guard c s = None"
proof (cases "ms_view s ''k''")
  case None
  then have "change_guard (Create_of ''k'' (OLease Lease_zero)) s = None"
    using zero_lease_marshals by (auto simp: create_guard_def)
  then show ?thesis by (metis change_key.simps(1))
next
  case (Some b)
  then have "change_guard (Update_of ''k'' (OLease Lease_zero)) s = None"
    using zero_lease_marshals by (auto simp: update_guard_def)
  then show ?thesis by (metis change_key.simps(2))
qed

text \<open>A change begun with \<open>n\<close> events in the channel\<close>

lemma begin_filled:
  assumes "filled n s"
  obtains c ev s' evs where "watch_step enc (Begin_change c) s s'" and "ww_lock s' = Sending ev [0]"
    and "ww_streams s' = ww_streams s" and "chan_of 0 (ww_store s') = Some evs" and "length evs = n"
    and "ms_watchers (ww_store s') = [\<lparr>w_id = 0, w_keyPrefix = ''k'', w_chan = evs\<rparr>]"
proof -
  obtain evs where s: "ww_lock s = Unlocked" "ms_watchers (ww_store s) = [\<lparr>w_id = 0, w_keyPrefix = ''k'', w_chan = evs\<rparr>]" "length evs = n"
    using assms by (auto simp: filled_def)
  obtain c where c: "change_key c = ''k''" "change_guard c (ww_store s) = None" using some_change by blast
  have "watchers_of (change_key c) (ww_store s) = [0]" by (simp add: watchers_of_def s c)
  with that [OF watch_step.Begin_change [OF s(1) c(2)]] s(2,3) show ?thesis by (simp add: chan_of_def)
qed

lemma fill_one:
  assumes "filled n s" and "n < chan_cap"
  shows "\<exists>as s'. watch_run enc as s s' \<and> filled (Suc n) s'"
proof -
  obtain c ev s1 evs where one: "watch_step enc (Begin_change c) s s1" "ww_lock s1 = Sending ev [0]" "ww_streams s1 = ww_streams s"
    "chan_of 0 (ww_store s1) = Some evs" "length evs = n"
    "ms_watchers (ww_store s1) = [\<lparr>w_id = 0, w_keyPrefix = ''k'', w_chan = evs\<rparr>]"
    using begin_filled [OF assms(1)] .
  let ?s2 = "s1\<lparr>ww_store := set_chan 0 (evs @ [ev]) (ww_store s1), ww_lock := Sending ev []\<rparr>"
  let ?s3 = "?s2\<lparr>ww_store := snd (ms_sync (ww_store ?s2)), ww_lock := Unlocked\<rparr>"
  have "watch_step enc Send_event s1 ?s2" using one(2,4,5) assms(2) by (intro watch_step.Send_event) simp_all
  moreover have "watch_step enc Finish_change ?s2 ?s3" by (rule watch_step.Finish_change [of _ ev]) simp
  ultimately have "watch_run enc [Begin_change c, Send_event, Finish_change] s ?s3"
    using one(1) by (blast intro: watch_run.intros)
  moreover have "filled (Suc n) ?s3" using assms(1) one by (auto simp: filled_def set_chan_def)
  ultimately show ?thesis by blast
qed

lemma fill: "n \<le> chan_cap \<Longrightarrow> \<exists>as s. watch_run enc as (watch_start (demo_store [])) s \<and> filled n s"
proof (induction n)
  case 0
  obtain st where w: "ms_Watch ''k'' (demo_store []) = (0, st)"
    and st: "ms_watchers st = [\<lparr>w_id = 0, w_keyPrefix = ''k'', w_chan = []\<rparr>]"
    by (simp add: ms_Watch_def demo_store_def NewMemoryStore_def ms_load_def)
  let ?s = "(watch_start (demo_store []))\<lparr>ww_store := st, ww_streams := (ww_streams (watch_start (demo_store [])))
    (0 \<mapsto> \<lparr>sm_prefix = ''k'', sm_phase = Looping, sm_body = [], sm_since = length (ww_log (watch_start (demo_store [])))\<rparr>)\<rparr>"
  have "watch_run enc [Open_watch ''k''] (watch_start (demo_store [])) ?s"
    by (rule run_Cons [OF watch_step.Open_watch run_Nil]) (simp_all add: watch_start_def w)
  moreover have "filled 0 ?s" using st by (simp add: filled_def watch_start_def)
  ultimately show ?case by blast
next
  case (Suc n)
  then obtain as s where "watch_run enc as (watch_start (demo_store [])) s" "filled n s" by auto
  with fill_one [of n s enc] Suc.prems run_append show ?case by (metis Suc_le_lessD)
qed

lemma demo_creates: "\<exists>s. ms_Create ''k'' (OLease Lease_zero) (demo_store []) = Some (None, s)"
  using zero_lease_marshals
  by (auto simp: ms_Create_def notifyWatchers_def ms_sync_def demo_store_def NewMemoryStore_def ms_load_def)

lemma reach_start: "watch_run enc as (watch_start (demo_store io)) s \<Longrightarrow> watch_reach enc s"
  by (auto simp: watch_reach_def intro!: exI [of _ "demo_store io"])

section \<open>Properties\<close>

text \<open>C10: What a watch streams: whatever the clients, the changes and the goroutines do in whatever order,
  the lines a stream has written are, in order and without a gap, those of the first changes under
  its prefix since it was opened; while its loop runs the rest is in the channel or about to be sent.\<close>

theorem watch_streams_in_order:
  assumes "watch_reach enc s" and "ww_streams s i = Some sm"
  shows "\<exists>rest. map enc (heard (sm_prefix sm) (drop (sm_since sm) (ww_log s))) = sm_body sm @ rest \<and>
    (sm_phase sm = Looping \<longrightarrow> (\<exists>evs. chan_of i (ww_store s) = Some evs \<and> length evs \<le> 10 \<and>
       rest = map enc (evs @ due i (ww_lock s))))"
proof -
  note I = watch_invD [OF watch_reach_inv [OF assms(1)]]
  have ok: "stream_ok enc s i sm" using I(5) [OF assms(2)] by blast
  have room: "length evs \<le> 10" if "chan_of i (ww_store s) = Some evs" for evs
    using that I(4) [of i] by (auto simp: chan_of_at chan_cap_def)
  show ?thesis
    using ok room by (cases "sm_phase sm = Looping") (auto simp: stream_ok_def Let_def)
qed

theorem watch_streams_in_order_witness:
  "\<exists>as s sm evs. watch_run (Encode (\<lambda>ms. JNull)) as (watch_start (demo_store [])) s \<and> ww_streams s 0 = Some sm \<and>
     chan_of 0 (ww_store s) = Some evs \<and> length evs = 3 \<and>
     map (Encode (\<lambda>ms. JNull)) (heard (sm_prefix sm) (drop (sm_since sm) (ww_log s))) =
       sm_body sm @ map (Encode (\<lambda>ms. JNull)) evs"
proof -
  let ?enc = "Encode (\<lambda>ms. JNull)"
  obtain as s where run: "watch_run ?enc as (watch_start (demo_store [])) s" and "filled 3 s"
    using fill [of 3 ?enc] by (auto simp: chan_cap_def)
  then obtain sm evs where s: "ww_streams s 0 = Some sm" "sm_phase sm = Looping" "chan_of 0 (ww_store s) = Some evs"
    "length evs = 3" "ww_lock s = Unlocked" by (auto simp: filled_def chan_of_def)
  obtain rest where "map ?enc (heard (sm_prefix sm) (drop (sm_since sm) (ww_log s))) = sm_body sm @ rest"
    "rest = map ?enc (evs @ due 0 (ww_lock s))"
    using watch_streams_in_order [OF reach_start [OF run] s(1)] s(2,3) by (elim exE conjE) simp
  with run s show ?thesis by (intro exI [of _ as] exI [of _ s] exI [of _ sm] exI [of _ evs]) simp
qed

text \<open>C19: Notification does not disturb the store: over any interleaving of changes, sends, readers and
  clients that come and go, the contents are those the abstract operations leave, in the order the
  changes took the lock; and the operation of the store, where it does not block, is one such run.\<close>

theorem watched_store_refines:
  assumes "watch_reach enc s" and "ww_lock s = Unlocked" and "change_guard c (ww_store s) = None"
    and "change_run c (ww_store s) = Some (err, st)"
  shows "(\<forall>as s'. watch_run enc as s s' \<longrightarrow>
      ms_view (ww_store s') = fold (\<lambda>c m. snd (change_spec c m)) (begun as) (ms_view (ww_store s))) \<and>
    (\<exists>as s'. watch_run enc as s s' \<and> begun as = [c] \<and> ww_store s' = st \<and> ww_lock s' = Unlocked)"
proof -
  have "ms_view (ww_store s') = fold (\<lambda>c m. snd (change_spec c m)) (begun as) (ms_view (ww_store s))"
    if "watch_run enc as s s'" for as s'
    using that by (rule run_view)
  with undisturbed_change [OF watch_reach_inv [OF assms(1)] assms(2-4)] show ?thesis by blast
qed

theorem watched_store_refines_witness:
  "\<exists>as s' b. watch_run (Encode (\<lambda>ms. JNull)) as (watch_start (demo_store [])) s' \<and>
     begun as = [Create_of ''k'' (OLease Lease_zero)] \<and> ms_view (ww_store s') = [''k'' \<mapsto> b] \<and> ww_lock s' = Unlocked"
proof -
  let ?enc = "Encode (\<lambda>ms. JNull)" and ?c = "Create_of ''k'' (OLease Lease_zero)" and ?s = "watch_start (demo_store [])"
  obtain b where b: "marshal_obj (OLease Lease_zero) = Some b" using zero_lease_marshals by blast
  have reach: "watch_reach ?enc ?s" using reach_start [OF run_Nil] .
  have s: "ww_lock ?s = Unlocked" "ww_store ?s = demo_store []" by (simp_all add: watch_start_def)
  have guard: "change_guard ?c (ww_store ?s) = None" by (simp add: s create_guard_def b del: marshal_obj.simps)
  obtain st where run: "change_run ?c (ww_store ?s) = Some (None, st)"
    using demo_creates by (auto simp: s)
  from watched_store_refines [OF reach s(1) guard run] show ?thesis
    by (elim conjE exE) (fastforce simp: s create_spec_def put_spec_def b simp del: marshal_obj.simps)
qed

text \<open>C18: Every change comes to an end while the clients listen: if no stream the change waits for has ended,
  the server can go on for at most \<open>pending\<close> steps without new requests, it can stop only with the
  lock released, and it can get there.\<close>

theorem changes_complete:
  assumes "watch_reach enc s" and "listened s"
  shows "(\<forall>as s'. watch_run enc as s s' \<longrightarrow> list_all progress_act as \<longrightarrow> length as \<le> pending s \<and>
      ((\<nexists>a s''. progress_act a \<and> watch_step enc a s' s'') \<longrightarrow> ww_lock s' = Unlocked)) \<and>
    (\<exists>as s'. watch_run enc as s s' \<and> list_all progress_act as \<and> ww_lock s' = Unlocked)"
proof -
  note inv = watch_reach_inv [OF assms(1)]
  have "length as \<le> pending s \<and> ((\<nexists>a s''. progress_act a \<and> watch_step enc a s' s'') \<longrightarrow> ww_lock s' = Unlocked)"
    if "watch_run enc as s s'" "list_all progress_act as" for as s'
  proof -
    note r = progress_run [OF that inv assms(2)]
    show ?thesis using r(1) progress_enabled [OF r(2,3)] by (metis le_add1)
  qed
  with progress_ends [OF inv assms(2)] show ?thesis by blast
qed

theorem changes_complete_witness:
  "\<exists>as s as' s'. watch_run (Encode (\<lambda>ms. JNull)) as (watch_start (demo_store [])) s \<and> ww_lock s \<noteq> Unlocked \<and>
     watch_run (Encode (\<lambda>ms. JNull)) as' s s' \<and> length as' \<le> pending s \<and> ww_lock s' = Unlocked"
proof -
  let ?enc = "Encode (\<lambda>ms. JNull)"
  obtain as s where run: "watch_run ?enc as (watch_start (demo_store [])) s" and full: "filled chan_cap s"
    using fill [of chan_cap ?enc] by auto
  obtain c ev s1 where one: "watch_step ?enc (Begin_change c) s s1" "ww_lock s1 = Sending ev [0]" "ww_streams s1 = ww_streams s"
    using begin_filled [OF full] .
  have run1: "watch_run ?enc (as @ [Begin_change c]) (watch_start (demo_store [])) s1"
    using run_append [OF run run_Cons [OF one(1) run_Nil]] .
  have "listened s1" using full one(2,3) by (auto simp: listened_def filled_def)
  from changes_complete [OF reach_start [OF run1] this] obtain as' s'
    where "watch_run ?enc as' s1 s'" "ww_lock s' = Unlocked" "length as' \<le> pending s1" by blast
  with run1 one(2) show ?thesis
    by (intro exI [of _ "as @ [Begin_change c]"] exI [of _ s1] exI [of _ as'] exI [of _ s']) simp
qed

text \<open>C11: One client that goes away stops the server for good: once a change waits for room in the channel of
  a stream that has ended, which \<open>Stop\<close> would remove if it got the lock the change holds, no
  operation of the store begins, ends or closes a watch any more; all that still happens is that
  other streams drain.\<close>

theorem lost_client_stops_the_store:
  assumes "stuck s" and "watch_run enc as s s'"
  shows "ww_lock s' \<noteq> Unlocked \<and> list_all client_act as \<and> ms_data (ww_store s') = ms_data (ww_store s)"
  using stuck_run [OF assms(2,1)] by (auto simp: stuck_def)

theorem lost_client_stops_the_store_witness:
  "\<exists>as s. watch_run (Encode (\<lambda>ms. JNull)) as (watch_start (demo_store [])) s \<and>
     (\<forall>bs s'. watch_run (Encode (\<lambda>ms. JNull)) bs s s' \<longrightarrow> ww_lock s' \<noteq> Unlocked)"
proof -
  let ?enc = "Encode (\<lambda>ms. JNull)"
  obtain as s where run: "watch_run ?enc as (watch_start (demo_store [])) s" and full: "filled chan_cap s"
    using fill [of chan_cap ?enc] by auto
  obtain sm where sm: "ww_streams s 0 = Some sm" "sm_phase sm = Looping" using full by (auto simp: filled_def)
  obtain c ev s1 evs where one: "watch_step ?enc (Begin_change c) s s1" "ww_lock s1 = Sending ev [0]" "ww_streams s1 = ww_streams s"
    "chan_of 0 (ww_store s1) = Some evs" "length evs = chan_cap"
    using begin_filled [OF full] .
  let ?s2 = "s1\<lparr>ww_streams := (ww_streams s1)(0 \<mapsto> sm\<lparr>sm_phase := Stopping\<rparr>)\<rparr>"
  have "watch_step ?enc (CtxEnd 0) s1 ?s2"
    using one(3) sm by (intro watch_step.CtxEnd [where w = True]) (simp_all add: watch_turn_def)
  with run_append [OF run run_Cons [OF one(1) run_Cons [OF _ run_Nil]]]
  have "\<exists>as. watch_run ?enc as (watch_start (demo_store [])) ?s2" by blast
  moreover have "stuck ?s2" using one(2,4,5) by (auto simp: stuck_def)
  ultimately show ?thesis using lost_client_stops_the_store [of ?s2 ?enc] by blast
qed

end
