(* ===== verification/Checks.thy ===== *)
theory Checks
  imports Convergence
begin

text \<open>
  hack/: the programs that check a running cluster from outside, \<open>e2e\<close> and \<open>verify-connect\<close>, and
  \<open>debug-json\<close>, which tries the decoder on two texts. What they print is modelled where it is their
  result. While a program sleeps the rest of the cluster goes on: what \<open>time.Sleep\<close> lets happen in
  each round of a loop is an argument.
\<close>

section \<open>hack/e2e\<close>

definition e2e_assert :: "bool \<Rightarrow> ('w, unit) go" where
  "e2e_assert condition = (if condition then gret () else gpanic Fatal)"

text \<open>\<open>for i := 0; i < n; i++ { if try() { found = true; break }; time.Sleep(1 * time.Second) }\<close>\<close>

fun poll :: "nat \<Rightarrow> nat \<Rightarrow> ('w, bool) go \<Rightarrow> (nat \<Rightarrow> ('w, unit) go) \<Rightarrow> ('w, bool) go" where
  "poll 0 i try Sleep = gret False"
| "poll (Suc n) i try Sleep =
     gbind try (\<lambda>found. if found then gret True else gbind (Sleep i) (\<lambda>_. poll n (Suc i) try Sleep))"

definition node_found :: "'w Client \<Rightarrow> ('w, bool) go" where
  "node_found c = gbind (ListNodes c) (\<lambda>r. gret (case r of
       Inl err \<Rightarrow> False
     | Inr nodes \<Rightarrow> list_ex (\<lambda>n. om_Name (node_ObjectMeta n) = ''node1'') (elems nodes)))"

definition pods_found :: "'w Client \<Rightarrow> ('w, bool) go" where
  "pods_found c = gbind (ListPods c []) (\<lambda>r. gret (case r of Inl err \<Rightarrow> False | Inr pods \<Rightarrow> elems pods \<noteq> []))"

definition test_dep :: Deployment where
  "test_dep = Deployment_zero\<lparr>
     dep_ObjectMeta := ObjectMeta_zero\<lparr>om_Name := ''test-dep''\<rparr>,
     dep_Spec := DeploymentSpec_zero\<lparr>dsp_Replicas := Some 1,
       dsp_Selector := \<lparr>ls_MatchLabels = fmupd ''app'' ''nginx'' fmempty\<rparr>,
       dsp_Template := \<lparr>pts_ObjectMeta = ObjectMeta_zero\<lparr>om_Labels := fmupd ''app'' ''nginx'' fmempty\<rparr>,
         pts_Spec = PodSpec_zero\<lparr>psp_Containers := Some [Container_zero\<lparr>ctr_Name := ''nginx'', ctr_Image := ''nginx:latest''\<rparr>]\<rparr>\<rparr>\<rparr>\<rparr>"

definition admin_client :: "(string \<Rightarrow> bool) \<Rightarrow> (string \<Rightarrow> string \<Rightarrow> string \<Rightarrow> string \<Rightarrow> 'w Client outcome) \<Rightarrow>
    ('w Client \<Rightarrow> ('w, 'a) go) \<Rightarrow> ('w, 'a) go" where
  "admin_client missing New k =
     (if missing ''client-admin.pem'' then gpanic Fatal
      else case New ''https://localhost:8080'' ''client-admin.pem'' ''client-admin.key'' ''ca.pem'' of
        Panic h \<Rightarrow> gpanic h
      | Ret c \<Rightarrow> k c)"

text \<open>The checks themselves, once there is a client\<close>

definition e2e_checks :: "'w Client \<Rightarrow> (nat \<Rightarrow> ('w, unit) go) \<Rightarrow> (nat \<Rightarrow> ('w, unit) go) \<Rightarrow> ('w, unit) go" where
  "e2e_checks c NodeSleep PodSleep =
     gbind (ListPods c []) (\<lambda>r. case r of
       Inl err \<Rightarrow> gpanic Fatal
     | Inr pods \<Rightarrow>
         gbind (poll 10 0 (node_found c) NodeSleep) (\<lambda>nodeFound.
         gbind (e2e_assert nodeFound) (\<lambda>_.
         gbind (CreateDeployment c test_dep) (\<lambda>err. case err of
           Some e \<Rightarrow> gpanic Fatal
         | None \<Rightarrow>
             gbind (poll 15 0 (pods_found c) PodSleep) e2e_assert))))"

definition e2e_main :: "(string \<Rightarrow> bool) \<Rightarrow> (string \<Rightarrow> string \<Rightarrow> string \<Rightarrow> string \<Rightarrow> 'w Client outcome) \<Rightarrow>
    (nat \<Rightarrow> ('w, unit) go) \<Rightarrow> (nat \<Rightarrow> ('w, unit) go) \<Rightarrow> ('w, unit) go" where
  "e2e_main missing New NodeSleep PodSleep = admin_client missing New (\<lambda>c. e2e_checks c NodeSleep PodSleep)"

section \<open>hack/verify-connect\<close>

text \<open>The number of pods it prints\<close>

definition verify_connect_main :: "(string \<Rightarrow> bool) \<Rightarrow> (string \<Rightarrow> string \<Rightarrow> string \<Rightarrow> string \<Rightarrow> 'w Client outcome) \<Rightarrow> ('w, nat) go" where
  "verify_connect_main missing New =
     admin_client missing New (\<lambda>c. gbind (ListPods c []) (\<lambda>r. case r of
       Inl err \<Rightarrow> gpanic Fatal
     | Inr pods \<Rightarrow> gret (length (elems pods))))"

section \<open>hack/debug-json\<close>

record TargetPortT =
  tp_TargetPort :: IntOrString

definition TargetPortT_codec :: "TargetPortT codec" where
  "TargetPortT_codec = struct_codec [mk_field ''targetPort'' False IntOrString_codec tp_TargetPort tp_TargetPort_update]
     \<lparr>tp_TargetPort = IntOrString_zero\<rparr>"

text \<open>The line printed for a text, None for the line with the error; \<open>%+v\<close> prints an \<open>IntOrString\<close> by its \<open>String\<close>.\<close>

definition debug_line :: "string \<Rightarrow> string \<Rightarrow> string option" where
  "debug_line what jsonStr =
     map_option (\<lambda>t. ''Success '' @ what @ '': {TargetPort:'' @ IntOrString_String (tp_TargetPort t) @ ''}'')
       (unmarshal TargetPortT_codec jsonStr \<lparr>tp_TargetPort = IntOrString_zero\<rparr>)"

definition debug_json_main :: "string option list" where
  "debug_json_main =
     [debug_line ''80'' ''{\"targetPort\": 80}'', debug_line ''string'' ''{\"targetPort\": \"http\"}'']"

lemma debug_json_succeeds:
  "debug_json_main = [Some ''Success 80: {TargetPort:80}'', Some ''Success string: {TargetPort:http}'']"
  by code_simp

section \<open>Polling\<close>

text \<open>A loop that sees a state its rounds come to before the last one\<close>

lemma poll_reaches:
  assumes "\<And>s. triple (D s) try (\<lambda>b w. b = (s = goal) \<and> D s w)"
    and "\<And>s k. k < i + n \<Longrightarrow> triple (D s) (Sleep k) (\<lambda>_. D (step k s))"
    and "m < n" and "fold step [i..<i + m] s = goal"
  shows "triple (D s) (poll n i try Sleep) (\<lambda>b w. b \<and> D goal w)"
  using assms(2-4)
proof (induction n arbitrary: i m s)
  case (Suc n)
  have here: "triple (\<lambda>w. b = (s = goal) \<and> D s w)
      (if b then gret True else gbind (Sleep i) (\<lambda>_. poll n (Suc i) try Sleep)) (\<lambda>b w. b \<and> D goal w)" for b
  proof (rule triple_assuming)
    assume b: "b = (s = goal)"
    show "triple (D s) (if b then gret True else gbind (Sleep i) (\<lambda>_. poll n (Suc i) try Sleep)) (\<lambda>b w. b \<and> D goal w)"
    proof (cases "s = goal")
      case True
      with b show ?thesis by (auto intro: triple_gret)
    next
      case False
      with Suc.prems(3) obtain m' where m: "m = Suc m'" by (cases m) auto
      have "[i..<i + m] = i # [Suc i..<Suc i + m']" by (simp add: m upt_conv_Cons)
      with Suc.prems(3) have later: "fold step [Suc i..<Suc i + m'] (step i s) = goal" by simp
      have "triple (D (step i s)) (poll n (Suc i) try Sleep) (\<lambda>b w. b \<and> D goal w)"
        using Suc.prems(2) m later by (intro Suc.IH [of "Suc i" m'] Suc.prems(1)) simp_all
      with Suc.prems(1) [of i s] False b show ?thesis by (auto intro: triple_gbind)
    qed
  qed
  show ?case unfolding poll.simps by (rule triple_gbind [OF assms(1) here])
qed simp

lemma enumerates_ex: "enumerates (map mk xs) row \<Longrightarrow> inj mk \<Longrightarrow> list_ex P xs \<longleftrightarrow> (\<exists>n x. row n = Some (mk x) \<and> P x)"
  using enumerates_range [of "map mk xs" row] enumerates_mem [of "map mk xs" row]
  by (fastforce simp: list_ex_iff inj_def)

lemma enumerates_none: "enumerates xs row \<Longrightarrow> xs = [] \<longleftrightarrow> row = Map.empty"
  by (auto simp: enumerates_def simp flip: dom_eq_empty_conv)

definition has_node :: "string \<Rightarrow> table \<Rightarrow> bool" where
  "has_node name t \<longleftrightarrow> (\<exists>n node. t ''nodes'' n = Some (ONode node) \<and> om_Name (node_ObjectMeta node) = name)"

context rest
begin

lemma node_found_effect: "triple (at_table t e) (node_found C) (\<lambda>b w. b = has_node ''node1'' t \<and> at_table t e w)"
  unfolding node_found_def
proof (rule triple_gbind [OF ListNodes_effect], rule triple_listed, rule triple_gret)
  fix r :: "Node slice result" and ns w
  assume "r = Inr (slice_of ns)" and "enumerates (map ONode ns) (t ''nodes'')" and "at_table t e w"
  then show "(case r of Inl err \<Rightarrow> False | Inr nodes \<Rightarrow> list_ex (\<lambda>n. om_Name (node_ObjectMeta n) = ''node1'') (elems nodes)) =
      has_node ''node1'' t \<and> at_table t e w"
    by (simp add: has_node_def enumerates_ex inj_def)
qed

lemma pods_found_effect: "triple (at_table t e) (pods_found C) (\<lambda>b w. b = (t ''pods'' \<noteq> Map.empty) \<and> at_table t e w)"
  unfolding pods_found_def
proof (rule triple_gbind [OF ListPods_effect], rule triple_listed, rule triple_gret)
  fix r :: "Pod slice result" and ps w
  assume "r = Inr (slice_of ps)" and "enumerates (map OPod ps) (t ''pods'')" and "at_table t e w"
  then show "(case r of Inl err \<Rightarrow> False | Inr pods \<Rightarrow> elems pods \<noteq> []) = (t ''pods'' \<noteq> Map.empty) \<and> at_table t e w"
    using enumerates_none [of "map OPod ps" "t ''pods''"] by simp
qed

end

section \<open>The deployment of the suite\<close>

lemma test_dep_settled: "settled_obj (ODeployment test_dep)"
  by (simp add: settled_iff marshal_def codec_oks test_dep_def Deployment_zero_def DeploymentSpec_zero_def
      DeploymentStrategy_zero_def ObjectMeta_zero_def PodSpec_zero_def PodTemplateSpec_zero_def Container_zero_def
      ResourceRequirements_zero_def)

lemma test_dep_name: "om_Name (dep_ObjectMeta test_dep) = ''test-dep''" "obj_name (ODeployment test_dep) = ''test-dep''"
  by (simp_all add: test_dep_def obj_name_def)

lemma test_dep_deployable: "deployable test_dep 1"
proof -
  have "rs_labelsMatch (fmupd ''app'' ''nginx'' fmempty) (fmupd ''app'' ''nginx'' fmempty)" by (auto simp: rs_labelsMatch_iff)
  moreover have "plain_name ''test-dep''" by (simp add: plain_name_def name_char_def)
  ultimately show ?thesis
    using test_dep_settled by (simp add: deployable_def test_dep_name) (simp add: test_dep_def ObjectMeta_zero_def)
qed

text \<open>No pod made for it has a node: only a scheduler would give it one.\<close>

lemma test_pod_unbound:
  assumes "grown test_dep Map.empty row" and "row n = Some x"
  shows "\<exists>pod. x = OPod pod \<and> psp_NodeName (pod_Spec pod) = []"
proof -
  obtain u where "x = OPod (cnrm Pod_codec (pod_from_template (new_rs test_dep (dep_hash test_dep)) u))"
    using assms unfolding grown_def by (metis option.distinct(1) option.inject)
  then show ?thesis by (simp add: pod_from_template_def new_rs_def test_dep_def PodSpec_zero_def)
qed

lemma deploying_pods:
  assumes "deploying k d c t0 st u N t" and "deployable d c" and "t0 ''pods'' = Map.empty"
  shows "(t ''pods'' \<noteq> Map.empty) = (st = HasPods)"
proof -
  note p = pod_countD [OF deployingD(3) [OF assms(1)]]
  have "dom (t ''pods'') = owned (dep_selector d) (t ''pods'')"
    using p(3) owned_dom [of "dep_selector d" "t ''pods''"] assms(3) by auto
  then have "card (dom (t ''pods'')) = (if st = HasPods then nat (sint c) else 0)" using p(5) by simp
  moreover have "0 < nat (sint c)" using assms(2) by (simp add: deployable_def)
  ultimately show ?thesis using p(2) by (auto simp flip: dom_eq_empty_conv split: if_splits)
qed

section \<open>A run of the suite\<close>

lemma poll_at_once: "triple P try (\<lambda>b w. b \<and> P w) \<Longrightarrow> triple P (poll (Suc n) i try Sleep) (\<lambda>b w. b \<and> P w)"
proof -
  assume found: "triple P try (\<lambda>b w. b \<and> P w)"
  show ?thesis unfolding poll.simps
    by (rule triple_gbind [OF found], rule triple_assuming) (auto intro: triple_gret)
qed

context rest
begin

lemma create_test_dep:
  shows "triple (at_table t e) (CreateDeployment C test_dep) (\<lambda>err w.
    (err = None) = (t ''deployments'' ''test-dep'' = None) \<and>
    (err = None \<longrightarrow> at_table (t(''deployments'' := (t ''deployments'')(''test-dep'' \<mapsto> ODeployment test_dep))) e w))"
proof (rule triple_post [OF CreateDeployment_effect])
  show "marshal_obj (ODeployment test_dep) \<noteq> None" using test_dep_settled unfolding settled_obj_def by (rule conjunct2)
  have nrm: "obj_nrm (ODeployment test_dep) = ODeployment test_dep" using test_dep_settled by (simp only: settled_obj_def)
  have eff: "post_effect ''deployments'' (ODeployment test_dep) t =
    (if t ''deployments'' ''test-dep'' = None
     then (201, t(''deployments'' := (t ''deployments'')(''test-dep'' \<mapsto> ODeployment test_dep))) else (409, t))"
    by (simp add: post_effect_def test_dep_name nrm set_obj_def del: obj_nrm.simps)
  fix err w
  assume "at_table (snd (post_effect ''deployments'' (ODeployment test_dep) t)) e w \<and>
    err = send_result [201, 200] ''failed to create deployment'' (fst (post_effect ''deployments'' (ODeployment test_dep) t))"
  then show "(err = None) = (t ''deployments'' ''test-dep'' = None) \<and>
    (err = None \<longrightarrow> at_table (t(''deployments'' := (t ''deployments'')(''test-dep'' \<mapsto> ODeployment test_dep))) e w)"
    unfolding eff by (auto simp: send_result_def split: if_splits)
qed

lemma node_found_at_once:
  "has_node ''node1'' t \<Longrightarrow> triple (at_table t e) (poll (Suc n) i (node_found C) Sleep) (\<lambda>b w. b \<and> at_table t e w)"
  by (rule poll_at_once, rule triple_post [OF node_found_effect]) simp

text \<open>A second run meets the deployment of the first.\<close>

lemma rerun_fails:
  assumes "at_table t e w" and "has_node ''node1'' t" and "t ''deployments'' ''test-dep'' \<noteq> None"
  shows "\<exists>w'. e2e_checks C NodeSleep PodSleep w = (Panic Fatal, w')"
proof -
  obtain ps w1 where l: "ListPods C [] w = (Ret (Inr ps), w1)" and "at_table t e w1"
    using tripleD [OF ListPods_effect assms(1), of "[]"] by (auto simp: lists_def)
  then obtain w2 where p: "poll 10 0 (node_found C) NodeSleep w1 = (Ret True, w2)" and at: "at_table t e w2"
    using tripleD [OF node_found_at_once [OF assms(2)], of e w1 9 0 NodeSleep] by (auto simp: eval_nat_numeral)
  obtain err w3 where "CreateDeployment C test_dep w2 = (Ret (Some err), w3)"
    using tripleD [OF create_test_dep at] assms(3) by (auto simp del: not_None_eq)
  with l p show ?thesis by (simp add: e2e_checks_def e2e_assert_def gpanic_run)
qed

end

context uuids
begin

lemma pods_appear:
  assumes "deployable d c" and "t0 ''pods'' = Map.empty"
  shows "triple (deploying_at k d c t0 st) (pods_found C) (\<lambda>b w. b = (st = HasPods) \<and> deploying_at k d c t0 st w)"
  unfolding deploying_at_def
proof (rule triple_ex, rule triple_ex, rule triple_assuming, elim exE)
  fix t e N assume t: "deploying k d c t0 st (draw peek advance e) N t"
  have "(t ''pods'' \<noteq> Map.empty) = (st = HasPods)" using t assms by (rule deploying_pods)
  with t show "triple (world_at good tab env t e) (pods_found C) (\<lambda>b w. b = (st = HasPods) \<and>
      (\<exists>t e. (\<exists>N. deploying k d c t0 st (draw peek advance e) N t) \<and> world_at good tab env t e w))"
    by (intro triple_post [OF pods_found_effect]) auto
qed

lemma first_run_passes:
  assumes "has_node ''node1'' t" and "t ''deployments'' = Map.empty" and "t ''pods'' = Map.empty"
    and "deploying ''test-dep'' test_dep 1 t0 Declared (draw peek advance e) N t0"
    and "t0 = t(''deployments'' := [''test-dep'' \<mapsto> ODeployment test_dep])"
    and "\<And>st k. k < 15 \<Longrightarrow> triple (deploying_at ''test-dep'' test_dep 1 t0 st) (PodSleep k)
      (\<lambda>_. deploying_at ''test-dep'' test_dep 1 t0 (fold after_round (turns k) st))"
    and "fold after_round (concat (map turns [0..<14])) Declared = HasPods"
  shows "triple (world_at good tab env t e) (e2e_checks C NodeSleep PodSleep) (\<lambda>_. deploying_at ''test-dep'' test_dep 1 t0 HasPods)"
proof -
  let ?D = "deploying_at ''test-dep'' test_dep 1 t0"
  have fold: "fold (\<lambda>k. fold after_round (turns k)) ks st = fold after_round (concat (map turns ks)) st" for ks st
    by (induction ks arbitrary: st) simp_all
  have pods: "triple (?D Declared) (gbind (poll 15 0 (pods_found C) PodSleep) e2e_assert) (\<lambda>_. ?D HasPods)"
  proof (rule triple_gbind)
    show "triple (?D Declared) (poll 15 0 (pods_found C) PodSleep) (\<lambda>b w. b \<and> ?D HasPods w)"
    proof (rule poll_reaches [where m = 14 and step = "\<lambda>k. fold after_round (turns k)"])
      have "t0 ''pods'' = Map.empty" using assms(3,5) by simp
      then show "triple (?D st) (pods_found C) (\<lambda>b w. b = (st = HasPods) \<and> ?D st w)" for st
        by (rule pods_appear [OF test_dep_deployable])
    qed (simp_all add: assms(6,7) fold)
  qed (rule triple_assuming, simp add: e2e_assert_def triple_gret)
  have dep: "triple (world_at good tab env t e) (CreateDeployment C test_dep) (\<lambda>err w. err = None \<and> ?D Declared w)"
    using assms(2,4,5) by (intro triple_post [OF create_test_dep]) (auto simp: deploying_at_def)
  have node: "triple (world_at good tab env t e) (poll 10 0 (node_found C) NodeSleep) (\<lambda>b w. b \<and> world_at good tab env t e w)"
    using node_found_at_once [OF assms(1), of e 9 0 NodeSleep] by (simp add: eval_nat_numeral)
  show ?thesis unfolding e2e_checks_def
  proof (rule triple_gbind [OF ListPods_effect], rule triple_listed)
    fix r :: "Pod slice result" and ps assume r: "r = Inr (slice_of ps)"
    show "triple (world_at good tab env t e) (case r of Inl err \<Rightarrow> gpanic Fatal
       | Inr pods \<Rightarrow> gbind (poll 10 0 (node_found C) NodeSleep) (\<lambda>nodeFound. gbind (e2e_assert nodeFound) (\<lambda>_.
           gbind (CreateDeployment C test_dep) (\<lambda>err. case err of Some e \<Rightarrow> gpanic Fatal
             | None \<Rightarrow> gbind (poll 15 0 (pods_found C) PodSleep) e2e_assert)))) (\<lambda>_. ?D HasPods)"
      unfolding r sum.case
      by (rule triple_gbind [OF node], rule triple_assuming)
        (auto simp: e2e_assert_def intro!: triple_gbind [OF dep] triple_assuming pods)
  qed
qed

end

text \<open>\<open>verify-connect\<close> counts the pods and changes nothing.\<close>

lemma verify_connect_counts:
  assumes "cluster_good w" and "\<not> missing ''client-admin.pem''"
    and "New ''https://localhost:8080'' ''client-admin.pem'' ''client-admin.key'' ''ca.pem'' = Ret (cluster_client base)"
  shows "\<exists>w'. verify_connect_main missing New w = (Ret (card (dom (cluster_table w ''pods''))), w') \<and>
    cluster_table w' = cluster_table w"
proof -
  have "world_at cluster_good cluster_table w_env (cluster_table w) (w_env w) w" using assms(1) by (simp add: world_at_def)
  from tripleD [OF cluster.ListPods_effect this, of base "[]"]
  obtain ps w' where l: "ListPods (cluster_client base) [] w = (Ret (Inr (slice_of ps)), w')"
    and en: "enumerates (map OPod ps) (cluster_table w ''pods'')" and w': "cluster_table w' = cluster_table w"
    by (auto simp: lists_def world_at_def)
  obtain ns where "distinct ns" "set ns = dom (cluster_table w ''pods'')"
    "map OPod ps = map (\<lambda>n. the (cluster_table w ''pods'' n)) ns"
    using en unfolding enumerates_def by blast
  then have "length ps = card (dom (cluster_table w ''pods''))" by (metis distinct_card length_map)
  with l w' assms(2,3) show ?thesis by (simp add: verify_connect_main_def admin_client_def gret_run)
qed

section \<open>Properties\<close>

text \<open>What is left of a deployed \<open>test_dep\<close>\<close>

lemma one_unbound_pod:
  assumes "deploying k test_dep 1 t0 HasPods u N t" and "t0 ''pods'' = Map.empty"
  shows "\<exists>n pod. t ''pods'' = [n \<mapsto> OPod pod] \<and> psp_NodeName (pod_Spec pod) = []"
proof -
  note D = deployingD [OF assms(1)]
  have "dom (t ''pods'') = owned (dep_selector test_dep) (t ''pods'')"
    using pod_countD(3) [OF D(3)] owned_dom [of "dep_selector test_dep" "t ''pods''"] assms(2) by auto
  then have "card (dom (t ''pods'')) = 1" using pod_countD(5) [OF D(3)] by simp
  then obtain n where n: "dom (t ''pods'') = {n}" by (auto simp: card_1_singleton_iff)
  then obtain x where x: "t ''pods'' n = Some x" by blast
  with n have "t ''pods'' = [n \<mapsto> x]" by (auto simp: fun_eq_iff dom_def)
  moreover have "\<exists>pod. x = OPod pod \<and> psp_NodeName (pod_Spec pod) = []"
    using test_pod_unbound [of "t ''pods''" n x] D(7) x assms(2) by simp
  ultimately show ?thesis by auto
qed

text \<open>C24: The end-to-end suite passes on a secured cluster that cannot schedule, and passes once: with its
  certificate it finds the registered node, creates its deployment, and as soon as the controllers
  have taken their turns within the first fourteen seconds it reports that pods are scheduled, while
  the one pod there is has no node, the scheduler's requests being refused; run again on what it
  leaves, it fails.\<close>

theorem e2e_passes_unscheduled:
  assumes "cluster_good w" and "has_node ''node1'' (cluster_table w)" and "cluster_table w ''deployments'' = Map.empty"
    and "cluster_table w ''replicasets'' = Map.empty" and "cluster_table w ''pods'' = Map.empty"
    and "tidy (cluster_table w ''services'')" and "named (cluster_table w ''endpoints'')" and "sorts_addresses srt"
    and "5 \<le> length (coming_uuids w 0)" and "list_all name_char (take 5 (coming_uuids w 0))"
    and "\<not> missing ''client-admin.pem''" and "load ''client-admin.pem'' ''client-admin.key'' = Inr k" and "read ''ca.pem'' = Inr ca"
    and "verified (k, ca)" and "mutual_tls dial verified (cluster_send ''https://localhost:8080'')"
    and "\<And>i. PodSleep i = gbind (controllers_run draw_uuid srt (turns i) (cluster_client ''https://localhost:8080''))
      (\<lambda>_. scheduler_process (New_client load read dial) flags Intn cores (wakes i))"
    and "concat (map turns [0..<14]) = as @ Deployments # bs @ ReplicaSets # cs"
  shows "\<exists>w' n pod. e2e_main missing (New_client load read dial) NodeSleep PodSleep w = (Ret (), w') \<and>
    cluster_table w' ''pods'' = [n \<mapsto> OPod pod] \<and> psp_NodeName (pod_Spec pod) = [] \<and>
    (\<exists>w''. e2e_main missing (New_client load read dial) NodeSleep PodSleep w' = (Panic Fatal, w''))"
proof -
  let ?C = "cluster_client ''https://localhost:8080'' :: uuid_source cluster Client" and ?t = "cluster_table w"
  let ?start = "?t(''deployments'' := [''test-dep'' \<mapsto> ODeployment test_dep])"
  let ?D = "rs_cluster.deploying_at ''test-dep'' test_dep 1 ?start"
  have "New_client load read dial ''https://localhost:8080'' ''client-admin.pem'' ''client-admin.key'' ''ca.pem'' = Ret ?C"
    by (rule certified_client [OF assms(15) _ _ assms(14)]) (simp_all add: assms(12,13))
  then have main: "e2e_main missing (New_client load read dial) NodeSleep PodSleep = e2e_checks ?C NodeSleep PodSleep"
    using assms(11) by (simp add: e2e_main_def admin_client_def)
  have rounds: "triple (?D st) (PodSleep i) (\<lambda>_. ?D (fold after_round (turns i) st))" for st i
    unfolding assms(16)
    by (rule triple_gbind [OF rs_cluster.controllers_converge [OF test_dep_deployable assms(8)]])
      (auto simp: triple_def uncertified_scheduler_idle [OF assms(15)])
  have start: "deploying ''test-dep'' test_dep 1 ?start Declared (coming_uuids w) 1 ?start"
    using assms(4-7,9,10) by (simp add: deploying_def pod_count_def grown_def others_kept_def owned_def fresh_ids_def tidy_def named_def)
  have turns: "fold after_round (concat (map turns [0..<14])) Declared = HasPods" unfolding assms(17) by (rule stage_reached)
  have "triple (world_at cluster_good cluster_table w_env ?t (w_env w)) (e2e_checks ?C NodeSleep PodSleep) (\<lambda>_. ?D HasPods)"
    by (rule rs_cluster.first_run_passes [where N = 1, OF assms(2,3,5) _ refl rounds turns]) (simp only: draw_uuids start)
  moreover have "world_at cluster_good cluster_table w_env ?t (w_env w) w" using assms(1) by (simp add: world_at_def)
  ultimately obtain u w' where run: "e2e_checks ?C NodeSleep PodSleep w = (Ret u, w')" and "?D HasPods w'" by (rule tripleE)
  then obtain t e v N where dep: "deploying ''test-dep'' test_dep 1 ?start HasPods v N t"
    and at: "world_at cluster_good cluster_table w_env t e w'"
    by (auto simp: rs_cluster.deploying_at_def)
  obtain n pod where "t ''pods'' = [n \<mapsto> OPod pod]" and "psp_NodeName (pod_Spec pod) = []"
    using one_unbound_pod [OF dep] assms(5) by auto
  moreover have "cluster_table w' = t" using at by (simp add: world_at_def)
  moreover have "has_node ''node1'' t" "t ''deployments'' ''test-dep'' \<noteq> None"
    using assms(2) deployingD(1,8) [OF dep] by (simp_all add: has_node_def others_kept_def)
  then have "\<exists>w''. e2e_checks ?C NodeSleep PodSleep w' = (Panic Fatal, w'')" using at by (intro cluster.rerun_fails)
  ultimately show ?thesis using run unfolding main by auto
qed

text \<open>A cluster with one node and nothing else, behind certificates\<close>

definition suite_cluster :: "uuid_source cluster" where
  "suite_cluster = cluster_with [ONode (demo_node ''node1'' ''True'')] demo_uuids"

definition suite_dial :: "(string \<times> string) option \<Rightarrow> http_request \<Rightarrow> 'e cluster \<Rightarrow> http_response result \<times> 'e cluster" where
  "suite_dial cred = (case cred of None \<Rightarrow> (\<lambda>r w. (Inl (Errorf ''bad certificate''), w)) | Some _ \<Rightarrow> cluster_send ''https://localhost:8080'')"

definition suite_turns :: "nat \<Rightarrow> controller list" where
  "suite_turns i = (if i = 2 then [Deployments, Services] else [ReplicaSets])"

definition suite_second :: "nat \<Rightarrow> (uuid_source cluster, unit) go" where
  "suite_second i = gbind (controllers_run draw_uuid (sort_key ea_IP) (suite_turns i) (cluster_client ''https://localhost:8080''))
     (\<lambda>_. scheduler_process (New_client (\<lambda>cert key. Inr cert) Inr suite_dial) demo_flags (\<lambda>n. gret 0) (\<lambda>_. 0) [Tick])"

theorem e2e_passes_unscheduled_witness:
  "\<exists>w' n pod. e2e_main (\<lambda>_. False) (New_client (\<lambda>cert key. Inr cert) Inr suite_dial) suite_second suite_second suite_cluster = (Ret (), w') \<and>
    cluster_table w' ''pods'' = [n \<mapsto> OPod pod] \<and> psp_NodeName (pod_Spec pod) = [] \<and>
    (\<exists>w''. e2e_main (\<lambda>_. False) (New_client (\<lambda>cert key. Inr cert) Inr suite_dial) suite_second suite_second w' = (Panic Fatal, w''))"
proof (rule e2e_passes_unscheduled [where verified = "\<lambda>_. True"])
  have table: "cluster_table suite_cluster r = (if r = ''nodes'' then [''node1'' \<mapsto> ONode (demo_node ''node1'' ''True'')] else Map.empty)" for r
    unfolding suite_cluster_def by (simp add: demo_single [OF demo_node_settled] obj_name_def)
  show "cluster_good suite_cluster" unfolding suite_cluster_def by (rule demo_good) (simp add: demo_node_settled)
  show "has_node ''node1'' (cluster_table suite_cluster)" by (simp add: has_node_def table)
  show "tidy (cluster_table suite_cluster ''services'')" "named (cluster_table suite_cluster ''endpoints'')"
    by (simp_all add: table tidy_def named_def)
  show "5 \<le> length (coming_uuids suite_cluster 0)" "list_all name_char (take 5 (coming_uuids suite_cluster 0))"
    by (simp_all add: suite_cluster_def name_char_def)
  show "mutual_tls suite_dial (\<lambda>_. True) (cluster_send ''https://localhost:8080'')" by (simp add: mutual_tls_def suite_dial_def)
  show "concat (map suite_turns [0..<14]) =
      [ReplicaSets, ReplicaSets] @ Deployments # [Services] @ ReplicaSets # replicate 10 ReplicaSets"
    by (simp add: suite_turns_def upt_rec eval_nat_numeral)
  show "suite_second i = gbind (controllers_run draw_uuid (sort_key ea_IP) (suite_turns i) (cluster_client ''https://localhost:8080''))
     (\<lambda>_. scheduler_process (New_client (\<lambda>cert key. Inr cert) Inr suite_dial) demo_flags (\<lambda>n. gret 0) (\<lambda>_. 0) [Tick])" for i
    by (rule suite_second_def)
qed (simp_all add: suite_cluster_def demo_single [OF demo_node_settled] sort_addresses)

end
