(* ===== verification/EndToEnd.thy ===== *)
theory EndToEnd
  imports Checks
begin

text \<open>
  From a deployment to running containers: controllers, scheduler and the node agent of a cluster
  with one fitting node, one after the other on the same objects.
\<close>

section \<open>The pods of a deployment on a node\<close>

abbreviation template_of :: "Deployment \<Rightarrow> PodTemplateSpec" where
  "template_of d \<equiv> dsp_Template (dep_Spec d)"

abbreviation template_containers :: "Deployment \<Rightarrow> Container list" where
  "template_containers d \<equiv> elems (psp_Containers (pts_Spec (template_of d)))"

text \<open>A template docker can run: containers with names of their own, no blank or bar in what is printed\<close>

definition runnable :: "Deployment \<Rightarrow> bool" where
  "runnable d \<longleftrightarrow> template_containers d \<noteq> [] \<and> distinct (map ctr_Name (template_containers d)) \<and>
     (\<forall>c \<in> set (template_containers d). clean (ctr_Name c) \<and> clean (ctr_Image c)) \<and>
     clean (om_Namespace (pts_ObjectMeta (template_of d))) \<and> psp_NodeName (pts_Spec (template_of d)) = []"

text \<open>A pod of the deployment, made with the UUID \<open>u\<close> and bound to \<open>host\<close> (to none if that is empty)\<close>

definition pod_of :: "Deployment \<Rightarrow> string \<Rightarrow> string \<Rightarrow> Pod \<Rightarrow> bool" where
  "pod_of d host u p \<longleftrightarrow> 5 \<le> length u \<and>
     om_Name (pod_ObjectMeta p) = new_rs_name d @ ''-'' @ take 5 u \<and>
     om_Labels (pod_ObjectMeta p) = om_Labels (pts_ObjectMeta (template_of d)) \<and>
     om_Namespace (pod_ObjectMeta p) = om_Namespace (pts_ObjectMeta (template_of d)) \<and>
     containers_of p = map (cnrm Container_codec) (template_containers d) \<and> psp_NodeName (pod_Spec p) = host"

definition hosted :: "Deployment \<Rightarrow> string \<Rightarrow> (string \<Rightarrow> obj option) \<Rightarrow> bool" where
  "hosted d host row \<longleftrightarrow> tidy row \<and> (\<forall>n x. row n = Some x \<longrightarrow> (\<exists>p u. x = OPod p \<and> pod_of d host u p))"

lemma hostedD:
  assumes "hosted d host row" and "row n = Some x"
  obtains p u where "x = OPod p" and "pod_of d host u p" and "om_Name (pod_ObjectMeta p) = n" and "plain_name n"
proof -
  obtain p u where p: "x = OPod p" "pod_of d host u p" using assms unfolding hosted_def by blast
  moreover have "obj_name x = n" "plain_name n" using assms by (auto simp: hosted_def tidy_def named_def)
  ultimately show thesis using that by (simp add: obj_name_def)
qed

lemma hosted_bound:
  assumes "hosted d host row" and "p \<in> bound_to host row"
  obtains u where "pod_of d host u p" and "row (om_Name (pod_ObjectMeta p)) = Some (OPod p)" and "plain_name (om_Name (pod_ObjectMeta p))"
proof -
  obtain n where n: "row n = Some (OPod p)" using assms(2) by (auto simp: bound_to_def)
  obtain q u where "OPod p = OPod q" and "pod_of d host u q" and "om_Name (pod_ObjectMeta q) = n" and "plain_name n"
    using hostedD [OF assms(1) n] .
  with n that show thesis by auto
qed

lemma hosted_owned:
  assumes "hosted d host row" and "rs_labelsMatch sel (om_Labels (pts_ObjectMeta (template_of d)))"
  shows "owned sel row = dom row"
proof -
  have "n \<in> owned sel row" if x: "row n = Some x" for n x
    by (rule hostedD [OF assms(1) x]) (use x assms(2) in \<open>auto simp: owned_def pod_of_def\<close>)
  then show ?thesis using owned_dom [of sel row] by blast
qed

lemma grown_hosted:
  assumes "grown d Map.empty row" and "tidy row" and "psp_NodeName (pts_Spec (template_of d)) = []"
  shows "hosted d [] row"
  unfolding hosted_def
proof (intro conjI allI impI)
  fix n x assume "row n = Some x"
  then obtain u where u: "5 \<le> length u" "x = OPod (cnrm Pod_codec (pod_from_template (new_rs d (dep_hash d)) u))"
    using assms(1) unfolding grown_def by (metis option.distinct(1) option.inject)
  have "pod_of d [] u (cnrm Pod_codec (pod_from_template (new_rs d (dep_hash d)) u))"
    using u(1) assms(3) by (simp add: pod_of_def pod_from_template_def new_rs_def new_rs_name_def elems_def split: option.split)
  with u(2) show "\<exists>p u. x = OPod p \<and> pod_of d [] u p" by blast
qed (rule assms(2))

lemma placed_hosted:
  assumes "hosted d [] row" and "pods_placed cores nodes row row'" and "\<And>p. fitting cores p nodes = {host}"
  shows "hosted d host row'" and "dom row' = dom row"
proof -
  have at: "\<exists>p u. row' n = Some (OPod p) \<and> pod_of d host u p" if x: "row n = Some x" for n x
  proof (rule hostedD [OF assms(1) x])
    fix p u assume p: "x = OPod p" "pod_of d [] u p"
    have "case row n of Some (OPod p) \<Rightarrow> pod_placed cores nodes p (row' n) | x \<Rightarrow> row' n = x"
      using assms(2) unfolding pods_placed_def by (rule spec)
    then have "row' n = Some (OPod (on_node host p))" using x p assms(3) by (simp add: pod_placed_def pod_of_def)
    moreover have "pod_of d host u (on_node host p)" using p(2) by (simp add: pod_of_def)
    ultimately show ?thesis by blast
  qed
  have none: "row' n = None" if "row n = None" for n
    using assms(2) [unfolded pods_placed_def, rule_format, of n] that by simp
  have "row' n = None \<longleftrightarrow> row n = None" for n using at [of n] none [of n] by (cases "row n") auto
  then show "dom row' = dom row" by (simp add: dom_def)
  have "tidy row'" using placed_tidy [OF assms(2)] assms(1) by (simp add: hosted_def)
  moreover have "\<exists>p u. x = OPod p \<and> pod_of d host u p" if "row' n = Some x" for n x
    using that at [of n] none [of n] by (cases "row n") auto
  ultimately show "hosted d host row'" by (simp add: hosted_def)
qed

section \<open>What the node agent makes of them\<close>

lemma plain_clean: "plain_name n \<Longrightarrow> clean n"
proof -
  assume "plain_name n"
  then have "c \<noteq> CHR ''|'' \<and> \<not> is_space c" if "c \<in> set n" for c
    using that by (auto simp: plain_name_def name_char_def list_all_iff is_space_def Let_def)
  then show ?thesis by (simp add: clean_def list_all_iff)
qed

text \<open>All names of pods are equally long, so no container is called like one of another pod.\<close>

lemma container_names_apart:
  assumes "pod_of d host u p" and "pod_of d host v q" and "container_name p c = container_name q c'"
  shows "om_Name (pod_ObjectMeta p) = om_Name (pod_ObjectMeta q) \<and> ctr_Name c = ctr_Name c'"
proof -
  have "length (om_Name (pod_ObjectMeta p)) = length (om_Name (pod_ObjectMeta q))"
    using assms(1,2) by (simp add: pod_of_def)
  with assms(3) show ?thesis by (auto simp: container_name_def)
qed

lemma pod_of_containers:
  assumes "pod_of d host u p" and "runnable d" and "plain_name (om_Name (pod_ObjectMeta p))"
  shows "distinct (map (container_name p) (containers_of p))" and "list_all (clean_pod p) (containers_of p)" and "containers_of p \<noteq> []"
proof -
  have "map (container_name p) (containers_of p) = map (\<lambda>n. ''k8s-lite-'' @ om_Name (pod_ObjectMeta p) @ ''-'' @ n) (map ctr_Name (template_containers d))"
    using assms(1) by (simp add: pod_of_def container_name_def)
  moreover have "inj_on (\<lambda>n. ''k8s-lite-'' @ om_Name (pod_ObjectMeta p) @ ''-'' @ n) A" for A by (rule inj_onI) simp
  ultimately show "distinct (map (container_name p) (containers_of p))"
    using assms(2) by (simp add: runnable_def distinct_map comp_inj_on del: map_map)
  show "list_all (clean_pod p) (containers_of p)"
    using assms plain_clean [OF assms(3)] by (auto simp: list_all_iff clean_pod_def runnable_def pod_of_def)
  show "containers_of p \<noteq> []" using assms(1,2) by (simp add: pod_of_def runnable_def)
qed

lemma hosted_ready:
  assumes "hosted d host row" and "runnable d" and "infos_ok cs"
    and "\<And>p c. p \<in> bound_to host row \<Longrightarrow> c \<in> set (containers_of p) \<Longrightarrow> cs = [] \<or> present p c cs"
  shows "node_ready host row cs"
  unfolding node_ready_def
proof (intro conjI ballI impI)
  fix p assume p: "p \<in> bound_to host row"
  obtain u where u: "pod_of d host u p" "plain_name (om_Name (pod_ObjectMeta p))" using hosted_bound [OF assms(1) p] .
  show "distinct (map (container_name p) (containers_of p))" "list_all (clean_pod p) (containers_of p)"
    using pod_of_containers [OF u(1) assms(2) u(2)] by simp_all
  show "container_name p ` set (containers_of p) \<inter> container_name q ` set (containers_of q) = {}"
    if q: "q \<in> bound_to host row" "om_Name (pod_ObjectMeta p) \<noteq> om_Name (pod_ObjectMeta q)" for q
  proof -
    obtain v where "pod_of d host v q" by (rule hosted_bound [OF assms(1) q(1)])
    with u(1) q(2) show ?thesis by (auto dest: container_names_apart)
  qed
  show "ci_PodName x = om_Name (pod_ObjectMeta p)" if "x \<in> set cs" "ci_Name x \<in> container_name p ` set (containers_of p)" for x
    using that assms(4) [OF p] by (fastforce simp: present_def)
qed (rule assms(3))

text \<open>A sync leaves the pods what they are, every one with the phase its containers gave it.\<close>

lemma synced_hosted:
  assumes "hosted d host row" and "node_synced host row row' cs cs'"
  shows "hosted d host row'" and "dom row' = dom row"
    and "row' n = Some x \<Longrightarrow> \<exists>p. x = OPod p \<and> pst_Phase (pod_Status p) = new_phase (filter (\<lambda>c. ci_PodName c = n) cs)"
proof -
  have at: "\<exists>p u. row' n = Some (OPod p) \<and> pod_of d host u p \<and> om_Name (pod_ObjectMeta p) = n \<and> plain_name n \<and>
      pst_Phase (pod_Status p) = new_phase (filter (\<lambda>c. ci_PodName c = n) cs)" if x: "row n = Some x" for n x
  proof (rule hostedD [OF assms(1) x])
    fix p u assume p: "x = OPod p" "pod_of d host u p" "om_Name (pod_ObjectMeta p) = n" "plain_name n"
    then have "reported (filter (\<lambda>c. ci_PodName c = n) cs) p (row' n)"
      using x by (intro node_syncedD(2) [OF assms(2)]) (simp_all add: pod_of_def)
    then obtain q where q: "carried p q" "row' n = Some (OPod (with_phase (new_phase (filter (\<lambda>c. ci_PodName c = n) cs)) q))"
      by (auto simp: reported_def)
    then have "pod_of d host u (with_phase (new_phase (filter (\<lambda>c. ci_PodName c = n) cs)) q)"
      using p(2) carried_simps(1,2) [OF q(1)] by (simp add: pod_of_def)
    with q(2) p(3,4) carried_simps(1) [OF q(1)] show ?thesis
      by (intro exI [of _ "with_phase (new_phase (filter (\<lambda>c. ci_PodName c = n) cs)) q"] exI [of _ u]) simp
  qed
  have none: "row' n = None" if "row n = None" for n
    using assms(2) that unfolding node_synced_def by (metis option.distinct(1))
  have "row' n = None \<longleftrightarrow> row n = None" for n using at [of n] none [of n] by (cases "row n") auto
  then show "dom row' = dom row" by (simp add: dom_def)
  have earlier: "\<exists>y. row n = Some y" if "row' n = Some x" for n x using none [of n] that by (cases "row n") auto
  show "hosted d host row'" unfolding hosted_def tidy_def named_def using at earlier by (fastforce simp: obj_name_def)
  show "\<exists>p. x = OPod p \<and> pst_Phase (pod_Status p) = new_phase (filter (\<lambda>c. ci_PodName c = n) cs)" if "row' n = Some x"
    using earlier [OF that] at [of n] that by auto
qed

lemma synced_present:
  assumes "hosted d host row" and "node_synced host row row' cs cs'" and p: "p \<in> bound_to host row'" and "c \<in> set (containers_of p)"
  shows "present p c cs'"
proof -
  note h = synced_hosted [OF assms(1,2)]
  obtain u where u: "pod_of d host u p" and "row' (om_Name (pod_ObjectMeta p)) = Some (OPod p)" by (rule hosted_bound [OF h(1) p])
  then obtain x where x: "row (om_Name (pod_ObjectMeta p)) = Some x" using h(2) by blast
  obtain q v where q: "x = OPod q" "pod_of d host v q" "om_Name (pod_ObjectMeta q) = om_Name (pod_ObjectMeta p)"
    by (rule hostedD [OF assms(1) x])
  have "q \<in> bound_to host row" using x q by (auto simp: bound_to_def pod_of_def)
  moreover have "c \<in> set (containers_of q)" using assms(4) u q(2) by (simp add: pod_of_def)
  ultimately have "present q c cs'" using node_syncedD(3) [OF assms(2)] by blast
  then show ?thesis using q(3) by (simp add: present_def container_name_def)
qed

lemma synced_running:
  assumes "hosted d host row" and "node_synced host row row' cs cs'" and "runnable d"
    and "\<And>p c. p \<in> bound_to host row \<Longrightarrow> c \<in> set (containers_of p) \<Longrightarrow> present p c cs" and x: "row' n = Some x"
  shows "\<exists>p. x = OPod p \<and> pst_Phase (pod_Status p) = ''Running'' \<and> (\<forall>c \<in> set (containers_of p). present p c cs')"
proof -
  note h = synced_hosted [OF assms(1,2)]
  obtain y where y: "row n = Some y" using x h(2) by blast
  obtain q u where q: "y = OPod q" "pod_of d host u q" "om_Name (pod_ObjectMeta q) = n" "plain_name n" by (rule hostedD [OF assms(1) y])
  have "q \<in> bound_to host row" using y q by (auto simp: bound_to_def pod_of_def)
  moreover obtain c where "c \<in> set (containers_of q)" using pod_of_containers(3) [OF q(2) assms(3)] q(3,4) by (metis last_in_set)
  ultimately have "present q c cs" using assms(4) by blast
  then have some: "filter (\<lambda>c. ci_PodName c = n) cs \<noteq> []" using q(3) by (auto simp: present_def filter_empty_conv)
  obtain p v where p: "x = OPod p" "pod_of d host v p" by (rule hostedD [OF h(1) x])
  then have "p \<in> bound_to host row'" using x by (auto simp: bound_to_def pod_of_def)
  then have "\<forall>c \<in> set (containers_of p). present p c cs'" using synced_present [OF assms(1,2)] by blast
  moreover have "pst_Phase (pod_Status p) = ''Running''" using h(3) [OF x] p(1) some by (simp add: new_phase_def)
  ultimately show ?thesis using p(1) by blast
qed

text \<open>One sync of the agent, and two in a row from a node without containers\<close>

lemma agent_hosted:
  assumes "docker_ok cluster_good cluster_table w_env docker dk" and "probes_ok cluster_good cluster_table w_env prober"
    and "cluster_good w" and "hosted d host (cluster_table w ''pods'')" and "runnable d" and "infos_ok (dk (w_env w))"
    and "\<And>p c. p \<in> bound_to host (cluster_table w ''pods'') \<Longrightarrow> c \<in> set (containers_of p) \<Longrightarrow>
      dk (w_env w) = [] \<or> present p c (dk (w_env w))"
    and "\<And>ks. set (iter ks) = set ks \<and> distinct (iter ks)"
  shows "\<exists>w'. runSync (cluster_client base) (DockerRuntime docker) (\<lambda>pod container. Probe_run prober pod) iter host w = (Ret (), w') \<and>
    cluster_good w' \<and> node_synced host (cluster_table w ''pods'') (cluster_table w' ''pods'') (dk (w_env w)) (dk (w_env w'))"
proof -
  have tidy: "tidy (cluster_table w ''pods'')" using assms(4) by (simp add: hosted_def)
  have ready: "node_ready host (cluster_table w ''pods'') (dk (w_env w))" using assms(4-7) by (rule hosted_ready)
  have "world_at cluster_good cluster_table w_env (cluster_table w) (w_env w) w" using assms(3) by (simp add: world_at_def)
  from tripleD [OF node.runSync_effect [OF docker_node [OF cluster.rest_axioms assms(1,2)], of "cluster_table w", OF tidy ready assms(8)] this, of base]
  show ?thesis by (fastforce simp: world_at_def)
qed

lemma two_syncs:
  assumes "docker_ok cluster_good cluster_table w_env docker dk" and "probes_ok cluster_good cluster_table w_env prober"
    and "cluster_good w" and "hosted d host (cluster_table w ''pods'')" and "runnable d" and "dk (w_env w) = []"
    and "\<And>ks. set (iter ks) = set ks \<and> distinct (iter ks)"
  shows "\<exists>w1 w2. runSync (cluster_client base) (DockerRuntime docker) (\<lambda>pod container. Probe_run prober pod) iter host w = (Ret (), w1) \<and>
    runSync (cluster_client base) (DockerRuntime docker) (\<lambda>pod container. Probe_run prober pod) iter host w1 = (Ret (), w2) \<and>
    hosted d host (cluster_table w2 ''pods'') \<and> dom (cluster_table w2 ''pods'') = dom (cluster_table w ''pods'') \<and>
    (\<forall>n x. cluster_table w2 ''pods'' n = Some x \<longrightarrow> (\<exists>p. x = OPod p \<and> pst_Phase (pod_Status p) = ''Running'' \<and>
       (\<forall>c \<in> set (containers_of p). present p c (dk (w_env w2)))))"
proof -
  let ?row = "\<lambda>w. cluster_table w ''pods''" and ?cs = "\<lambda>w. dk (w_env w)"
  have empty: "infos_ok (?cs w)" using assms(6) by (simp add: infos_ok_def)
  obtain w1 where run1: "runSync (cluster_client base) (DockerRuntime docker) (\<lambda>pod container. Probe_run prober pod) iter host w = (Ret (), w1)"
    and good1: "cluster_good w1" and s1: "node_synced host (?row w) (?row w1) (?cs w) (?cs w1)"
    using agent_hosted [OF assms(1-5) empty _ assms(7), of base] assms(6) by blast
  note h1 = synced_hosted [OF assms(4) s1] and there = synced_present [OF assms(4) s1]
  obtain w2 where run2: "runSync (cluster_client base) (DockerRuntime docker) (\<lambda>pod container. Probe_run prober pod) iter host w1 = (Ret (), w2)"
    and s2: "node_synced host (?row w1) (?row w2) (?cs w1) (?cs w2)"
    using agent_hosted [OF assms(1,2) good1 h1(1) assms(5) node_syncedD(1) [OF s1] _ assms(7), of base] there by blast
  have "dom (?row w2) = dom (?row w)" using synced_hosted(2) [OF h1(1) s2] h1(2) by (rule trans)
  moreover have "\<forall>n x. ?row w2 n = Some x \<longrightarrow> (\<exists>p. x = OPod p \<and> pst_Phase (pod_Status p) = ''Running'' \<and>
       (\<forall>c \<in> set (containers_of p). present p c (?cs w2)))"
    using synced_running [OF h1(1) s2 assms(5)] there by blast
  ultimately show ?thesis using run1 run2 synced_hosted(1) [OF h1(1) s2] by blast
qed

section \<open>Worlds whose environment is known in part\<close>

lemma answers_framed:
  assumes "answers good tab env c m path b t P"
  shows "answers (\<lambda>w. good w \<and> F (env w)) tab env c m path b t P"
  unfolding answers_def
proof (intro allI tripleI)
  fix e w assume w: "world_at (\<lambda>w. good w \<and> F (env w)) tab env t e w"
  then have "world_at good tab env t e w" by (simp add: world_at_def)
  from tripleD [OF assms [unfolded answers_def, rule_format] this]
  show "\<exists>x w'. HTTP_Do c m path b w = (Ret x, w') \<and>
      (\<exists>resp. x = Inr resp \<and> P resp (tab w') \<and> world_at (\<lambda>w. good w \<and> F (env w)) tab env (tab w') e w')"
    using w by (fastforce simp: world_at_def)
qed

text \<open>Requests leave the environment alone, so the contract holds among the worlds with a certain one.\<close>

lemma rest_framed: "rest C good tab env \<Longrightarrow> rest C (\<lambda>w. good w \<and> F (env w)) tab env"
  by (rule rest.intro) (blast intro: answers_framed rest.post rest.put rest.delete rest.get rest.list dest: rest.entry)+

section \<open>Properties\<close>

text \<open>The capacity check ignores what a pod asks for, so one fits where every other does.\<close>

lemma fitting_any: "fitting cores p nodes = fitting cores q nodes"
proof -
  have "podFitsResources cores p node = podFitsResources cores q node" for node
    by (simp add: podFitsResources_def getRequest_def)
  then show ?thesis by (simp add: fitting_def)
qed

text \<open>C1: A deployment comes alive: in a cluster without pods, with one node that is fit, once the manager has
  run a round of the deployment controller and later one of the replica set controller (and whatever
  others), the scheduler one round and the agent of the node two, exactly the desired number of pods
  matches the selector and there is no other; every one is bound to the node and reports Running,
  and docker has every container of the template for each, labelled with its pod.\<close>

theorem deployment_comes_alive:
  fixes dk :: "'e \<Rightarrow> ContainerInfo list" and w :: "'e cluster"
  defines "quiet \<equiv> \<lambda>w :: 'e cluster. cluster_good w \<and> dk (w_env w) = []"
  assumes "uuids (cluster_client base) quiet cluster_table w_env newUUID peek advance"
    and "dice (cluster_client base) quiet cluster_table w_env Intn"
    and "docker_ok cluster_good cluster_table w_env docker dk" and "probes_ok cluster_good cluster_table w_env prober"
    and "quiet w" and "deployable d c" and "runnable d" and "cluster_table w ''deployments'' = [k \<mapsto> ODeployment d]"
    and "cluster_table w ''replicasets'' = Map.empty" and "cluster_table w ''pods'' = Map.empty"
    and "tidy (cluster_table w ''services'')" and "named (cluster_table w ''endpoints'')" and "sorts_addresses srt"
    and "fresh_ids (draw peek advance (w_env w)) (nat (sint c)) (cluster_table w)"
    and "\<forall>i < nat (sint c). list_all name_char (take 5 (draw peek advance (w_env w) i))"
    and "tidy (cluster_table w ''nodes'')" and "fitting cores Pod_zero (cluster_table w ''nodes'') = {host}"
    and "\<And>ks. set (iter ks) = set ks \<and> distinct (iter ks)"
  shows "\<exists>w1 w2 w3 w4. controllers_run newUUID srt (as @ Deployments # bs @ ReplicaSets # cs) (cluster_client base) w = (Ret (), w1) \<and>
    scheduleOneRound (cluster_client base) Intn cores w1 = (Ret (), w2) \<and>
    runSync (cluster_client base) (DockerRuntime docker) (\<lambda>pod container. Probe_run prober pod) iter host w2 = (Ret (), w3) \<and>
    runSync (cluster_client base) (DockerRuntime docker) (\<lambda>pod container. Probe_run prober pod) iter host w3 = (Ret (), w4) \<and>
    card (owned (dep_selector d) (cluster_table w4 ''pods'')) = nat (sint c) \<and>
    owned (dep_selector d) (cluster_table w4 ''pods'') = dom (cluster_table w4 ''pods'') \<and>
    (\<forall>n x. cluster_table w4 ''pods'' n = Some x \<longrightarrow> (\<exists>p. x = OPod p \<and> psp_NodeName (pod_Spec p) = host \<and>
       pst_Phase (pod_Status p) = ''Running'' \<and> containers_of p = map (cnrm Container_codec) (template_containers d) \<and>
       (\<forall>c \<in> set (containers_of p). present p c (dk (w_env w4)))))"
proof -
  let ?t = "cluster_table w" and ?ks = "as @ Deployments # bs @ ReplicaSets # cs" and ?pods = "\<lambda>w. cluster_table w ''pods''"
  let ?at = "\<lambda>st. uuids.deploying_at quiet cluster_table w_env peek advance k d c ?t st"
  have match: "rs_labelsMatch (dep_selector d) (om_Labels (pts_ObjectMeta (template_of d)))" using assms(7) by (simp add: deployable_def)
  have "deploying k d c ?t Declared (draw peek advance (w_env w)) (nat (sint c)) ?t"
    using assms(9-13,15,16) sint_less [of c] by (simp add: deploying_def pod_count_def grown_def others_kept_def owned_def tidy_def named_def)
  then have "?at Declared w" unfolding uuids.deploying_at_def [OF assms(2)] using assms(6) by (auto simp: world_at_def)
  then obtain u w1 where run1: "controllers_run newUUID srt ?ks (cluster_client base) w = (Ret u, w1)" and "?at HasPods w1"
    using tripleD [OF uuids.controllers_converge [OF assms(2,7,14)], of k ?t Declared w ?ks] unfolding stage_reached by blast
  then obtain v N where quiet1: "quiet w1" and dep: "deploying k d c ?t HasPods v N (cluster_table w1)"
    unfolding uuids.deploying_at_def [OF assms(2)] by (auto simp: world_at_def)
  note D = deployingD [OF dep] and P = pod_countD [OF deployingD(3) [OF dep]]
  have hosted1: "hosted d [] (?pods w1)"
    using D(7) P(1) assms(8,11) by (intro grown_hosted) (simp_all add: runnable_def)
  have nodes: "cluster_table w1 ''nodes'' = ?t ''nodes''" using D(8) by (simp add: others_kept_def)
  have "\<exists>e. world_at quiet cluster_table w_env (cluster_table w1) e w1" using quiet1 by (simp add: world_at_def)
  then obtain w2 row where run2: "scheduleOneRound (cluster_client base) Intn cores w1 = (Ret (), w2)" and quiet2: "quiet w2"
    and placed: "pods_placed cores (?t ''nodes'') (?pods w1) (?pods w2)"
    using tripleD [OF dice.scheduleOneRound_effect [OF assms(3), of "cluster_table w1" cores], of w1] P(1) assms(17)
    by (fastforce simp: world_at_def nodes)
  have fit: "fitting cores p (?t ''nodes'') = {host}" for p using assms(18) fitting_any [of cores p _ Pod_zero] by simp
  note h2 = placed_hosted [OF hosted1 placed fit]
  have good2: "cluster_good w2" and none: "dk (w_env w2) = []" using quiet2 by (simp_all add: quiet_def)
  obtain w3 w4 where syncs: "runSync (cluster_client base) (DockerRuntime docker) (\<lambda>pod container. Probe_run prober pod) iter host w2 = (Ret (), w3)"
      "runSync (cluster_client base) (DockerRuntime docker) (\<lambda>pod container. Probe_run prober pod) iter host w3 = (Ret (), w4)"
    and h4: "hosted d host (?pods w4)" "dom (?pods w4) = dom (?pods w2)"
    and run: "\<forall>n x. ?pods w4 n = Some x \<longrightarrow> (\<exists>p. x = OPod p \<and> pst_Phase (pod_Status p) = ''Running'' \<and>
       (\<forall>c \<in> set (containers_of p). present p c (dk (w_env w4))))"
    using two_syncs [OF assms(4,5) good2 h2(1) assms(8) none assms(19), of base] by blast
  have own4: "owned (dep_selector d) (?pods w4) = dom (?pods w4)" using hosted_owned [OF h4(1) match] .
  moreover have "card (dom (?pods w4)) = nat (sint c)" using P(5) hosted_owned [OF hosted1 match] h2(2) h4(2) by simp
  moreover have "\<exists>p. x = OPod p \<and> psp_NodeName (pod_Spec p) = host \<and> pst_Phase (pod_Status p) = ''Running'' \<and>
       containers_of p = map (cnrm Container_codec) (template_containers d) \<and> (\<forall>c \<in> set (containers_of p). present p c (dk (w_env w4)))"
    if x: "?pods w4 n = Some x" for n x
    by (rule hostedD [OF h4(1) x]) (use run [rule_format, OF x] in \<open>auto simp: pod_of_def simp del: Container_nrm\<close>)
  ultimately show ?thesis using run1 run2 syncs by auto
qed

text \<open>A machine with UUIDs to draw and docker on it, and the deployment of the end-to-end suite\<close>

record machine =
  mc_next :: nat
  mc_containers :: "ContainerInfo list"

definition machine_peek :: "machine \<Rightarrow> string" where
  "machine_peek e = [CHR ''a'', CHR ''a'', CHR ''a'', CHR ''a'', char_of (97 + mc_next e)]"

definition machine_advance :: "machine \<Rightarrow> machine" where
  "machine_advance e = e\<lparr>mc_next := Suc (mc_next e)\<rparr>"

definition machine_uuid :: "(machine cluster, string) go" where
  "machine_uuid w = (Ret (machine_peek (w_env w)), w\<lparr>w_env := machine_advance (w_env w)\<rparr>)"

definition machine_docker :: "machine cluster docker" where
  "machine_docker = docker_via mc_containers (\<lambda>cs. mc_containers_update (\<lambda>_. cs))"

definition machine_cluster :: "machine cluster" where
  "machine_cluster = cluster_with [ODeployment test_dep, ONode (demo_node ''node1'' ''True'')] \<lparr>mc_next = 0, mc_containers = []\<rparr>"

lemma machine_laws:
  "uuids (cluster_client base) (\<lambda>w. cluster_good w \<and> mc_containers (w_env w) = []) cluster_table w_env machine_uuid machine_peek machine_advance"
  "dice (cluster_client base) (\<lambda>w. cluster_good w \<and> mc_containers (w_env w) = []) cluster_table w_env (\<lambda>n. gret 0)"
  "docker_ok cluster_good cluster_table w_env machine_docker mc_containers"
proof -
  have rest: "rest (cluster_client base) (\<lambda>w. cluster_good w \<and> mc_containers (w_env w) = []) cluster_table w_env"
    using rest_framed [OF cluster.rest_axioms, where F = "\<lambda>e. mc_containers e = []"] .
  show "uuids (cluster_client base) (\<lambda>w. cluster_good w \<and> mc_containers (w_env w) = []) cluster_table w_env machine_uuid machine_peek machine_advance"
    by (rule uuids.intro [OF rest], rule uuids_axioms.intro)
      (auto simp: triple_def machine_uuid_def machine_advance_def world_at_def cluster_good_def cluster_table_def world_good_def world_table_def)
  show "dice (cluster_client base) (\<lambda>w. cluster_good w \<and> mc_containers (w_env w) = []) cluster_table w_env (\<lambda>n. gret 0)"
    by (rule dice.intro [OF rest], rule dice_axioms.intro) (auto intro!: triple_gret)
  show "docker_ok cluster_good cluster_table w_env machine_docker mc_containers"
    unfolding machine_docker_def by (rule docker_via_ok) simp_all
qed

theorem deployment_comes_alive_witness:
  "\<exists>w1 w2 w3 w4. controllers_run machine_uuid (sort_key ea_IP) [Services, Deployments, ReplicaSets] (cluster_client ''http://api'') machine_cluster = (Ret (), w1) \<and>
    scheduleOneRound (cluster_client ''http://api'') (\<lambda>n. gret 0) (\<lambda>_. 0) w1 = (Ret (), w2) \<and>
    runSync (cluster_client ''http://api'') (DockerRuntime machine_docker) (\<lambda>pod container. Probe_run calm_prober pod) remdups ''node1'' w2 = (Ret (), w3) \<and>
    runSync (cluster_client ''http://api'') (DockerRuntime machine_docker) (\<lambda>pod container. Probe_run calm_prober pod) remdups ''node1'' w3 = (Ret (), w4) \<and>
    card (owned (fmupd ''app'' ''nginx'' fmempty) (cluster_table w4 ''pods'')) = 1"
proof -
  have ok: "demo_objects [ODeployment test_dep, ONode (demo_node ''node1'' ''True'')]"
    using test_dep_settled demo_node_settled by (simp add: demo_objects_def)
  have table: "cluster_table machine_cluster r n = (if r = ''deployments'' \<and> n = ''test-dep'' then Some (ODeployment test_dep)
      else if r = ''nodes'' \<and> n = ''node1'' then Some (ONode (demo_node ''node1'' ''True'')) else None)" for r n
    unfolding machine_cluster_def by (auto simp: demo_table_objs [OF ok] test_dep_name obj_name_def)
  have row: "cluster_table machine_cluster ''deployments'' = [''test-dep'' \<mapsto> ODeployment test_dep]"
      "cluster_table machine_cluster ''nodes'' = [''node1'' \<mapsto> ONode (demo_node ''node1'' ''True'')]"
    and empty: "r \<notin> {''deployments'', ''nodes''} \<Longrightarrow> cluster_table machine_cluster r = Map.empty" for r
    by (auto simp: table fun_eq_iff)
  have env: "w_env machine_cluster = \<lparr>mc_next = 0, mc_containers = []\<rparr>" by (simp add: machine_cluster_def)
  have good: "cluster_good machine_cluster \<and> mc_containers (w_env machine_cluster) = []"
    using demo_good [OF ok] by (simp add: machine_cluster_def)
  have run: "runnable test_dep" by (simp add: runnable_def test_dep_def PodSpec_zero_def ObjectMeta_zero_def elems_def clean_def is_space_def)
  have fit: "fitting (\<lambda>_. 0) Pod_zero (cluster_table machine_cluster ''nodes'') = {''node1''}"
    by (auto simp: fitting_def row podFitsResources_def parseCPU_def getRequest_def label_def has_suffix_def split: if_splits)
  have one: "nat (sint (1 :: int32)) = 1" by simp
  have "\<exists>w1 w2 w3 w4. controllers_run machine_uuid (sort_key ea_IP) ([Services] @ Deployments # [] @ ReplicaSets # []) (cluster_client ''http://api'') machine_cluster = (Ret (), w1) \<and>
    scheduleOneRound (cluster_client ''http://api'') (\<lambda>n. gret 0) (\<lambda>_. 0) w1 = (Ret (), w2) \<and>
    runSync (cluster_client ''http://api'') (DockerRuntime machine_docker) (\<lambda>pod container. Probe_run calm_prober pod) remdups ''node1'' w2 = (Ret (), w3) \<and>
    runSync (cluster_client ''http://api'') (DockerRuntime machine_docker) (\<lambda>pod container. Probe_run calm_prober pod) remdups ''node1'' w3 = (Ret (), w4) \<and>
    card (owned (dep_selector test_dep) (cluster_table w4 ''pods'')) = nat (sint (1 :: int32)) \<and>
    owned (dep_selector test_dep) (cluster_table w4 ''pods'') = dom (cluster_table w4 ''pods'') \<and>
    (\<forall>n x. cluster_table w4 ''pods'' n = Some x \<longrightarrow> (\<exists>p. x = OPod p \<and> psp_NodeName (pod_Spec p) = ''node1'' \<and>
       pst_Phase (pod_Status p) = ''Running'' \<and> containers_of p = map (cnrm Container_codec) (template_containers test_dep) \<and>
       (\<forall>c \<in> set (containers_of p). present p c (mc_containers (w_env w4)))))"
    by (rule deployment_comes_alive [OF machine_laws calm_prober_ok good test_dep_deployable run row(1) _ _ _ _ sort_addresses _ _ _ fit])
      (simp_all add: empty row env one tidy_def named_def fresh_ids_def draw_def machine_peek_def obj_name_def plain_name_def name_char_def)
  then show ?thesis unfolding one by (simp add: test_dep_def) blast
qed

end
