(* ===== verification/Certs.thy ===== *)
theory Certs
  imports Objects Base64
begin

text \<open>
  hack/gen-certs: the authority of a secured cluster and the certificates of its server and clients.
  Keys, signatures and the encoding of certificates are crypto/rsa and crypto/x509, operations with
  documented laws here (locale \<open>pki\<close>); which certificates are asked for, what stands in them and
  what is written to which file is the program's.
\<close>

section \<open>Certificates\<close>

text \<open>The fields of an \<open>x509.Certificate\<close> the program sets\<close>

record 'ip Certificate =
  ce_SerialNumber :: int64 \<comment> \<open>a \<open>big.Int\<close> made of one\<close>
  ce_Organization :: "string list"
  ce_CommonName :: string
  ce_NotBefore :: gotime
  ce_NotAfter :: gotime
  ce_KeyUsage :: goint
  ce_ExtKeyUsage :: "goint list"
  ce_BasicConstraintsValid :: bool
  ce_IsCA :: bool
  ce_IPAddresses :: "'ip list"
  ce_DNSNames :: "string list"

text \<open>The constants of crypto/x509\<close>

definition KeyUsageDigitalSignature :: goint where "KeyUsageDigitalSignature = 1"
definition KeyUsageKeyEncipherment :: goint where "KeyUsageKeyEncipherment = 4"
definition KeyUsageCertSign :: goint where "KeyUsageCertSign = 32"
definition ExtKeyUsageServerAuth :: goint where "ExtKeyUsageServerAuth = 1"
definition ExtKeyUsageClientAuth :: goint where "ExtKeyUsageClientAuth = 2"

text \<open>What the program calls; a nil \<open>*rsa.PrivateKey\<close> is None. \<open>WriteFile\<close> creates a file and fills it.\<close>

record ('w, 'key, 'ip) pki_ops =
  x_GenerateKey :: "('w, 'key result) go"
  x_Now :: "('w, gotime) go"
  x_ParseIP :: "string \<Rightarrow> 'ip option"
  x_CreateCertificate :: "'ip Certificate \<Rightarrow> 'ip Certificate \<Rightarrow> 'key \<Rightarrow> 'key option \<Rightarrow> ('w, string result) go"
  x_ParseCertificate :: "string \<Rightarrow> 'ip Certificate result"
  x_MarshalPKCS1PrivateKey :: "'key \<Rightarrow> string"
  x_WriteFile :: "string \<Rightarrow> string \<Rightarrow> ('w, gerror option) go"

section \<open>encoding/pem\<close>

definition newline :: string where
  "newline = [CHR 0x0A]"

text \<open>Lines of 64 characters; the argument is the column\<close>

fun wrap64 :: "nat \<Rightarrow> string \<Rightarrow> string" where
  "wrap64 n [] = (if n = 0 then [] else newline)"
| "wrap64 n (c # cs) = (if n = 64 then newline @ c # wrap64 1 cs else c # wrap64 (Suc n) cs)"

definition pem_encode :: "string \<Rightarrow> string \<Rightarrow> string" where
  "pem_encode kind bytes =
     ''-----BEGIN '' @ kind @ ''-----'' @ newline @ wrap64 0 (b64_encode bytes) @ ''-----END '' @ kind @ ''-----'' @ newline"

lemma wrap64_text: "CHR 0x0A \<notin> set s \<Longrightarrow> filter (\<lambda>c. c \<noteq> CHR 0x0A) (wrap64 n s) = s"
  by (induction n s rule: wrap64.induct) (auto simp: newline_def)

lemma b64_one_line: "CHR 0x0A \<notin> set (b64_encode s)"
proof -
  have "list_all (\<lambda>n. b64_char n \<noteq> CHR 0x0A) [0..<64]" by code_simp
  then have c: "b64_char n \<noteq> CHR 0x0A" if "n < 64" for n using that by (simp add: list_all_iff)
  have "of_char a div 4 < (64 :: nat)" "of_char a mod 4 * 16 < (64 :: nat)" "of_char a mod 16 * 4 < (64 :: nat)"
    "of_char a mod 4 * 16 + of_char b div 16 < (64 :: nat)" "of_char a mod 16 * 4 + of_char b div 64 < (64 :: nat)" for a b
    using of_char_bound [of a] of_char_bound [of b] by linarith+
  then show ?thesis by (induction s rule: b64_encode.induct) (simp_all add: Let_def c c [symmetric])
qed

text \<open>A reader that drops the line ends gets the bytes back.\<close>

lemma pem_body_decodes: "b64_decode (filter (\<lambda>c. c \<noteq> CHR 0x0A) (wrap64 0 (b64_encode bytes))) = Some bytes"
  by (simp add: wrap64_text [OF b64_one_line] b64_roundtrip)

section \<open>generateCert\<close>

definition unix_epoch :: gotime where
  "unix_epoch = 62135596800 * second_ns"

definition UnixNano :: "gotime \<Rightarrow> int64" where
  "UnixNano t = word_of_int (t - unix_epoch)"

text \<open>The subject alternative names: what parses as an address, and everything else as a host name\<close>

fun add_sans :: "(string \<Rightarrow> 'ip option) \<Rightarrow> string list \<Rightarrow> 'ip Certificate \<Rightarrow> 'ip Certificate" where
  "add_sans parseIP [] c = c"
| "add_sans parseIP (s # ss) c = add_sans parseIP ss
     (case parseIP s of
        Some ip \<Rightarrow> c\<lparr>ce_IPAddresses := ce_IPAddresses c @ [ip]\<rparr>
      | None \<Rightarrow> c\<lparr>ce_DNSNames := ce_DNSNames c @ [s]\<rparr>)"

definition cert_template :: "(string \<Rightarrow> 'ip option) \<Rightarrow> string \<Rightarrow> bool \<Rightarrow> string list \<Rightarrow> gotime \<Rightarrow> gotime \<Rightarrow> gotime \<Rightarrow> 'ip Certificate" where
  "cert_template parseIP cn isCA sans serial notBefore now =
     (let c = \<lparr>ce_SerialNumber = UnixNano serial, ce_Organization = [''K8s-Lite''], ce_CommonName = cn,
            ce_NotBefore = notBefore, ce_NotAfter = now + 365 * 24 * 3600 * second_ns,
            ce_KeyUsage = or KeyUsageKeyEncipherment KeyUsageDigitalSignature,
            ce_ExtKeyUsage = [ExtKeyUsageServerAuth, ExtKeyUsageClientAuth], ce_BasicConstraintsValid = True,
            ce_IsCA = False, ce_IPAddresses = [], ce_DNSNames = []\<rparr>;
          c = (if isCA then c\<lparr>ce_IsCA := True, ce_KeyUsage := or (ce_KeyUsage c) KeyUsageCertSign\<rparr> else c)
      in add_sans parseIP sans c)"

definition generateCert :: "('w, 'key, 'ip) pki_ops \<Rightarrow> string \<Rightarrow> 'ip Certificate option \<Rightarrow> 'key option \<Rightarrow> bool \<Rightarrow> string list \<Rightarrow>
    ('w, 'key \<times> string) go" where
  "generateCert X cn parentCert parentKey isCA sans =
     gbind (x_GenerateKey X) (\<lambda>r. case r of Inl err \<Rightarrow> gpanic Fatal | Inr priv \<Rightarrow>
     gbind (x_Now X) (\<lambda>serial. gbind (x_Now X) (\<lambda>notBefore. gbind (x_Now X) (\<lambda>now.
       let template = cert_template (x_ParseIP X) cn isCA sans serial notBefore now;
           (parent, signKey) = (case parentCert of None \<Rightarrow> (template, Some priv) | Some p \<Rightarrow> (p, parentKey))
       in gbind (x_CreateCertificate X template parent priv signKey) (\<lambda>r. case r of
            Inl err \<Rightarrow> gpanic Fatal
          | Inr certBytes \<Rightarrow> gret (priv, certBytes))))))"

section \<open>main\<close>

text \<open>Every error is dropped; a file that cannot be created is nil, and what is written to it is lost.\<close>

definition save :: "('w, 'key, 'ip) pki_ops \<Rightarrow> string \<Rightarrow> 'key \<Rightarrow> string \<Rightarrow> ('w, unit) go" where
  "save X name priv certBytes =
     gbind (x_WriteFile X (name @ ''.key'') (pem_encode ''RSA PRIVATE KEY'' (x_MarshalPKCS1PrivateKey X priv))) (\<lambda>_.
     gbind (x_WriteFile X (name @ ''.pem'') (pem_encode ''CERTIFICATE'' certBytes)) (\<lambda>_. gret ()))"

lemma unwritable_directory_unnoticed: "x_WriteFile X = (\<lambda>f s. gret (Some err)) \<Longrightarrow> save X name priv certBytes = gret ()"
  by (simp add: save_def)

text \<open>Common name, alternative names and file name of the certificates, in the order they are made\<close>

definition leaves :: "(string \<times> string list \<times> string) list" where
  "leaves =
     [(''k8s-lite-apiserver'', [''127.0.0.1'', ''localhost''], ''server''), (''admin'', [], ''client-admin''),
      (''kubelet'', [], ''client-kubelet''), (''controller-manager'', [], ''client-cm'')]"

definition gen_certs_main :: "('w, 'key, 'ip) pki_ops \<Rightarrow> ('w, unit) go" where
  "gen_certs_main X =
     gbind (generateCert X ''K8s-Lite-CA'' None None True []) (\<lambda>(caPriv, caCertBytes).
     gbind (save X ''ca'' caPriv caCertBytes) (\<lambda>_.
     let caCert = (case x_ParseCertificate X caCertBytes of Inl err \<Rightarrow> None | Inr c \<Rightarrow> Some c) in
     for_each leaves (\<lambda>(cn, sans, name).
       gbind (generateCert X cn caCert (Some caPriv) False sans) (\<lambda>(priv, certBytes). save X name priv certBytes))))"

section \<open>Laws\<close>

text \<open>A date a certificate can carry, and the subject of one\<close>

definition certifiable :: "'ip Certificate \<Rightarrow> bool" where
  "certifiable c \<longleftrightarrow> 0 < sint (ce_SerialNumber c) \<and> time_ok (ce_NotBefore c) \<and> time_ok (ce_NotAfter c)"

definition subject :: "'ip Certificate \<Rightarrow> string list \<times> string" where
  "subject c = (ce_Organization c, ce_CommonName c)"

text \<open>Certificates keep times to the second.\<close>

definition to_seconds :: "'ip Certificate \<Rightarrow> 'ip Certificate" where
  "to_seconds c = c\<lparr>ce_NotBefore := ce_NotBefore c div second_ns * second_ns, ce_NotAfter := ce_NotAfter c div second_ns * second_ns\<rparr>"

text \<open>
  A certificate is signed with the key of its parent: \<open>CreateCertificate\<close> refuses a signer that does not
  match the public key of the parent, which a parsed certificate has and a template does not.
  \<open>issued der c key issuer signer\<close>: these bytes are a certificate with the contents \<open>c\<close> for the public
  half of \<open>key\<close>, naming \<open>issuer\<close> and signed with \<open>signer\<close>. The system clock stands between 1970 and the
  year 2200, the disk works.
\<close>

locale pki =
  fixes X :: "('w, 'key, 'ip) pki_ops" and dir :: "'w \<Rightarrow> string \<Rightarrow> string option"
    and issued :: "string \<Rightarrow> 'ip Certificate \<Rightarrow> 'key \<Rightarrow> string list \<times> string \<Rightarrow> 'key \<Rightarrow> bool"
  assumes key: "triple (\<lambda>w. dir w = d) (x_GenerateKey X) (\<lambda>r w. (\<exists>k. r = Inr k) \<and> dir w = d)"
    and now: "triple (\<lambda>w. dir w = d) (x_Now X)
      (\<lambda>t w. (unix_epoch < t \<and> t < unix_epoch + 230 * (365 * 24 * 3600 * second_ns)) \<and> dir w = d)"
    and sign: "certifiable c \<Longrightarrow> parent = c \<or> (\<exists>der0 c0 issuer0 signer0. issued der0 c0 signer issuer0 signer0 \<and> parent = to_seconds c0) \<Longrightarrow> triple (\<lambda>w. dir w = d) (x_CreateCertificate X c parent k (Some signer))
      (\<lambda>r w. (\<exists>der. r = Inr der \<and> issued der c k (subject parent) signer) \<and> dir w = d)"
    and parse: "issued der c k issuer signer \<Longrightarrow> x_ParseCertificate X der = Inr (to_seconds c)"
    and writing: "triple (\<lambda>w. dir w = d) (x_WriteFile X f s) (\<lambda>err w. dir w = d(f \<mapsto> s))"

section \<open>What a certificate says\<close>

lemma add_sans_fields:
  "ce_SerialNumber (add_sans p ss c) = ce_SerialNumber c" "ce_NotBefore (add_sans p ss c) = ce_NotBefore c"
  "ce_NotAfter (add_sans p ss c) = ce_NotAfter c" "ce_Organization (add_sans p ss c) = ce_Organization c" "ce_CommonName (add_sans p ss c) = ce_CommonName c"
  "ce_KeyUsage (add_sans p ss c) = ce_KeyUsage c" "ce_ExtKeyUsage (add_sans p ss c) = ce_ExtKeyUsage c"
  "ce_IsCA (add_sans p ss c) = ce_IsCA c"
  "ce_IPAddresses (add_sans p ss c) = ce_IPAddresses c @ List.map_filter p ss"
  "ce_DNSNames (add_sans p ss c) = ce_DNSNames c @ filter (\<lambda>s. p s = None) ss"
  by (induction ss arbitrary: c) (simp_all add: map_filter_simps split: option.split)

text \<open>A certificate for \<open>cn\<close> as the program means it\<close>

definition describes :: "(string \<Rightarrow> 'ip option) \<Rightarrow> string \<Rightarrow> bool \<Rightarrow> string list \<Rightarrow> 'ip Certificate \<Rightarrow> bool" where
  "describes parseIP cn isCA sans c \<longleftrightarrow> subject c = ([''K8s-Lite''], cn) \<and> ce_IsCA c = isCA \<and>
     bit (ce_KeyUsage c) 0 \<and> bit (ce_KeyUsage c) 2 \<and> bit (ce_KeyUsage c) 5 = isCA \<and>
     set (ce_ExtKeyUsage c) = {ExtKeyUsageServerAuth, ExtKeyUsageClientAuth} \<and>
     ce_IPAddresses c = List.map_filter parseIP sans \<and> ce_DNSNames c = filter (\<lambda>s. parseIP s = None) sans"

lemma template_describes: "describes parseIP cn isCA sans (cert_template parseIP cn isCA sans serial notBefore now)"
proof -
  have "bit (or 4 1 :: goint) 0" "bit (or 4 1 :: goint) 2" "\<not> bit (or 4 1 :: goint) 5" "bit (or (or 4 1) 32 :: goint) 0"
    "bit (or (or 4 1) 32 :: goint) 2" "bit (or (or 4 1) 32 :: goint) 5"
    by simp_all
  then show ?thesis
    by (simp add: describes_def cert_template_def add_sans_fields Let_def KeyUsageKeyEncipherment_def KeyUsageDigitalSignature_def
        KeyUsageCertSign_def subject_def)
qed

lemma year_loop_bound: "365 * fst (year_loop y d) \<le> 365 * y + d"
proof (induction y d rule: year_loop.induct)
  case (1 y d)
  show ?case
  proof (cases "d < year_len y")
    case False
    with 1 have "365 * fst (year_loop y d) \<le> 365 * Suc y + (d - year_len y)" by (subst year_loop.simps) simp
    with False show ?thesis by (simp add: year_len_def split: if_splits)
  qed (simp add: year_loop.simps [of y d])
qed

lemma time_ok_soon:
  assumes "unix_epoch < t" and "t < unix_epoch + 231 * (365 * 24 * 3600 * second_ns)"
  shows "time_ok t"
proof -
  have "t div second_ns + 366 * 86400 \<le> 900000 * 86400" using assms by (simp add: unix_epoch_def second_ns_def)
  then have "secs_of t div 86400 \<le> 900000" by (simp add: secs_of_def)
  then have "year_of t \<le> 9999" using year_loop_bound [of 0 "secs_of t div 86400"] by (simp add: year_of_def)
  then show ?thesis using assms(1) by (simp add: time_ok_def unix_epoch_def second_ns_def)
qed

lemma template_certifiable:
  assumes "unix_epoch < serial" "serial < unix_epoch + 230 * (365 * 24 * 3600 * second_ns)" and "time_ok notBefore"
    and "time_ok (now + 365 * 24 * 3600 * second_ns)"
  shows "certifiable (cert_template parseIP cn isCA sans serial notBefore now)"
proof -
  have "sint (word_of_int (serial - unix_epoch) :: int64) = serial - unix_epoch"
    using assms(1,2) by (simp add: signed_of_int signed_take_bit_int_eq_self second_ns_def del: of_int_diff)
  then show ?thesis
    using assms by (simp add: certifiable_def cert_template_def add_sans_fields Let_def UnixNano_def)
qed

section \<open>The files\<close>

text \<open>Under that name there are a certificate and its key, the certificate signed with the authority's.\<close>

definition certified :: "('w, 'key, 'ip) pki_ops \<Rightarrow> (string \<Rightarrow> 'ip Certificate \<Rightarrow> 'key \<Rightarrow> string list \<times> string \<Rightarrow> 'key \<Rightarrow> bool) \<Rightarrow>
    'key \<Rightarrow> (string \<Rightarrow> string option) \<Rightarrow> string \<Rightarrow> bool \<Rightarrow> string list \<Rightarrow> string \<Rightarrow> 'key \<Rightarrow> bool" where
  "certified X issued authority d cn isCA sans name key \<longleftrightarrow>
     (\<exists>der c. d (name @ ''.pem'') = Some (pem_encode ''CERTIFICATE'' der) \<and>
        d (name @ ''.key'') = Some (pem_encode ''RSA PRIVATE KEY'' (x_MarshalPKCS1PrivateKey X key)) \<and>
        issued der c key ([''K8s-Lite''], ''K8s-Lite-CA'') authority \<and> describes (x_ParseIP X) cn isCA sans c)"

definition cert_files :: "string \<Rightarrow> string set" where
  "cert_files name = {name @ ''.pem'', name @ ''.key''}"

lemma cert_files_apart: "name \<noteq> name' \<Longrightarrow> cert_files name \<inter> cert_files name' = {}"
  by (auto simp: cert_files_def)

lemma certified_cong:
  "certified X issued authority d cn isCA sans name key \<Longrightarrow> (\<And>f. f \<in> cert_files name \<Longrightarrow> d' f = d f) \<Longrightarrow>
    certified X issued authority d' cn isCA sans name key"
  by (simp add: certified_def cert_files_def)

context pki
begin

text \<open>A parsed certificate and the key it was made for\<close>

definition belongs :: "'ip Certificate \<Rightarrow> 'key \<Rightarrow> bool" where
  "belongs p k \<longleftrightarrow> (\<exists>der c issuer signer. issued der c k issuer signer \<and> p = to_seconds c)"

lemma generateCert_effect:
  assumes "case parentCert of None \<Rightarrow> True | Some p \<Rightarrow> parentKey = Some authority \<and> belongs p authority"
  shows "triple (\<lambda>w. dir w = d) (generateCert X cn parentCert parentKey isCA sans)
    (\<lambda>(k, der) w. (\<exists>c. issued der c k (case parentCert of None \<Rightarrow> ([''K8s-Lite''], cn) | Some p \<Rightarrow> subject p)
         (case parentCert of None \<Rightarrow> k | Some p \<Rightarrow> authority) \<and> describes (x_ParseIP X) cn isCA sans c) \<and> dir w = d)"
    (is "triple ?P _ ?Q")
  unfolding generateCert_def
proof (rule triple_gbind [OF key], rule triple_assuming, elim exE)
  fix r :: "'key result" and k assume r: "r = Inr k"
  have sub: "subject (cert_template (x_ParseIP X) cn isCA sans t0 t1 t2) = ([''K8s-Lite''], cn)" for t0 t1 t2
    using template_describes [of "x_ParseIP X" cn isCA sans t0 t1 t2] by (simp add: describes_def)
  have made: "triple ?P (let template = cert_template (x_ParseIP X) cn isCA sans t0 t1 t2;
       (parent, signKey) = (case parentCert of None \<Rightarrow> (template, Some k) | Some p \<Rightarrow> (p, parentKey))
     in gbind (x_CreateCertificate X template parent k signKey) (\<lambda>r. case r of Inl err \<Rightarrow> gpanic Fatal | Inr b \<Rightarrow> gret (k, b))) ?Q"
    if c: "certifiable (cert_template (x_ParseIP X) cn isCA sans t0 t1 t2)" for t0 t1 t2
  proof (cases parentCert)
    case None
    show ?thesis unfolding None Let_def option.case prod.case
      by (rule triple_gbind [OF sign [OF c disjI1 [OF refl]]], rule triple_assuming) (auto simp: sub intro!: triple_gret template_describes)
  next
    case (Some p)
    then have k: "parentKey = Some authority" and p: "\<exists>der c issuer signer. issued der c authority issuer signer \<and> p = to_seconds c"
      using assms by (simp_all add: belongs_def)
    show ?thesis unfolding Some k Let_def option.case prod.case
      by (rule triple_gbind [OF sign [OF c disjI2 [OF p]]], rule triple_assuming) (auto intro!: triple_gret template_describes)
  qed
  show "triple ?P (case r of Inl err \<Rightarrow> gpanic Fatal | Inr priv \<Rightarrow>
     gbind (x_Now X) (\<lambda>serial. gbind (x_Now X) (\<lambda>notBefore. gbind (x_Now X) (\<lambda>now.
       let template = cert_template (x_ParseIP X) cn isCA sans serial notBefore now;
           (parent, signKey) = (case parentCert of None \<Rightarrow> (template, Some priv) | Some p \<Rightarrow> (p, parentKey))
       in gbind (x_CreateCertificate X template parent priv signKey) (\<lambda>r. case r of
            Inl err \<Rightarrow> gpanic Fatal
          | Inr certBytes \<Rightarrow> gret (priv, certBytes)))))) ?Q"
    unfolding r sum.case
    by (rule triple_gbind [OF now], rule triple_assuming, rule triple_gbind [OF now], rule triple_assuming,
        rule triple_gbind [OF now], rule triple_assuming, rule made, rule template_certifiable)
      (auto intro!: time_ok_soon)
qed

lemma save_effect:
  "triple (\<lambda>w. dir w = d) (save X name k der) (\<lambda>_ w. dir w = d(name @ ''.key'' \<mapsto> pem_encode ''RSA PRIVATE KEY'' (x_MarshalPKCS1PrivateKey X k),
     name @ ''.pem'' \<mapsto> pem_encode ''CERTIFICATE'' der))"
  unfolding save_def
  by (rule triple_gbind [OF writing], rule triple_gbind [OF writing], rule triple_gret)

lemma issue_effect:
  assumes "case parentCert of None \<Rightarrow> True | Some p \<Rightarrow> parentKey = Some authority \<and> belongs p authority \<and> subject p = ([''K8s-Lite''], ''K8s-Lite-CA'')"
    and "parentCert = None \<longrightarrow> cn = ''K8s-Lite-CA''"
  shows "triple (\<lambda>w. dir w = d) (gbind (generateCert X cn parentCert parentKey isCA sans) (\<lambda>(k, der). gbind (save X name k der) (\<lambda>_. gret (k, der))))
    (\<lambda>(k, der) w. certified X issued (case parentCert of None \<Rightarrow> k | Some p \<Rightarrow> authority) (dir w) cn isCA sans name k \<and>
       (\<exists>c issuer signer. issued der c k issuer signer \<and> describes (x_ParseIP X) cn isCA sans c) \<and>
       (\<forall>f. f \<notin> cert_files name \<longrightarrow> dir w f = d f))" (is "triple _ _ ?Q")
proof (rule triple_gbind [OF generateCert_effect [where authority = authority]])
  show "case parentCert of None \<Rightarrow> True | Some p \<Rightarrow> parentKey = Some authority \<and> belongs p authority"
    using assms(1) by (simp split: option.splits)
  fix x :: "'key \<times> string"
  obtain k der where x: "x = (k, der)" by (cases x)
  let ?by = "case parentCert of None \<Rightarrow> k | Some p \<Rightarrow> authority"
  have issuer: "(case parentCert of None \<Rightarrow> ([''K8s-Lite''], cn) | Some p \<Rightarrow> subject p) = ([''K8s-Lite''], ''K8s-Lite-CA'')"
    using assms by (simp split: option.splits)
  show "triple (case x of (k, der) \<Rightarrow> \<lambda>w. (\<exists>c. issued der c k (case parentCert of None \<Rightarrow> ([''K8s-Lite''], cn) | Some p \<Rightarrow> subject p)
         (case parentCert of None \<Rightarrow> k | Some p \<Rightarrow> authority) \<and> describes (x_ParseIP X) cn isCA sans c) \<and> dir w = d)
      (case x of (k, der) \<Rightarrow> gbind (save X name k der) (\<lambda>_. gret (k, der))) ?Q"
    unfolding x prod.case issuer
  proof (rule triple_assuming, elim exE conjE)
    fix c assume c: "issued der c k ([''K8s-Lite''], ''K8s-Lite-CA'') ?by" "describes (x_ParseIP X) cn isCA sans c"
    show "triple (\<lambda>w. dir w = d) (gbind (save X name k der) (\<lambda>_. gret (k, der))) ?Q"
      by (rule triple_gbind [OF save_effect], rule triple_gret)
        (use c in \<open>auto simp: certified_def cert_files_def\<close>)
  qed
qed

text \<open>The files of the certificates written so far, each with a key of its own\<close>

definition written :: "'key \<Rightarrow> (string \<Rightarrow> string option) \<Rightarrow> (string \<times> string list \<times> string) list \<Rightarrow> 'w \<Rightarrow> bool" where
  "written authority d ls w \<longleftrightarrow> certified X issued authority (dir w) ''K8s-Lite-CA'' True [] ''ca'' authority \<and>
     (\<forall>(cn, sans, name) \<in> set ls. \<exists>k. certified X issued authority (dir w) cn False sans name k) \<and>
     (\<forall>f. f \<notin> \<Union> (cert_files ` insert ''ca'' (snd ` snd ` set ls)) \<longrightarrow> dir w f = d f)"

lemma written_step:
  assumes "written authority d ls w" and "certified X issued authority (dir w') cn False sans name k"
    and "\<forall>f. f \<notin> cert_files name \<longrightarrow> dir w' f = dir w f" and "name \<noteq> ''ca''" and "name \<notin> snd ` snd ` set ls"
  shows "written authority d (ls @ [(cn, sans, name)]) w'"
proof -
  have same: "dir w' f = dir w f" if "f \<in> cert_files name'" "name' \<noteq> name" for f name'
    using that assms(3) cert_files_apart [of name' name] by blast
  have "certified X issued authority (dir w') ''K8s-Lite-CA'' True [] ''ca'' authority"
    by (rule certified_cong [of X issued authority "dir w"]) (use assms(1,4) same in \<open>auto simp: written_def\<close>)
  moreover have "\<exists>k. certified X issued authority (dir w') cn' False sans' name' k" if l: "(cn', sans', name') \<in> set ls" for cn' sans' name'
  proof -
    obtain k where "certified X issued authority (dir w) cn' False sans' name' k" using assms(1) l by (auto simp: written_def)
    moreover have "name' \<noteq> name" using assms(5) l by force
    ultimately show ?thesis using certified_cong same by metis
  qed
  ultimately show ?thesis using assms(1-3) by (auto simp: written_def)
qed

definition issue_leaf :: "'ip Certificate option \<Rightarrow> 'key \<Rightarrow> string \<times> string list \<times> string \<Rightarrow> ('w, unit) go" where
  "issue_leaf caCert authority = (\<lambda>(cn, sans, name). gbind (gbind (generateCert X cn caCert (Some authority) False sans)
     (\<lambda>(k, der). gbind (save X name k der) (\<lambda>_. gret (k, der)))) (\<lambda>_. gret ()))"

lemma leaf_effect:
  assumes "leaves = ys @ (cn, sans, name) # zs" and "belongs p authority \<and> subject p = ([''K8s-Lite''], ''K8s-Lite-CA'')"
  shows "triple (written authority d ys) (issue_leaf (Some p) authority (cn, sans, name)) (\<lambda>_. written authority d (ys @ [(cn, sans, name)]))"
proof (rule tripleI)
  have "distinct (''ca'' # map (snd \<circ> snd) leaves)" by (simp add: leaves_def)
  then have new: "name \<noteq> ''ca''" "name \<notin> snd ` snd ` set ys" unfolding assms(1) by (auto simp: image_iff)
  fix w assume w: "written authority d ys w"
  have "triple (\<lambda>v. dir v = dir w) (issue_leaf (Some p) authority (cn, sans, name)) (\<lambda>_. written authority d (ys @ [(cn, sans, name)]))"
    unfolding issue_leaf_def prod.case
    by (rule triple_gbind [OF issue_effect [where authority = authority]])
      (use assms(2) new w in \<open>auto intro!: triple_gret intro: written_step\<close>)
  then show "\<exists>x w'. issue_leaf (Some p) authority (cn, sans, name) w = (Ret x, w') \<and> written authority d (ys @ [(cn, sans, name)]) w'"
    by (rule tripleD) simp
qed

lemma leaves_effect:
  assumes "belongs p authority \<and> subject p = ([''K8s-Lite''], ''K8s-Lite-CA'')"
  shows "triple (written authority d []) (for_each leaves (issue_leaf (Some p) authority)) (\<lambda>_. written authority d leaves)"
proof (rule triple_for_each_suffix)
  fix ys l zs assume "leaves = ys @ l # zs"
  then show "triple (written authority d ys) (issue_leaf (Some p) authority l) (\<lambda>_. written authority d (ys @ [l]))"
    using leaf_effect [OF _ assms] by (cases l) simp
qed

lemma gen_certs_main_issue:
  "gen_certs_main X = gbind (gbind (generateCert X ''K8s-Lite-CA'' None None True []) (\<lambda>(k, der). gbind (save X ''ca'' k der) (\<lambda>_. gret (k, der))))
     (\<lambda>(authority, der). for_each leaves
       (issue_leaf (case x_ParseCertificate X der of Inl err \<Rightarrow> None | Inr c \<Rightarrow> Some c) authority))"
proof -
  have "gbind m (\<lambda>_. gret ()) = m" for m :: "('w, unit) go"
    by (rule ext) (simp add: gbind_def gret_def split: prod.split outcome.split)
  then show ?thesis by (simp add: gen_certs_main_def issue_leaf_def gbind_assoc case_prod_unfold)
qed

lemma gen_certs_effect:
  "triple (\<lambda>w. dir w = d) (gen_certs_main X) (\<lambda>_ w. \<exists>authority. written authority d leaves w)"
  unfolding gen_certs_main_issue
proof (rule triple_gbind [OF issue_effect [where parentCert = None, unfolded option.case]])
  fix x :: "'key \<times> string"
  obtain ca der where x: "x = (ca, der)" by (cases x)
  show "triple ((case x of (k, der) \<Rightarrow> \<lambda>w. certified X issued k (dir w) ''K8s-Lite-CA'' True [] ''ca'' k \<and>
       (\<exists>c issuer signer. issued der c k issuer signer \<and> describes (x_ParseIP X) ''K8s-Lite-CA'' True [] c) \<and>
       (\<forall>f. f \<notin> cert_files ''ca'' \<longrightarrow> dir w f = d f)))
     (case x of (authority, der) \<Rightarrow> for_each leaves
       (issue_leaf (case x_ParseCertificate X der of Inl err \<Rightarrow> None | Inr c \<Rightarrow> Some c) authority))
     (\<lambda>_ w. \<exists>authority. written authority d leaves w)"
    unfolding x prod.case
  proof (rule tripleI, elim conjE exE)
    fix w c issuer signer
    assume "certified X issued ca (dir w) ''K8s-Lite-CA'' True [] ''ca'' ca" and "\<forall>f. f \<notin> cert_files ''ca'' \<longrightarrow> dir w f = d f"
    then have w: "written ca d [] w" by (simp add: written_def)
    assume i: "issued der c ca issuer signer" and "describes (x_ParseIP X) ''K8s-Lite-CA'' True [] c"
    then have "x_ParseCertificate X der = Inr (to_seconds c)" and "subject (to_seconds c) = ([''K8s-Lite''], ''K8s-Lite-CA'')"
      using parse i by (simp_all add: describes_def to_seconds_def subject_def)
    moreover have "belongs (to_seconds c) ca" unfolding belongs_def using i by blast
    ultimately show "\<exists>x w'. for_each leaves (issue_leaf (case x_ParseCertificate X der of Inl err \<Rightarrow> None | Inr c \<Rightarrow> Some c) ca) w = (Ret x, w') \<and>
      (\<exists>authority. written authority d leaves w')"
      using tripleD [OF leaves_effect w, of "to_seconds c"] by auto
  qed
qed simp_all

end

section \<open>A keeper of certificates\<close>

text \<open>For the witness: certificates are JSON texts with their key, issuer and signer, addresses are texts.\<close>

record sealed =
  sl_Contents :: "string Certificate"
  sl_Key :: string
  sl_IssuerOrg :: "string list"
  sl_IssuerName :: string
  sl_Signer :: string

definition Certificate_zero :: "string Certificate" where
  "Certificate_zero = \<lparr>ce_SerialNumber = 0, ce_Organization = [], ce_CommonName = [], ce_NotBefore = 0, ce_NotAfter = 0,
     ce_KeyUsage = 0, ce_ExtKeyUsage = [], ce_BasicConstraintsValid = False, ce_IsCA = False, ce_IPAddresses = [], ce_DNSNames = []\<rparr>"

definition Certificate_fields :: "string Certificate field list" where
  "Certificate_fields =
     [mk_field ''serial'' False int_codec ce_SerialNumber ce_SerialNumber_update,
      mk_field ''org'' False (list_codec str_codec) ce_Organization ce_Organization_update,
      mk_field ''cn'' False str_codec ce_CommonName ce_CommonName_update,
      mk_field ''from'' False time_codec ce_NotBefore ce_NotBefore_update,
      mk_field ''to'' False time_codec ce_NotAfter ce_NotAfter_update,
      mk_field ''usage'' False int_codec ce_KeyUsage ce_KeyUsage_update,
      mk_field ''ext'' False (list_codec int_codec) ce_ExtKeyUsage ce_ExtKeyUsage_update,
      mk_field ''valid'' False bool_codec ce_BasicConstraintsValid ce_BasicConstraintsValid_update,
      mk_field ''isca'' False bool_codec ce_IsCA ce_IsCA_update,
      mk_field ''ips'' False (list_codec str_codec) ce_IPAddresses ce_IPAddresses_update,
      mk_field ''dns'' False (list_codec str_codec) ce_DNSNames ce_DNSNames_update]"

definition Certificate_codec :: "string Certificate codec" where
  "Certificate_codec = struct_codec Certificate_fields Certificate_zero"

lemma Certificate_law [simp]: "json_codec Certificate_codec"
  unfolding Certificate_codec_def
  by (rule struct_law) (simp add: fields_ok_def Certificate_fields_def Certificate_zero_def codec_laws)

lemma Certificate_codec_simps [simp]:
  "czero Certificate_codec = Certificate_zero" "cempty Certificate_codec = (\<lambda>_. False)"
  "omit_val b Certificate_codec x = cnrm Certificate_codec x"
  by (simp_all add: Certificate_codec_def)

lemma Certificate_nrm [simp]: "cnrm Certificate_codec = id"
  by (rule ext, rule Certificate.equality)
     (simp_all add: Certificate_codec_def struct_codec_def Certificate_fields_def Certificate_zero_def mk_field_def)

lemma Certificate_ok: "cok Certificate_codec c \<longleftrightarrow> cok time_codec (ce_NotBefore c) \<and> cok time_codec (ce_NotAfter c)"
  by (simp add: Certificate_codec_def struct_codec_def Certificate_fields_def mk_field_def codec_oks list_all_iff)

definition sealed_codec :: "sealed codec" where
  "sealed_codec = struct_codec
     [mk_field ''contents'' False Certificate_codec sl_Contents sl_Contents_update,
      mk_field ''key'' False str_codec sl_Key sl_Key_update,
      mk_field ''org'' False (list_codec str_codec) sl_IssuerOrg sl_IssuerOrg_update,
      mk_field ''issuer'' False str_codec sl_IssuerName sl_IssuerName_update,
      mk_field ''signer'' False str_codec sl_Signer sl_Signer_update]
     \<lparr>sl_Contents = Certificate_zero, sl_Key = [], sl_IssuerOrg = [], sl_IssuerName = [], sl_Signer = []\<rparr>"

lemma sealed_law: "json_codec sealed_codec"
  unfolding sealed_codec_def by (rule struct_law) (simp add: fields_ok_def codec_laws)

lemma sealed_nrm: "cnrm sealed_codec = id"
  by (rule ext, rule sealed.equality) (simp_all add: sealed_codec_def struct_codec_def mk_field_def)

lemma sealed_ok: "cok sealed_codec x \<longleftrightarrow> time_ok (ce_NotBefore (sl_Contents x)) \<and> time_ok (ce_NotAfter (sl_Contents x))"
  by (simp add: sealed_codec_def struct_codec_def mk_field_def codec_oks Certificate_ok list_all_iff)

record keeper =
  kp_files :: "string \<Rightarrow> string option"
  kp_keys :: nat

definition seal :: "string Certificate \<Rightarrow> string \<Rightarrow> string list \<times> string \<Rightarrow> string \<Rightarrow> string option" where
  "seal c k issuer signer = marshal sealed_codec
     \<lparr>sl_Contents = to_seconds c, sl_Key = k, sl_IssuerOrg = fst issuer, sl_IssuerName = snd issuer, sl_Signer = signer\<rparr>"

definition keeper_ops :: "(keeper, string, string) pki_ops" where
  "keeper_ops = \<lparr>
     x_GenerateKey = (\<lambda>w. (Ret (Inr (''key-'' @ print_nat (kp_keys w))), w\<lparr>kp_keys := Suc (kp_keys w)\<rparr>)),
     x_Now = gret (unix_epoch + 1700000000 * second_ns),
     x_ParseIP = (\<lambda>s. if list_all (\<lambda>c. is_digit c \<or> c = CHR ''.'') s then Some s else None),
     x_CreateCertificate = (\<lambda>c parent k signer. gret (case Option.bind signer (seal c k (subject parent)) of
         None \<Rightarrow> Inl (Errorf ''x509'') | Some der \<Rightarrow> Inr der)),
     x_ParseCertificate = (\<lambda>der. case unmarshal sealed_codec der (czero sealed_codec) of
         None \<Rightarrow> Inl (Errorf ''x509'') | Some x \<Rightarrow> Inr (sl_Contents x)),
     x_MarshalPKCS1PrivateKey = (\<lambda>k. k),
     x_WriteFile = (\<lambda>f s w. (Ret None, w\<lparr>kp_files := (kp_files w)(f \<mapsto> s)\<rparr>))\<rparr>"

interpretation keeper: pki keeper_ops kp_files "\<lambda>der c k issuer signer. seal c k issuer signer = Some der"
proof
  fix d c k parent signer and f s der :: string and issuer
  show "triple (\<lambda>w. kp_files w = d) (x_GenerateKey keeper_ops) (\<lambda>r w. (\<exists>k. r = Inr k) \<and> kp_files w = d)"
    by (auto simp: triple_def keeper_ops_def)
  show "triple (\<lambda>w. kp_files w = d) (x_Now keeper_ops)
      (\<lambda>t w. (unix_epoch < t \<and> t < unix_epoch + 230 * (365 * 24 * 3600 * second_ns)) \<and> kp_files w = d)"
    by (auto simp: keeper_ops_def second_ns_def intro!: triple_gret)
  show "triple (\<lambda>w. kp_files w = d) (x_WriteFile keeper_ops f s) (\<lambda>err w. kp_files w = d(f \<mapsto> s))"
    by (auto simp: triple_def keeper_ops_def)
  show "triple (\<lambda>w. kp_files w = d) (x_CreateCertificate keeper_ops c parent k (Some signer))
      (\<lambda>r w. (\<exists>der. r = Inr der \<and> seal c k (subject parent) signer = Some der) \<and> kp_files w = d)"
    if "certifiable c"
  proof -
    have "time_ok t \<Longrightarrow> time_ok (t div second_ns * second_ns)" for t
      using zdiv_mono1 [of "- (366 * 86400 * second_ns)" t second_ns]
      by (simp add: time_ok_def year_of_def secs_of_def second_ns_def)
    then have "seal c k (subject parent) signer \<noteq> None"
      using that by (simp add: seal_def marshal_def sealed_ok certifiable_def to_seconds_def)
    then show ?thesis by (auto simp: keeper_ops_def intro!: triple_gret)
  qed
  show "x_ParseCertificate keeper_ops der = Inr (to_seconds c)" if "seal c k issuer signer = Some der"
    using json_codec.unmarshal_marshal [OF sealed_law that [unfolded seal_def]]
    by (simp add: keeper_ops_def sealed_nrm)
qed

section \<open>Properties\<close>

text \<open>C25: gen-certs leaves a working authority: beside every other file untouched there are the self-signed
  certificate of an authority that may sign, and for the server, the admin, the kubelet and the
  controller manager a certificate that names and is signed by this authority, may not sign, is
  good for servers and clients, carries its role as common name and, for the server, the loopback
  address and localhost, each with the key it was made for beside it, all PEM encoded.\<close>

theorem certificates_chain:
  assumes "pki X dir issued" and "x_ParseIP X ''127.0.0.1'' = Some loopback" and "x_ParseIP X ''localhost'' = None"
  shows "\<exists>w' authority. gen_certs_main X w = (Ret (), w') \<and>
    certified X issued authority (dir w') ''K8s-Lite-CA'' True [] ''ca'' authority \<and>
    (\<forall>(name, cn, sans) \<in> {(''server'', ''k8s-lite-apiserver'', [''127.0.0.1'', ''localhost'']), (''client-admin'', ''admin'', []),
        (''client-kubelet'', ''kubelet'', []), (''client-cm'', ''controller-manager'', [])}.
      \<exists>key. certified X issued authority (dir w') cn False sans name key) \<and>
    (\<forall>c. describes (x_ParseIP X) ''k8s-lite-apiserver'' False [''127.0.0.1'', ''localhost''] c \<longrightarrow>
       ce_IPAddresses c = [loopback] \<and> ce_DNSNames c = [''localhost'']) \<and>
    (\<forall>f. f \<notin> \<Union> (cert_files ` {''ca'', ''server'', ''client-admin'', ''client-kubelet'', ''client-cm''}) \<longrightarrow> dir w' f = dir w f)"
proof -
  obtain u w' authority where run: "gen_certs_main X w = (Ret u, w')" and files: "pki.written X dir issued authority (dir w) leaves w'"
    using tripleD [OF pki.gen_certs_effect [OF assms(1), of "dir w"] refl] by blast
  note files = files [unfolded pki.written_def [OF assms(1)] leaves_def]
  have "ce_IPAddresses c = [loopback] \<and> ce_DNSNames c = [''localhost'']"
    if "describes (x_ParseIP X) ''k8s-lite-apiserver'' False [''127.0.0.1'', ''localhost''] c" for c
    using that assms(2,3) by (simp add: describes_def map_filter_simps)
  then show ?thesis using run files by auto
qed

theorem certificates_chain_witness:
  "\<exists>w' authority. gen_certs_main keeper_ops \<lparr>kp_files = [''notes'' \<mapsto> ''kept''], kp_keys = 0\<rparr> = (Ret (), w') \<and>
    certified keeper_ops (\<lambda>der c k issuer signer. seal c k issuer signer = Some der) authority (kp_files w')
      ''K8s-Lite-CA'' True [] ''ca'' authority \<and> kp_files w' ''notes'' = Some ''kept''"
proof -
  have ip: "x_ParseIP keeper_ops ''127.0.0.1'' = Some ''127.0.0.1''" "x_ParseIP keeper_ops ''localhost'' = None"
    by (simp_all add: keeper_ops_def is_digit_def)
  show ?thesis
    using certificates_chain [OF keeper.pki_axioms ip, of "\<lparr>kp_files = [''notes'' \<mapsto> ''kept''], kp_keys = 0\<rparr>"]
    by (fastforce simp: cert_files_def)
qed

end
