(* ===== verification/Spec2Isabelle.thy ===== *)
theory Spec2Isabelle
  imports StorageSpec ServerSpec ReplicaSetController DeploymentController ServiceController Scheduler LeaderElection
    NodeAgent Proxy Commands Rollout Convergence Watch Middleware Checks EndToEnd Certs
begin

text \<open>
  K8s-Lite: an API server over a key-value store with a data file, a client library, the controllers
  of replica sets, deployments and services, a scheduler, leader election, a node agent on docker and
  a service proxy. All state is JSON objects in the server; every other part is a loop that lists
  objects through the client, compares, and writes back. This library models the Go code of
  internal/, cmd/ and hack/, and proves what each loop does to the objects.

  How the program is modelled.
  A Go function is a function of the same name; one that talks to the world is a computation
  \<open>('w, 'a) go\<close> that returns or panics (\<open>Panic Index_out_of_range\<close>, \<open>Panic Nil_dereference\<close>,
  \<open>Panic Fatal\<close> for \<open>log.Fatalf\<close>) and changes the world \<open>'w\<close>. Errors are values of \<open>gerror\<close>, a result is
  \<open>gerror + 'a\<close>, \<open>int32\<close> and \<open>int64\<close> are words, a slice is an option of a list (nil is not the
  empty slice), a map is an \<open>fmap\<close>, a pointer an option, strings are byte lists. The order in which
  Go ranges over a map is a parameter wherever it can be seen. \<open>triple P m Q\<close> is total correctness:
  from a world with \<open>P\<close>, \<open>m\<close> returns (no panic, no blocking) in one with \<open>Q\<close>. The loops that wait on a
  ticker and a context are \<open>run_loop\<close> on the list of what the two deliver; what runs as several
  goroutines is a step relation (\<open>watch_step\<close>, \<open>elector_step\<close>, \<open>manager_step\<close>).

  The theories, in the order they build on each other.
  \<^item> Prelude: computations, triples and their rules, lists and options.
  \<^item> Json, GoTime, Base64, Sha256, GoText, Codec: what the code uses of encoding/json, time (RFC 3339
    with nanoseconds), encoding/base64, crypto/sha256, strings and strconv; the laws of a codec and
    its combinators, struct fields with their tags among them.
  \<^item> ApiTypes, Objects: internal/api/types.go, each struct with zero value, fields and codec; the seven
    stored kinds as one type with their round trip.
  \<^item> Storage, StorageSpec: internal/storage; the \<open>Store\<close> interface as a record of operations with the
    locale \<open>store\<close> as contract, \<open>MemoryStore\<close> (entries, watchers with bounded channels, data file with
    failing writes) as its interpretation; refinement of a map, notification, restart.
  \<^item> Apiserver, ApiserverSpec, Rest, ServerSpec: internal/apiserver; handlers and routes, the table of
    objects they act on, the status and effect of every request.
  \<^item> Watch: the streaming loop of \<open>handleWatch\<close> against \<open>notifyWatchers\<close> and \<open>Stop\<close>, one send or read at
    a time, with the lock of the store in the state (\<open>watch_step\<close>); an invariant by rule induction, a
    measure for the end of changes, and the deadlock a departed client causes.
  \<^item> Middleware: what \<open>routes\<close> wraps around the handlers, metrics and certificates, and \<open>ServeTLS\<close>.
  \<^item> Client, Cluster, Tables: internal/client; the locale \<open>rest\<close> says what a cluster promises a client,
    \<open>cluster\<close> interprets it by the client's transport wired to \<open>ServeHTTP\<close> over \<open>MemoryStore\<close>; the
    effect of every method; rows of the table.
  \<^item> ReplicaSetController, DeploymentController, ServiceController: internal/controller; each with its
    round, an abstract specification of a round, and what fails when its assumptions do. Rollout: the
    first two together, after the template of a deployment has changed.
  \<^item> Scheduler, LeaderElection: internal/scheduler, internal/leaderelection; the locales \<open>dice\<close> and
    \<open>clock\<close> for randomness and time. \<open>Run\<close> and \<open>renewLoop\<close> with the goroutines they start, their contexts
    and the signal that ends them are the step relation \<open>elector_step\<close>, in which other processes act
    between any two steps; the election among several candidates is the step relation \<open>elected\<close>.
  \<^item> Runtime, Kubelet, KubeletSpec, NodeAgent: internal/kubelet; the docker runtime and the prober, the
    agent, the locale \<open>node\<close> of what the agent relies on, proved of the docker runtime from the
    documented behaviour of the docker commands (\<open>docker_ok\<close>), and interpreted with a daemon.
  \<^item> Proxy: internal/proxy; the listeners and the goroutines serving them, the endpoints cache, the
    choice of a backend; the locale \<open>network\<close> of opening and closing.
  \<^item> Commands: cmd/; every \<open>main\<close> from its parsed flags on: which listener, client, node name and election
    it starts, how it ends; the controller manager as a step relation (\<open>manager_step\<close>) that runs an elector
    or the controllers alone, a turn of which is one round of one of them; what a server that asks for
    certificates does to the scheduler.
  \<^item> Convergence: the controllers of a manager taking turns on a new deployment.
  \<^item> Checks: the programs of hack/ that try a running cluster: the end-to-end suite with the cluster
    going on while it sleeps (controllers and scheduler of Convergence and Commands), the connectivity
    check, the decoder check.
  \<^item> EndToEnd: from a deployment to running containers, through controllers, scheduler and node agent.
  \<^item> Certs: hack/gen-certs; the locale \<open>pki\<close> of keys, signatures and encoding, what the files it
    leaves hold.
  \<^item> This theory: a connection from service to pod through controller and proxy; the three label
    matchers.

  What the lemmas show. \<open>_effect\<close> lemmas give the triple of an operation on the object table, by the
  client's methods up; \<open>_spec\<close>, \<open>pods_placed\<close>, \<open>lists_serving\<close>, \<open>node_synced\<close>, \<open>proxy_synced\<close>,
  \<open>attempt_spec\<close> are the abstract specifications, stated without the code's functions where these
  compute the result; \<open>_witness\<close> theorems run a property on a small cluster (\<open>demo_\<close> definitions).

  Fuel and bounds. The JSON reader has the length of its text as fuel, which is enough for every text
  the printer writes (\<open>parse_print_fuel\<close>); every other recursion is structural or on a list that gets
  shorter, so each operation is total, and blocking is explicit (a store operation that waits for a
  full watcher channel is \<open>None\<close>; in Watch, where readers can make room, it is a state from which the
  change takes at most \<open>pending\<close> more steps while the clients listen, \<open>changes_complete\<close>).

  Parameters. The chi router and the render package (\<open>router_ok\<close>, \<open>render_ok\<close>), google/uuid, docker
  (\<open>docker_ok\<close>), the network (\<open>network\<close>, \<open>probes_ok\<close>), \<open>rand.Intn\<close> (\<open>dice\<close>), \<open>time.Now\<close> (\<open>clock\<close>), the
  reading of fractional CPU quantities (floating point), \<open>sort.Slice\<close>, chi's logger and recoverer
  (\<open>passes\<close>), crypto/tls (\<open>mutual_tls\<close>), crypto/rsa and crypto/x509 (\<open>pki\<close>), the text format of prometheus, the JSON text of a generic map
  (the object of a delete event).

  What these contracts leave out. \<open>docker_ok\<close> says that \<open>docker run\<close> succeeds for every image whose
  container name is free: images that cannot be pulled and commands that do not start are outside it,
  so what rests on it (\<open>agent_sync\<close>, \<open>deployment_comes_alive\<close>) is about nodes that can run their
  containers; there \<open>Running\<close> is the phase the agent reports, and \<open>present\<close> says that the container exists,
  labelled with its pod. \<open>pki\<close> says that \<open>CreateCertificate\<close> succeeds with a parent whose key signs.

  Not modelled. Strings that are not valid UTF-8 (encoding/json replaces their bytes); the refusal of
  a stream that cannot be flushed, which is dead code; the bytes piped by the proxy; what happens inside a TLS handshake; logging and message
  texts; the syntax of flags and the delivery of signals; interleaving inside a controller's round with
  other writers (each round is proved from the state it starts in; the races of leader election are
  modelled); a data file that holds the JSON text null; the PowerShell scripts.
\<close>

section \<open>A connection reaches a running pod\<close>

lemma serving_finite: "finite (dom row) \<Longrightarrow> finite (serving svc row)"
proof -
  assume "finite (dom row)"
  then have "finite (ran row)" by (rule finite_ran)
  moreover have "OPod ` serving svc row \<subseteq> ran row" by (auto simp: serving_def ran_def)
  ultimately have "finite (OPod ` serving svc row)" by (rule rev_finite_subset)
  then show ?thesis by (rule finite_imageD) (simp add: inj_on_def)
qed

text \<open>What a proxy that has read these endpoints offers\<close>

lemma offered_serving:
  assumes "fmlookup (px_endpoints p) n = Some ep" and "lists_serving svc pods ep" and "finite (serving svc pods)"
    and "ssp_Ports (svc_Spec svc) \<noteq> []"
  shows "set (offered p n) = (\<lambda>pod. pst_PodIP (pod_Status pod) @ '':'' @
      print_int (sint (epp_Port (endpoint_port (hd (ssp_Ports (svc_Spec svc))))))) ` serving svc pods"
proof (cases "serving svc pods = {}")
  case True
  with assms(1,2) show ?thesis by (simp add: offered_def lists_serving_def)
next
  case False
  let ?ports = "map endpoint_port (ssp_Ports (svc_Spec svc))"
  obtain addrs where ep: "ep_Subsets ep = Some [\<lparr>es_Addresses = Some addrs, es_Ports = slice_of ?ports\<rparr>]"
    and addrs: "mset addrs = image_mset endpoint_address (mset_set (serving svc pods))"
    using assms(2) False by (auto simp: lists_serving_def)
  have "set addrs = endpoint_address ` serving svc pods"
    using arg_cong [OF addrs, of set_mset] assms(3) by simp
  moreover have "offered p n = map (\<lambda>a. ea_IP a @ '':'' @ print_int (sint (epp_Port (?ports ! 0)))) addrs"
    using assms(1,4) by (simp add: offered_def ep backends_def)
  moreover have "?ports ! 0 = endpoint_port (hd (ssp_Ports (svc_Spec svc)))"
    using assms(4) by (simp add: hd_conv_nth)
  ultimately show ?thesis by (simp add: image_image endpoint_address_def)
qed


lemma slice_exposes: "exposes svc port \<Longrightarrow> ssp_Ports (svc_Spec svc) \<noteq> []"
  by (auto simp: exposes_def)

text \<open>C2: The service path end to end: once the service controller and then a proxy have synchronized, a
  connection to a service with a node port is forwarded to the address of one of the running pods
  the service selects, at the target port of the service's first port; it is closed exactly when
  there is no such pod.\<close>

theorem traffic_reaches_running_pods:
  assumes "network (cluster_client base) cluster_good cluster_table w_env Listen Close refused bound"
    and "dice (cluster_client base) cluster_good cluster_table w_env Intn"
    and "cluster_good w" and "tidy (cluster_table w ''services'')" and "named (cluster_table w ''pods'')"
    and "named (cluster_table w ''endpoints'')" and "sorts_addresses srt" and "px_ok p (bound (w_env w))"
    and "\<And>ks. set (fst iter ks) = set ks \<and> distinct (fst iter ks)" and "\<And>ks. set (snd iter ks) = set ks \<and> distinct (snd iter ks)"
    and "cluster_table w ''services'' n = Some (OService svc)" and "ssp_Selector (svc_Spec svc) \<noteq> fmempty" and "exposes svc port"
  shows "\<exists>w1 p' w2 b w3. syncServices (cluster_client base) srt w = (Ret None, w1) \<and>
    px_sync (cluster_client base) Listen Close iter p w1 = (Ret (p', None), w2) \<and>
    pick_backend Intn p' n w2 = (Ret b, w3) \<and>
    (if serving svc (cluster_table w ''pods'') = {} then b = None
     else \<exists>pod \<in> serving svc (cluster_table w ''pods''). b = Some (pst_PodIP (pod_Status pod) @ '':'' @
       print_int (sint (epp_Port (endpoint_port (hd (ssp_Ports (svc_Spec svc))))))))"
proof -
  let ?C = "cluster_client base" and ?t = "cluster_table w"
  have "world_at cluster_good cluster_table w_env ?t (w_env w) w" using assms(3) by (simp add: world_at_def)
  from tripleD [OF cluster.syncServices_effect [of ?t, OF assms(4-7)] this, of base]
  obtain w1 svcs row where sync: "syncServices ?C srt w = (Ret None, w1)"
    and en: "enumerates (map OService svcs) (?t ''services'')" and round: "svc_round svcs ?t row"
    and w1: "world_at cluster_good cluster_table w_env (?t(''endpoints'' := row)) (w_env w) w1"
    by auto
  have tab1: "cluster_table w1 = ?t(''endpoints'' := row)" and good1: "cluster_good w1" and env1: "w_env w1 = w_env w"
    using w1 by (simp_all add: world_at_def)
  have services1: "cluster_table w1 ''services'' = ?t ''services''" by (simp add: tab1)
  obtain ep where ep: "row n = Some (OEndpoints ep)" "lists_serving svc (?t ''pods'') ep"
    using svc_round_follows(1) [OF en assms(4) round assms(11,12)] by blast
  have pre: "tidy (cluster_table w1 ''services'')" "px_ok p (bound (w_env w1))"
    using assms(4,8) by (simp_all only: services1 env1)
  obtain p' w2 where px: "px_sync ?C Listen Close iter p w1 = (Ret (p', None), w2)" and good2: "cluster_good w2"
    and synced: "proxy_synced refused (cluster_table w1 ''services'') (cluster_table w1 ''endpoints'') (bound (w_env w1)) p p'"
    using network.px_sync_runs [of ?C cluster_good cluster_table w_env Listen Close refused bound w1 p iter,
        OF assms(1) good1 pre assms(9,10)] by (elim exE conjE)
  have "n \<in> exposing (cluster_table w1 ''services'') port" using assms(11,13) by (auto simp: exposing_def services1)
  then have "fmlookup (px_endpoints p') n = read_endpoints (cluster_table w1 ''endpoints'') n (fmlookup (px_endpoints p) n)"
    using synced unfolding proxy_synced_def by (metis (no_types, lifting))
  also have "\<dots> = Some ep" by (simp add: read_endpoints_def tab1 ep(1))
  finally have offered: "set (offered p' n) = (\<lambda>pod. pst_PodIP (pod_Status pod) @ '':'' @
      print_int (sint (epp_Port (endpoint_port (hd (ssp_Ports (svc_Spec svc))))))) ` serving svc (?t ''pods'')"
    using ep(2) serving_finite [OF cluster_pods_finite [OF assms(3)]] slice_exposes [OF assms(13)] by (rule offered_serving)
  have "world_at cluster_good cluster_table w_env (cluster_table w2) (w_env w2) w2" using good2 by (simp add: world_at_def)
  from tripleE [OF dice.pick_backend_effect [OF assms(2), of _ _ p' n] this]
  obtain b w3 where pick: "pick_backend Intn p' n w2 = (Ret b, w3)"
    and b: "if offered p' n = [] then b = None else \<exists>a \<in> set (offered p' n). b = Some a"
    by blast
  have "if serving svc (?t ''pods'') = {} then b = None
     else \<exists>pod \<in> serving svc (?t ''pods''). b = Some (pst_PodIP (pod_Status pod) @ '':'' @
       print_int (sint (epp_Port (endpoint_port (hd (ssp_Ports (svc_Spec svc)))))))"
  proof (cases "serving svc (?t ''pods'') = {}")
    case True
    then have "offered p' n = []" using offered by simp
    with True b show ?thesis by simp
  next
    case False
    then have "set (offered p' n) \<noteq> {}" unfolding offered by simp
    then have "offered p' n \<noteq> []" unfolding set_empty .
    with b obtain a where "a \<in> set (offered p' n)" "b = Some a" by (simp only: if_False) blast
    then show ?thesis unfolding offered if_not_P [OF False] by blast
  qed
  with sync px pick show ?thesis by blast
qed


text \<open>A service with a node port and a running pod that it selects\<close>

definition demo_web :: Service where
  "demo_web = demo_svc\<lparr>svc_Spec := (svc_Spec demo_svc)\<lparr>ssp_Ports := [ServicePort_zero\<lparr>sp_Port := 80, sp_NodePort := 30080\<rparr>]\<rparr>\<rparr>"

definition demo_path :: "obj list" where
  "demo_path = [OService demo_web, OPod (demo_running ''a'' ''10.0.0.2'')]"

lemma demo_web_simps [simp]:
  "om_Name (svc_ObjectMeta demo_web) = ''front''" "ssp_Selector (svc_Spec demo_web) = ssp_Selector (svc_Spec demo_svc)"
  "serves demo_web = serves demo_svc" "exposes demo_web port \<longleftrightarrow> port = 30080"
  "hd (ssp_Ports (svc_Spec demo_web)) = ServicePort_zero\<lparr>sp_Port := 80, sp_NodePort := 30080\<rparr>"
  by (auto simp: demo_web_def exposes_def serves_def fun_eq_iff)

lemma demo_web_settled: "settled_obj (OService demo_web)"
  using settled_ok(5) [OF demo_svc_settled]
  by (simp add: demo_web_def settled_iff marshal_def codec_oks ServicePort_zero_def IntOrString_zero_def IntOrString_codec_def)

lemma demo_path_ok: "demo_objects demo_path"
  using demo_web_settled demo_running_settled by (simp add: demo_objects_def demo_path_def obj_name_def)

lemma demo_path_table:
  "cluster_table (cluster_with demo_path e) r =
    (if r = ''services'' then [''front'' \<mapsto> OService demo_web]
     else if r = ''pods'' then [''a'' \<mapsto> OPod (demo_running ''a'' ''10.0.0.2'')] else Map.empty)"
  by (rule ext) (simp add: demo_table_objs [OF demo_path_ok], simp add: demo_path_def obj_name_def)

lemma demo_path_serving: "serving demo_web (cluster_table (cluster_with demo_path e) ''pods'') = {demo_running ''a'' ''10.0.0.2''}"
proof -
  have "serves demo_web (demo_running ''a'' ''10.0.0.2'')" using demo_serves by simp
  moreover have "{p. \<exists>n. [''a'' \<mapsto> OPod x] n = Some (OPod p)} = {x}" for x by (auto split: if_splits)
  ultimately show ?thesis unfolding serving_def demo_path_table by auto
qed

theorem traffic_reaches_running_pods_witness:
  "\<exists>w1 p' w2 w3. syncServices (cluster_client ''http://api'') (sort_key ea_IP) (cluster_with demo_path demo_net) = (Ret None, w1) \<and>
    px_sync (cluster_client ''http://api'') net_Listen net_Close (remdups, remdups) demo_proxier w1 = (Ret (p', None), w2) \<and>
    pick_backend net_Intn p' ''front'' w2 = (Ret (Some (''10.0.0.2:'' @ print_int 80)), w3)"
proof -
  let ?w = "cluster_with demo_path demo_net" and ?pod = "demo_running ''a'' ''10.0.0.2''"
  let ?port = "epp_Port (endpoint_port (hd (ssp_Ports (svc_Spec demo_web))))"
  have tidy: "tidy (cluster_table ?w ''services'')" "named (cluster_table ?w ''pods'')" "named (cluster_table ?w ''endpoints'')"
    by (auto simp: demo_path_table tidy_def named_def obj_name_def plain_name_def name_char_def)
  have ok: "px_ok demo_proxier (nn_bound (w_env ?w))" using demo_proxier_ok by simp
  have iter: "set (fst (remdups, remdups) ks) = set ks \<and> distinct (fst (remdups, remdups) ks)"
    "set (snd (remdups, remdups) ks) = set ks \<and> distinct (snd (remdups, remdups) ks)" for ks :: "int32 list"
    by simp_all
  have svc: "cluster_table ?w ''services'' ''front'' = Some (OService demo_web)" "ssp_Selector (svc_Spec demo_web) \<noteq> fmempty"
    "exposes demo_web 30080"
    by (simp_all add: demo_path_table)
  have port: "sint ?port = 80" by (simp add: endpoint_port_def ServicePort_zero_def IntOrString_zero_def)
  have ip: "pst_PodIP (pod_Status ?pod) = ''10.0.0.2''" by (simp add: demo_running_def)
  obtain w1 p' w2 b w3 where sync: "syncServices (cluster_client ''http://api'') (sort_key ea_IP) ?w = (Ret None, w1)"
    "px_sync (cluster_client ''http://api'') net_Listen net_Close (remdups, remdups) demo_proxier w1 = (Ret (p', None), w2)"
    "pick_backend net_Intn p' ''front'' w2 = (Ret b, w3)"
    and b: "if serving demo_web (cluster_table ?w ''pods'') = {} then b = None
      else \<exists>pod \<in> serving demo_web (cluster_table ?w ''pods''). b = Some (pst_PodIP (pod_Status pod) @ '':'' @ print_int (sint ?port))"
    using traffic_reaches_running_pods [of "''http://api''" net_Listen net_Close "Collect bad_address" nn_bound net_Intn ?w
        "sort_key ea_IP" demo_proxier "(remdups, remdups)" "''front''" demo_web 30080,
        OF net_cluster.network_axioms net_dice.dice_axioms demo_good [OF demo_path_ok] tidy sort_addresses ok iter svc]
    by (elim exE conjE)
  have "b = Some (''10.0.0.2:'' @ print_int 80)" using b by (simp only: demo_path_serving port) (simp add: ip)
  with sync show ?thesis by blast
qed


section \<open>Three label matchers\<close>

lemma label_lookup: "label m k = v \<Longrightarrow> v \<noteq> [] \<Longrightarrow> fmlookup m k = Some v"
  by (auto simp: label_def split: option.splits)

lemma key_value: "k \<in> fmdom' m \<Longrightarrow> fmlookup m k = Some (label m k)"
  by (auto simp: label_def fmlookup_dom'_iff)

text \<open>C29: The controllers each match labels with code of their own. Deployment and service controller agree
  on all labels; the replica set controller agrees with them when the selector is not empty and asks
  for no empty value. For an empty selector the first two match everything and the third nothing; a
  label asked to be empty may be missing for the first two and has to be there for the third.\<close>

theorem label_matchers_agree:
  "dep_labelsMatch selector labels = isMatch labels selector \<and>
   (selector \<noteq> fmempty \<longrightarrow> [] \<notin> fmran' selector \<longrightarrow> rs_labelsMatch selector labels = dep_labelsMatch selector labels) \<and>
   dep_labelsMatch fmempty labels \<and> \<not> rs_labelsMatch fmempty labels \<and>
   (rs_labelsMatch selector labels \<longrightarrow> dep_labelsMatch selector labels)"
proof (intro conjI impI)
  show "dep_labelsMatch selector labels = isMatch labels selector" by (simp add: dep_labelsMatch_def isMatch_def)
  show "dep_labelsMatch fmempty labels" "\<not> rs_labelsMatch fmempty labels"
    by (simp_all add: dep_labelsMatch_def rs_labelsMatch_def list_all_iff)
  show weaker: "rs_labelsMatch selector labels \<Longrightarrow> dep_labelsMatch selector labels"
    by (auto simp: dep_labelsMatch_def rs_labelsMatch_def label_def list_all_iff split: if_splits)
  assume "selector \<noteq> fmempty" and full: "[] \<notin> fmran' selector"
  have "fmlookup labels k = fmlookup selector k" if "k \<in> fmdom' selector" "label labels k = label selector k" for k
  proof -
    have k: "fmlookup selector k = Some (label selector k)" using key_value [OF that(1)] .
    then have "label selector k \<noteq> []" using full by (metis fmran'I)
    then show ?thesis using label_lookup [OF that(2)] k by simp
  qed
  then have "dep_labelsMatch selector labels \<Longrightarrow> rs_labelsMatch selector labels"
    using \<open>selector \<noteq> fmempty\<close> by (auto simp: dep_labelsMatch_def rs_labelsMatch_def list_all_iff)
  with weaker show "rs_labelsMatch selector labels = dep_labelsMatch selector labels" by blast
qed

theorem label_matchers_agree_witness:
  "rs_labelsMatch (fmupd ''app'' ''web'' fmempty) (fmupd ''tier'' ''x'' (fmupd ''app'' ''web'' fmempty)) \<and>
   dep_labelsMatch (fmupd ''app'' ''web'' fmempty) (fmupd ''tier'' ''x'' (fmupd ''app'' ''web'' fmempty))"
proof -
  let ?s = "fmupd ''app'' ''web'' fmempty :: strmap" and ?l = "fmupd ''tier'' ''x'' (fmupd ''app'' ''web'' fmempty) :: strmap"
  have "?s \<noteq> fmempty" "[] \<notin> fmran' ?s" by (auto simp: fmran'_alt_def elim: fmranE split: if_splits)
  moreover have "dep_labelsMatch ?s ?l" by (simp add: dep_labelsMatch_def label_def list_all_iff)
  ultimately show ?thesis using label_matchers_agree [of ?s ?l] by blast
qed

end
